(* ===== verification/Relay_Prelude.thy ===== *)
theory Relay_Prelude
  imports Main "HOL-Library.Word" "HOL-Library.AList" "HOL-Library.Multiset"
    "HOL-Library.Char_ord" "HOL-Library.List_Lexorder" "HOL-Library.Signed_Division"
begin

text \<open>
  Shared vocabulary of the relay development: the machine integers of the Go sources, the
  clock values of package \<^verbatim>\<open>time\<close>, Go maps as association lists, the error-or-value sum,
  and the generic list, map and word facts the component theories use.
\<close>

named_theorems relay_inv \<open>preservation of component invariants, one fact per operation\<close>
named_theorems relay_defs \<open>definitions unfolded by the component proofs\<close>

section \<open>Machine integers\<close>

type_synonym u8 = "8 word"
type_synonym u16 = "16 word"
type_synonym u32 = "32 word"
type_synonym u64 = "64 word"

type_synonym bytes = "u8 list"

section \<open>Time\<close>

text \<open>
  A \<^verbatim>\<open>time.Time\<close> is its distance in nanoseconds from the Unix epoch; the zero time (the value
  \<^verbatim>\<open>IsZero\<close> recognises) is January 1 of year 1, UTC.  A \<^verbatim>\<open>time.Duration\<close> is a signed count of
  nanoseconds.  \<^verbatim>\<open>Time.Sub\<close> saturates at the ends of the 64-bit duration range.
\<close>

type_synonym time = int
type_synonym duration = int

definition zero_time :: time where
  "zero_time = - 62135596800000000000"

abbreviation microsecond :: duration where "microsecond \<equiv> 1000"
abbreviation millisecond :: duration where "millisecond \<equiv> 1000000"
abbreviation second :: duration where "second \<equiv> 1000000000"
abbreviation minute :: duration where "minute \<equiv> 60000000000"

definition max_int64 :: int where "max_int64 = 2 ^ 63 - 1"
definition min_int64 :: int where "min_int64 = - (2 ^ 63)"

definition time_Sub :: "time \<Rightarrow> time \<Rightarrow> duration" where
  "time_Sub a b = max min_int64 (min max_int64 (a - b))"

lemma time_Sub_exact:
  "\<lbrakk>min_int64 \<le> a - b; a - b \<le> max_int64\<rbrakk> \<Longrightarrow> time_Sub a b = a - b"
  by (simp add: time_Sub_def)

lemma time_Sub_less_iff:
  "\<lbrakk>min_int64 < d; d \<le> max_int64\<rbrakk> \<Longrightarrow> time_Sub a b < d \<longleftrightarrow> a - b < d"
  by (auto simp add: time_Sub_def min_int64_def max_int64_def)

lemma time_Sub_le_iff:
  "\<lbrakk>min_int64 \<le> d; d < max_int64\<rbrakk> \<Longrightarrow> time_Sub a b \<le> d \<longleftrightarrow> a - b \<le> d"
  by (auto simp add: time_Sub_def min_int64_def max_int64_def)

lemma time_Sub_bounds: "min_int64 \<le> time_Sub a b \<and> time_Sub a b \<le> max_int64"
  by (simp add: time_Sub_def min_int64_def max_int64_def)

text \<open>Arithmetic on \<^verbatim>\<open>int64\<close> and \<^verbatim>\<open>time.Duration\<close> wraps to the signed 64-bit range.\<close>

definition int64 :: "int \<Rightarrow> int" where
  "int64 x = signed_take_bit 63 x"

lemma int64_id: "\<lbrakk>min_int64 \<le> x; x \<le> max_int64\<rbrakk> \<Longrightarrow> int64 x = x"
  by (simp add: int64_def min_int64_def max_int64_def signed_take_bit_int_eq_self)

lemma int64_bounds: "min_int64 \<le> int64 x \<and> int64 x \<le> max_int64"
  using signed_take_bit_int_greater_eq_minus_exp [of 63 x] signed_take_bit_int_less_exp [of 63 x]
  by (simp add: int64_def min_int64_def max_int64_def)

section \<open>Go maps\<close>

text \<open>
  A Go map is an association list with distinct keys: \<^verbatim>\<open>m[k]\<close> is \<open>map_of m k\<close>, \<^verbatim>\<open>m[k] = v\<close> is
  \<open>AList.update k v m\<close>, \<^verbatim>\<open>delete(m, k)\<close> is \<open>AList.delete k m\<close> and \<^verbatim>\<open>len(m)\<close> is \<open>length m\<close>.
  The order of the list is one iteration order of the map; no claim depends on it.
\<close>

type_synonym ('k, 'v) gomap = "('k \<times> 'v) list"

abbreviation map_wf :: "('k, 'v) gomap \<Rightarrow> bool" where
  "map_wf m \<equiv> distinct (map fst m)"

declare map_of_eq_Some_iff [simp del] and Some_eq_map_of_iff [simp del]

definition has_key :: "'k \<Rightarrow> ('k, 'v) gomap \<Rightarrow> bool" where
  "has_key k m = (map_of m k \<noteq> None)"

lemma has_key_iff: "has_key k m \<longleftrightarrow> k \<in> fst ` set m"
  by (simp add: has_key_def map_of_eq_None_iff)

lemma map_of_update [simp]:
  "map_of (AList.update k v m) x = (if x = k then Some v else map_of m x)"
  by (simp add: update_conv')

lemma map_of_delete [simp]:
  "map_of (AList.delete k m) x = (if x = k then None else map_of m x)"
  by (simp add: delete_conv')

lemma map_wf_update [simp, intro]: "map_wf m \<Longrightarrow> map_wf (AList.update k v m)"
  by (rule distinct_update)

lemma map_wf_delete [simp, intro]: "map_wf m \<Longrightarrow> map_wf (AList.delete k m)"
  by (rule distinct_delete)

lemma map_wf_filter [simp, intro]: "map_wf m \<Longrightarrow> map_wf (filter P m)"
  by (rule distinct_map_filter)

lemma map_of_filter_wf:
  "map_wf m \<Longrightarrow> map_of (filter P m) k =
     (case map_of m k of None \<Rightarrow> None | Some v \<Rightarrow> if P (k, v) then Some v else None)"
proof (induction m)
  case Nil
  then show ?case by simp
next
  case (Cons kv m)
  have "map_of m (fst kv) = None"
    using Cons.prems by (simp add: map_of_eq_None_iff)
  then show ?case
    using Cons by (cases kv) (auto split: option.splits)
qed

lemma length_update:
  "length (AList.update k v m) = (if map_of m k = None then Suc (length m) else length m)"
  by (induction m) auto

lemma update_replaces_in_place:
  "map_of m k \<noteq> None \<Longrightarrow> map fst (AList.update k v m) = map fst m"
  by (induction m) auto

lemma length_delete_le [simp]: "length (AList.delete k m) \<le> length m"
  by (induction m) auto

lemma length_delete:
  "map_wf m \<Longrightarrow>
     length (AList.delete k m) = (if map_of m k = None then length m else length m - 1)"
proof (induction m)
  case Nil
  then show ?case by simp
next
  case (Cons kv m)
  then show ?case
  proof (cases "fst kv = k")
    case True
    then have "map_of m k = None"
      using Cons.prems by (auto simp: map_of_eq_None_iff)
    then have "AList.delete k m = m"
      by (simp add: delete_id map_of_eq_None_iff)
    then show ?thesis using True by (cases kv) simp
  next
    case False
    have "map_of m k \<noteq> None \<Longrightarrow> length m > 0" by (cases m) auto
    then show ?thesis using False Cons by (cases kv) auto
  qed
qed

lemma update_not_Nil [simp]: "AList.update k v m \<noteq> []"
  by (cases m) auto

lemma set_update_subset: "set (AList.update k v m) \<subseteq> insert (k, v) (set m)"
  by (induction m) auto

lemma set_delete_subset: "set (AList.delete k m) \<subseteq> set m"
  by (induction m) auto

lemma ball_update:
  "\<lbrakk>\<forall>(x, y) \<in> set m. P x y; P k v\<rbrakk> \<Longrightarrow> \<forall>(x, y) \<in> set (AList.update k v m). P x y"
  using set_update_subset [of k v m] by fastforce

lemma ball_delete:
  "\<forall>(x, y) \<in> set m. P x y \<Longrightarrow> \<forall>(x, y) \<in> set (AList.delete k m). P x y"
  using set_delete_subset [of k m] by fastforce

section \<open>Lists\<close>

lemma take_append_exact [simp]: "length xs = n \<Longrightarrow> take n (xs @ ys) = xs"
  by simp

lemma drop_append_exact [simp]: "length xs = n \<Longrightarrow> drop n (xs @ ys) = ys"
  by simp

lemma nth_list_update_in: "j < length xs \<Longrightarrow> xs[i := x] ! j = (if i = j then x else xs ! j)"
  by (cases "i = j") simp_all

section \<open>Words\<close>

lemma unat_add_no_wrap:
  fixes a b :: "'a::len word"
  shows "unat a + unat b < 2 ^ LENGTH('a) \<Longrightarrow> unat (a + b) = unat a + unat b"
  by (simp add: unat_word_ariths)

lemma unat_Suc_no_wrap:
  fixes a :: "'a::len word"
  shows "Suc (unat a) < 2 ^ LENGTH('a) \<Longrightarrow> unat (a + 1) = Suc (unat a)"
  by (simp add: unat_word_ariths)

lemma unat_of_nat_small:
  "n < 2 ^ LENGTH('a) \<Longrightarrow> unat (word_of_nat n :: 'a::len word) = n"
  by (simp add: unsigned_of_nat take_bit_nat_eq_self_iff)

lemma bit_index_bound:
  fixes w :: "'a::len word"
  assumes "unat w < 2 ^ n" and "bit w i"
  shows "i < n"
proof -
  have "bit (unat w) i"
    using assms(2) bit_imp_le_length [OF assms(2)] by (simp add: bit_unsigned_iff)
  moreover have "take_bit n (unat w) = unat w"
    using assms(1) by (simp add: take_bit_nat_eq_self_iff)
  ultimately show ?thesis by (metis bit_take_bit_iff)
qed

lemma sint_small:
  fixes w :: "'a::len word"
  assumes "unat w < 2 ^ (LENGTH('a) - 1)"
  shows "sint w = int (unat w)"
proof -
  have "int (unat w) < 2 ^ (LENGTH('a) - 1)"
    using assms by (metis of_nat_less_iff of_nat_numeral of_nat_power)
  moreover have "- (2 ^ (LENGTH('a) - 1)) \<le> int (unat w)"
    by (rule order_trans [of _ 0]) simp_all
  ultimately show ?thesis
    unfolding sint_uint using signed_take_bit_int_eq_self [of "LENGTH('a) - 1" "uint w"] by simp
qed

end
