(* ===== verification/Identifiers.thy ===== *)
theory Identifiers
  imports Relay_Prelude
begin

text \<open>
  The identifier alphabet of the relay.  Three packages carry their own copy of the same check:
  \<^verbatim>\<open>access/state.go\<close>, \<^verbatim>\<open>access/token/token.go\<close> and \<^verbatim>\<open>internal/server/publish_buses.go\<close>.  A string is
  its list of bytes; a byte of a multi-byte rune is never in the alphabet, so checking runes and
  checking bytes agree.
\<close>

definition identifier_char :: "char \<Rightarrow> bool" where
  "identifier_char c \<longleftrightarrow>
     (CHR ''a'' \<le> c \<and> c \<le> CHR ''z'') \<or> (CHR ''A'' \<le> c \<and> c \<le> CHR ''Z'') \<or>
     (CHR ''0'' \<le> c \<and> c \<le> CHR ''9'') \<or> c = CHR ''.'' \<or> c = CHR ''_'' \<or> c = CHR ''-''"

fun identifier_chars :: "string \<Rightarrow> bool" where
  "identifier_chars [] = True"
| "identifier_chars (c # cs) = (if identifier_char c then identifier_chars cs else False)"

definition validIdentifier :: "string \<Rightarrow> nat \<Rightarrow> bool" where
  "validIdentifier value maximum =
     (if length value = 0 \<or> length value > maximum then False else identifier_chars value)"

definition validPublishIdentifier :: "string \<Rightarrow> bool" where
  "validPublishIdentifier value =
     (if length value = 0 \<or> length value > 64 then False else identifier_chars value)"

fun invalidIdentifiers_from :: "string set \<Rightarrow> string list \<Rightarrow> nat \<Rightarrow> bool" where
  "invalidIdentifiers_from seen [] maximum = False"
| "invalidIdentifiers_from seen (value # values) maximum =
     (if \<not> validIdentifier value maximum then True
      else if value \<in> seen then True
      else invalidIdentifiers_from (insert value seen) values maximum)"

definition invalidIdentifiers :: "string list \<Rightarrow> nat \<Rightarrow> bool" where
  "invalidIdentifiers values maximum = invalidIdentifiers_from {} values maximum"

section \<open>What the checks accept\<close>

lemma identifier_chars_iff: "identifier_chars s \<longleftrightarrow> (\<forall>c \<in> set s. identifier_char c)"
  by (induction s) auto

lemma validIdentifier_iff:
  "validIdentifier s n \<longleftrightarrow> s \<noteq> [] \<and> length s \<le> n \<and> (\<forall>c \<in> set s. identifier_char c)"
  by (auto simp: validIdentifier_def identifier_chars_iff)

lemma validPublishIdentifier_eq: "validPublishIdentifier s = validIdentifier s 64"
  by (simp add: validPublishIdentifier_def validIdentifier_def)

lemma validIdentifier_nonempty [dest]: "validIdentifier s n \<Longrightarrow> s \<noteq> []"
  by (simp add: validIdentifier_iff)

lemma validIdentifier_mono: "\<lbrakk>validIdentifier s n; n \<le> m\<rbrakk> \<Longrightarrow> validIdentifier s m"
  by (auto simp: validIdentifier_iff)

lemma invalidIdentifiers_from_iff:
  "\<not> invalidIdentifiers_from seen vs n \<longleftrightarrow>
     (\<forall>v \<in> set vs. validIdentifier v n) \<and> distinct vs \<and> set vs \<inter> seen = {}"
  by (induction vs arbitrary: seen) auto

lemma invalidIdentifiers_iff:
  "\<not> invalidIdentifiers vs n \<longleftrightarrow> (\<forall>v \<in> set vs. validIdentifier v n) \<and> distinct vs"
  by (simp add: invalidIdentifiers_def invalidIdentifiers_from_iff)

end
