(* ===== verification/Red.thy ===== *)
theory Red
  imports Relay_Prelude
begin

text \<open>
  The RED payload format of RFC 2198 (\<^verbatim>\<open>internal/media/red/red.go\<close>): \<^verbatim>\<open>Encode\<close> packs redundant
  blocks ahead of a primary payload, \<^verbatim>\<open>Parse\<close> unpacks them.  The theory shows that the two are
  inverse to each other on everything either accepts.
\<close>

unbundle bit_operations_syntax

record red_block =
  PayloadType :: u8
  TimestampOffsetSamples :: u32
  Payload :: bytes

record red_parsed =
  Redundant :: "red_block list"
  PrimaryType :: u8
  PrimaryPayload :: bytes

datatype red_error = ErrEmptyPrimary | ErrBlockPayload nat nat | ErrBlockOffset nat u32 | ErrMalformed

definition maxBlockLength :: nat where "maxBlockLength = 1023"
definition maxTimestampOffset :: u32 where "maxTimestampOffset = 16383"

text \<open>The first loop of \<^verbatim>\<open>Encode\<close>: the first block that does not fit its header is the error.\<close>

fun checkBlocks :: "nat \<Rightarrow> red_block list \<Rightarrow> red_error option" where
  "checkBlocks i [] = None"
| "checkBlocks i (b # bs) =
     (if length (Payload b) > maxBlockLength then Some (ErrBlockPayload i (length (Payload b)))
      else if TimestampOffsetSamples b > maxTimestampOffset
        then Some (ErrBlockOffset i (TimestampOffsetSamples b))
      else checkBlocks (Suc i) bs)"

definition encodeHeader :: "red_block \<Rightarrow> bytes" where
  "encodeHeader b =
     (let v = push_bit 10 (TimestampOffsetSamples b) OR word_of_nat (length (Payload b))
      in [0x80 OR (PayloadType b AND 0x7f), ucast (drop_bit 16 v), ucast (drop_bit 8 v), ucast v])"

definition red_Encode :: "u8 \<Rightarrow> bytes \<Rightarrow> red_block list \<Rightarrow> red_error + bytes" where
  "red_Encode primaryPayloadType primary redundant =
     (if length primary = 0 then Inl ErrEmptyPrimary
      else case checkBlocks 0 redundant of
        Some err \<Rightarrow> Inl err
      | None \<Rightarrow> Inr (concat (map encodeHeader redundant) @ [primaryPayloadType AND 0x7f] @
                    concat (map Payload redundant) @ primary))"

text \<open>
  \<^verbatim>\<open>Parse\<close> walks an index \<^verbatim>\<open>pos\<close> over the payload; the model walks the suffix that starts at \<^verbatim>\<open>pos\<close>,
  which is empty exactly when \<^verbatim>\<open>pos >= len(payload)\<close>.
\<close>

record red_hdr =
  hdr_pt :: u8
  hdr_tsOff :: u32
  hdr_length :: nat

definition decodeHeader :: "u8 \<Rightarrow> u8 \<Rightarrow> u8 \<Rightarrow> u8 \<Rightarrow> red_hdr" where
  "decodeHeader first b1 b2 b3 =
     (let v = push_bit 16 (ucast b1 :: u32) OR push_bit 8 (ucast b2) OR ucast b3
      in \<lparr>hdr_pt = first AND 0x7f, hdr_tsOff = drop_bit 10 v, hdr_length = unat (v AND 1023)\<rparr>)"

fun parseHeaders :: "bytes \<Rightarrow> red_error + red_hdr list \<times> u8 \<times> bytes" where
  "parseHeaders [] = Inl ErrMalformed"
| "parseHeaders (first # rest) =
     (if first AND 0x80 = 0 then Inr ([], first AND 0x7f, rest)
      else case rest of
        b1 # b2 # b3 # rest' \<Rightarrow>
          (case parseHeaders rest' of
             Inl err \<Rightarrow> Inl err
           | Inr (hs, primaryType, body) \<Rightarrow> Inr (decodeHeader first b1 b2 b3 # hs, primaryType, body))
      | _ \<Rightarrow> Inl ErrMalformed)"

fun parseBlocks :: "red_hdr list \<Rightarrow> bytes \<Rightarrow> red_error + red_block list \<times> bytes" where
  "parseBlocks [] body = Inr ([], body)"
| "parseBlocks (h # hs) body =
     (if hdr_length h > length body then Inl ErrMalformed
      else case parseBlocks hs (drop (hdr_length h) body) of
        Inl err \<Rightarrow> Inl err
      | Inr (bs, rest) \<Rightarrow>
          Inr (\<lparr>PayloadType = hdr_pt h, TimestampOffsetSamples = hdr_tsOff h,
                Payload = take (hdr_length h) body\<rparr> # bs, rest))"

definition red_Parse :: "bytes \<Rightarrow> red_error + red_parsed" where
  "red_Parse payload =
     (case parseHeaders payload of
        Inl err \<Rightarrow> Inl err
      | Inr (hs, primaryType, body) \<Rightarrow>
          (case parseBlocks hs body of
             Inl err \<Rightarrow> Inl err
           | Inr (blocks, rest) \<Rightarrow>
               if length rest = 0 then Inl ErrMalformed
               else Inr \<lparr>Redundant = blocks, PrimaryType = primaryType, PrimaryPayload = rest\<rparr>))"

section \<open>Header packing\<close>

definition block_fits :: "red_block \<Rightarrow> bool" where
  "block_fits b \<longleftrightarrow> length (Payload b) \<le> maxBlockLength \<and> TimestampOffsetSamples b \<le> maxTimestampOffset"

definition mask_block :: "red_block \<Rightarrow> red_block" where
  "mask_block b = b\<lparr>PayloadType := PayloadType b AND 0x7f\<rparr>"

definition block_hdr :: "red_block \<Rightarrow> red_hdr" where
  "block_hdr b = \<lparr>hdr_pt = PayloadType b AND 0x7f, hdr_tsOff = TimestampOffsetSamples b,
                  hdr_length = length (Payload b)\<rparr>"

lemma checkBlocks_None_iff: "checkBlocks i bs = None \<longleftrightarrow> (\<forall>b \<in> set bs. block_fits b)"
  by (induction i bs rule: checkBlocks.induct) (auto simp: block_fits_def)

lemma header_word:
  fixes off :: u32 and len :: nat
  assumes "off \<le> 16383" and "len \<le> 1023"
  defines "v \<equiv> push_bit 10 off OR word_of_nat len :: u32"
  shows "drop_bit 10 v = off" and "unat (v AND 1023) = len"
    and "push_bit 16 (ucast (ucast (drop_bit 16 v) :: u8) :: u32) OR
         push_bit 8 (ucast (ucast (drop_bit 8 v) :: u8)) OR ucast (ucast v :: u8) = v"
proof -
  have off: "bit off i \<Longrightarrow> i < 14" for i
    using bit_index_bound [of off 14 i] assms(1) by (simp add: word_le_nat_alt)
  define lw where "lw = (word_of_nat len :: u32)"
  have lenw: "unat lw = len"
    using assms(2) by (simp add: unat_of_nat_small lw_def)
  have len: "bit lw i \<Longrightarrow> i < 10" for i
    using bit_index_bound [of lw 10 i] lenw assms(2) by simp
  note v_def = v_def [folded lw_def]
  show "drop_bit 10 v = off"
    unfolding v_def by (rule bit_word_eqI) (auto simp: bit_simps dest: len off)
  have "v AND mask 10 = lw"
    unfolding v_def by (rule bit_word_eqI) (auto simp: bit_simps dest: len off)
  then show "unat (v AND 1023) = len"
    using lenw by (simp add: mask_eq_exp_minus_1)
  have v: "bit v i \<Longrightarrow> i < 24" for i
    unfolding v_def by (auto simp: bit_simps dest: len off)
  show "push_bit 16 (ucast (ucast (drop_bit 16 v) :: u8) :: u32) OR
         push_bit 8 (ucast (ucast (drop_bit 8 v) :: u8)) OR ucast (ucast v :: u8) = v"
  proof (rule bit_word_eqI)
    fix n :: nat
    assume "n < LENGTH(32)"
    consider "n < 8" | "8 \<le> n" "n < 16" | "16 \<le> n" "n < 24" | "24 \<le> n" by linarith
    then show "bit (push_bit 16 (ucast (ucast (drop_bit 16 v) :: u8) :: u32) OR
         push_bit 8 (ucast (ucast (drop_bit 8 v) :: u8)) OR ucast (ucast v :: u8)) n = bit v n"
      by cases (use \<open>n < LENGTH(32)\<close> v [of n] in \<open>auto simp: bit_simps\<close>)
  qed
qed

lemma decode_encodeHeader:
  assumes "block_fits b"
  obtains h b1 b2 b3 where "encodeHeader b = [h, b1, b2, b3]" and "h AND 0x80 \<noteq> 0"
    and "decodeHeader h b1 b2 b3 = block_hdr b"
proof -
  define v where "v = push_bit 10 (TimestampOffsetSamples b) OR word_of_nat (length (Payload b))"
  note hw = header_word [of "TimestampOffsetSamples b" "length (Payload b)", folded v_def]
  have fits: "TimestampOffsetSamples b \<le> 16383" "length (Payload b) \<le> 1023"
    using assms by (simp_all add: block_fits_def maxBlockLength_def maxTimestampOffset_def)
  let ?h = "0x80 OR (PayloadType b AND 0x7f)"
  have "bit (?h AND 0x80) 7"
    by (simp add: bit_simps)
  then have nz: "?h AND 0x80 \<noteq> 0"
    by (metis bit_0_eq bot_apply bot_bool_def)
  have "?h AND 0x7f = PayloadType b AND 0x7f"
    by (simp add: bit.conj_disj_distrib2 and.assoc)
  then have "decodeHeader ?h (ucast (drop_bit 16 v)) (ucast (drop_bit 8 v)) (ucast v) = block_hdr b"
    unfolding decodeHeader_def Let_def hw(3) [OF fits] by (simp add: hw [OF fits] block_hdr_def)
  moreover have "encodeHeader b = [?h, ucast (drop_bit 16 v), ucast (drop_bit 8 v), ucast v]"
    by (simp add: encodeHeader_def v_def)
  ultimately show thesis using nz that by blast
qed

lemma parseHeaders_encode:
  "\<forall>b \<in> set bs. block_fits b \<Longrightarrow>
     parseHeaders (concat (map encodeHeader bs) @ (pt AND 0x7f) # body) =
       Inr (map block_hdr bs, pt AND 0x7f, body)"
proof (induction bs)
  case Nil
  have "pt AND 0x7f AND 0x80 = 0"
    by (simp add: and.assoc)
  then show ?case by (simp add: and.assoc)
next
  case (Cons b bs)
  from Cons.prems have "block_fits b" by simp
  then obtain h b1 b2 b3 where "encodeHeader b = [h, b1, b2, b3]" "h AND 0x80 \<noteq> 0"
    "decodeHeader h b1 b2 b3 = block_hdr b"
    by (rule decode_encodeHeader)
  then show ?case using Cons by simp
qed

lemma parseBlocks_encode:
  "parseBlocks (map block_hdr bs) (concat (map Payload bs) @ rest) = Inr (map mask_block bs, rest)"
  by (induction bs) (auto simp: block_hdr_def mask_block_def)

section \<open>Header unpacking\<close>

definition hdr_of :: "red_hdr \<Rightarrow> red_block \<Rightarrow> bool" where
  "hdr_of h b \<longleftrightarrow> PayloadType b = hdr_pt h \<and> TimestampOffsetSamples b = hdr_tsOff h \<and>
     length (Payload b) = hdr_length h"

text \<open>The bits of word literals are computed on their integer value.\<close>

lemma bit_0x80: "bit (0x80 :: int) n \<longleftrightarrow> n = 7"
proof -
  have "(0x80 :: int) = push_bit 7 1" by (simp add: push_bit_eq_mult)
  then show ?thesis by (simp only: bit_push_bit_iff) (auto simp: bit_1_iff)
qed

lemma bit_0x7f: "bit (0x7f :: int) n \<longleftrightarrow> n < 7"
proof -
  have "(0x7f :: int) = mask 7" by (simp add: mask_eq_exp_minus_1)
  then show ?thesis by (simp only: bit_mask_iff) auto
qed

lemma flag_bit: "h AND 0x80 = 0 \<longleftrightarrow> \<not> bit h 7" for h :: u8
proof
  assume "h AND 0x80 = 0"
  then have "\<not> bit (h AND 0x80) 7" by simp
  then show "\<not> bit h 7" by (simp add: bit_and_iff bit_0x80)
next
  assume "\<not> bit h 7"
  then show "h AND 0x80 = 0"
    by (intro bit_word_eqI) (auto simp: bit_and_iff bit_0x80)
qed

lemma byte_flag_restore:
  fixes h :: u8
  shows "h AND 0x80 \<noteq> 0 \<Longrightarrow> 0x80 OR (h AND 0x7f AND 0x7f) = h"
    and "h AND 0x80 = 0 \<Longrightarrow> h AND 0x7f = h"
proof -
  have n: "n < 8 \<Longrightarrow> n < 7 \<or> n = 7" for n :: nat by linarith
  show "0x80 OR (h AND 0x7f AND 0x7f) = h" if "h AND 0x80 \<noteq> 0"
    using that unfolding flag_bit
    by (intro bit_word_eqI) (auto dest: n simp: bit_and_iff bit_or_iff bit_0x80 bit_0x7f)
  show "h AND 0x7f = h" if "h AND 0x80 = 0"
    using that unfolding flag_bit
    by (intro bit_word_eqI) (auto dest: n simp: bit_and_iff bit_or_iff bit_0x80 bit_0x7f)
qed

lemma three_bytes:
  fixes b1 b2 b3 :: u8
  defines "v \<equiv> push_bit 16 (ucast b1 :: u32) OR push_bit 8 (ucast b2) OR ucast b3"
  shows "ucast (drop_bit 16 v) = b1" and "ucast (drop_bit 8 v) = b2" and "ucast v = b3"
    and "push_bit 10 (drop_bit 10 v) OR word_of_nat (unat (v AND 1023)) = v"
    and "drop_bit 10 v \<le> 16383" and "unat (v AND 1023) \<le> 1023"
proof -
  have b: "bit (w :: u8) i \<Longrightarrow> i < 8" for w i
    using bit_imp_le_length by fastforce
  show "ucast (drop_bit 16 v) = b1" "ucast (drop_bit 8 v) = b2" "ucast v = b3"
    unfolding v_def by (rule bit_word_eqI; auto simp: bit_simps dest: b)+
  have v: "bit v i \<Longrightarrow> i < 24" for i
    unfolding v_def by (auto simp: bit_simps dest: b)
  have m: "(1023 :: u32) = mask 10" by (simp add: mask_eq_exp_minus_1)
  show "push_bit 10 (drop_bit 10 v) OR word_of_nat (unat (v AND 1023)) = v"
    unfolding m by (simp, rule bit_word_eqI) (auto simp: bit_simps)
  have "drop_bit 10 v = take_bit 14 (drop_bit 10 v)"
    by (rule bit_word_eqI) (auto simp: bit_simps dest: v)
  then have "unat (drop_bit 10 v) < 2 ^ 14"
    by (metis take_bit_nat_less_exp unsigned_take_bit_eq)
  then show "drop_bit 10 v \<le> 16383" by (simp add: word_le_nat_alt)
  show "unat (v AND 1023) \<le> 1023"
    using word_and_le1 [of v 1023] by (simp add: word_le_nat_alt)
qed

lemma encode_decodeHeader:
  assumes "h AND 0x80 \<noteq> 0" and "hdr_of (decodeHeader h b1 b2 b3) b"
  shows "encodeHeader b = [h, b1, b2, b3]" and "block_fits b"
  using assms three_bytes [of b1 b2 b3] byte_flag_restore(1) [OF assms(1)]
  by (simp_all add: encodeHeader_def hdr_of_def decodeHeader_def Let_def block_fits_def
      maxBlockLength_def maxTimestampOffset_def)

lemma parseHeaders_sound:
  "\<lbrakk>parseHeaders xs = Inr (hs, pt, body); list_all2 hdr_of hs bs\<rbrakk> \<Longrightarrow>
     xs = concat (map encodeHeader bs) @ pt # body \<and> pt AND 0x7f = pt \<and> (\<forall>b \<in> set bs. block_fits b)"
proof (induction xs arbitrary: hs bs rule: parseHeaders.induct)
  case 1
  then show ?case by simp
next
  case (2 first rest)
  show ?case
  proof (cases "first AND 0x80 = 0")
    case True
    then have "first AND 0x7f = first"
      by (rule byte_flag_restore(2))
    then show ?thesis using True 2 by auto
  next
    case False
    with 2 obtain b1 b2 b3 rest' hs' b bs' where
      rest: "rest = b1 # b2 # b3 # rest'" and
      hs: "hs = decodeHeader first b1 b2 b3 # hs'" "parseHeaders rest' = Inr (hs', pt, body)" and
      bs: "bs = b # bs'" "hdr_of (decodeHeader first b1 b2 b3) b" "list_all2 hdr_of hs' bs'"
      by (auto split: list.splits sum.splits simp: list_all2_Cons1)
    then show ?thesis
      using "2.IH" [OF False rest _ _ hs(2) bs(3)] encode_decodeHeader [OF False bs(2)] by simp
  qed
qed

lemma parseBlocks_sound:
  "parseBlocks hs body = Inr (bs, rest) \<Longrightarrow>
     list_all2 hdr_of hs bs \<and> body = concat (map Payload bs) @ rest"
proof (induction hs arbitrary: body bs)
  case (Cons h hs)
  then show ?case
    by (auto split: if_splits sum.splits simp: hdr_of_def)
qed simp

section \<open>Round trips\<close>

lemma red_Encode_ok:
  "\<lbrakk>primary \<noteq> []; \<forall>b \<in> set redundant. block_fits b\<rbrakk> \<Longrightarrow>
     \<exists>payload. red_Encode pt primary redundant = Inr payload"
  by (simp add: red_Encode_def checkBlocks_None_iff [THEN iffD2])

lemma red_Parse_Encode:
  assumes "red_Encode pt primary redundant = Inr payload"
  shows "red_Parse payload =
           Inr \<lparr>Redundant = map mask_block redundant, PrimaryType = pt AND 0x7f, PrimaryPayload = primary\<rparr>"
  using assms
  by (auto simp: red_Encode_def red_Parse_def checkBlocks_None_iff parseHeaders_encode parseBlocks_encode
      split: if_splits option.splits)

lemma red_Encode_Parse:
  assumes "red_Parse payload = Inr p"
  shows "red_Encode (PrimaryType p) (PrimaryPayload p) (Redundant p) = Inr payload"
proof -
  from assms obtain hs pt body bs rest where
    p: "parseHeaders payload = Inr (hs, pt, body)" "parseBlocks hs body = Inr (bs, rest)" "rest \<noteq> []"
       "p = \<lparr>Redundant = bs, PrimaryType = pt, PrimaryPayload = rest\<rparr>"
    by (auto simp: red_Parse_def split: sum.splits if_splits)
  with parseBlocks_sound [OF p(2)] have "list_all2 hdr_of hs bs" "body = concat (map Payload bs) @ rest"
    by simp_all
  with parseHeaders_sound [OF p(1)] p(3,4) show ?thesis
    by (simp add: red_Encode_def checkBlocks_None_iff [THEN iffD2])
qed

text \<open>C22. \<^verbatim>\<open>Encode\<close> and \<^verbatim>\<open>Parse\<close> are inverse to each other.  For seven-bit payload types, \<^verbatim>\<open>Encode\<close> builds a
  payload from a primary and its redundant blocks exactly when \<^verbatim>\<open>Parse\<close> reads that payload as the same
  blocks in the same order and the same primary: nothing is lost on the wire, and no payload is
  accepted that \<^verbatim>\<open>Encode\<close> would not build.\<close>

theorem red_round_trip:
  assumes "pt AND 0x7f = pt" and "\<forall>b \<in> set redundant. PayloadType b AND 0x7f = PayloadType b"
  shows "red_Encode pt primary redundant = Inr payload \<longleftrightarrow>
         red_Parse payload = Inr \<lparr>Redundant = redundant, PrimaryType = pt, PrimaryPayload = primary\<rparr>"
proof -
  have "map mask_block redundant = redundant"
    using assms(2) by (simp add: map_idI mask_block_def)
  then show ?thesis
    using red_Parse_Encode [of pt primary redundant payload] red_Encode_Parse [of payload] assms(1)
    by fastforce
qed

theorem red_round_trip_witness:
  "(red_Encode 111 [7, 8] [\<lparr>PayloadType = 111, TimestampOffsetSamples = 960, Payload = [5]\<rparr>] =
      Inr [239, 15, 0, 1, 111, 5, 7, 8]) \<and>
   red_Parse [239, 15, 0, 1, 111, 5, 7, 8] =
     Inr \<lparr>Redundant = [\<lparr>PayloadType = 111, TimestampOffsetSamples = 960, Payload = [5]\<rparr>],
          PrimaryType = 111, PrimaryPayload = [7, 8]\<rparr>"
proof -
  have "red_Encode 111 [7, 8] [\<lparr>PayloadType = 111, TimestampOffsetSamples = 960, Payload = [5]\<rparr>] =
      Inr [239, 15, 0, 1, 111, 5, 7, 8]"
    by code_simp
  then show ?thesis
    using red_round_trip [of 111 "[\<lparr>PayloadType = 111, TimestampOffsetSamples = 960, Payload = [5]\<rparr>]"
        "[7, 8]" "[239, 15, 0, 1, 111, 5, 7, 8]"]
    by simp
qed

end
