(* ===== verification/Rtp.thy ===== *)
theory Rtp
  imports Relay_Prelude
begin

text \<open>
  The RTP packet as the relay reads and writes it (the fields of \<^verbatim>\<open>rtp.Packet\<close> the sources touch),
  the identity of a publisher attachment (\<^verbatim>\<open>internal/session/subscription.go\<close>), the byte-slice
  operations of the sources and the big-endian integers of \<^verbatim>\<open>encoding/binary\<close>.
\<close>

unbundle bit_operations_syntax

record rtp_packet =
  Padding :: bool
  Extension :: bool
  Marker :: bool
  RtpPayloadType :: u8
  SequenceNumber :: u16
  Timestamp :: u32
  SSRC :: u32
  CSRC :: "u32 list"
  ExtensionProfile :: u16
  Extensions :: "(u8 \<times> bytes) list"
  RtpPayload :: bytes
  PaddingSize :: u8

record SourceIdentity =
  si_BusID :: string
  si_Generation :: u64
  si_SSRC :: u32

definition slice :: "nat \<Rightarrow> nat \<Rightarrow> 'a list \<Rightarrow> 'a list" where
  "slice i j xs = take (j - i) (drop i xs)"

definition be_decode :: "bytes \<Rightarrow> 'a::len word" where
  "be_decode bs = foldl (\<lambda>acc b. push_bit 8 acc OR ucast b) 0 bs"

lemma length_slice [simp]: "j \<le> length xs \<Longrightarrow> length (slice i j xs) = j - i"
  by (simp add: slice_def)

end
