(* ===== verification/Red_Listener.thy ===== *)
theory Red_Listener
  imports Red Rtp
begin

text \<open>
  The RED decorator of a listener's packet writer (\<^verbatim>\<open>internal/server/red_listener.go\<close>).  The
  underlying writer is an argument: it takes its own state and the packet, and returns the error
  of the write, if any, with its next state.
\<close>

record redListener =
  opusPT :: u8
  prevPayload :: bytes
  prevTimestampSamples :: u32
  havePrev :: bool

definition redMaxTimestampOffsetSamples :: u32 where
  "redMaxTimestampOffsetSamples = 16383"

definition newREDListener :: "u8 \<Rightarrow> redListener" where
  "newREDListener pt = \<lparr>opusPT = pt, prevPayload = [], prevTimestampSamples = 0, havePrev = False\<rparr>"

definition redundantBlocks :: "redListener \<Rightarrow> rtp_packet \<Rightarrow> red_block list" where
  "redundantBlocks r pkt =
     (if havePrev r then
        let offsetSamples = Timestamp pkt - prevTimestampSamples r
        in if offsetSamples > 0 \<and> offsetSamples \<le> redMaxTimestampOffsetSamples
           then [\<lparr>PayloadType = opusPT r, TimestampOffsetSamples = offsetSamples, Payload = prevPayload r\<rparr>]
           else []
      else [])"

definition redListener_WriteRTP ::
  "('w \<Rightarrow> rtp_packet \<Rightarrow> 'e option \<times> 'w) \<Rightarrow> redListener \<Rightarrow> rtp_packet \<Rightarrow> 'w
     \<Rightarrow> (red_error + 'e) option \<times> redListener \<times> 'w" where
  "redListener_WriteRTP inner r pkt w =
     (case red_Encode (opusPT r) (RtpPayload pkt) (redundantBlocks r pkt) of
        Inl err \<Rightarrow> (Some (Inl err), r, w)
      | Inr redPayload \<Rightarrow>
          let r' = r\<lparr>prevPayload := RtpPayload pkt, prevTimestampSamples := Timestamp pkt, havePrev := True\<rparr>;
              (err, w') = inner w (pkt\<lparr>RtpPayload := redPayload\<rparr>)
          in (map_option Inr err, r', w'))"

section \<open>Recovery of a lost frame\<close>

lemma redundantBlocks_after_write:
  assumes "redListener_WriteRTP inner r p w = (e, r', w')" and "\<not> (\<exists>x. e = Some (Inl x))"
  shows "opusPT r' = opusPT r" and "prevPayload r' = RtpPayload p"
    and "prevTimestampSamples r' = Timestamp p" and "havePrev r'"
  using assms
  by (auto simp: redListener_WriteRTP_def Let_def split: sum.splits prod.splits)

lemma redundantBlocks_previous:
  assumes "redListener_WriteRTP inner r p w = (e, r', w')" and "\<not> (\<exists>x. e = Some (Inl x))"
    and "0 < Timestamp q - Timestamp p" and "Timestamp q - Timestamp p \<le> 16383"
  shows "redundantBlocks r' q = [\<lparr>PayloadType = opusPT r,
      TimestampOffsetSamples = Timestamp q - Timestamp p, Payload = RtpPayload p\<rparr>]"
  using assms(3,4) redundantBlocks_after_write [OF assms(1,2)]
  by (simp add: redundantBlocks_def redMaxTimestampOffsetSamples_def Let_def)


definition collect_writer :: "rtp_packet list \<Rightarrow> rtp_packet \<Rightarrow> unit option \<times> rtp_packet list" where
  "collect_writer sent pkt = (None, sent @ [pkt])"

definition sample_packet :: "u16 \<Rightarrow> u32 \<Rightarrow> bytes \<Rightarrow> rtp_packet" where
  "sample_packet seqno ts payload =
     \<lparr>Padding = False, Extension = False, Marker = False, RtpPayloadType = 111, SequenceNumber = seqno, Timestamp = ts,
      SSRC = 1, CSRC = [], ExtensionProfile = 0, Extensions = [], RtpPayload = payload, PaddingSize = 0\<rparr>"

lemma sample_packet_sel [simp]:
  "RtpPayload (sample_packet n t x) = x" "Timestamp (sample_packet n t x) = t"
  by (simp_all add: sample_packet_def)


section \<open>Oversized frames\<close>

fun redListener_writes ::
  "('w \<Rightarrow> rtp_packet \<Rightarrow> 'e option \<times> 'w) \<Rightarrow> redListener \<Rightarrow> rtp_packet list \<Rightarrow> 'w
     \<Rightarrow> (red_error + 'e) option list \<times> redListener \<times> 'w" where
  "redListener_writes inner r [] w = ([], r, w)"
| "redListener_writes inner r (p # ps) w =
     (let (e, r', w') = redListener_WriteRTP inner r p w;
          (es, r'', w'') = redListener_writes inner r' ps w'
      in (e # es, r'', w''))"

lemma oversized_previous_rejects:
  assumes "havePrev r" and "length (prevPayload r) > 1023" and "RtpPayload q \<noteq> []"
    and "0 < Timestamp q - prevTimestampSamples r" and "Timestamp q - prevTimestampSamples r \<le> 16383"
  shows "redListener_WriteRTP inner r q w =
           (Some (Inl (ErrBlockPayload 0 (length (prevPayload r)))), r, w)"
  using assms
  by (simp add: redListener_WriteRTP_def redundantBlocks_def redMaxTimestampOffsetSamples_def
      red_Encode_def maxBlockLength_def Let_def)

text \<open>C24. A frame of more than 1023 bytes, which RED carries as a primary but not as a redundant block, blocks
  the listener: every later packet within 16383 samples of it (17 frames of 20 ms) is refused with an
  error, nothing reaches the underlying writer, and the refused packets do not replace the oversized
  frame as the previous one.\<close>

theorem red_listener_oversized_stall:
  fixes inner :: "'w \<Rightarrow> rtp_packet \<Rightarrow> 'e option \<times> 'w"
  assumes "redListener_WriteRTP inner r p w = (e, r', w')" and "\<not> (\<exists>x. e = Some (Inl x))"
    and "length (RtpPayload p) > 1023"
    and "\<forall>q \<in> set qs. RtpPayload q \<noteq> [] \<and> 0 < Timestamp q - Timestamp p \<and> Timestamp q - Timestamp p \<le> 16383"
  shows "redListener_writes inner r' qs w' =
           (replicate (length qs) (Some (Inl (ErrBlockPayload 0 (length (RtpPayload p))))), r', w')"
  using assms(4)
proof (induction qs)
  case (Cons q qs)
  have "redListener_WriteRTP inner r' q w' = (Some (Inl (ErrBlockPayload 0 (length (RtpPayload p)))), r', w')"
    using oversized_previous_rejects [of r' q inner w'] redundantBlocks_after_write [OF assms(1,2)]
      assms(3) Cons.prems by simp
  then show ?case using Cons by simp
qed simp

definition count_writer :: "nat \<Rightarrow> rtp_packet \<Rightarrow> unit option \<times> nat" where
  "count_writer sent pkt = (None, Suc sent)"

theorem red_listener_oversized_stall_witness:
  "redListener_writes count_writer
      \<lparr>opusPT = 111, prevPayload = replicate 1024 0, prevTimestampSamples = 960, havePrev = True\<rparr>
      [sample_packet 2 1920 [7], sample_packet 3 2880 [7]] 1 =
   ([Some (Inl (ErrBlockPayload 0 1024)), Some (Inl (ErrBlockPayload 0 1024))],
    \<lparr>opusPT = 111, prevPayload = replicate 1024 0, prevTimestampSamples = 960, havePrev = True\<rparr>, 1)"
proof -
  have first: "redListener_WriteRTP count_writer (newREDListener 111)
      (sample_packet 1 960 (replicate 1024 0)) 0 =
      (None, \<lparr>opusPT = 111, prevPayload = replicate 1024 0, prevTimestampSamples = 960, havePrev = True\<rparr>, 1)"
    by (simp add: redListener_WriteRTP_def redundantBlocks_def newREDListener_def sample_packet_def
        red_Encode_def count_writer_def)
  let ?qs = "[sample_packet 2 1920 [7], sample_packet 3 2880 [7]]"
  have "redListener_writes count_writer
      \<lparr>opusPT = 111, prevPayload = replicate 1024 0, prevTimestampSamples = 960, havePrev = True\<rparr> ?qs 1 =
    (replicate (length ?qs) (Some (Inl (ErrBlockPayload 0 1024))),
     \<lparr>opusPT = 111, prevPayload = replicate 1024 0, prevTimestampSamples = 960, havePrev = True\<rparr>, 1)"
    using red_listener_oversized_stall [OF first, of ?qs]
    by (simp del: redListener_writes.simps)
  then show ?thesis by (simp del: redListener_writes.simps)
qed

end
