(* ===== verification/Opus_Ingress.thy ===== *)
theory Opus_Ingress
  imports Rtp
begin

text \<open>
  The \<^verbatim>\<open>pks-opus-v1\<close> network boundary (\<^verbatim>\<open>internal/media/ingress/opus.go\<close>): \<^verbatim>\<open>Parse\<close> checks one binary
  message and its Opus framing, \<^verbatim>\<open>Timeline.Admit\<close> fences replay, gaps and pacing of the accepted frames.
\<close>

unbundle bit_operations_syntax

record ingress_frame =
  fr_Sequence :: u64
  fr_TimestampSamples :: u32
  fr_CaptureTimestampNs :: u64
  fr_OutputGeneration :: u64
  fr_Channels :: u8
  fr_Payload :: bytes

datatype ingress_error = ErrFrame | ErrContinuity | ErrFuture

definition FrameSamples :: nat where "FrameSamples = 960"
definition FrameDuration :: duration where "FrameDuration = 20 * millisecond"
definition MaxSessionAge :: duration where "MaxSessionAge = 24 * 60 * minute"
definition MaxLate :: duration where "MaxLate = 250 * millisecond"
definition MaxAhead :: duration where "MaxAhead = 100 * millisecond"

definition pkso_magic :: bytes where "pkso_magic = [0x50, 0x4b, 0x53, 0x4f]"

text \<open>The samples one frame of the TOC configuration lasts, and the frame count of the packet.\<close>

definition opus_samples :: "u8 \<Rightarrow> u16" where
  "opus_samples configuration =
     (if configuration < 12 then [480, 960, 1920, 2880] ! unat (configuration AND 3)
      else if configuration < 16 then push_bit (unat (configuration AND 1)) 480
      else push_bit (unat (configuration AND 3)) 120)"

definition opus_count :: "bytes \<Rightarrow> u16 option" where
  "opus_count payload =
     (let code = payload ! 0 AND 3 in
      if code = 1 \<or> code = 2 then Some 2
      else if code = 3 then
        if length payload < 2 then None else Some (ucast (payload ! 1 AND 63))
      else Some 1)"

definition ingress_Parse :: "bytes \<Rightarrow> ingress_error + ingress_frame" where
  "ingress_Parse message =
     (if length message \<le> 40 \<or> length message > 1315 \<or>
         slice 0 4 message \<noteq> pkso_magic \<or> message ! 4 \<noteq> 1 \<or>
         (message ! 5 \<noteq> 1 \<and> message ! 5 \<noteq> 2) \<or> message ! 6 \<noteq> 0 \<or> message ! 7 \<noteq> 0 \<or>
         (be_decode (slice 20 22 message) :: u16) \<noteq> 960 \<or>
         unat (be_decode (slice 22 24 message) :: u16) \<noteq> length message - 40
      then Inl ErrFrame
      else
        let payload = drop 40 message;
            samples = opus_samples (drop_bit 3 (payload ! 0))
        in case opus_count payload of
             None \<Rightarrow> Inl ErrFrame
           | Some n \<Rightarrow>
               if n = 0 \<or> samples * n \<noteq> 960 then Inl ErrFrame
               else Inr \<lparr>fr_Sequence = be_decode (slice 8 16 message),
                         fr_TimestampSamples = be_decode (slice 16 20 message),
                         fr_CaptureTimestampNs = be_decode (slice 24 32 message),
                         fr_OutputGeneration = be_decode (slice 32 40 message),
                         fr_Channels = message ! 5, fr_Payload = payload\<rparr>)"

record ingress_timeline =
  tl_started :: bool
  tl_originNs :: u64
  tl_originSequence :: u64
  tl_originAt :: time
  tl_last :: ingress_frame

definition timeline_zero :: ingress_timeline where
  "timeline_zero = \<lparr>tl_started = False, tl_originNs = 0, tl_originSequence = 0, tl_originAt = zero_time,
     tl_last = \<lparr>fr_Sequence = 0, fr_TimestampSamples = 0, fr_CaptureTimestampNs = 0,
                fr_OutputGeneration = 0, fr_Channels = 0, fr_Payload = []\<rparr>\<rparr>"

definition Admit ::
  "ingress_timeline \<Rightarrow> ingress_frame \<Rightarrow> time \<Rightarrow> (ingress_error + bool) \<times> ingress_timeline" where
  "Admit timeline frame now =
     (if \<not> tl_started timeline then
        (Inr False, \<lparr>tl_started = True, tl_originNs = fr_CaptureTimestampNs frame,
                     tl_originSequence = fr_Sequence frame, tl_originAt = now, tl_last = frame\<rparr>)
      else
        let last = tl_last timeline in
        if fr_Channels frame \<noteq> fr_Channels last \<or> fr_Sequence frame \<le> fr_Sequence last \<or>
           fr_CaptureTimestampNs frame \<le> fr_CaptureTimestampNs last \<or>
           fr_CaptureTimestampNs frame - tl_originNs timeline > word_of_int MaxSessionAge \<or>
           fr_Sequence frame - tl_originSequence timeline > word_of_int (MaxSessionAge sdiv FrameDuration)
        then (Inl ErrContinuity, timeline)
        else
          let delta = fr_Sequence frame - fr_Sequence last in
          if delta > 1500 \<or>
             fr_TimestampSamples frame - fr_TimestampSamples last \<noteq> ucast (delta * of_nat FrameSamples)
          then (Inl ErrContinuity, timeline)
          else
            let elapsed = int64 (sint (fr_Sequence frame - tl_originSequence timeline) * FrameDuration);
                arrivalElapsed = time_Sub now (tl_originAt timeline)
            in if int64 (elapsed - arrivalElapsed) > MaxAhead then (Inl ErrFuture, timeline)
               else (Inr (int64 (arrivalElapsed - elapsed) > MaxLate), timeline\<lparr>tl_last := frame\<rparr>))"

text \<open>The frames a sequence of \<^verbatim>\<open>Admit\<close> calls accepts, each with the time it arrived.\<close>

fun admit_all ::
  "ingress_timeline \<Rightarrow> (ingress_frame \<times> time) list \<Rightarrow> (ingress_frame \<times> time) list" where
  "admit_all t [] = []"
| "admit_all t ((f, now) # fs) =
     (case Admit t f now of
        (Inl _, t') \<Rightarrow> admit_all t' fs
      | (Inr _, t') \<Rightarrow> (f, now) # admit_all t' fs)"

section \<open>Accepted packets last exactly one frame\<close>

definition opus_product_exact :: "nat \<Rightarrow> bool" where
  "opus_product_exact c \<longleftrightarrow> (\<forall>s \<in> {120, 240, 480, 960, 1920, 2880 :: nat}.
     (s * c) mod 65536 = 960 \<longrightarrow> s * c = 960)"

lemma opus_product_exact_small:
  assumes "c < 64"
  shows "opus_product_exact c"
proof -
  have "s * c = 960" if s: "s \<in> {120, 240, 480, 960, 1920, 2880 :: nat}" and "(s * c) mod 65536 = 960" for s
  proof -
    define k where "k = (s * c) div 65536"
    have eq: "s * c = 65536 * k + 960"
      using that(2) div_mult_mod_eq [of "s * c" 65536] by (simp add: k_def)
    have "s * c \<le> 2880 * 63"
      using s assms by (intro mult_mono) auto
    then have "k \<le> 2" using eq by simp
    then have "k = 0 \<or> k = 1 \<or> k = 2" by arith
    then show ?thesis using s eq assms by (elim disjE insertE) (simp; presburger?)+
  qed
  then show ?thesis by (simp add: opus_product_exact_def)
qed

lemma and3_cases:
  fixes c :: u8
  obtains "c AND 3 = 0" | "c AND 3 = 1" | "c AND 3 = 2" | "c AND 3 = 3"
proof -
  define n where "n = unat (c AND 3)"
  have c: "c AND 3 = word_of_nat n" by (simp add: n_def)
  have "c AND 3 \<le> 3" by (rule word_and_le1)
  then have "n \<le> 3" by (simp add: word_le_nat_alt n_def)
  then consider "n = 0" | "n = 1" | "n = 2" | "n = 3" by linarith
  then show thesis by cases (use c that in auto)
qed

lemma and1_cases:
  fixes c :: u8
  obtains "c AND 1 = 0" | "c AND 1 = 1"
  by (cases "odd c") (auto simp: and_one_eq mod_2_eq_odd)

lemma opus_samples_range: "unat (opus_samples c) \<in> {120, 240, 480, 960, 1920, 2880}"
  by (cases c rule: and3_cases; cases c rule: and1_cases)
     (simp_all add: opus_samples_def push_bit_eq_mult)

lemma opus_count_range: "opus_count p = Some n \<Longrightarrow> unat n < 64"
proof -
  have "unat (ucast (b AND 63 :: u8) :: u16) < 64" for b
  proof -
    have "unat (b AND 63) \<le> 63"
      using word_and_le1 [of b 63] by (simp add: word_le_nat_alt)
    then have "take_bit 16 (unat (b AND 63)) \<le> 63"
      by (rule order_trans [OF take_bit_nat_less_eq_self])
    then show ?thesis by (simp add: unsigned_ucast_eq)
  qed
  then show "opus_count p = Some n \<Longrightarrow> unat n < 64"
    by (auto simp: opus_count_def Let_def split: if_splits)
qed

lemma opus_duration_exact:
  assumes "opus_count p = Some n" and "opus_samples c * n = 960"
  shows "unat (opus_samples c) * unat n = 960"
proof -
  have "(unat (opus_samples c) * unat n) mod 65536 = 960"
    using arg_cong [OF assms(2), of unat] by (simp add: unat_word_ariths)
  then show ?thesis
    using opus_samples_range opus_product_exact_small [OF opus_count_range [OF assms(1)]]
    unfolding opus_product_exact_def by blast
qed

text \<open>Every message \<^verbatim>\<open>Parse\<close> accepts carries between 1 and 1275 bytes of mono or stereo Opus whose
  table-of-contents byte and frame count add up to exactly 960 samples (20 ms): the 16-bit product the
  code compares never wraps around to 960.\<close>

theorem ingress_Parse_one_frame:
  assumes "ingress_Parse message = Inr frame"
  shows "fr_Payload frame = drop 40 message \<and> 1 \<le> length (fr_Payload frame) \<and>
         length (fr_Payload frame) \<le> 1275 \<and> fr_Channels frame \<in> {1, 2} \<and>
         (\<exists>n. opus_count (fr_Payload frame) = Some n \<and>
              unat (opus_samples (drop_bit 3 (fr_Payload frame ! 0))) * unat n = 960)"
  using assms
  by (auto simp: ingress_Parse_def Let_def split: if_splits option.splits
      dest: opus_duration_exact)

definition sample_message :: bytes where
  "sample_message = [0x50, 0x4b, 0x53, 0x4f, 1, 2, 0, 0] @ [0, 0, 0, 0, 0, 0, 0, 9] @ [0, 0, 3, 0xc0] @
     [3, 0xc0, 0, 2] @ [0, 0, 0, 0, 0, 0, 1, 0] @ [0, 0, 0, 0, 0, 0, 0, 5] @ [0xfb, 1]"

theorem ingress_Parse_one_frame_witness:
  "\<exists>frame. ingress_Parse sample_message = Inr frame \<and> fr_Payload frame = [0xfb, 1] \<and>
     (\<exists>n. opus_count (fr_Payload frame) = Some n \<and>
          unat (opus_samples (drop_bit 3 (fr_Payload frame ! 0))) * unat n = 960)"
proof -
  have parse: "ingress_Parse sample_message =
      Inr \<lparr>fr_Sequence = 9, fr_TimestampSamples = 960, fr_CaptureTimestampNs = 256,
           fr_OutputGeneration = 5, fr_Channels = 2, fr_Payload = [0xfb, 1]\<rparr>"
    by (simp add: ingress_Parse_def sample_message_def slice_def pkso_magic_def be_decode_def
        opus_count_def opus_samples_def push_bit_eq_mult drop_bit_eq_div)
  let ?fr = "\<lparr>fr_Sequence = 9, fr_TimestampSamples = 960, fr_CaptureTimestampNs = 256,
           fr_OutputGeneration = 5, fr_Channels = 2, fr_Payload = [0xfb, 1]\<rparr>"
  have "\<exists>n. opus_count (fr_Payload ?fr) = Some n \<and>
      unat (opus_samples (drop_bit 3 (fr_Payload ?fr ! 0))) * unat n = 960"
    using ingress_Parse_one_frame [OF parse] by blast
  then show ?thesis using parse by (intro exI [of _ ?fr]) simp
qed

section \<open>Admission\<close>

lemma ucast_u64_u32_add: "(ucast (a + b :: u64) :: u32) = ucast a + ucast b"
proof transfer
  fix a b :: int
  have "take_bit 32 (take_bit 64 a + take_bit 64 b) =
      take_bit 32 (take_bit 32 (take_bit 64 a) + take_bit 32 (take_bit 64 b))"
    by (simp only: take_bit_add)
  also have "\<dots> = take_bit 32 (take_bit 32 a + take_bit 32 b)" by simp
  finally show "take_bit LENGTH(32) (take_bit LENGTH(64) (a + b)) =
      take_bit LENGTH(32) (take_bit LENGTH(64) a + take_bit LENGTH(64) b)"
    by (simp add: take_bit_add)
qed

definition frame_follows :: "ingress_frame \<Rightarrow> ingress_frame \<Rightarrow> bool" where
  "frame_follows f g \<longleftrightarrow>
     fr_Sequence f < fr_Sequence g \<and> fr_CaptureTimestampNs f < fr_CaptureTimestampNs g \<and>
     fr_Channels f = fr_Channels g \<and>
     fr_TimestampSamples g - fr_TimestampSamples f = ucast ((fr_Sequence g - fr_Sequence f) * 960)"

definition paced_from :: "u64 \<Rightarrow> time \<Rightarrow> ingress_frame \<times> time \<Rightarrow> bool" where
  "paced_from originSeq originAt fn \<longleftrightarrow>
     (let n = unat (fr_Sequence (fst fn) - originSeq)
      in n \<le> 4320000 \<and> int n * FrameDuration \<le> (snd fn - originAt) + MaxAhead)"

lemma frame_follows_trans: "\<lbrakk>frame_follows f g; frame_follows g h\<rbrakk> \<Longrightarrow> frame_follows f h"
proof -
  assume f: "frame_follows f g" and g: "frame_follows g h"
  have "fr_TimestampSamples h - fr_TimestampSamples f =
      (fr_TimestampSamples h - fr_TimestampSamples g) + (fr_TimestampSamples g - fr_TimestampSamples f)"
    by simp
  also have "\<dots> = ucast ((fr_Sequence h - fr_Sequence g) * 960 + (fr_Sequence g - fr_Sequence f) * 960)"
    using f g unfolding frame_follows_def by (simp only: ucast_u64_u32_add)
  also have "\<dots> = ucast ((fr_Sequence h - fr_Sequence f) * 960)"
    by (rule arg_cong [where f = ucast]) (simp add: algebra_simps)
  finally show ?thesis using f g by (auto simp: frame_follows_def)
qed

lemma Admit_started:
  assumes "Admit t f now = (Inr late, t')" and "tl_started t" and "tl_originAt t \<le> now"
  shows "t' = t\<lparr>tl_last := f\<rparr>" and "frame_follows (tl_last t) f"
    and "paced_from (tl_originSequence t) (tl_originAt t) (f, now)"
proof -
  let ?d = "fr_Sequence f - tl_originSequence t"
  from assms have ok: "\<not> ?d > word_of_int (MaxSessionAge sdiv FrameDuration)"
    "\<not> int64 (int64 (sint ?d * FrameDuration) - time_Sub now (tl_originAt t)) > MaxAhead"
    and t': "t' = t\<lparr>tl_last := f\<rparr>"
    by (auto simp: Admit_def Let_def split: if_splits)
  show "t' = t\<lparr>tl_last := f\<rparr>" by (rule t')
  show "frame_follows (tl_last t) f"
    using assms by (auto simp: Admit_def Let_def frame_follows_def FrameSamples_def split: if_splits)
  have age: "MaxSessionAge sdiv FrameDuration = 4320000"
    by (simp add: MaxSessionAge_def FrameDuration_def signed_divide_int_def)
  define n where "n = unat ?d"
  have n: "n \<le> 4320000"
    using ok(1) by (simp add: age word_le_nat_alt not_less n_def)
  then have s: "sint ?d = int n"
    unfolding n_def by (intro sint_small) simp
  have e: "int64 (sint ?d * FrameDuration) = int n * FrameDuration"
    using n unfolding s by (intro int64_id) (auto simp: FrameDuration_def min_int64_def max_int64_def)
  have a: "0 \<le> time_Sub now (tl_originAt t)" "time_Sub now (tl_originAt t) \<le> now - tl_originAt t"
    using assms(3) by (auto simp: time_Sub_def min_int64_def max_int64_def)
  have "int64 (int n * FrameDuration - time_Sub now (tl_originAt t)) =
      int n * FrameDuration - time_Sub now (tl_originAt t)"
    using n a(1) time_Sub_bounds [of now "tl_originAt t"]
    by (intro int64_id) (auto simp: FrameDuration_def min_int64_def max_int64_def)
  with ok(2) a(2) have "int n * FrameDuration \<le> (now - tl_originAt t) + MaxAhead"
    by (simp add: e)
  with n show "paced_from (tl_originSequence t) (tl_originAt t) (f, now)"
    by (simp add: paced_from_def Let_def n_def)
qed

lemma Admit_error: "Admit t f now = (Inl e, t') \<Longrightarrow> t' = t"
  by (auto simp: Admit_def Let_def split: if_splits)

lemma admit_all_started:
  assumes "tl_started t" and "\<forall>(f, now) \<in> set fs. tl_originAt t \<le> now"
  shows "sorted_wrt frame_follows (tl_last t # map fst (admit_all t fs)) \<and>
         (\<forall>fn \<in> set (admit_all t fs). paced_from (tl_originSequence t) (tl_originAt t) fn)"
  using assms
proof (induction t fs rule: admit_all.induct)
  case (2 t f now fs)
  show ?case
  proof (cases "Admit t f now")
    case (Pair r t')
    show ?thesis
    proof (cases r)
      case (Inl e)
      then have "t' = t" using Pair by (auto dest: Admit_error)
      then show ?thesis using 2 Pair Inl by simp
    next
      case (Inr late)
      note step = Admit_started [OF Pair [unfolded Inr] "2.prems"(1)]
      have now: "tl_originAt t \<le> now" using "2.prems" by simp
      have IH: "sorted_wrt frame_follows (f # map fst (admit_all t' fs)) \<and>
          (\<forall>fn \<in> set (admit_all t' fs). paced_from (tl_originSequence t) (tl_originAt t) fn)"
        using "2.IH"(2) [OF Pair [symmetric] Inr] "2.prems" step(1) [OF now] by simp
      moreover have "\<forall>g \<in> set (map fst (admit_all t' fs)). frame_follows (tl_last t) g"
        using IH step(2) [OF now] by (auto intro: frame_follows_trans)
      ultimately show ?thesis
        using Pair Inr step(2,3) [OF now] by simp
    qed
  qed
qed simp

text \<open>C34. Whatever a publisher sends, the frames \<^verbatim>\<open>Admit\<close> accepts on one connection have strictly increasing
  sequence numbers and capture times, one channel count, and RTP timestamps that advance by exactly 960
  samples per sequence number (modulo 2^32); and under a monotonic clock no accepted frame runs more than
  100 ms ahead of real time, or past the 24 hour session age, counted from the first accepted frame.\<close>

theorem admit_all_continuity:
  assumes "sorted (map snd fs)"
  shows "sorted_wrt frame_follows (map fst (admit_all timeline_zero fs)) \<and>
         (\<forall>f0 t0 rest. admit_all timeline_zero fs = (f0, t0) # rest \<longrightarrow>
            (\<forall>fn \<in> set rest. paced_from (fr_Sequence f0) t0 fn))"
proof (cases fs)
  case (Cons fn fs')
  obtain f now where fn: "fn = (f, now)" by (cases fn)
  define t where "t = \<lparr>tl_started = True, tl_originNs = fr_CaptureTimestampNs f,
                     tl_originSequence = fr_Sequence f, tl_originAt = now, tl_last = f\<rparr>"
  have "admit_all timeline_zero fs = (f, now) # admit_all t fs'"
    by (simp add: Cons fn Admit_def timeline_zero_def t_def)
  moreover have "\<forall>(f, n) \<in> set fs'. tl_originAt t \<le> n"
    using assms by (auto simp: Cons fn t_def)
  ultimately show ?thesis
    using admit_all_started [of t fs'] by (simp add: t_def)
qed simp

definition sample_frame :: "u64 \<Rightarrow> ingress_frame" where
  "sample_frame n = \<lparr>fr_Sequence = n, fr_TimestampSamples = ucast (n * 960), fr_CaptureTimestampNs = n,
     fr_OutputGeneration = 0, fr_Channels = 1, fr_Payload = [0xf8]\<rparr>"

theorem admit_all_continuity_witness:
  "admit_all timeline_zero [(sample_frame 3, 0), (sample_frame 4, 20 * millisecond), (sample_frame 4, second)] =
     [(sample_frame 3, 0), (sample_frame 4, 20 * millisecond)] \<and>
   paced_from 3 0 (sample_frame 4, 20 * millisecond)"
proof -
  have run: "admit_all timeline_zero
      [(sample_frame 3, 0), (sample_frame 4, 20 * millisecond), (sample_frame 4, second)] =
     [(sample_frame 3, 0), (sample_frame 4, 20 * millisecond)]"
    by (simp add: Admit_def timeline_zero_def sample_frame_def Let_def time_Sub_def min_int64_def
        max_int64_def int64_def MaxSessionAge_def FrameDuration_def MaxAhead_def FrameSamples_def
        signed_divide_int_def)
  moreover have "fr_Sequence (sample_frame 3) = 3" by (simp add: sample_frame_def)
  ultimately show ?thesis
    using admit_all_continuity [of "[(sample_frame 3, 0), (sample_frame 4, 20 * millisecond), (sample_frame 4, second)]"]
    by simp
qed

end
