(* ===== verification/Rtp_Forwarder.thy ===== *)
theory Rtp_Forwarder
  imports Rtp
begin

text \<open>
  The RTP continuity state of one subscriber (\<^verbatim>\<open>internal/media/downlink/forwarder.go\<close>): the translator that
  rebases every publisher attachment into one sequence and timestamp space, the 16-bit sequence
  unwrapper, and the release filter of the cadence worker.
\<close>

definition defaultAudioFrameSamples :: u32 where "defaultAudioFrameSamples = 960"

record rtpForwardTranslator =
  tr_initialized :: bool
  tr_source :: SourceIdentity
  sequenceOffset :: u16
  timestampOffset :: u32
  lastInputSequence :: u16
  lastInputTimestamp :: u32
  lastOutputSequence :: u16
  lastOutputTimestamp :: u32
  nominalSamples :: u32
  lastArrival :: time

definition translator_zero :: rtpForwardTranslator where
  "translator_zero = \<lparr>tr_initialized = False, tr_source = \<lparr>si_BusID = [], si_Generation = 0, si_SSRC = 0\<rparr>,
     sequenceOffset = 0, timestampOffset = 0, lastInputSequence = 0, lastInputTimestamp = 0,
     lastOutputSequence = 0, lastOutputTimestamp = 0, nominalSamples = 0, lastArrival = zero_time\<rparr>"

text \<open>The timestamp distance put between two attachments: one nominal frame, or the elapsed arrival time
  rounded to whole frames when that is longer and fits 32 bits.\<close>

definition attachment_step :: "rtpForwardTranslator \<Rightarrow> time \<Rightarrow> u32" where
  "attachment_step t arrival =
     (let timestampStep = (if nominalSamples t = 0 then defaultAudioFrameSamples else nominalSamples t) in
      if arrival \<noteq> zero_time \<and> lastArrival t \<noteq> zero_time then
        let elapsed = time_Sub arrival (lastArrival t) in
        if elapsed > 0 then
          let elapsedSamples = (word_of_int elapsed * 48000 :: u64) div 1000000000;
              step64 = ucast timestampStep :: u64;
              quantizedSamples = (elapsedSamples + step64 div 2) div step64 * step64
          in if quantizedSamples > step64 \<and> quantizedSamples \<le> ucast (- 1 :: u32)
             then ucast quantizedSamples
             else timestampStep
        else timestampStep
      else timestampStep)"

definition translateAt ::
  "rtpForwardTranslator \<Rightarrow> rtp_packet \<Rightarrow> SourceIdentity \<Rightarrow> time \<Rightarrow> bool \<times> rtp_packet \<times> rtpForwardTranslator" where
  "translateAt t pkt source arrival =
     (if \<not> tr_initialized t then
        (False, pkt,
         t\<lparr>tr_initialized := True, tr_source := source,
           lastInputSequence := SequenceNumber pkt, lastInputTimestamp := Timestamp pkt,
           lastOutputSequence := SequenceNumber pkt, lastOutputTimestamp := Timestamp pkt,
           nominalSamples := defaultAudioFrameSamples, lastArrival := arrival\<rparr>)
      else if source \<noteq> tr_source t then
        let seqOff = lastOutputSequence t + 1 - SequenceNumber pkt;
            tsOff = lastOutputTimestamp t + attachment_step t arrival - Timestamp pkt;
            out = pkt\<lparr>SequenceNumber := SequenceNumber pkt + seqOff, Timestamp := Timestamp pkt + tsOff\<rparr>
        in (True, out,
            t\<lparr>tr_source := source, sequenceOffset := seqOff, timestampOffset := tsOff,
              lastInputSequence := SequenceNumber out - seqOff, lastInputTimestamp := Timestamp out - tsOff,
              lastOutputSequence := SequenceNumber out, lastOutputTimestamp := Timestamp out,
              lastArrival := arrival\<rparr>)
      else
        let inputSequence = SequenceNumber pkt; inputTimestamp = Timestamp pkt;
            out = pkt\<lparr>SequenceNumber := inputSequence + sequenceOffset t,
                      Timestamp := inputTimestamp + timestampOffset t\<rparr>;
            sequenceDelta = sint (inputSequence - lastInputSequence t)
        in if sequenceDelta > 0 then
             let timestampDelta = sint (inputTimestamp - lastInputTimestamp t);
                 candidate = (word_of_int timestampDelta :: u32) div word_of_int sequenceDelta;
                 nominal = (if timestampDelta > 0 \<and> candidate > 0 \<and> candidate \<le> 4800
                            then candidate else nominalSamples t)
             in (False, out,
                 t\<lparr>nominalSamples := nominal, lastInputSequence := inputSequence,
                   lastInputTimestamp := inputTimestamp, lastOutputSequence := SequenceNumber out,
                   lastOutputTimestamp := Timestamp out, lastArrival := arrival\<rparr>)
           else (False, out, t))"

definition translate ::
  "rtpForwardTranslator \<Rightarrow> rtp_packet \<Rightarrow> SourceIdentity \<Rightarrow> bool \<times> rtp_packet \<times> rtpForwardTranslator" where
  "translate t pkt source = translateAt t pkt source zero_time"

datatype forwardDecision = forwardMedia | dropPadding | dropLate

record sequenceUnwrapper =
  uw_initialized :: bool
  highestExt :: int

definition unwrapper_zero :: sequenceUnwrapper where
  "unwrapper_zero = \<lparr>uw_initialized = False, highestExt = 0\<rparr>"

definition unwrap :: "sequenceUnwrapper \<Rightarrow> u16 \<Rightarrow> int \<times> sequenceUnwrapper" where
  "unwrap u sq =
     (if \<not> uw_initialized u then (uint sq, u\<lparr>uw_initialized := True, highestExt := uint sq\<rparr>)
      else
        let ext = int64 (highestExt u + sint (sq - word_of_int (highestExt u)))
        in (ext, if ext > highestExt u then u\<lparr>highestExt := ext\<rparr> else u))"

record sequenceForwarder =
  unwrapper :: sequenceUnwrapper
  haveReleased :: bool
  lastReleasedExtSeq :: int
  haveOutput :: bool
  lastOutputSeq :: u16

definition forwarder_zero :: sequenceForwarder where
  "forwarder_zero = \<lparr>unwrapper = unwrapper_zero, haveReleased = False, lastReleasedExtSeq = 0,
                     haveOutput = False, lastOutputSeq = 0\<rparr>"

definition forwarder_unwrap :: "sequenceForwarder \<Rightarrow> u16 \<Rightarrow> int \<times> sequenceForwarder" where
  "forwarder_unwrap f sq = (let (ext, u) = unwrap (unwrapper f) sq in (ext, f\<lparr>unwrapper := u\<rparr>))"

definition release ::
  "sequenceForwarder \<Rightarrow> rtp_packet \<Rightarrow> int \<Rightarrow> forwardDecision \<times> rtp_packet \<times> sequenceForwarder" where
  "release f pkt extSeq =
     (if haveReleased f \<and> extSeq \<le> lastReleasedExtSeq f then (dropLate, pkt, f)
      else
        let f1 = f\<lparr>haveReleased := True, lastReleasedExtSeq := extSeq\<rparr> in
        if Padding pkt then (dropPadding, pkt, f1)
        else
          let sq = (if \<not> haveOutput f1 then SequenceNumber pkt else lastOutputSeq f1 + 1)
          in (forwardMedia, pkt\<lparr>SequenceNumber := sq\<rparr>, f1\<lparr>haveOutput := True, lastOutputSeq := sq\<rparr>))"

definition hasGap :: "sequenceForwarder \<Rightarrow> int \<Rightarrow> bool" where
  "hasGap f nextExtSeq = (haveReleased f \<and> nextExtSeq > int64 (lastReleasedExtSeq f + 1))"

section \<open>Translation\<close>

text \<open>The relation between the last packet in and the last packet out, and the range of the frame size.\<close>

definition translator_ok :: "rtpForwardTranslator \<Rightarrow> bool" where
  "translator_ok t \<longleftrightarrow>
     (if tr_initialized t then
        lastOutputSequence t = lastInputSequence t + sequenceOffset t \<and>
        lastOutputTimestamp t = lastInputTimestamp t + timestampOffset t \<and>
        0 < nominalSamples t \<and> nominalSamples t \<le> 4800
      else sequenceOffset t = 0 \<and> timestampOffset t = 0)"

lemma translator_ok_zero [relay_inv]: "translator_ok translator_zero"
  by (simp add: translator_ok_def translator_zero_def)

lemma translateAt_ok [relay_inv]:
  "translator_ok t \<Longrightarrow> translator_ok (snd (snd (translateAt t pkt source arrival)))"
  by (auto simp: translator_ok_def translateAt_def defaultAudioFrameSamples_def Let_def)

lemma translateAt_source:
  "tr_initialized (snd (snd (translateAt t pkt source arrival)))"
  "tr_source (snd (snd (translateAt t pkt source arrival))) = source"
  by (auto simp: translateAt_def Let_def)

lemma attachment_step_pos:
  assumes "0 < nominalSamples t"
  shows "0 < attachment_step t arrival"
proof -
  have "0 < (ucast q :: u32)" if "q \<le> ucast (- 1 :: u32)" "q > (k :: u64)" for q k
  proof -
    have "unat (ucast (- 1 :: u32) :: u64) = 4294967295"
      by (simp add: unsigned_ucast_eq unsigned_minus_1_eq_mask mask_eq_exp_minus_1)
    then have "unat q \<le> 4294967295"
      using that(1) by (simp add: word_le_nat_alt)
    then have "unat (ucast q :: u32) = unat q"
      by (simp add: unsigned_ucast_eq take_bit_nat_eq_self_iff)
    moreover have "0 < unat q" using that(2) by (simp add: word_less_nat_alt)
    ultimately show ?thesis by (simp add: word_less_nat_alt)
  qed
  then show ?thesis using assms unfolding attachment_step_def Let_def by auto
qed

text \<open>What the translator remembers of the packet it translated last.\<close>

definition translated_last ::
  "rtpForwardTranslator \<Rightarrow> rtp_packet \<Rightarrow> SourceIdentity \<Rightarrow> rtp_packet \<Rightarrow> bool" where
  "translated_last t p s out \<longleftrightarrow> translator_ok t \<and> tr_initialized t \<and> tr_source t = s \<and>
     lastInputSequence t = SequenceNumber p \<and> lastInputTimestamp t = Timestamp p \<and>
     lastOutputSequence t = SequenceNumber out \<and> lastOutputTimestamp t = Timestamp out"

definition in_order_step ::
  "rtp_packet \<times> SourceIdentity \<times> time \<Rightarrow> rtp_packet \<times> SourceIdentity \<times> time \<Rightarrow> bool" where
  "in_order_step x y \<longleftrightarrow>
     (fst (snd x) = fst (snd y) \<longrightarrow> 0 < sint (SequenceNumber (fst y) - SequenceNumber (fst x)))"

definition continuous_step ::
  "(rtp_packet \<times> SourceIdentity \<times> time) \<times> rtp_packet \<Rightarrow> (rtp_packet \<times> SourceIdentity \<times> time) \<times> rtp_packet \<Rightarrow> bool"
  where
  "continuous_step x y \<longleftrightarrow>
     (let (p, s, _) = fst x; out = snd x; (q, s', _) = fst y; out' = snd y in
      if s = s' then
        SequenceNumber out' - SequenceNumber out = SequenceNumber q - SequenceNumber p \<and>
        Timestamp out' - Timestamp out = Timestamp q - Timestamp p
      else SequenceNumber out' = SequenceNumber out + 1 \<and> 0 < Timestamp out' - Timestamp out)"

fun translate_run ::
  "rtpForwardTranslator \<Rightarrow> (rtp_packet \<times> SourceIdentity \<times> time) list \<Rightarrow> rtp_packet list" where
  "translate_run t [] = []"
| "translate_run t ((p, s, a) # xs) =
     (let (_, out, t') = translateAt t p s a in out # translate_run t' xs)"

lemma translateAt_first:
  assumes "translator_ok t" and "\<not> tr_initialized t" and "translateAt t p s a = (r, out, t')"
  shows "translated_last t' p s out"
  using assms translateAt_ok [OF assms(1), of p s a]
  by (auto simp: translated_last_def translateAt_def)

lemma translateAt_next:
  assumes last: "translated_last t p s out" and "in_order_step (p, s, a) (q, s', a')"
    and tr: "translateAt t q s' a' = (r, out', t')"
  shows "translated_last t' q s' out'" and "continuous_step ((p, s, a), out) ((q, s', a'), out')"
proof -
  have ok: "translator_ok t'"
    using translateAt_ok [of t q s' a'] last tr by (simp add: translated_last_def)
  have pos: "0 < attachment_step t a'"
    using last by (intro attachment_step_pos) (simp add: translated_last_def translator_ok_def)
  show "translated_last t' q s' out'"
    using assms ok unfolding translated_last_def in_order_step_def
    by (auto simp: translateAt_def Let_def split: if_splits)
  show "continuous_step ((p, s, a), out) ((q, s', a'), out')"
    using assms pos unfolding translated_last_def continuous_step_def in_order_step_def translator_ok_def
    by (auto simp: translateAt_def Let_def split: if_splits)
qed

lemma translate_run_next:
  "\<lbrakk>translated_last t p s out; successively in_order_step ((p, s, a) # xs)\<rbrakk> \<Longrightarrow>
     successively continuous_step (((p, s, a), out) # zip xs (translate_run t xs))"
proof (induction xs arbitrary: t p s a out)
  case (Cons x xs)
  obtain q s' a' where x: "x = (q, s', a')" by (cases x)
  obtain r out' t' where tr: "translateAt t q s' a' = (r, out', t')"
    by (metis prod_cases3)
  have "in_order_step (p, s, a) (q, s', a')"
    using Cons.prems x by simp
  note nxt = translateAt_next [OF Cons.prems(1) this tr]
  show ?case
    using Cons.IH [OF nxt(1)] Cons.prems(2) nxt(2) by (simp add: x tr)
qed simp


definition source_a :: SourceIdentity where
  "source_a = \<lparr>si_BusID = ''voice'', si_Generation = 1, si_SSRC = 7\<rparr>"

definition rtp_sample :: "u16 \<Rightarrow> u32 \<Rightarrow> rtp_packet" where
  "rtp_sample sq ts = \<lparr>Padding = False, Extension = False, Marker = False, RtpPayloadType = 111, SequenceNumber = sq,
     Timestamp = ts, SSRC = 7, CSRC = [], ExtensionProfile = 0, Extensions = [], RtpPayload = [1], PaddingSize = 0\<rparr>"


section \<open>Unwrapping\<close>

lemma unwrap_correct:
  assumes "uw_initialized u" and "- 32768 \<le> e - highestExt u" and "e - highestExt u < 32768"
    and "min_int64 \<le> e" and "e \<le> max_int64"
  shows "unwrap u (word_of_int e) = (e, u\<lparr>highestExt := max (highestExt u) e\<rparr>)"
proof -
  have "sint (word_of_int e - word_of_int (highestExt u) :: u16) = e - highestExt u"
    using assms(2,3) by (simp add: signed_of_int signed_take_bit_int_eq_self flip: of_int_diff)
  then show ?thesis
    using assms by (simp add: unwrap_def int64_id max_def)
qed

fun unwrap_run :: "sequenceUnwrapper \<Rightarrow> u16 list \<Rightarrow> int list" where
  "unwrap_run u [] = []"
| "unwrap_run u (x # xs) = (let (e, u') = unwrap u x in e # unwrap_run u' xs)"

text \<open>Each extended number lies within half the 16-bit range of the highest one before it.\<close>

fun within_window :: "int \<Rightarrow> int list \<Rightarrow> bool" where
  "within_window h [] = True"
| "within_window h (e # es) =
     (- 32768 \<le> e - h \<and> e - h < 32768 \<and> min_int64 \<le> e \<and> e \<le> max_int64 \<and> within_window (max h e) es)"

lemma unwrap_run_correct:
  "\<lbrakk>uw_initialized u; within_window (highestExt u) es\<rbrakk> \<Longrightarrow> unwrap_run u (map word_of_int es) = es"
proof (induction es arbitrary: u)
  case (Cons e es)
  then have "unwrap u (word_of_int e) = (e, u\<lparr>highestExt := max (highestExt u) e\<rparr>)"
    by (intro unwrap_correct) auto
  then show ?case using Cons by simp
qed simp

text \<open>C29. The unwrapper recovers the publisher's extended sequence numbers from their 16 wire bits: for any
  stream that starts in the first cycle and whose every packet is within half a cycle of the newest one,
  reordered and repeated packets included, unwrapping the wire numbers gives the extended numbers
  back, over any number of wrap-arounds.\<close>

theorem unwrap_stream:
  assumes "0 \<le> e" and "e < 65536" and "within_window e es"
  shows "unwrap_run unwrapper_zero (map word_of_int (e # es)) = e # es"
proof -
  have "unwrap unwrapper_zero (word_of_int e) = (e, \<lparr>uw_initialized = True, highestExt = e\<rparr>)"
    using assms(1,2) by (simp add: unwrap_def unwrapper_zero_def unsigned_of_int take_bit_int_eq_self)
  then show ?thesis
    using unwrap_run_correct [of "\<lparr>uw_initialized = True, highestExt = e\<rparr>" es] assms(3) by simp
qed

theorem unwrap_stream_witness:
  "unwrap_run unwrapper_zero [65534, 0, 65535, 3] = [65534, 65536, 65535, 65539]"
proof -
  have wire: "[65534, 0, 65535, 3 :: u16] = map word_of_int [65534, 65536, 65535, 65539]" by simp
  show ?thesis
    unfolding wire by (rule unwrap_stream) (simp_all add: min_int64_def max_int64_def)
qed

section \<open>Release\<close>

fun release_run :: "sequenceForwarder \<Rightarrow> (rtp_packet \<times> int) list \<Rightarrow> (rtp_packet \<times> int) list" where
  "release_run f [] = []"
| "release_run f ((p, e) # xs) =
     (case release f p e of
        (forwardMedia, q, f') \<Rightarrow> (q, e) # release_run f' xs
      | (_, _, f') \<Rightarrow> release_run f' xs)"

lemma release_run_ok:
  "(haveReleased f \<longrightarrow> (\<forall>e \<in> set (map snd (release_run f xs)). lastReleasedExtSeq f < e)) \<and>
   sorted_wrt (<) (map snd (release_run f xs)) \<and>
   successively (\<lambda>a b. b = a + 1)
     ((if haveOutput f then [lastOutputSeq f] else []) @ map (SequenceNumber \<circ> fst) (release_run f xs)) \<and>
   (\<forall>x \<in> set (release_run f xs). \<not> Padding (fst x))"
proof (induction f xs rule: release_run.induct)
  case (2 f p e xs)
  consider (late) "haveReleased f" "e \<le> lastReleasedExtSeq f"
    | (pad) "haveReleased f \<longrightarrow> e > lastReleasedExtSeq f" "Padding p"
    | (media) "haveReleased f \<longrightarrow> e > lastReleasedExtSeq f" "\<not> Padding p" by linarith
  then show ?case
  proof cases
    case late
    then have "release f p e = (dropLate, p, f)" by (simp add: release_def)
    then show ?thesis using 2 by simp
  next
    case pad
    then have r: "release f p e = (dropPadding, p, f\<lparr>haveReleased := True, lastReleasedExtSeq := e\<rparr>)"
      by (auto simp: release_def Let_def)
    note IH = "2.IH"(2) [OF r [symmetric]]
    have "x \<in> set (release_run (f\<lparr>haveReleased := True, lastReleasedExtSeq := e\<rparr>) xs) \<Longrightarrow> e < snd x" for x
      using IH by simp
    then have "haveReleased f \<Longrightarrow> x \<in> set (release_run (f\<lparr>haveReleased := True, lastReleasedExtSeq := e\<rparr>) xs)
        \<Longrightarrow> lastReleasedExtSeq f < snd x" for x
      using pad(1) by (meson less_trans)
    then show ?thesis using IH by (cases "haveOutput f") (simp_all add: r)
  next
    case media
    define sq where "sq = (if haveOutput f then lastOutputSeq f + 1 else SequenceNumber p)"
    have r: "release f p e = (forwardMedia, p\<lparr>SequenceNumber := sq\<rparr>,
        f\<lparr>haveReleased := True, lastReleasedExtSeq := e, haveOutput := True, lastOutputSeq := sq\<rparr>)"
      using media by (auto simp: release_def Let_def sq_def)
    note IH = "2.IH"(1) [OF r [symmetric]]
    have "x \<in> set (release_run (f\<lparr>haveReleased := True, lastReleasedExtSeq := e, haveOutput := True,
        lastOutputSeq := sq\<rparr>) xs) \<Longrightarrow> e < snd x" for x
      using IH by simp
    then have "haveReleased f \<Longrightarrow> x \<in> set (release_run (f\<lparr>haveReleased := True, lastReleasedExtSeq := e,
        haveOutput := True, lastOutputSeq := sq\<rparr>) xs) \<Longrightarrow> lastReleasedExtSeq f < snd x" for x
      using media by (meson less_trans)
    then show ?thesis using IH media by (cases "haveOutput f") (simp_all add: r sq_def)
  qed
qed simp

text \<open>The cadence worker's release filter forwards each media packet at most once and in order: the
  extended numbers of the forwarded packets strictly increase, their outgoing sequence numbers are
  consecutive (modulo 2^16) whatever was lost, late or padding, and no padding-only packet is forwarded.\<close>

theorem release_run_contiguous:
  "sorted_wrt (<) (map snd (release_run forwarder_zero xs)) \<and>
   successively (\<lambda>a b. b = a + 1) (map (SequenceNumber \<circ> fst) (release_run forwarder_zero xs)) \<and>
   list_all (\<lambda>x. \<not> Padding (fst x)) (release_run forwarder_zero xs)"
  using release_run_ok [of forwarder_zero xs] by (simp add: forwarder_zero_def list_all_iff)

end
