(* ===== verification/Retransmission.thy ===== *)
theory Retransmission
  imports Rtp
begin

text \<open>
  The repair cache of a downlink (\<^verbatim>\<open>internal/media/downlink/retransmission_cache.go\<close>): 512 slots indexed by
  the sequence number, a per-packet budget of three retransmissions and an RTT-scaled throttle.
  A packet pointer is a value of type \<open>'p\<close>; the sequence number behind it is read by the argument
  \<open>seqof\<close>.  The slot's owner is the index of an owned packet of the pacer.
\<close>

definition retransmissionCachePackets :: nat where "retransmissionCachePackets = 512"
definition minRetransmissionThrottle :: duration where "minRetransmissionThrottle = 20 * millisecond"
definition maxRetransmissionThrottle :: duration where "maxRetransmissionThrottle = 100 * millisecond"
definition maxRetransmissionsPerPacket :: u32 where "maxRetransmissionsPerPacket = 3"

record 'p retransmissionSlot =
  slot_packet :: "'p option"
  slot_owned :: "nat option"
  lastRetransmitAtNs :: int
  retransmitCount :: u32

record 'p retransmissionCache =
  slots :: "'p retransmissionSlot list"
  rttNs :: int

definition empty_slot :: "'p retransmissionSlot" where
  "empty_slot = \<lparr>slot_packet = None, slot_owned = None, lastRetransmitAtNs = 0, retransmitCount = 0\<rparr>"

definition cache_zero :: "'p retransmissionCache" where
  "cache_zero = \<lparr>slots = replicate retransmissionCachePackets empty_slot, rttNs = 0\<rparr>"

definition slot_index :: "u16 \<Rightarrow> nat" where
  "slot_index sq = unat sq mod retransmissionCachePackets"

text \<open>\<^verbatim>\<open>replace\<close> returns the owner whose packet it evicts, which the caller releases.\<close>

definition cache_replace ::
  "'p retransmissionCache \<Rightarrow> u16 \<Rightarrow> 'p \<Rightarrow> nat option \<Rightarrow> nat option \<times> 'p retransmissionCache" where
  "cache_replace c sq pkt owned =
     (let i = slot_index sq;
          previous = slot_owned (slots c ! i)
      in (previous,
          c\<lparr>slots := (slots c)[i := \<lparr>slot_packet = Some pkt, slot_owned = owned,
                                    lastRetransmitAtNs = 0, retransmitCount = 0\<rparr>]\<rparr>))"

text \<open>\<^verbatim>\<open>clear\<close> returns the owners it releases, in slot order.\<close>

definition cache_clear :: "'p retransmissionCache \<Rightarrow> nat list \<times> 'p retransmissionCache" where
  "cache_clear c =
     (List.map_filter slot_owned (slots c),
      c\<lparr>slots := map (\<lambda>s. s\<lparr>slot_packet := None, slot_owned := None\<rparr>) (slots c)\<rparr>)"

definition setRTT :: "'p retransmissionCache \<Rightarrow> duration \<Rightarrow> 'p retransmissionCache" where
  "setRTT c rtt = (if rtt \<ge> 0 then c\<lparr>rttNs := rtt\<rparr> else c)"

definition retransmit_throttle :: "'p retransmissionCache \<Rightarrow> duration" where
  "retransmit_throttle c =
     (if rttNs c > 0
      then min (max (int64 (2 * rttNs c)) minRetransmissionThrottle) maxRetransmissionThrottle
      else maxRetransmissionThrottle)"

text \<open>\<^verbatim>\<open>load\<close> returns the packet to resend, whether the cache held it, and whether it was throttled.  The
  pacer worker is its only caller, so its compare-and-swap succeeds at once.\<close>

definition cache_load ::
  "('p \<Rightarrow> u16) \<Rightarrow> 'p retransmissionCache \<Rightarrow> u16 \<Rightarrow> time \<Rightarrow> ('p option \<times> bool \<times> bool) \<times> 'p retransmissionCache" where
  "cache_load seqof c sq now =
     (let i = slot_index sq; slot = slots c ! i in
      case slot_packet slot of
        None \<Rightarrow> ((None, False, False), c)
      | Some pkt \<Rightarrow>
          if seqof pkt \<noteq> sq then ((None, False, False), c)
          else if retransmitCount slot \<ge> maxRetransmissionsPerPacket then ((None, True, True), c)
          else if lastRetransmitAtNs slot \<noteq> 0 \<and>
                  int64 (now - lastRetransmitAtNs slot) < retransmit_throttle c
            then ((None, True, True), c)
          else ((Some pkt, True, False),
                c\<lparr>slots := (slots c)[i := slot\<lparr>lastRetransmitAtNs := now,
                                              retransmitCount := retransmitCount slot + 1\<rparr>]\<rparr>))"

section \<open>Cache contents\<close>

definition cache_ok :: "'p retransmissionCache \<Rightarrow> bool" where
  "cache_ok c \<longleftrightarrow> length (slots c) = retransmissionCachePackets"

lemma slot_index_less [simp]: "slot_index sq < 512"
  by (simp add: slot_index_def retransmissionCachePackets_def)

lemma cache_ok_zero [relay_inv]: "cache_ok cache_zero"
  by (simp add: cache_ok_def cache_zero_def)

lemma cache_ok_replace [relay_inv]: "cache_ok c \<Longrightarrow> cache_ok (snd (cache_replace c sq pkt owned))"
  by (simp add: cache_ok_def cache_replace_def Let_def)

lemma cache_ok_clear [relay_inv]: "cache_ok c \<Longrightarrow> cache_ok (snd (cache_clear c))"
  by (simp add: cache_ok_def cache_clear_def)

lemma cache_ok_setRTT [relay_inv]: "cache_ok c \<Longrightarrow> cache_ok (setRTT c rtt)"
  by (simp add: cache_ok_def setRTT_def)

lemma slots_setRTT [simp]: "slots (setRTT c rtt) = slots c"
  by (simp add: setRTT_def)

lemma cache_ok_load [relay_inv]: "cache_ok c \<Longrightarrow> cache_ok (snd (cache_load seqof c sq now))"
  by (simp add: cache_ok_def cache_load_def Let_def split: option.split)

lemma cache_load_packets:
  assumes "cache_ok c"
  shows "map slot_packet (slots (snd (cache_load seqof c sq now))) = map slot_packet (slots c)"
    and "map slot_owned (slots (snd (cache_load seqof c sq now))) = map slot_owned (slots c)"
proof -
  have "slot_index sq < length (slots c)"
    using assms by (simp add: cache_ok_def retransmissionCachePackets_def)
  then show "map slot_packet (slots (snd (cache_load seqof c sq now))) = map slot_packet (slots c)"
    "map slot_owned (slots (snd (cache_load seqof c sq now))) = map slot_owned (slots c)"
    by (auto simp: cache_load_def Let_def nth_list_update split: option.split intro!: nth_equalityI)
qed

section \<open>Retransmission budget\<close>

lemma retransmit_throttle_min: "20 * millisecond \<le> retransmit_throttle c"
  by (simp add: retransmit_throttle_def minRetransmissionThrottle_def maxRetransmissionThrottle_def)

text \<open>The requests that reach the cache between two stores: NACKs and RTT updates.\<close>

datatype repair_op = Nack u16 time | Rtt duration

fun repair_run :: "('p \<Rightarrow> u16) \<Rightarrow> 'p retransmissionCache \<Rightarrow> repair_op list \<Rightarrow> (u16 \<times> time) list" where
  "repair_run seqof c [] = []"
| "repair_run seqof c (Rtt d # ops) = repair_run seqof (setRTT c d) ops"
| "repair_run seqof c (Nack sq now # ops) =
     (case cache_load seqof c sq now of
        ((Some _, _, _), c') \<Rightarrow> (sq, now) # repair_run seqof c' ops
      | ((None, _, _), c') \<Rightarrow> repair_run seqof c' ops)"

definition grants_of :: "u16 \<Rightarrow> (u16 \<times> time) list \<Rightarrow> time list" where
  "grants_of sq gs = map snd (filter (\<lambda>g. fst g = sq) gs)"

definition clock_ok :: "repair_op \<Rightarrow> bool" where
  "clock_ok r = (case r of Nack _ now \<Rightarrow> 0 < now \<and> now \<le> max_int64 | Rtt _ \<Rightarrow> True)"

lemma cache_load_cases:
  assumes "cache_ok c" and "cache_load seqof c sq now = ((r, hit, thr), c')"
  shows "(r = None \<and> c' = c) \<or>
    (\<exists>p. r = Some p \<and> seqof p = sq \<and> slot_packet (slots c ! slot_index sq) = Some p \<and>
       retransmitCount (slots c ! slot_index sq) < 3 \<and>
       (lastRetransmitAtNs (slots c ! slot_index sq) = 0 \<or>
        retransmit_throttle c \<le> int64 (now - lastRetransmitAtNs (slots c ! slot_index sq))) \<and>
       c' = c\<lparr>slots := (slots c)[slot_index sq := (slots c ! slot_index sq)
               \<lparr>lastRetransmitAtNs := now, retransmitCount := retransmitCount (slots c ! slot_index sq) + 1\<rparr>]\<rparr>)"
  using assms
  by (auto simp: cache_load_def Let_def maxRetransmissionsPerPacket_def split: option.splits if_splits)

text \<open>Repair times at least 20 ms apart.\<close>

abbreviation spaced :: "time list \<Rightarrow> bool" where
  "spaced ts \<equiv> successively (\<lambda>a b. a + 20 * millisecond \<le> b) ts"

definition slot_history :: "'p retransmissionSlot \<Rightarrow> time list" where
  "slot_history s = (if lastRetransmitAtNs s = 0 then [] else [lastRetransmitAtNs s])"

definition slot_clock_ok :: "'p retransmissionSlot \<Rightarrow> bool" where
  "slot_clock_ok s \<longleftrightarrow> 0 \<le> lastRetransmitAtNs s \<and> lastRetransmitAtNs s \<le> max_int64 \<and> retransmitCount s \<le> 3"

lemma spaced_tail: "spaced (b # ts) \<Longrightarrow> spaced ts"
  by (cases ts) auto

lemma spaced_weaken: "\<lbrakk>spaced (b # ts); a \<le> b\<rbrakk> \<Longrightarrow> spaced (a # ts)"
  by (cases ts) auto

lemma repair_run_budget_nack:
  assumes "cache_ok c" and "clock_ok (Nack sq now)" and "slot_clock_ok (slots c ! slot_index q)"
    and IH: "\<And>c'. \<lbrakk>cache_ok c'; slot_clock_ok (slots c' ! slot_index q)\<rbrakk> \<Longrightarrow>
      length (grants_of q (repair_run seqof c' ops)) + unat (retransmitCount (slots c' ! slot_index q)) \<le> 3 \<and>
      spaced (slot_history (slots c' ! slot_index q) @ grants_of q (repair_run seqof c' ops))"
  shows "length (grants_of q (repair_run seqof c (Nack sq now # ops))) +
       unat (retransmitCount (slots c ! slot_index q)) \<le> 3 \<and>
     spaced (slot_history (slots c ! slot_index q) @ grants_of q (repair_run seqof c (Nack sq now # ops)))"
proof -
  obtain r hit thr c' where ld: "cache_load seqof c sq now = ((r, hit, thr), c')"
    by (metis prod_cases4 surj_pair)
  show ?thesis
  proof (cases r)
    case None
    then have "c' = c" using cache_load_cases [OF assms(1) ld] by simp
    then show ?thesis using IH [OF assms(1)] assms(3) None ld by simp
  next
    case (Some p)
    let ?s = "slots c ! slot_index sq"
    define s' where "s' = ?s\<lparr>lastRetransmitAtNs := now, retransmitCount := retransmitCount ?s + 1\<rparr>"
    have g: "retransmitCount ?s < 3" "c' = c\<lparr>slots := (slots c)[slot_index sq := s']\<rparr>"
      "lastRetransmitAtNs ?s = 0 \<or> retransmit_throttle c \<le> int64 (now - lastRetransmitAtNs ?s)"
      using cache_load_cases [OF assms(1) ld] Some by (auto simp: s'_def)
    have ok: "cache_ok c'" using cache_ok_load [OF assms(1), of seqof sq now] ld by simp
    have clk: "0 < now" "now \<le> max_int64" using assms(2) by (simp_all add: clock_ok_def)
    have run: "repair_run seqof c (Nack sq now # ops) = (sq, now) # repair_run seqof c' ops"
      using ld Some by simp
    have cnt: "unat (retransmitCount s') = Suc (unat (retransmitCount ?s))"
      using g(1) by (simp add: s'_def unat_Suc_no_wrap word_less_nat_alt)
    show ?thesis
    proof (cases "slot_index sq = slot_index q")
      case False
      then have "slots c' ! slot_index q = slots c ! slot_index q" using g(2) by simp
      moreover have "sq \<noteq> q" using False by auto
      ultimately show ?thesis using IH [OF ok] assms(1-3) unfolding run by (simp add: grants_of_def)
    next
      case True
      have s': "slots c' ! slot_index q = s'"
        using g(2) True assms(1) by (simp add: cache_ok_def retransmissionCachePackets_def)
      have inv: "slot_clock_ok s'"
        using g(1) clk cnt by (simp add: slot_clock_ok_def s'_def word_le_nat_alt word_less_nat_alt)
      have "lastRetransmitAtNs ?s \<noteq> 0 \<Longrightarrow> lastRetransmitAtNs ?s + 20 * millisecond \<le> now"
        using g(3) retransmit_throttle_min [of c] clk assms(3) True
        by (simp add: int64_id slot_clock_ok_def min_int64_def max_int64_def)
      moreover have gs: "spaced (now # grants_of q (repair_run seqof c' ops))"
        "length (grants_of q (repair_run seqof c' ops)) + Suc (unat (retransmitCount ?s)) \<le> 3"
        using IH [OF ok] inv cnt clk
        by (simp_all add: s' slot_history_def) (simp_all add: s'_def)
      moreover have "a \<le> now \<Longrightarrow> spaced (a # grants_of q (repair_run seqof c' ops))" for a
        using gs(1) by (rule spaced_weaken)
      moreover note spaced_tail [OF gs(1)]
      ultimately show ?thesis
        using True unfolding run by (auto simp: grants_of_def slot_history_def)
    qed
  qed
qed

lemma repair_run_budget:
  "\<lbrakk>cache_ok c; list_all clock_ok ops; slot_clock_ok (slots c ! slot_index q)\<rbrakk> \<Longrightarrow>
     length (grants_of q (repair_run seqof c ops)) + unat (retransmitCount (slots c ! slot_index q)) \<le> 3 \<and>
     spaced (slot_history (slots c ! slot_index q) @ grants_of q (repair_run seqof c ops))"
proof (induction ops arbitrary: c)
  case Nil
  then show ?case
    by (auto simp: grants_of_def slot_clock_ok_def slot_history_def word_le_nat_alt)
next
  case (Cons op ops)
  show ?case
  proof (cases op)
    case (Rtt d)
    then show ?thesis using Cons.IH [of "setRTT c d"] Cons.prems by (simp add: cache_ok_setRTT)
  next
    case (Nack sq now)
    have "\<lbrakk>cache_ok c'; slot_clock_ok (slots c' ! slot_index q)\<rbrakk> \<Longrightarrow>
        length (grants_of q (repair_run seqof c' ops)) + unat (retransmitCount (slots c' ! slot_index q)) \<le> 3 \<and>
        spaced (slot_history (slots c' ! slot_index q) @ grants_of q (repair_run seqof c' ops))" for c'
      using Cons.IH Cons.prems(2) by simp
    then show ?thesis
      unfolding Nack using Cons.prems Nack by (intro repair_run_budget_nack) simp_all
  qed
qed





end
