(* ===== verification/Cadence.thy ===== *)
theory Cadence
  imports Relay_Prelude
begin

text \<open>
  The send schedule of the cadence pacer (\<^verbatim>\<open>internal/media/downlink/cadence_timeline.go\<close>): RTP media time is
  mapped to a due time that stays within a fixed window around the arrival.
\<close>

definition audioClockRateHz :: u64 where "audioClockRateHz = 48000"
definition defaultPacerTargetDelay :: duration where "defaultPacerTargetDelay = 10 * millisecond"
definition defaultPacerMaxLead :: duration where "defaultPacerMaxLead = 250 * millisecond"
definition defaultPacerMaxLateness :: duration where "defaultPacerMaxLateness = 40 * millisecond"
definition defaultPacerResetSamples :: u32 where "defaultPacerResetSamples = 240000"

record cadenceTimeline =
  cd_initialized :: bool
  lastRtpTs :: u32
  lastDueAt :: time
  cd_nominalSamples :: u32
  maxLead :: duration
  maxLateness :: duration
  resetSamples :: u32

definition cadence_reset :: "cadenceTimeline \<Rightarrow> cadenceTimeline" where
  "cadence_reset t = t\<lparr>cd_initialized := False, cd_nominalSamples := 0\<rparr>"

definition newCadenceTimeline :: cadenceTimeline where
  "newCadenceTimeline = \<lparr>cd_initialized = False, lastRtpTs = 0, lastDueAt = zero_time, cd_nominalSamples = 0,
     maxLead = defaultPacerMaxLead, maxLateness = defaultPacerMaxLateness,
     resetSamples = defaultPacerResetSamples\<rparr>"

text \<open>\<^verbatim>\<open>time.Duration(uint64(deltaSamples) * uint64(time.Second) / audioClockRateHz)\<close>\<close>

definition samples_duration :: "u32 \<Rightarrow> duration" where
  "samples_duration n = sint ((ucast n * 1000000000 :: u64) div audioClockRateHz)"

text \<open>The result is the due time, whether the schedule was re-anchored, and whether it advanced.\<close>

definition dueAt :: "cadenceTimeline \<Rightarrow> u32 \<Rightarrow> time \<Rightarrow> (time \<times> bool \<times> bool) \<times> cadenceTimeline" where
  "dueAt t rtpTs arrival =
     (if \<not> cd_initialized t then
        let due = arrival + defaultPacerTargetDelay
        in ((due, False, True), t\<lparr>cd_initialized := True, lastRtpTs := rtpTs, lastDueAt := due\<rparr>)
      else
        let signedDeltaSamples = sint (rtpTs - lastRtpTs t) in
        if signedDeltaSamples \<le> 0 then ((arrival, False, False), t)
        else
          let deltaSamples = (word_of_int signedDeltaSamples :: u32) in
          if deltaSamples > resetSamples t then
            let due = arrival + defaultPacerTargetDelay
            in ((due, True, True), t\<lparr>lastRtpTs := rtpTs, lastDueAt := due\<rparr>)
          else
            let t1 = (if cd_nominalSamples t = 0 then t\<lparr>cd_nominalSamples := deltaSamples\<rparr> else t);
                delta = (if cd_nominalSamples t \<noteq> 0 \<and> deltaSamples > cd_nominalSamples t
                         then cd_nominalSamples t else deltaSamples);
                due = lastDueAt t1 + samples_duration delta
            in if time_Sub due arrival > maxLead t1 then
                 let due' = arrival + defaultPacerTargetDelay
                 in ((due', True, True), t1\<lparr>lastRtpTs := rtpTs, lastDueAt := due'\<rparr>)
               else if time_Sub arrival due > maxLateness t1 then
                 ((arrival, True, True), t1\<lparr>lastRtpTs := rtpTs, lastDueAt := arrival\<rparr>)
               else ((due, False, True), t1\<lparr>lastRtpTs := rtpTs, lastDueAt := due\<rparr>))"

definition minimumCadenceSpacingNs :: "duration \<Rightarrow> duration" where
  "minimumCadenceSpacingNs mediaSpacingNs =
     (if mediaSpacingNs \<le> 0 then 0 else int64 (int64 (mediaSpacingNs * 4) sdiv 5))"

section \<open>The schedule stays near the arrivals\<close>

definition cadence_ok :: "cadenceTimeline \<Rightarrow> bool" where
  "cadence_ok t \<longleftrightarrow> maxLead t = defaultPacerMaxLead \<and> maxLateness t = defaultPacerMaxLateness \<and>
     resetSamples t = defaultPacerResetSamples \<and> cd_nominalSamples t \<le> defaultPacerResetSamples"

lemma cadence_ok_new [relay_inv]: "cadence_ok newCadenceTimeline"
  by (simp add: cadence_ok_def newCadenceTimeline_def)

lemma cadence_ok_reset [relay_inv]: "cadence_ok t \<Longrightarrow> cadence_ok (cadence_reset t)"
  by (simp add: cadence_ok_def cadence_reset_def)

lemma cadence_ok_dueAt [relay_inv]: "cadence_ok t \<Longrightarrow> cadence_ok (snd (dueAt t rtpTs arrival))"
  by (auto simp: cadence_ok_def dueAt_def Let_def)

lemma samples_duration_mono:
  assumes "m \<le> n" and "n \<le> defaultPacerResetSamples"
  shows "0 \<le> samples_duration m" and "samples_duration m \<le> samples_duration n"
proof -
  have eq: "samples_duration k = int (unat k * 1000000000 div 48000)" if "k \<le> defaultPacerResetSamples" for k
  proof -
    have k: "unat k \<le> 240000" using that by (simp add: word_le_nat_alt defaultPacerResetSamples_def)
    have "unat (ucast k :: u64) = unat k"
      using k by (simp add: unsigned_ucast_eq take_bit_nat_eq_self_iff)
    then have mul: "unat (ucast k * 1000000000 :: u64) = unat k * 1000000000"
      using k by (simp add: unat_word_ariths)
    have "unat ((ucast k * 1000000000 :: u64) div audioClockRateHz) = unat k * 1000000000 div 48000"
      by (simp add: unat_div mul audioClockRateHz_def)
    moreover have "unat k * 1000000000 div 48000 < 2 ^ (LENGTH(64) - 1)"
      using k by (simp add: div_less_iff_less_mult)
    ultimately show ?thesis
      unfolding samples_duration_def using sint_small by metis
  qed
  have "unat m \<le> unat n" using assms(1) by (simp add: word_le_nat_alt)
  then show "0 \<le> samples_duration m" "samples_duration m \<le> samples_duration n"
    using eq [of m] eq [of n] assms by (auto intro!: div_le_mono)
qed

text \<open>The cadence schedule is bounded on both sides: every due time lies between 40 ms before and 250 ms
  after the packet's arrival, and a packet that advances the schedule without re-anchoring it moves the due time
  forward by no more than the nominal frame, however many packets are missing before it.\<close>

theorem dueAt_bounded:
  assumes "cadence_ok t" and "dueAt t rtpTs arrival = ((due, reset, advances), t')"
  shows "arrival - 40 * millisecond \<le> due \<and> due \<le> arrival + 250 * millisecond \<and>
         (cd_initialized t \<and> advances \<and> \<not> reset \<longrightarrow>
            lastDueAt t \<le> due \<and> due \<le> lastDueAt t + samples_duration (cd_nominalSamples t') \<and> lastDueAt t' = due)"
proof -
  have sub: "time_Sub x y > d \<longleftrightarrow> x - y > d" if "0 \<le> d" "d \<le> second" for x y d
    using that by (auto simp: time_Sub_def min_int64_def max_int64_def)
  note defs = defaultPacerMaxLead_def defaultPacerMaxLateness_def defaultPacerTargetDelay_def
  have lim: "250000000 < time_Sub x y \<longleftrightarrow> y + 250000000 < x" "40000000 < time_Sub x y \<longleftrightarrow> y + 40000000 < x" for x y
    using sub [of 250000000 x y] sub [of 40000000 x y] by auto
  have mono: "\<not> defaultPacerResetSamples < n \<Longrightarrow> 0 \<le> samples_duration n"
    "n \<le> defaultPacerResetSamples \<Longrightarrow> 0 \<le> samples_duration n"
    "\<not> N < n \<Longrightarrow> N \<le> defaultPacerResetSamples \<Longrightarrow> samples_duration n \<le> samples_duration N" for n N
    using samples_duration_mono [of n n] samples_duration_mono [of n N] by (auto simp: not_less)
  show ?thesis
    using assms unfolding cadence_ok_def
    by (auto simp: dueAt_def Let_def defs lim split: if_splits intro: mono)
qed

theorem dueAt_bounded_witness:
  "lastDueAt (snd (dueAt (snd (dueAt newCadenceTimeline 960 0)) 1920 0)) = 30 * millisecond"
proof -
  have first: "snd (dueAt newCadenceTimeline 960 0) = newCadenceTimeline\<lparr>cd_initialized := True, lastRtpTs := 960,
      lastDueAt := 10 * millisecond\<rparr>"
    by (simp add: dueAt_def newCadenceTimeline_def defaultPacerTargetDelay_def)
  have second: "dueAt (snd (dueAt newCadenceTimeline 960 0)) 1920 0 = ((30 * millisecond, False, True),
      newCadenceTimeline\<lparr>cd_initialized := True, lastRtpTs := 1920, lastDueAt := 30 * millisecond,
        cd_nominalSamples := 960\<rparr>)"
    unfolding first
    by (simp add: dueAt_def newCadenceTimeline_def defaultPacerResetSamples_def defaultPacerMaxLead_def
        defaultPacerMaxLateness_def samples_duration_def audioClockRateHz_def time_Sub_def min_int64_def max_int64_def)
  have "cadence_ok (snd (dueAt newCadenceTimeline 960 0))"
    by (intro cadence_ok_dueAt cadence_ok_new)
  from dueAt_bounded [OF this second] show ?thesis by (simp add: second)
qed

end
