(* ===== verification/Histogram.thy ===== *)
theory Histogram
  imports Relay_Prelude
begin

text \<open>
  The two bucket histograms of the downlink: write durations (\<^verbatim>\<open>internal/media/downlink/downlink.go\<close>) and
  packet spacings (\<^verbatim>\<open>internal/media/downlink/cadence_histogram.go\<close>).  A percentile is computed from the
  rank \<^verbatim>\<open>uint64(math.Ceil(float64(total)*p))\<close>; the model takes that function of the total as an argument
  and returns the bucket bound in nanoseconds.  The contract of both histograms is a locale, and the
  rank property of a percentile is proved once inside it.
\<close>

definition writeDurBucketMaxNs :: "int list" where
  "writeDurBucketMaxNs = [10000, 50000, 100000, 500000, 1000000, 5000000, 10000000, 100000000]"

definition cadenceSpacingBucketMaxNs :: "int list" where
  "cadenceSpacingBucketMaxNs = map (\<lambda>ms. ms * millisecond)
     [1, 5, 10, 15, 18, 22, 25, 30, 40, 50, 60, 70, 80, 100, 150, 250]"

text \<open>The scan of the exclusive upper bounds, all but the last: the first bound above the sample.\<close>

fun bucket_scan :: "int list \<Rightarrow> int \<Rightarrow> nat" where
  "bucket_scan [] d = 0"
| "bucket_scan (b # bs) d = (if d < b then 0 else Suc (bucket_scan bs d))"

definition bump :: "nat \<Rightarrow> u64 list \<Rightarrow> u64 list" where
  "bump i h = h[i := h ! i + 1]"

definition writeDurHistogram_observe :: "u64 list \<Rightarrow> int \<Rightarrow> u64 list" where
  "writeDurHistogram_observe h durNs = bump (bucket_scan (butlast writeDurBucketMaxNs) durNs) h"

definition cadenceSpacingHistogram_observe :: "u64 list \<Rightarrow> int \<Rightarrow> u64 list" where
  "cadenceSpacingHistogram_observe h spacingNs =
     bump (bucket_scan (butlast cadenceSpacingBucketMaxNs) spacingNs) h"

text \<open>The cumulative scan of a percentile; past the last bucket it answers the last bound.\<close>

fun percentile_scan :: "u64 \<Rightarrow> u64 \<Rightarrow> u64 list \<Rightarrow> int list \<Rightarrow> int \<Rightarrow> int" where
  "percentile_scan cum target (c # cs) (b # bs) final =
     (let cum' = cum + c in if cum' \<ge> target then b else percentile_scan cum' target cs bs final)"
| "percentile_scan cum target _ _ final = final"

definition writeDurHistogram_percentile :: "(u64 \<Rightarrow> u64) \<Rightarrow> u64 list \<Rightarrow> int" where
  "writeDurHistogram_percentile rank h =
     (let total = sum_list h in
      if total = 0 then 0
      else percentile_scan 0 (max (rank total) 1) h writeDurBucketMaxNs (last writeDurBucketMaxNs))"

definition cadenceSpacingHistogram_percentile :: "(u64 \<Rightarrow> u64) \<Rightarrow> u64 list \<Rightarrow> int" where
  "cadenceSpacingHistogram_percentile rank h =
     (let total = sum_list h in
      if total = 0 then 0
      else percentile_scan 0 (max (rank total) 1) h cadenceSpacingBucketMaxNs
             (last cadenceSpacingBucketMaxNs))"

definition histogram_zero :: "nat \<Rightarrow> u64 list" where
  "histogram_zero n = replicate n 0"

section \<open>The contract of a bucket histogram\<close>

locale bucket_histogram =
  fixes bounds :: "int list"
    and observe :: "u64 list \<Rightarrow> int \<Rightarrow> u64 list"
    and percentile :: "(u64 \<Rightarrow> u64) \<Rightarrow> u64 list \<Rightarrow> int"
  assumes bounds_nonempty: "bounds \<noteq> []"
    and bounds_increase: "sorted_wrt (<) bounds"
    and observe_bumps: "observe h d = bump (bucket_scan (butlast bounds) d) h"
    and percentile_scans: "percentile rank h =
      (if sum_list h = 0 then 0
       else percentile_scan 0 (max (rank (sum_list h)) 1) h bounds (last bounds))"
begin

abbreviation bucket :: "int \<Rightarrow> nat" where
  "bucket d \<equiv> bucket_scan (butlast bounds) d"

abbreviation below :: "int list \<Rightarrow> nat \<Rightarrow> nat" where
  "below xs k \<equiv> length (filter (\<lambda>d. bucket d < k) xs)"

lemma bucket_scan_le: "bucket_scan bs d \<le> length bs"
  by (induction bs) auto

lemma bucket_bound: "bucket d < length bounds"
  using bucket_scan_le [of "butlast bounds" d] bounds_nonempty
  by (metis diff_Suc_less le_less_trans length_butlast length_greater_0_conv One_nat_def)

lemma bucket_scan_less_iff:
  "sorted_wrt (<) bs \<Longrightarrow> i < length bs \<Longrightarrow> bucket_scan bs d \<le> i \<longleftrightarrow> d < bs ! i"
proof (induction bs arbitrary: i)
  case (Cons b bs)
  then show ?case by (cases i) (auto simp: less_trans)
qed simp

lemma bucket_less_iff: "k < length bounds - 1 \<Longrightarrow> bucket d < Suc k \<longleftrightarrow> d < bounds ! k"
proof -
  have "sorted_wrt (<) (butlast bounds)"
    using bounds_increase by (metis append_butlast_last_id bounds_nonempty sorted_wrt_append)
  then show "k < length bounds - 1 \<Longrightarrow> ?thesis"
    using bucket_scan_less_iff [of "butlast bounds" k d] by (simp add: less_Suc_eq_le nth_butlast)
qed

lemma observe_all:
  "\<lbrakk>length xs < 2 ^ 64; length h = length bounds; \<forall>i < length bounds. h ! i = 0\<rbrakk> \<Longrightarrow>
     length (foldl observe h xs) = length bounds \<and>
     (\<forall>i < length bounds. foldl observe h xs ! i = word_of_nat (length (filter (\<lambda>d. bucket d = i) xs)))"
proof (induction xs rule: rev_induct)
  case (snoc x xs)
  then show ?case
    using bucket_bound [of x] by (auto simp: observe_bumps bump_def nth_list_update)
qed simp

lemma below_Suc: "below xs (Suc k) = below xs k + length (filter (\<lambda>d. bucket d = k) xs)"
  by (induction xs) auto

lemma below_all: "below xs (length bounds) = length xs"
  using bucket_bound by (simp add: filter_True)

lemma sum_counts:
  assumes "\<forall>i < length bounds. h ! i = (word_of_nat (length (filter (\<lambda>d. bucket d = i) xs)) :: u64)"
    and "length h = length bounds"
  shows "sum_list h = word_of_nat (length xs)"
proof -
  have "k \<le> length bounds \<Longrightarrow> sum_list (take k h) = word_of_nat (below xs k)" for k
  proof (induction k)
    case (Suc k)
    then show ?case
      using assms by (simp add: take_Suc_conv_app_nth below_Suc)
  qed simp
  from this [of "length bounds"] show ?thesis
    using assms(2) below_all [of xs] by simp
qed

lemma percentile_scan_rank:
  assumes "length xs < 2 ^ 64" and "unat target \<le> length xs" and "length h = length bounds"
    and "\<forall>i < length bounds. h ! i = word_of_nat (length (filter (\<lambda>d. bucket d = i) xs))"
    and "k \<le> length bounds" and "\<forall>j < k. below xs (Suc j) < unat target" and "below xs k < unat target"
  shows "\<exists>i < length bounds.
    percentile_scan (word_of_nat (below xs k)) target (drop k h) (drop k bounds) final = bounds ! i \<and>
    unat target \<le> below xs (Suc i) \<and> (\<forall>j < i. below xs (Suc j) < unat target)"
  using assms(5-7)
proof (induction "length bounds - k" arbitrary: k)
  case 0
  then show ?case using below_all [of xs] assms(2) by simp
next
  case (Suc n)
  then have k: "k < length bounds" by simp
  have cum: "word_of_nat (below xs k) + h ! k = word_of_nat (below xs (Suc k))"
    using assms(4) k by (simp add: below_Suc)
  have le: "below xs (Suc k) < 2 ^ 64"
    using assms(1) by (rule le_less_trans [OF length_filter_le])
  have cmp: "target \<le> word_of_nat (below xs (Suc k)) \<longleftrightarrow> unat target \<le> below xs (Suc k)"
    using le by (simp add: word_le_nat_alt unat_of_nat_small)
  have drop: "drop k h = h ! k # drop (Suc k) h" "drop k bounds = bounds ! k # drop (Suc k) bounds"
    using k assms(3) by (simp_all add: Cons_nth_drop_Suc)
  show ?case
  proof (cases "unat target \<le> below xs (Suc k)")
    case True
    then show ?thesis
      using k Suc.prems cmp cum by (intro exI [of _ k]) (simp add: drop)
  next
    case False
    then have "\<forall>j < Suc k. below xs (Suc j) < unat target"
      using Suc.prems by (auto simp: less_Suc_eq)
    then show ?thesis
      using Suc.hyps(1) [of "Suc k"] Suc.hyps(2) k False cmp cum by (simp add: drop)
  qed
qed

text \<open>A percentile answers the least bound that enough samples lie below, or the last bound.\<close>

lemma percentile_rank:
  assumes "xs \<noteq> []" and "length xs < 2 ^ 64" and "unat (max (rank (word_of_nat (length xs))) 1) \<le> length xs"
    and "b = percentile rank (foldl observe (histogram_zero (length bounds)) xs)"
  defines "target \<equiv> unat (max (rank (word_of_nat (length xs))) 1)"
  shows "b \<in> set bounds \<and> (b \<noteq> last bounds \<longrightarrow> target \<le> length (filter (\<lambda>d. d < b) xs)) \<and>
         (\<forall>b' \<in> set bounds. b' < b \<longrightarrow> length (filter (\<lambda>d. d < b') xs) < target)"
proof -
  let ?h = "foldl observe (histogram_zero (length bounds)) xs"
  let ?t = "max (rank (word_of_nat (length xs))) 1 :: u64"
  have h: "length ?h = length bounds"
    "\<forall>i < length bounds. ?h ! i = word_of_nat (length (filter (\<lambda>d. bucket d = i) xs))"
    using observe_all [of xs "histogram_zero (length bounds)"] assms(2) by (simp_all add: histogram_zero_def)
  have tot: "sum_list ?h = word_of_nat (length xs)" using sum_counts h by blast
  have "unat (sum_list ?h) = length xs" using assms(2) tot by (simp add: unat_of_nat_small)
  then have nz: "sum_list ?h \<noteq> 0" using assms(1) by auto
  have "(1 :: u64) \<le> ?t" by (rule max.cobounded2)
  then have tpos: "0 < unat ?t" by (simp only: word_le_nat_alt) simp
  obtain i where i: "i < length bounds" "b = bounds ! i" "unat ?t \<le> below xs (Suc i)"
    "\<forall>j < i. below xs (Suc j) < unat ?t"
    using percentile_scan_rank [OF assms(2,3) h, of 0 "last bounds"] tpos nz
    by (auto simp: assms(4) percentile_scans tot)
  have conv: "below xs (Suc k) = length (filter (\<lambda>d. d < bounds ! k) xs)" if "k < length bounds - 1" for k
    using bucket_less_iff [OF that] by simp
  have "target \<le> length (filter (\<lambda>d. d < b) xs)" if "b \<noteq> last bounds"
  proof -
    have "i \<noteq> length bounds - 1"
      using that i(2) bounds_nonempty by (auto simp: last_conv_nth)
    then show ?thesis using conv [of i] i unfolding target_def by simp
  qed
  moreover have "length (filter (\<lambda>d. d < b') xs) < target" if b': "b' \<in> set bounds" "b' < b" for b'
  proof -
    obtain j where j: "j < length bounds" "b' = bounds ! j"
      using b'(1) by (auto simp: in_set_conv_nth)
    have "\<not> i \<le> j"
      using b'(2) j i(2) sorted_wrt_nth_less [OF bounds_increase, of i j]
      by (cases "i = j") auto
    then have "j < length bounds - 1" "below xs (Suc j) < unat ?t" using i(1,4) by auto
    then show ?thesis using conv [of j] j(2) unfolding target_def by simp
  qed
  ultimately show ?thesis using i(1,2) by simp
qed

end

section \<open>Both histograms keep the contract\<close>

interpretation writeDur: bucket_histogram writeDurBucketMaxNs writeDurHistogram_observe writeDurHistogram_percentile
  by unfold_locales
     (auto simp: writeDurBucketMaxNs_def writeDurHistogram_observe_def writeDurHistogram_percentile_def Let_def)

interpretation cadenceSpacing: bucket_histogram cadenceSpacingBucketMaxNs cadenceSpacingHistogram_observe
    cadenceSpacingHistogram_percentile
  by unfold_locales
     (auto simp: cadenceSpacingBucketMaxNs_def cadenceSpacingHistogram_observe_def
       cadenceSpacingHistogram_percentile_def Let_def)

text \<open>A write-duration percentile is a rank statement about the recorded samples: after any non-empty
  series of writes the answer is the least bucket bound that at least the target number of samples lie
  strictly below, or the display ceiling when only the overflow bucket reaches the target.\<close>

theorem writeDur_percentile_rank:
  assumes "xs \<noteq> []" and "length xs < 2 ^ 64"
    and "unat (max (rank (word_of_nat (length xs))) 1) \<le> length xs"
  shows "let b = writeDurHistogram_percentile rank (foldl writeDurHistogram_observe (histogram_zero 8) xs);
             target = unat (max (rank (word_of_nat (length xs))) 1)
         in b \<in> set writeDurBucketMaxNs \<and>
            (b \<noteq> 100000000 \<longrightarrow> target \<le> length (filter (\<lambda>d. d < b) xs)) \<and>
            (\<forall>b' \<in> set writeDurBucketMaxNs. b' < b \<longrightarrow> length (filter (\<lambda>d. d < b') xs) < target)"
proof -
  have "length writeDurBucketMaxNs = 8" "last writeDurBucketMaxNs = 100000000"
    by (simp_all add: writeDurBucketMaxNs_def)
  then show ?thesis
    using writeDur.percentile_rank [where xs = xs and rank = rank, OF assms refl] unfolding Let_def by simp
qed

theorem writeDur_percentile_rank_witness:
  "let b = writeDurHistogram_percentile (\<lambda>n. n) (foldl writeDurHistogram_observe (histogram_zero 8) [3, 70000])
   in b \<in> set writeDurBucketMaxNs \<and> (b \<noteq> 100000000 \<longrightarrow> 2 \<le> length (filter (\<lambda>d. d < b) [3, 70000 :: int]))"
proof -
  let ?xs = "[3, 70000 :: int]"
  have t: "max (word_of_nat (length ?xs)) 1 = (2 :: u64)" by simp
  have "let b = writeDurHistogram_percentile (\<lambda>n. n) (foldl writeDurHistogram_observe (histogram_zero 8) ?xs);
            target = unat (max (word_of_nat (length ?xs)) 1 :: u64)
         in b \<in> set writeDurBucketMaxNs \<and>
            (b \<noteq> 100000000 \<longrightarrow> target \<le> length (filter (\<lambda>d. d < b) ?xs)) \<and>
            (\<forall>b' \<in> set writeDurBucketMaxNs. b' < b \<longrightarrow> length (filter (\<lambda>d. d < b') ?xs) < target)"
    by (rule writeDur_percentile_rank) simp_all
  then show ?thesis unfolding t Let_def by (simp only: simp_thms unat_numeral) simp
qed

end
