(* ===== verification/Pacer.thy ===== *)
theory Pacer
  imports Rtp_Forwarder Retransmission Histogram
begin

text \<open>
  The production downlink worker (\<^verbatim>\<open>pacer.go\<close>, \<^verbatim>\<open>forward_pacer.go\<close>, \<^verbatim>\<open>pacer_retransmission.go\<close> and the sort of
  \<^verbatim>\<open>pacer_scheduler.go\<close> under \<^verbatim>\<open>internal/media/downlink\<close>): a pool of owned packets, a bounded queue filled by
  the session, and one worker that translates, reorders, writes and retains packets for repair.
  A pointer to an owned packet is its index in the pool, so the aliasing of queue, worker and repair
  cache is explicit.  The RTP library's size and wire functions are an argument of type \<open>pion\<close>; the answers of the
  transport writer and the clock readings are arguments of the steps.
\<close>

unbundle bit_operations_syntax

definition defaultPacerCapacity :: nat where "defaultPacerCapacity = 32"
definition defaultPacerMaxQueueAge :: duration where "defaultPacerMaxQueueAge = 120 * millisecond"
definition defaultForwardReorderWait :: duration where "defaultForwardReorderWait = 40 * millisecond"
definition maxPacerPacketBytes :: nat where "maxPacerPacketBytes = 1460"
definition maxPacerHeaderExtensionsCount :: nat where
  "maxPacerHeaderExtensionsCount = maxPacerPacketBytes div 2"
definition ownedPacerPacketCount :: nat where
  "ownedPacerPacketCount = retransmissionCachePackets + 2 * defaultPacerCapacity + 1"

record pion =
  MarshalSize :: "rtp_packet \<Rightarrow> nat"
  HeaderMarshalSize :: "rtp_packet \<Rightarrow> nat"
  MarshalTo :: "rtp_packet \<Rightarrow> bytes option"
  HeaderUnmarshal :: "bytes \<Rightarrow> (rtp_packet \<times> nat) option"

definition withinPacerPacketBounds :: "pion \<Rightarrow> rtp_packet \<Rightarrow> bool" where
  "withinPacerPacketBounds pn packet =
     (if length (CSRC packet) > 15 \<or> length (Extensions packet) > maxPacerHeaderExtensionsCount then False
      else if Extension packet \<and> ExtensionProfile packet \<noteq> 0xbede \<and> ExtensionProfile packet \<noteq> 0x1000 \<and>
              length (Extensions packet) = 0 then False
      else MarshalSize pn packet \<le> maxPacerPacketBytes)"

record ownedPacerPacket =
  claimed :: bool
  owned_packet :: rtp_packet

record pacedPacket =
  owned :: nat
  enqueuedAt :: time
  extSeq :: int
  pp_source :: SourceIdentity
  captureTime :: time
  captureTimeKnown :: bool

record forwardOutputState =
  out_haveOutput :: bool
  out_lastOutputSequence :: u16
  out_lastOutputTimestampSamples :: u32
  lastSendAtNs :: int

record pacerStats =
  enqueuedCount :: u64
  completedCount :: u64
  sentCount :: u64
  queueFullDrops :: u64
  staleDrops :: u64
  queuePeak :: u64
  maxQueueAgeNs :: u64
  queueAgeHist :: "u64 list"
  lastSpacingNs :: u64
  maxSpacingNs :: u64
  spacingHist :: "u64 list"
  maxTimerWaitNs :: u64
  maxTimerOversleepNs :: u64
  maxWriterDurationNs :: u64
  writerBlockedCount :: u64
  paddingPacketCount :: u64
  sourcePaddingStrippedCount :: u64
  gapTimeoutCount :: u64
  timelineResets :: u64
  nackQueueDrops :: u64
  nackCacheHits :: u64
  nackCacheMisses :: u64
  nackThrottled :: u64
  retransmitSentCount :: u64
  retransmitErrorCount :: u64
  outputSequenceDiscontinuityCount :: u64
  outputTimestampDiscontinuityCount :: u64
  outputMaxSequenceDelta :: u64
  outputMaxTimestampDeltaSamples :: u64

text \<open>Where the worker stands in \<^verbatim>\<open>runForward\<close>: at the select with nothing pending, draining the queue, in the
  gap wait, about to take the first pending packet, or past its deferred cleanup.\<close>

datatype worker_pc = AtSelect | Draining | GapWait | Releasing | Exited

record pacer =
  queue :: "pacedPacket list"
  nacks :: "u16 list"
  stopped :: bool
  enqueueState :: u64
  nextOwnedSlot :: u32
  ownedPackets :: "ownedPacerPacket list"
  maxQueueAge :: duration
  stats :: pacerStats
  cache :: "nat retransmissionCache"
  translator :: rtpForwardTranslator
  fw_unwrapper :: sequenceUnwrapper
  fw_output :: forwardOutputState
  pending :: "pacedPacket list"
  fw_haveReleased :: bool
  fw_lastReleasedExtSeq :: int
  worker :: worker_pc

definition empty_packet :: rtp_packet where
  "empty_packet = \<lparr>Padding = False, Extension = False, Marker = False, RtpPayloadType = 0, SequenceNumber = 0,
     Timestamp = 0, SSRC = 0, CSRC = [], ExtensionProfile = 0, Extensions = [], RtpPayload = [],
     PaddingSize = 0\<rparr>"

definition stats_zero :: pacerStats where
  "stats_zero = \<lparr>enqueuedCount = 0, completedCount = 0, sentCount = 0, queueFullDrops = 0, staleDrops = 0,
     queuePeak = 0, maxQueueAgeNs = 0, queueAgeHist = histogram_zero 16, lastSpacingNs = 0, maxSpacingNs = 0,
     spacingHist = histogram_zero 16, maxTimerWaitNs = 0, maxTimerOversleepNs = 0, maxWriterDurationNs = 0,
     writerBlockedCount = 0, paddingPacketCount = 0, sourcePaddingStrippedCount = 0, gapTimeoutCount = 0,
     timelineResets = 0, nackQueueDrops = 0, nackCacheHits = 0, nackCacheMisses = 0, nackThrottled = 0,
     retransmitSentCount = 0, retransmitErrorCount = 0, outputSequenceDiscontinuityCount = 0,
     outputTimestampDiscontinuityCount = 0, outputMaxSequenceDelta = 0, outputMaxTimestampDeltaSamples = 0\<rparr>"

definition newAudioForwardPacer :: pacer where
  "newAudioForwardPacer = \<lparr>queue = [], nacks = [], stopped = False, enqueueState = 0, nextOwnedSlot = 0,
     ownedPackets = replicate ownedPacerPacketCount \<lparr>claimed = False, owned_packet = empty_packet\<rparr>,
     maxQueueAge = defaultPacerMaxQueueAge, stats = stats_zero, cache = cache_zero,
     translator = translator_zero, fw_unwrapper = unwrapper_zero,
     fw_output = \<lparr>out_haveOutput = False, out_lastOutputSequence = 0, out_lastOutputTimestampSamples = 0,
               lastSendAtNs = 0\<rparr>,
     pending = [], fw_haveReleased = False, fw_lastReleasedExtSeq = 0, worker = AtSelect\<rparr>"

abbreviation upd_stats :: "(pacerStats \<Rightarrow> pacerStats) \<Rightarrow> pacer \<Rightarrow> pacer" where
  "upd_stats f p \<equiv> p\<lparr>stats := f (stats p)\<rparr>"

definition owned_release :: "nat \<Rightarrow> ownedPacerPacket list \<Rightarrow> ownedPacerPacket list" where
  "owned_release i pool = pool[i := \<lparr>claimed = False, owned_packet = empty_packet\<rparr>]"

section \<open>Enqueue\<close>

text \<open>The first unclaimed slot in ring order from the start slot.\<close>

definition claim_slot :: "ownedPacerPacket list \<Rightarrow> nat \<Rightarrow> nat option" where
  "claim_slot pool startSlot =
     find (\<lambda>i. \<not> claimed (pool ! i)) (map (\<lambda>offset. (startSlot + offset) mod length pool) [0..<length pool])"

datatype pacer_error = ErrPacerPacketBounds

definition enqueueOwned ::
  "pion \<Rightarrow> pacer \<Rightarrow> rtp_packet \<Rightarrow> SourceIdentity \<Rightarrow> time \<Rightarrow> bool \<Rightarrow> time \<Rightarrow> pacer_error option \<times> pacer" where
  "enqueueOwned pn p pkt source ct ctKnown now =
     (if \<not> withinPacerPacketBounds pn pkt then (Some ErrPacerPacketBounds, p)
      else
        let slotWord = nextOwnedSlot p + 1;
            p1 = p\<lparr>nextOwnedSlot := slotWord\<rparr>;
            startSlot = unat (slotWord mod word_of_nat (length (ownedPackets p)))
        in case claim_slot (ownedPackets p) startSlot of
             None \<Rightarrow> (None, upd_stats (\<lambda>s. s\<lparr>queueFullDrops := queueFullDrops s + 1\<rparr>) p1)
           | Some i \<Rightarrow>
               let pool = (ownedPackets p)[i := \<lparr>claimed = True, owned_packet = pkt\<rparr>];
                   item = \<lparr>owned = i, enqueuedAt = now, extSeq = 0, pp_source = source, captureTime = ct,
                           captureTimeKnown = ctKnown\<rparr>
               in if length (queue p) < defaultPacerCapacity then
                    let enqueued = enqueuedCount (stats p) + 1;
                        depth = enqueued - min enqueued (completedCount (stats p))
                    in (None, upd_stats (\<lambda>s. s\<lparr>enqueuedCount := enqueued, queuePeak := max (queuePeak s) depth\<rparr>)
                          (p1\<lparr>ownedPackets := pool, queue := queue p @ [item]\<rparr>))
                  else (None, upd_stats (\<lambda>s. s\<lparr>queueFullDrops := queueFullDrops s + 1\<rparr>)
                          (p1\<lparr>ownedPackets := owned_release i pool\<rparr>)))"

text \<open>\<^verbatim>\<open>EnqueueSource\<close> admits the producer, enqueues and leaves; the count of producers is back where it was.\<close>

definition pacerAdmissionClosed :: u64 where "pacerAdmissionClosed = push_bit 63 1"

definition EnqueueSource ::
  "pion \<Rightarrow> pacer \<Rightarrow> rtp_packet \<Rightarrow> SourceIdentity \<Rightarrow> time \<Rightarrow> bool \<Rightarrow> time \<Rightarrow> pacer_error option \<times> pacer" where
  "EnqueueSource pn p pkt source ct ctKnown now =
     (if enqueueState p AND pacerAdmissionClosed \<noteq> 0 then (None, p)
      else let (err, p') = enqueueOwned pn (p\<lparr>enqueueState := enqueueState p + 1\<rparr>) pkt source ct ctKnown now
           in (err, p'\<lparr>enqueueState := enqueueState p' - 1\<rparr>))"

definition HandleNACK :: "pacer \<Rightarrow> u16 \<Rightarrow> pacer" where
  "HandleNACK p sq =
     (if stopped p then p
      else if length (nacks p) < defaultPacerCapacity then p\<lparr>nacks := nacks p @ [sq]\<rparr>
      else upd_stats (\<lambda>s. s\<lparr>nackQueueDrops := nackQueueDrops s + 1\<rparr>) p)"

definition SetRTT :: "pacer \<Rightarrow> duration \<Rightarrow> pacer" where
  "SetRTT p rtt = p\<lparr>cache := setRTT (cache p) rtt\<rparr>"

section \<open>Writes\<close>

definition scratch_copy :: "pion \<Rightarrow> rtp_packet \<Rightarrow> rtp_packet option" where
  "scratch_copy pn packet =
     (if \<not> withinPacerPacketBounds pn packet then None
      else case MarshalTo pn packet of
        None \<Rightarrow> None
      | Some wire \<Rightarrow>
          (case HeaderUnmarshal pn (wire @ [0]) of
             None \<Rightarrow> None
           | Some (hdr, headerBytes) \<Rightarrow>
               if headerBytes \<noteq> HeaderMarshalSize pn packet \<or>
                  headerBytes + length (RtpPayload packet) > length wire then None
               else Some (hdr\<lparr>RtpPayload := slice headerBytes (headerBytes + length (RtpPayload packet)) wire,
                              PaddingSize := PaddingSize packet\<rparr>)))"

text \<open>\<^verbatim>\<open>writeOwnedPacket\<close> fails when the scratch copy does, and otherwise with the writer's answer.\<close>

definition writeOwnedPacket :: "pion \<Rightarrow> rtp_packet \<Rightarrow> bool \<Rightarrow> bool" where
  "writeOwnedPacket pn packet writer_ok = (case scratch_copy pn packet of None \<Rightarrow> False | Some _ \<Rightarrow> writer_ok)"

definition retransmit :: "pion \<Rightarrow> pacer \<Rightarrow> u16 \<Rightarrow> time \<Rightarrow> bool \<Rightarrow> pacer" where
  "retransmit pn p sq now writer_ok =
     (let ((pkt, hit, throttled), c) =
            cache_load (\<lambda>i. SequenceNumber (owned_packet (ownedPackets p ! i))) (cache p) sq now;
          p1 = p\<lparr>cache := c\<rparr>
      in if \<not> hit then upd_stats (\<lambda>s. s\<lparr>nackCacheMisses := nackCacheMisses s + 1\<rparr>) p1
         else
           let p2 = upd_stats (\<lambda>s. s\<lparr>nackCacheHits := nackCacheHits s + 1\<rparr>) p1 in
           case (throttled, pkt) of
             (False, Some i) \<Rightarrow>
               if \<not> writeOwnedPacket pn (owned_packet (ownedPackets p ! i)) writer_ok
               then upd_stats (\<lambda>s. s\<lparr>retransmitErrorCount := retransmitErrorCount s + 1\<rparr>) p2
               else upd_stats (\<lambda>s. s\<lparr>retransmitSentCount := retransmitSentCount s + 1\<rparr>) p2
           | _ \<Rightarrow> upd_stats (\<lambda>s. s\<lparr>nackThrottled := nackThrottled s + 1\<rparr>) p2)"

definition stripSourceMediaPadding :: "rtp_packet \<Rightarrow> bool \<times> rtp_packet" where
  "stripSourceMediaPadding packet =
     (if \<not> Padding packet \<or> length (RtpPayload packet) = 0 then (False, packet)
      else (True, packet\<lparr>Padding := False, PaddingSize := 0\<rparr>))"

section \<open>The worker\<close>

text \<open>The inner loop of the insertion sort walks left over the sorted prefix, kept here in reverse.\<close>

fun shift_left :: "pacedPacket \<Rightarrow> pacedPacket list \<Rightarrow> pacedPacket list" where
  "shift_left item [] = [item]"
| "shift_left item (y # ys) = (if extSeq item < extSeq y then y # shift_left item ys else item # y # ys)"

definition sortPacedPacketsByExtendedSequence :: "pacedPacket list \<Rightarrow> pacedPacket list" where
  "sortPacedPacketsByExtendedSequence items = rev (foldl (\<lambda>prefix item. shift_left item prefix) [] items)"

definition prepareForwardItem :: "pacer \<Rightarrow> pacedPacket \<Rightarrow> pacedPacket \<times> pacer" where
  "prepareForwardItem p item =
     (let (reset, pkt, t) = translateAt (translator p) (owned_packet (ownedPackets p ! owned item))
                              (pp_source item) (enqueuedAt item);
          p1 = p\<lparr>translator := t,
                 ownedPackets := (ownedPackets p)[owned item := (ownedPackets p ! owned item)\<lparr>owned_packet := pkt\<rparr>]\<rparr>;
          p2 = (if reset then upd_stats (\<lambda>s. s\<lparr>timelineResets := timelineResets s + 1\<rparr>) p1 else p1);
          (ext, u) = unwrap (fw_unwrapper p2) (SequenceNumber pkt)
      in (item\<lparr>extSeq := ext\<rparr>, p2\<lparr>fw_unwrapper := u\<rparr>))"

text \<open>Receiving one packet from the queue into the next free pending position.\<close>

definition receive_pending :: "pacer \<Rightarrow> pacer" where
  "receive_pending p =
     (case queue p of
        [] \<Rightarrow> p
      | item # rest \<Rightarrow>
          let (item', p') = prepareForwardItem (p\<lparr>queue := rest\<rparr>) item
          in p'\<lparr>pending := pending p' @ [item']\<rparr>)"

definition gap_open :: "pacer \<Rightarrow> bool" where
  "gap_open p \<longleftrightarrow> fw_haveReleased p \<and> extSeq (hd (pending p)) > int64 (fw_lastReleasedExtSeq p + 1) \<and>
     length (pending p) < defaultPacerCapacity + 1"

definition gap_deadline :: "pacer \<Rightarrow> time" where
  "gap_deadline p =
     foldl (\<lambda>started item. if enqueuedAt item < started then enqueuedAt item else started)
       (enqueuedAt (hd (pending p))) (tl (pending p)) + defaultForwardReorderWait"

text \<open>The clock readings of one \<^verbatim>\<open>writeForwardItem\<close>: when its age is taken, how long the write lasts, and the
  time after it.\<close>

record write_clock =
  age_at :: time
  write_ns :: duration
  after_write :: time

definition observe_output :: "forwardOutputState \<Rightarrow> rtp_packet \<Rightarrow> pacerStats \<Rightarrow> pacerStats" where
  "observe_output out pkt s =
     (if out_haveOutput out then
        let sequenceDeltaCount = SequenceNumber pkt - out_lastOutputSequence out;
            timestampDeltaSamples = Timestamp pkt - out_lastOutputTimestampSamples out
        in s\<lparr>outputSequenceDiscontinuityCount :=
               outputSequenceDiscontinuityCount s + (if sequenceDeltaCount \<noteq> 1 then 1 else 0),
             outputTimestampDiscontinuityCount :=
               outputTimestampDiscontinuityCount s +
               (if timestampDeltaSamples \<noteq> defaultAudioFrameSamples then 1 else 0),
             outputMaxSequenceDelta := max (outputMaxSequenceDelta s) (ucast sequenceDeltaCount),
             outputMaxTimestampDeltaSamples :=
               max (outputMaxTimestampDeltaSamples s) (ucast timestampDeltaSamples)\<rparr>
      else s)"

definition observe_spacing :: "int \<Rightarrow> int \<Rightarrow> pacerStats \<Rightarrow> pacerStats" where
  "observe_spacing previousNs nowNs s =
     (if previousNs \<noteq> 0 \<and> nowNs > previousNs then
        let spacingNs = (word_of_int (nowNs - previousNs) :: u64)
        in s\<lparr>lastSpacingNs := spacingNs,
             spacingHist := cadenceSpacingHistogram_observe (spacingHist s) (sint spacingNs),
             maxSpacingNs := max (maxSpacingNs s) spacingNs\<rparr>
      else s)"

definition observe_age :: "duration \<Rightarrow> pacer \<Rightarrow> pacer" where
  "observe_age queueAgeNs p =
     upd_stats (\<lambda>s. s\<lparr>queueAgeHist := cadenceSpacingHistogram_observe (queueAgeHist s) queueAgeNs,
                     maxQueueAgeNs := max (maxQueueAgeNs s) (word_of_int (max queueAgeNs 0))\<rparr>) p"

definition drop_stale :: "nat \<Rightarrow> pacer \<Rightarrow> pacer" where
  "drop_stale i p =
     upd_stats (\<lambda>s. s\<lparr>staleDrops := staleDrops s + 1, completedCount := completedCount s + 1\<rparr>)
       (p\<lparr>ownedPackets := owned_release i (ownedPackets p)\<rparr>)"

definition strip_padding :: "nat \<Rightarrow> pacer \<Rightarrow> rtp_packet \<times> pacer" where
  "strip_padding i p =
     (let pkt0 = owned_packet (ownedPackets p ! i);
          (stripped, pkt) = stripSourceMediaPadding pkt0
      in (pkt, upd_stats (\<lambda>s. s\<lparr>paddingPacketCount := paddingPacketCount s + (if Padding pkt0 then 1 else 0),
                              sourcePaddingStrippedCount :=
                                sourcePaddingStrippedCount s + (if stripped then 1 else 0)\<rparr>)
                 (p\<lparr>ownedPackets := (ownedPackets p)[i := (ownedPackets p ! i)\<lparr>owned_packet := pkt\<rparr>]\<rparr>)))"

definition observe_write :: "duration \<Rightarrow> pacer \<Rightarrow> pacer" where
  "observe_write writeDuration p =
     upd_stats (\<lambda>s. s\<lparr>maxWriterDurationNs := max (maxWriterDurationNs s) (word_of_int writeDuration),
                     writerBlockedCount :=
                       writerBlockedCount s + (if writeDuration > 100 * millisecond then 1 else 0)\<rparr>) p"

text \<open>A written packet moves into the repair cache; the packet it evicts there is released.\<close>

definition retain_written :: "nat \<Rightarrow> rtp_packet \<Rightarrow> pacer \<Rightarrow> pacer" where
  "retain_written i pkt p =
     (let (previous, c) = cache_replace (cache p) (SequenceNumber pkt) i (Some i);
          pool = (case previous of None \<Rightarrow> ownedPackets p | Some j \<Rightarrow> owned_release j (ownedPackets p))
      in upd_stats (\<lambda>s. observe_output (fw_output p) pkt (s\<lparr>sentCount := sentCount s + 1\<rparr>))
           (p\<lparr>cache := c, ownedPackets := pool,
              fw_output := (fw_output p)\<lparr>out_haveOutput := True, out_lastOutputSequence := SequenceNumber pkt,
                out_lastOutputTimestampSamples := Timestamp pkt\<rparr>\<rparr>))"

definition complete_one :: "pacer \<Rightarrow> pacer" where
  "complete_one p = upd_stats (\<lambda>s. s\<lparr>completedCount := completedCount s + 1\<rparr>) p"

definition observe_send :: "int \<Rightarrow> pacer \<Rightarrow> pacer" where
  "observe_send nowNs p =
     upd_stats (observe_spacing (lastSendAtNs (fw_output p)) nowNs)
       (p\<lparr>fw_output := (fw_output p)\<lparr>lastSendAtNs := nowNs\<rparr>\<rparr>)"

definition writeForwardItem :: "pion \<Rightarrow> pacer \<Rightarrow> pacedPacket \<Rightarrow> write_clock \<Rightarrow> bool \<Rightarrow> pacer" where
  "writeForwardItem pn p item clk writer_ok =
     (let queueAgeNs = time_Sub (age_at clk) (enqueuedAt item);
          p1 = observe_age queueAgeNs p
      in if queueAgeNs > maxQueueAge p then drop_stale (owned item) p1
         else
           let (pkt, p2) = strip_padding (owned item) p1;
               p3 = observe_write (write_ns clk) p2;
               p4 = (if writeOwnedPacket pn pkt writer_ok then retain_written (owned item) pkt p3
                     else p3\<lparr>ownedPackets := owned_release (owned item) (ownedPackets p3)\<rparr>);
               p5 = complete_one p4
           in if Padding pkt then p5 else observe_send (after_write clk) p5)"

definition release_first :: "pion \<Rightarrow> pacer \<Rightarrow> write_clock \<Rightarrow> bool \<Rightarrow> pacer" where
  "release_first pn p clk writer_ok =
     (let item = hd (pending p);
          p1 = p\<lparr>pending := tl (pending p)\<rparr>;
          p2 = (if \<not> fw_haveReleased p1 \<or> extSeq item > fw_lastReleasedExtSeq p1
                then p1\<lparr>fw_haveReleased := True, fw_lastReleasedExtSeq := extSeq item\<rparr> else p1)
      in writeForwardItem pn p2 item clk writer_ok)"

text \<open>The worker's deferred cleanup: the pending packets are released and counted, then the cache is cleared.\<close>

definition worker_exit :: "pacer \<Rightarrow> pacer" where
  "worker_exit p =
     (let pool = foldl (\<lambda>pool item. owned_release (owned item) pool) (ownedPackets p) (pending p);
          (owners, c) = cache_clear (cache p)
      in upd_stats (\<lambda>s. s\<lparr>completedCount := completedCount s + word_of_nat (length (pending p))\<rparr>)
           (p\<lparr>ownedPackets := foldl (\<lambda>pool i. owned_release i pool) pool owners, cache := c,
              pending := [], worker := Exited\<rparr>))"

text \<open>\<^verbatim>\<open>Stop\<close> after the worker has exited: the packets still queued are released and counted.\<close>

definition stop_drain :: "pacer \<Rightarrow> pacer" where
  "stop_drain p =
     upd_stats (\<lambda>s. s\<lparr>completedCount := completedCount s + word_of_nat (length (queue p))\<rparr>)
       (p\<lparr>ownedPackets := foldl (\<lambda>pool item. owned_release (owned item) pool) (ownedPackets p) (queue p),
          queue := []\<rparr>)"

text \<open>
  One step of a downlink: a producer enqueues, a NACK or an RTT sample arrives, \<^verbatim>\<open>Stop\<close> is called, or the worker
  runs from one select to the next.  Where a select has several ready cases every one of them is a step.
\<close>

definition observe_wait :: "time \<Rightarrow> pacer \<Rightarrow> pacer" where
  "observe_wait now p =
     upd_stats (\<lambda>s. s\<lparr>maxTimerWaitNs := max (maxTimerWaitNs s) (word_of_int (time_Sub (gap_deadline p) now))\<rparr>) p"

definition gap_timeout :: "time \<Rightarrow> pacer \<Rightarrow> pacer" where
  "gap_timeout now p =
     (let oversleep = time_Sub now (gap_deadline p) in
      upd_stats (\<lambda>s. s\<lparr>gapTimeoutCount := gapTimeoutCount s + 1,
          maxTimerOversleepNs := (if oversleep > 0 then max (maxTimerOversleepNs s) (word_of_int oversleep)
                                  else maxTimerOversleepNs s)\<rparr>) p)"

inductive pacer_step :: "pion \<Rightarrow> pacer \<Rightarrow> pacer \<Rightarrow> bool" for pn where
  enqueue: "pacer_step pn p (snd (EnqueueSource pn p pkt source ct known now))"
| nack: "pacer_step pn p (HandleNACK p sq)"
| rtt: "pacer_step pn p (SetRTT p d)"
| select_nack: "\<lbrakk>worker p = AtSelect; pending p = []; nacks p = sq # rest\<rbrakk> \<Longrightarrow>
    pacer_step pn p (retransmit pn (p\<lparr>nacks := rest\<rparr>) sq now ok)"
| select_receive: "\<lbrakk>worker p = AtSelect; pending p = []; queue p \<noteq> []\<rbrakk> \<Longrightarrow>
    pacer_step pn p ((receive_pending p)\<lparr>worker := Draining\<rparr>)"
| select_pending: "\<lbrakk>worker p = AtSelect; pending p \<noteq> []\<rbrakk> \<Longrightarrow> pacer_step pn p (p\<lparr>worker := Draining\<rparr>)"
| drain_receive: "\<lbrakk>worker p = Draining; length (pending p) < defaultPacerCapacity + 1; queue p \<noteq> []\<rbrakk> \<Longrightarrow>
    pacer_step pn p (receive_pending p)"
| drained: "\<lbrakk>worker p = Draining; length (pending p) = defaultPacerCapacity + 1 \<or> queue p = []\<rbrakk> \<Longrightarrow>
    pacer_step pn p (p\<lparr>pending := sortPacedPacketsByExtendedSequence (pending p), worker := GapWait\<rparr>)"
| gap_closed: "\<lbrakk>worker p = GapWait; \<not> gap_open p\<rbrakk> \<Longrightarrow> pacer_step pn p (p\<lparr>worker := Releasing\<rparr>)"
| gap_expired: "\<lbrakk>worker p = GapWait; gap_open p; time_Sub (gap_deadline p) now \<le> 0\<rbrakk> \<Longrightarrow>
    pacer_step pn p (upd_stats (\<lambda>s. s\<lparr>gapTimeoutCount := gapTimeoutCount s + 1\<rparr>) (p\<lparr>worker := Releasing\<rparr>))"
| gap_nack: "\<lbrakk>worker p = GapWait; gap_open p; time_Sub (gap_deadline p) now > 0; nacks p = sq # rest\<rbrakk> \<Longrightarrow>
    pacer_step pn p (retransmit pn ((observe_wait now p)\<lparr>nacks := rest\<rparr>) sq now' ok)"
| gap_receive: "\<lbrakk>worker p = GapWait; gap_open p; time_Sub (gap_deadline p) now > 0; queue p \<noteq> [];
     p' = receive_pending (observe_wait now p)\<rbrakk> \<Longrightarrow>
    pacer_step pn p (p'\<lparr>pending := sortPacedPacketsByExtendedSequence (pending p')\<rparr>)"
| gap_timer: "\<lbrakk>worker p = GapWait; gap_open p; time_Sub (gap_deadline p) now > 0\<rbrakk> \<Longrightarrow>
    pacer_step pn p ((gap_timeout now' (observe_wait now p))\<lparr>worker := Releasing\<rparr>)"
| release_one: "worker p = Releasing \<Longrightarrow> pacer_step pn p ((release_first pn p clk ok)\<lparr>worker := AtSelect\<rparr>)"
| stop: "pacer_step pn p (p\<lparr>stopped := True, enqueueState := enqueueState p OR pacerAdmissionClosed\<rparr>)"
| exit_select: "\<lbrakk>stopped p; worker p = AtSelect; pending p = []\<rbrakk> \<Longrightarrow> pacer_step pn p (worker_exit p)"
| exit_gap: "\<lbrakk>stopped p; worker p = GapWait; gap_open p; time_Sub (gap_deadline p) now > 0\<rbrakk> \<Longrightarrow>
    pacer_step pn p (worker_exit (observe_wait now p))"
| drain_queue: "\<lbrakk>stopped p; worker p = Exited\<rbrakk> \<Longrightarrow> pacer_step pn p (stop_drain p)"

inductive pacer_reachable :: "pion \<Rightarrow> pacer \<Rightarrow> bool" for pn where
  start: "pacer_reachable pn newAudioForwardPacer"
| step: "\<lbrakk>pacer_reachable pn p; pacer_step pn p p'\<rbrakk> \<Longrightarrow> pacer_reachable pn p'"

end
