(* ===== verification/Pacer_Invariant.thy ===== *)
theory Pacer_Invariant
  imports Pacer
begin

text \<open>
  Ownership and accounting of the downlink worker.  Every claimed packet of the pool is referenced from exactly
  one place, the queue, the worker's pending packets or the repair cache, and every enqueued packet is
  queued, pending or completed.  The two facts are one invariant of the step relation of theory
  \<^verbatim>\<open>Pacer\<close>, with one preservation lemma per operation.
\<close>

section \<open>The sort\<close>

lemma shift_left_mset: "mset (shift_left x ys) = add_mset x (mset ys)"
  by (induction ys) auto

lemma shift_left_set [simp]: "set (shift_left x ys) = insert x (set ys)"
  by (induction ys) auto

lemma shift_left_sorted:
  "sorted_wrt (\<lambda>a b. extSeq b \<le> extSeq a) ys \<Longrightarrow> sorted_wrt (\<lambda>a b. extSeq b \<le> extSeq a) (shift_left x ys)"
proof (induction ys)
  case (Cons y ys)
  then show ?case by (cases "extSeq x < extSeq y") (auto intro: order_trans)
qed simp

lemma shift_left_filter:
  "sorted_wrt (\<lambda>a b. extSeq b \<le> extSeq a) ys \<Longrightarrow>
     filter (\<lambda>y. extSeq y = k) (shift_left x ys) =
     (if extSeq x = k then x # filter (\<lambda>y. extSeq y = k) ys else filter (\<lambda>y. extSeq y = k) ys)"
  by (induction ys) auto

lemma sort_fold:
  defines "f \<equiv> foldl (\<lambda>prefix item. shift_left item prefix) []"
  shows "mset (f xs) = mset xs \<and> sorted_wrt (\<lambda>a b. extSeq b \<le> extSeq a) (f xs) \<and>
         filter (\<lambda>y. extSeq y = k) (f xs) = rev (filter (\<lambda>y. extSeq y = k) xs)"
  unfolding f_def
  by (induction xs rule: rev_induct) (auto simp: shift_left_mset shift_left_sorted shift_left_filter)

text \<open>C27. The in-place insertion sort of the pending packets is a stable sort by extended sequence number: it
  equals the library's \<open>sort_key\<close>, so packets with equal numbers keep their arrival order.\<close>

theorem sortPacedPackets_stable:
  "sortPacedPacketsByExtendedSequence items = sort_key extSeq items"
proof (rule properties_for_sort_key [symmetric])
  note f = sort_fold [of items]
  show "mset (sortPacedPacketsByExtendedSequence items) = mset items"
    using f by (simp add: sortPacedPacketsByExtendedSequence_def)
  show "filter (\<lambda>x. extSeq k = extSeq x) (sortPacedPacketsByExtendedSequence items) =
      filter (\<lambda>x. extSeq k = extSeq x) items" for k
    using sort_fold [of items "extSeq k"]
    by (simp add: sortPacedPacketsByExtendedSequence_def eq_commute [of "extSeq k"] flip: rev_filter)
  show "sorted (map extSeq (sortPacedPacketsByExtendedSequence items))"
    using f by (simp add: sortPacedPacketsByExtendedSequence_def sorted_wrt_rev sorted_map)
qed

lemma sort_mset [simp]: "mset (sortPacedPacketsByExtendedSequence xs) = mset xs"
  using sort_fold [of xs] by (simp add: sortPacedPacketsByExtendedSequence_def)

lemma sort_length [simp]: "length (sortPacedPacketsByExtendedSequence xs) = length xs"
  using sort_mset by (metis size_mset)

lemma sort_sorted: "sorted (map extSeq (sortPacedPacketsByExtendedSequence xs))"
  using sort_fold [of xs] by (simp add: sortPacedPacketsByExtendedSequence_def sorted_wrt_rev sorted_map)

section \<open>Ownership\<close>

definition claimed_slots :: "ownedPacerPacket list \<Rightarrow> nat set" where
  "claimed_slots pool = {i. i < length pool \<and> claimed (pool ! i)}"

definition cache_owners :: "nat retransmissionCache \<Rightarrow> nat multiset" where
  "cache_owners c = mset (List.map_filter slot_owned (slots c))"

definition references :: "pacer \<Rightarrow> nat multiset" where
  "references p = mset (map owned (queue p)) + mset (map owned (pending p)) + cache_owners (cache p)"

lemma finite_claimed_slots [simp]: "finite (claimed_slots pool)"
  by (simp add: claimed_slots_def)

lemma claimed_slots_claim:
  "i < length pool \<Longrightarrow> claimed_slots (pool[i := \<lparr>claimed = True, owned_packet = pkt\<rparr>]) = insert i (claimed_slots pool)"
  by (auto simp: claimed_slots_def nth_list_update_in split: if_splits)

lemma claimed_slots_packet:
  "claimed_slots (pool[i := (pool ! i)\<lparr>owned_packet := pkt\<rparr>]) = claimed_slots pool"
  by (auto simp: claimed_slots_def nth_list_update_in split: if_splits)

lemma claimed_slots_release: "claimed_slots (owned_release i pool) = claimed_slots pool - {i}"
  by (auto simp: claimed_slots_def owned_release_def nth_list_update_in split: if_splits)

lemma length_owned_release [simp]: "length (owned_release i pool) = length pool"
  by (simp add: owned_release_def)

lemma map_filter_update:
  "k < length xs \<Longrightarrow>
     mset (List.map_filter f (xs[k := x])) + mset_set (set_option (f (xs ! k))) =
     mset (List.map_filter f xs) + mset_set (set_option (f x))"
proof (induction xs arbitrary: k)
  case (Cons y ys)
  then show ?case
    by (cases k) (auto simp: map_filter_simps split: option.splits)
qed simp

lemma cache_replace_owners:
  assumes "cache_ok c" and "cache_replace c sq i (Some i) = (previous, c')"
  shows "cache_owners c' + mset_set (set_option previous) = add_mset i (cache_owners c)"
proof -
  have "slot_index sq < length (slots c)"
    using assms(1) by (simp add: cache_ok_def retransmissionCachePackets_def)
  from map_filter_update [OF this, of slot_owned] show ?thesis
    using assms(2) by (auto simp: cache_replace_def cache_owners_def Let_def)
qed

lemma cache_load_owners:
  "cache_ok c \<Longrightarrow> cache_owners (snd (cache_load seqof c sq now)) = cache_owners c"
proof -
  have "List.map_filter slot_owned xs = List.map_filter id (map slot_owned xs)" for xs :: "nat retransmissionSlot list"
    by (induction xs) (auto simp: map_filter_simps split: option.splits)
  then show "cache_ok c \<Longrightarrow> ?thesis"
    using cache_load_packets(2) [of c seqof sq now] by (simp add: cache_owners_def)
qed

text \<open>The invariant: ownership and accounting, the bounds, and what each worker position guarantees.\<close>

definition pool_ok :: "pacer \<Rightarrow> nat multiset \<Rightarrow> bool" where
  "pool_ok p held \<longleftrightarrow> length (ownedPackets p) = ownedPacerPacketCount \<and> cache_ok (cache p) \<and>
     references p + held = mset_set (claimed_slots (ownedPackets p))"

definition bounds_ok :: "pacer \<Rightarrow> bool" where
  "bounds_ok p \<longleftrightarrow> length (queue p) \<le> defaultPacerCapacity \<and> length (pending p) \<le> defaultPacerCapacity + 1 \<and>
     length (nacks p) \<le> defaultPacerCapacity"

definition count_ok :: "pacer \<Rightarrow> u64 \<Rightarrow> bool" where
  "count_ok p held \<longleftrightarrow>
     enqueuedCount (stats p) = completedCount (stats p) + word_of_nat (length (queue p) + length (pending p)) + held"

definition worker_ok :: "pacer \<Rightarrow> bool" where
  "worker_ok p \<longleftrightarrow> (worker p \<in> {Draining, GapWait, Releasing} \<longrightarrow> pending p \<noteq> []) \<and>
     (worker p = Exited \<longrightarrow> pending p = [] \<and> cache_owners (cache p) = {#}) \<and>
     (worker p \<in> {GapWait, Releasing} \<longrightarrow> sorted (map extSeq (pending p)))"

definition pacer_inv :: "pacer \<Rightarrow> bool" where
  "pacer_inv p \<longleftrightarrow> pool_ok p {#} \<and> bounds_ok p \<and> count_ok p 0 \<and> worker_ok p"

lemmas inv_defs = pool_ok_def bounds_ok_def count_ok_def worker_ok_def references_def

lemma pacer_inv_start: "pacer_inv newAudioForwardPacer"
proof -
  have "List.map_filter slot_owned (replicate n empty_slot) = []" for n
    by (induction n) (auto simp: map_filter_simps empty_slot_def)
  moreover have "claimed_slots (replicate n \<lparr>claimed = False, owned_packet = empty_packet\<rparr>) = {}" for n
    by (auto simp: claimed_slots_def)
  ultimately show ?thesis
    by (simp add: pacer_inv_def inv_defs newAudioForwardPacer_def stats_zero_def cache_zero_def cache_ok_def
        cache_owners_def)
qed

lemma claim_slot_free:
  assumes "claim_slot pool start = Some i"
  shows "i < length pool" and "\<not> claimed (pool ! i)"
proof -
  obtain k where k: "k < length pool" "\<not> claimed (pool ! i)" "i = (start + k) mod length pool"
    using assms by (auto simp: claim_slot_def find_Some_iff)
  show "\<not> claimed (pool ! i)" by (rule k(2))
  have "0 < length pool" using k(1) by linarith
  then show "i < length pool" unfolding k(3) by (rule mod_less_divisor)
qed

lemma inv_enqueueOwned [relay_inv]:
  assumes inv: "pacer_inv p"
  shows "pacer_inv (snd (enqueueOwned pn p pkt source ct known now))"
proof (cases "withinPacerPacketBounds pn pkt")
  case False
  then show ?thesis using inv by (simp add: enqueueOwned_def)
next
  case True
  let ?start = "unat ((nextOwnedSlot p + 1) mod word_of_nat (length (ownedPackets p)))"
  show ?thesis
  proof (cases "claim_slot (ownedPackets p) ?start")
    case None
    then have "enqueueOwned pn p pkt source ct known now =
        (None, upd_stats (\<lambda>s. s\<lparr>queueFullDrops := queueFullDrops s + 1\<rparr>) (p\<lparr>nextOwnedSlot := nextOwnedSlot p + 1\<rparr>))"
      using True by (simp add: enqueueOwned_def Let_def)
    then show ?thesis using inv by (simp add: pacer_inv_def inv_defs)
  next
    case (Some i)
    note free = claim_slot_free [OF Some]
    have notin: "i \<notin> claimed_slots (ownedPackets p)"
      using free by (simp add: claimed_slots_def)
    define pool where "pool = (ownedPackets p)[i := \<lparr>claimed = True, owned_packet = pkt\<rparr>]"
    have pool: "claimed_slots pool = insert i (claimed_slots (ownedPackets p))" "length pool = length (ownedPackets p)"
      using free by (simp_all add: pool_def claimed_slots_claim)
    define item where "item = \<lparr>owned = i, enqueuedAt = now, extSeq = 0, pp_source = source, captureTime = ct,
                           captureTimeKnown = known\<rparr>"
    show ?thesis
    proof (cases "length (queue p) < defaultPacerCapacity")
      case room: True
      then obtain depth where eq: "enqueueOwned pn p pkt source ct known now =
          (None, upd_stats (\<lambda>s. s\<lparr>enqueuedCount := enqueuedCount (stats p) + 1, queuePeak := depth\<rparr>)
             (p\<lparr>nextOwnedSlot := nextOwnedSlot p + 1, ownedPackets := pool, queue := queue p @ [item]\<rparr>))"
        using True Some by (simp add: enqueueOwned_def Let_def pool_def item_def)
      show ?thesis
        using inv notin pool room unfolding eq by (simp add: pacer_inv_def inv_defs item_def)
    next
      case False
      then have "enqueueOwned pn p pkt source ct known now =
          (None, upd_stats (\<lambda>s. s\<lparr>queueFullDrops := queueFullDrops s + 1\<rparr>)
             (p\<lparr>nextOwnedSlot := nextOwnedSlot p + 1, ownedPackets := owned_release i pool\<rparr>))"
        using True Some by (simp add: enqueueOwned_def Let_def pool_def)
      then show ?thesis
        using inv notin pool by (simp add: pacer_inv_def inv_defs claimed_slots_release)
    qed
  qed
qed

lemma inv_EnqueueSource [relay_inv]:
  assumes "pacer_inv p"
  shows "pacer_inv (snd (EnqueueSource pn p pkt source ct known now))"
proof -
  have st: "pacer_inv (q\<lparr>enqueueState := e\<rparr>) = pacer_inv q" for q e
    by (simp add: pacer_inv_def inv_defs)
  show ?thesis
    using assms inv_enqueueOwned [of "p\<lparr>enqueueState := enqueueState p + 1\<rparr>" pn pkt source ct known now]
    by (simp add: EnqueueSource_def st case_prod_unfold Let_def)
qed

lemma inv_HandleNACK [relay_inv]: "pacer_inv p \<Longrightarrow> pacer_inv (HandleNACK p sq)"
  by (auto simp: HandleNACK_def pacer_inv_def inv_defs)

lemma inv_SetRTT [relay_inv]: "pacer_inv p \<Longrightarrow> pacer_inv (SetRTT p d)"
  by (auto simp: SetRTT_def pacer_inv_def inv_defs cache_ok_setRTT cache_owners_def)

lemma inv_retransmit [relay_inv]:
  assumes "pacer_inv p"
  shows "pacer_inv (retransmit pn p sq now ok)"
proof -
  let ?f = "\<lambda>i. SequenceNumber (owned_packet (ownedPackets p ! i))"
  obtain r hit thr c where ld: "cache_load ?f (cache p) sq now = ((r, hit, thr), c)"
    by (metis prod_cases4 surj_pair)
  have ok: "cache_ok (cache p)" using assms by (simp add: pacer_inv_def pool_ok_def)
  have "cache_ok c" "cache_owners c = cache_owners (cache p)"
    using cache_ok_load [OF ok, of ?f sq now] cache_load_owners [OF ok, of ?f sq now] ld by simp_all
  then show ?thesis
    using assms by (simp add: retransmit_def Let_def ld pacer_inv_def inv_defs split: bool.split option.split)
qed

text \<open>Receiving from the queue keeps everything but the sortedness of the pending packets.\<close>

lemma receive_pending_fields:
  assumes "queue p = item # rest"
  obtains item' where "owned item' = owned item" "pending (receive_pending p) = pending p @ [item']"
    "queue (receive_pending p) = rest" "nacks (receive_pending p) = nacks p"
    "worker (receive_pending p) = worker p" "cache (receive_pending p) = cache p"
    "claimed_slots (ownedPackets (receive_pending p)) = claimed_slots (ownedPackets p)"
    "length (ownedPackets (receive_pending p)) = length (ownedPackets p)"
    "enqueuedCount (stats (receive_pending p)) = enqueuedCount (stats p)"
    "completedCount (stats (receive_pending p)) = completedCount (stats p)"
proof -
  define q where "q = p\<lparr>queue := rest\<rparr>"
  obtain item' p' where prep: "prepareForwardItem q item = (item', p')" by (cases "prepareForwardItem q item")
  have "receive_pending p = p'\<lparr>pending := pending p' @ [item']\<rparr>"
    by (simp add: receive_pending_def assms prep flip: q_def)
  moreover have "owned item' = owned item" "pending p' = pending p" "queue p' = rest" "nacks p' = nacks p"
    "worker p' = worker p" "cache p' = cache p"
    "claimed_slots (ownedPackets p') = claimed_slots (ownedPackets p)"
    "length (ownedPackets p') = length (ownedPackets p)"
    "enqueuedCount (stats p') = enqueuedCount (stats p)" "completedCount (stats p') = completedCount (stats p)"
    using prep by (auto simp: prepareForwardItem_def Let_def q_def claimed_slots_packet split: prod.splits if_splits)
  ultimately show thesis using that by simp
qed

lemma inv_receive:
  assumes "pool_ok p {#}" and "bounds_ok p" and "count_ok p 0" and "queue p \<noteq> []"
    and "length (pending p) < defaultPacerCapacity + 1"
  shows "pool_ok (receive_pending p) {#} \<and> bounds_ok (receive_pending p) \<and> count_ok (receive_pending p) 0 \<and>
         pending (receive_pending p) \<noteq> []"
proof -
  obtain item rest where q: "queue p = item # rest" using assms(4) by (cases "queue p") auto
  obtain item' where r: "owned item' = owned item" "pending (receive_pending p) = pending p @ [item']"
    "queue (receive_pending p) = rest" "nacks (receive_pending p) = nacks p"
    "worker (receive_pending p) = worker p" "cache (receive_pending p) = cache p"
    "claimed_slots (ownedPackets (receive_pending p)) = claimed_slots (ownedPackets p)"
    "length (ownedPackets (receive_pending p)) = length (ownedPackets p)"
    "enqueuedCount (stats (receive_pending p)) = enqueuedCount (stats p)"
    "completedCount (stats (receive_pending p)) = completedCount (stats p)"
    using q by (rule receive_pending_fields)
  show ?thesis using assms q r by (simp add: inv_defs)
qed

text \<open>Writing the packet the worker holds: it ends in the cache or is released, and is completed.\<close>

lemma observe_counts [simp]:
  "enqueuedCount (observe_output out pkt s) = enqueuedCount s"
  "completedCount (observe_output out pkt s) = completedCount s"
  "enqueuedCount (observe_spacing a b s) = enqueuedCount s"
  "completedCount (observe_spacing a b s) = completedCount s"
  by (simp_all add: observe_output_def observe_spacing_def Let_def)

text \<open>What a stage of the write leaves alone.\<close>

definition same_lists :: "pacer \<Rightarrow> pacer \<Rightarrow> bool" where
  "same_lists p p' \<longleftrightarrow> queue p' = queue p \<and> pending p' = pending p \<and> nacks p' = nacks p \<and>
     enqueuedCount (stats p') = enqueuedCount (stats p) \<and> length (ownedPackets p') = length (ownedPackets p)"

lemma same_lists_trans: "\<lbrakk>same_lists p q; same_lists q r\<rbrakk> \<Longrightarrow> same_lists p r"
  by (simp add: same_lists_def)

lemma same_lists_stages:
  "same_lists p (observe_age d p)" "same_lists p (drop_stale i p)" "same_lists p (snd (strip_padding i p))"
  "same_lists p (observe_write d p)" "same_lists p (retain_written i pkt p)" "same_lists p (complete_one p)"
  "same_lists p (observe_send n p)" "same_lists p (p\<lparr>ownedPackets := owned_release i (ownedPackets p)\<rparr>)"
  by (simp_all add: same_lists_def observe_age_def drop_stale_def strip_padding_def observe_write_def
      retain_written_def complete_one_def observe_send_def Let_def split: prod.split option.split)

definition write_result :: "pacer \<Rightarrow> nat \<Rightarrow> u64 \<Rightarrow> pacer \<Rightarrow> bool" where
  "write_result p i n p' \<longleftrightarrow> same_lists p p' \<and> completedCount (stats p') = completedCount (stats p) + n \<and>
     ((cache p' = cache p \<and> claimed_slots (ownedPackets p') = claimed_slots (ownedPackets p) - {i}) \<or>
      (\<exists>sq previous. cache_replace (cache p) sq i (Some i) = (previous, cache p') \<and>
         claimed_slots (ownedPackets p') = claimed_slots (ownedPackets p) - set_option previous))"

lemma stage_neutral:
  "cache (observe_age d p) = cache p" "ownedPackets (observe_age d p) = ownedPackets p"
  "completedCount (stats (observe_age d p)) = completedCount (stats p)"
  "cache (observe_write d p) = cache p" "ownedPackets (observe_write d p) = ownedPackets p"
  "completedCount (stats (observe_write d p)) = completedCount (stats p)"
  "cache (observe_send n p) = cache p" "ownedPackets (observe_send n p) = ownedPackets p"
  "completedCount (stats (observe_send n p)) = completedCount (stats p)"
  "cache (complete_one p) = cache p" "ownedPackets (complete_one p) = ownedPackets p"
  "completedCount (stats (complete_one p)) = completedCount (stats p) + 1"
  by (simp_all add: observe_age_def observe_write_def observe_send_def complete_one_def)

lemma strip_padding_neutral:
  "cache (snd (strip_padding i p)) = cache p"
  "claimed_slots (ownedPackets (snd (strip_padding i p))) = claimed_slots (ownedPackets p)"
  "completedCount (stats (snd (strip_padding i p))) = completedCount (stats p)"
  by (simp_all add: strip_padding_def Let_def claimed_slots_packet split: prod.split)

lemma retain_written_result: "write_result p i 0 (retain_written i pkt p)"
proof -
  obtain previous c where rp: "cache_replace (cache p) (SequenceNumber pkt) i (Some i) = (previous, c)"
    by (cases "cache_replace (cache p) (SequenceNumber pkt) i (Some i)")
  have "cache (retain_written i pkt p) = c"
    "completedCount (stats (retain_written i pkt p)) = completedCount (stats p)"
    "claimed_slots (ownedPackets (retain_written i pkt p)) = claimed_slots (ownedPackets p) - set_option previous"
    by (simp_all add: retain_written_def rp claimed_slots_release split: option.split)
  then show ?thesis
    using rp same_lists_stages(5) unfolding write_result_def by auto
qed

lemma writeForwardItem_result: "write_result p (owned item) 1 (writeForwardItem pn p item clk ok)"
proof (cases "time_Sub (age_at clk) (enqueuedAt item) > maxQueueAge p")
  case True
  then show ?thesis
    by (simp add: writeForwardItem_def Let_def write_result_def same_lists_def drop_stale_def observe_age_def
        claimed_slots_release)
next
  case stale: False
  let ?i = "owned item" and ?age = "time_Sub (age_at clk) (enqueuedAt item)"
  obtain pkt p2 where st: "strip_padding ?i (observe_age ?age p) = (pkt, p2)"
    by (cases "strip_padding ?i (observe_age ?age p)")
  define p3 where "p3 = observe_write (write_ns clk) p2"
  define p4 where "p4 = (if writeOwnedPacket pn pkt ok then retain_written ?i pkt p3
                     else p3\<lparr>ownedPackets := owned_release ?i (ownedPackets p3)\<rparr>)"
  have w: "writeForwardItem pn p item clk ok =
      (if Padding pkt then complete_one p4 else observe_send (after_write clk) (complete_one p4))"
    using stale st by (simp add: writeForwardItem_def Let_def p4_def p3_def)
  have p3: "same_lists p p3" "cache p3 = cache p" "completedCount (stats p3) = completedCount (stats p)"
    "claimed_slots (ownedPackets p3) = claimed_slots (ownedPackets p)"
    using st strip_padding_neutral [of ?i "observe_age ?age p"] same_lists_stages(3) [of "observe_age ?age p" ?i]
      same_lists_stages(1) [of p ?age] same_lists_stages(4) [of p2 "write_ns clk"]
    by (auto simp: p3_def stage_neutral dest: same_lists_trans)
  have "write_result p3 ?i 0 p4"
    using retain_written_result [of p3 ?i pkt] same_lists_stages(8) [of p3 ?i]
    by (simp add: p4_def write_result_def claimed_slots_release)
  then have p4: "write_result p ?i 0 p4"
    using p3 by (auto simp: write_result_def dest: same_lists_trans)
  show ?thesis
    using p4 same_lists_stages(6) [of p4] same_lists_stages(7) [of "complete_one p4" "after_write clk"]
    unfolding w write_result_def by (auto simp: stage_neutral dest: same_lists_trans)
qed

lemma mset_set_remove:
  assumes "finite A" and "M + {#i#} = mset_set A"
  shows "M = mset_set (A - {i})"
proof -
  have "i \<in># mset_set A" unfolding assms(2) [symmetric] by simp
  then have "i \<in> A" using assms(1) by simp
  then have "mset_set (A - {i}) = mset_set A - {#i#}"
    using assms(1) by (simp add: mset_set_Diff)
  then show ?thesis unfolding assms(2) [symmetric] by simp
qed

lemma mset_set_remove_all:
  "\<lbrakk>finite A; M + mset xs = mset_set A\<rbrakk> \<Longrightarrow> M = mset_set (A - set xs)"
proof (induction xs arbitrary: A)
  case (Cons x xs)
  have "M + mset xs = mset_set (A - {x})"
    using Cons.prems by (intro mset_set_remove) (simp_all add: ac_simps)
  then have "M = mset_set (A - {x} - set xs)"
    using Cons.prems by (intro Cons.IH) simp_all
  moreover have "A - {x} - set xs = A - set (x # xs)" by auto
  ultimately show ?case by simp
qed simp

lemma write_result_ok:
  assumes "write_result p i 1 p'" and "pool_ok p {#i#}" and "bounds_ok p" and "count_ok p 1"
  shows "pool_ok p' {#} \<and> bounds_ok p' \<and> count_ok p' 0"
proof -
  have same: "same_lists p p'" "completedCount (stats p') = completedCount (stats p) + 1"
    using assms(1) by (simp_all add: write_result_def)
  have own: "references p + {#i#} = mset_set (claimed_slots (ownedPackets p))" "cache_ok (cache p)"
    using assms(2) by (simp_all add: pool_ok_def)
  from assms(1) have "cache_ok (cache p') \<and> references p' = mset_set (claimed_slots (ownedPackets p'))"
    unfolding write_result_def
  proof (elim conjE disjE exE)
    assume c: "cache p' = cache p" and r: "claimed_slots (ownedPackets p') = claimed_slots (ownedPackets p) - {i}"
    have "references p' = references p" using c same(1) by (simp add: references_def same_lists_def)
    then show ?thesis
      using mset_set_remove [OF finite_claimed_slots own(1)] own(2) c r by simp
  next
    fix sq previous
    assume c: "cache_replace (cache p) sq i (Some i) = (previous, cache p')"
      and r: "claimed_slots (ownedPackets p') = claimed_slots (ownedPackets p) - set_option previous"
    have "cache_ok (cache p')" using cache_ok_replace [OF own(2), of sq i "Some i"] c by simp
    moreover have "references p' + mset_set (set_option previous) =
        mset (map owned (queue p)) + mset (map owned (pending p)) + (cache_owners (cache p') + mset_set (set_option previous))"
      using same(1) by (simp add: references_def same_lists_def)
    then have m: "references p' + mset_set (set_option previous) = mset_set (claimed_slots (ownedPackets p))"
      unfolding cache_replace_owners [OF own(2) c] own(1) [symmetric] by (simp add: references_def)
    moreover have "references p' = mset_set (claimed_slots (ownedPackets p'))"
    proof (cases previous)
      case None
      then show ?thesis using m r by simp
    next
      case (Some j)
      then have "references p' + {#j#} = mset_set (claimed_slots (ownedPackets p))" using m by simp
      from mset_set_remove [OF finite_claimed_slots this] show ?thesis using r Some by simp
    qed
    ultimately show ?thesis by blast
  qed
  then show ?thesis
    using assms same by (simp add: pool_ok_def bounds_ok_def count_ok_def same_lists_def)
qed

lemma inv_release_first:
  assumes "pacer_inv p" and "worker p = Releasing"
  shows "pacer_inv ((release_first pn p clk ok)\<lparr>worker := AtSelect\<rparr>)"
proof -
  obtain item rest where pend: "pending p = item # rest"
    using assms by (cases "pending p") (auto simp: pacer_inv_def worker_ok_def)
  define p1 where "p1 = p\<lparr>pending := rest\<rparr>"
  define p2 where "p2 = (if \<not> fw_haveReleased p1 \<or> extSeq item > fw_lastReleasedExtSeq p1
      then p1\<lparr>fw_haveReleased := True, fw_lastReleasedExtSeq := extSeq item\<rparr> else p1)"
  have rel: "release_first pn p clk ok = writeForwardItem pn p2 item clk ok"
    by (simp add: release_first_def Let_def pend p2_def p1_def)
  have "pool_ok p2 {#owned item#}" "bounds_ok p2" "count_ok p2 1"
    using assms(1) by (auto simp: pacer_inv_def inv_defs p2_def p1_def pend)
  from write_result_ok [OF writeForwardItem_result this] show ?thesis
    by (simp add: rel pacer_inv_def inv_defs)
qed

lemma release_all:
  "claimed_slots (foldl (\<lambda>pool i. owned_release i pool) pool is) = claimed_slots pool - set is"
  "length (foldl (\<lambda>pool i. owned_release i pool) pool is) = length pool"
  by (induction "is" arbitrary: pool) (auto simp: claimed_slots_release)

lemma foldl_release_items:
  "foldl (\<lambda>pool item. owned_release (owned item) pool) pool items =
   foldl (\<lambda>pool i. owned_release i pool) pool (map owned items)"
  by (induction items arbitrary: pool) auto

lemma cache_clear_owners:
  "mset (fst (cache_clear c)) = cache_owners c" "cache_owners (snd (cache_clear c)) = {#}"
proof -
  have "List.map_filter slot_owned (map (\<lambda>s. s\<lparr>slot_packet := None, slot_owned := None\<rparr>) xs) = []"
    for xs :: "nat retransmissionSlot list"
    by (induction xs) (auto simp: map_filter_simps)
  then show "mset (fst (cache_clear c)) = cache_owners c" "cache_owners (snd (cache_clear c)) = {#}"
    by (simp_all add: cache_clear_def cache_owners_def)
qed

lemma inv_worker_exit:
  assumes "pacer_inv p"
  shows "pacer_inv (worker_exit p)"
proof -
  obtain owners c where cl: "cache_clear (cache p) = (owners, c)" by (cases "cache_clear (cache p)")
  define pool where "pool = foldl (\<lambda>pool i. owned_release i pool)
      (foldl (\<lambda>pool item. owned_release (owned item) pool) (ownedPackets p) (pending p)) owners"
  have ex: "worker_exit p = upd_stats (\<lambda>s. s\<lparr>completedCount := completedCount s + word_of_nat (length (pending p))\<rparr>)
      (p\<lparr>ownedPackets := pool, cache := c, pending := [], worker := Exited\<rparr>)"
    by (simp add: worker_exit_def cl Let_def pool_def)
  have own: "references p = mset_set (claimed_slots (ownedPackets p))" "cache_ok (cache p)"
    using assms by (simp_all add: pacer_inv_def pool_ok_def)
  have c: "mset owners = cache_owners (cache p)" "cache_owners c = {#}" "cache_ok c"
    using cache_clear_owners [of "cache p"] cache_ok_clear [OF own(2)] cl by simp_all
  have "mset (map owned (queue p)) + mset (map owned (pending p) @ owners) = mset_set (claimed_slots (ownedPackets p))"
    unfolding own(1) [symmetric] by (simp add: references_def c(1))
  note rest = mset_set_remove_all [OF finite_claimed_slots this]
  have "claimed_slots pool = claimed_slots (ownedPackets p) - set (map owned (pending p) @ owners)"
    unfolding pool_def foldl_release_items release_all by auto
  with rest have "mset (map owned (queue p)) = mset_set (claimed_slots pool)" by simp
  moreover have "length pool = length (ownedPackets p)"
    by (simp add: pool_def foldl_release_items release_all)
  ultimately show ?thesis
    using assms c by (simp add: ex pacer_inv_def inv_defs)
qed

lemma inv_stop_drain:
  assumes "pacer_inv p" and "worker p = Exited"
  shows "pacer_inv (stop_drain p)"
proof -
  define pool where "pool = foldl (\<lambda>pool item. owned_release (owned item) pool) (ownedPackets p) (queue p)"
  have "(mset (map owned (pending p)) + cache_owners (cache p)) + mset (map owned (queue p)) =
      mset_set (claimed_slots (ownedPackets p))"
    using assms by (simp add: pacer_inv_def pool_ok_def references_def ac_simps)
  from mset_set_remove_all [OF finite_claimed_slots this]
  have "mset (map owned (pending p)) + cache_owners (cache p) = mset_set (claimed_slots pool)"
    "length pool = length (ownedPackets p)"
    by (simp_all add: pool_def foldl_release_items release_all)
  then show ?thesis
    using assms by (simp add: stop_drain_def pacer_inv_def inv_defs pool_def)
qed

section \<open>Reachable states\<close>

lemma inv_stats:
  "\<lbrakk>enqueuedCount (f (stats p)) = enqueuedCount (stats p); completedCount (f (stats p)) = completedCount (stats p)\<rbrakk>
     \<Longrightarrow> pacer_inv (upd_stats f p) = pacer_inv p"
  by (simp add: pacer_inv_def inv_defs)

lemma inv_observe_wait [simp]: "pacer_inv (observe_wait now p) = pacer_inv p"
  by (simp add: observe_wait_def inv_stats)

lemma observe_wait_fields [simp]:
  "queue (observe_wait now p) = queue p" "pending (observe_wait now p) = pending p"
  "worker (observe_wait now p) = worker p" "nacks (observe_wait now p) = nacks p"
  by (simp_all add: observe_wait_def)

lemma inv_drop_nack: "\<lbrakk>pacer_inv p; nacks p = sq # rest\<rbrakk> \<Longrightarrow> pacer_inv (p\<lparr>nacks := rest\<rparr>)"
  by (simp add: pacer_inv_def inv_defs)

lemma inv_receive_to:
  assumes "pacer_inv p" and "queue p \<noteq> []" and "length (pending p) < defaultPacerCapacity + 1"
  shows "pacer_inv ((receive_pending p)\<lparr>worker := Draining\<rparr>)"
    and "pacer_inv ((receive_pending p)\<lparr>pending := sortPacedPacketsByExtendedSequence (pending (receive_pending p)),
           worker := GapWait\<rparr>)"
proof -
  have r: "pool_ok (receive_pending p) {#}" "bounds_ok (receive_pending p)" "count_ok (receive_pending p) 0"
    "pending (receive_pending p) \<noteq> []"
    using inv_receive [of p] assms by (simp_all add: pacer_inv_def)
  show "pacer_inv ((receive_pending p)\<lparr>worker := Draining\<rparr>)"
    using r by (simp add: pacer_inv_def inv_defs)
  have "sortPacedPacketsByExtendedSequence (pending (receive_pending p)) \<noteq> []"
    using r(4) sort_length by (metis length_0_conv)
  then show "pacer_inv ((receive_pending p)\<lparr>pending := sortPacedPacketsByExtendedSequence (pending (receive_pending p)),
           worker := GapWait\<rparr>)"
    using r sort_sorted by (simp add: pacer_inv_def inv_defs)
qed

lemma receive_worker [simp]: "worker (receive_pending p) = worker p"
proof (cases "queue p")
  case (Cons item rest)
  then show ?thesis using receive_pending_fields [OF Cons] by metis
qed (simp add: receive_pending_def)

lemma worker_upd_same: "worker q = w \<Longrightarrow> q\<lparr>worker := w\<rparr> = q" for q :: pacer
  by auto

lemma inv_sorted:
  assumes "pacer_inv p" and "worker p = Draining"
  shows "pacer_inv (p\<lparr>pending := sortPacedPacketsByExtendedSequence (pending p), worker := GapWait\<rparr>)"
proof -
  have "sortPacedPacketsByExtendedSequence (pending p) \<noteq> []"
    using assms sort_length by (metis insertCI length_0_conv pacer_inv_def worker_ok_def)
  then show ?thesis
    using assms sort_sorted by (simp add: pacer_inv_def inv_defs)
qed

lemma pacer_inv_step: "\<lbrakk>pacer_step pn p p'; pacer_inv p\<rbrakk> \<Longrightarrow> pacer_inv p'"
proof (induction rule: pacer_step.induct)
  case (select_nack p sq rest now ok)
  then show ?case by (intro inv_retransmit inv_drop_nack)
next
  case (select_receive p)
  then show ?case by (intro inv_receive_to) simp_all
next
  case (select_pending p)
  then show ?case by (simp add: pacer_inv_def inv_defs)
next
  case (drain_receive p)
  then show ?case using inv_receive_to(1) [of p] worker_upd_same [of "receive_pending p" Draining] by simp
next
  case (drained p)
  then show ?case by (intro inv_sorted)
next
  case (gap_closed p)
  then show ?case by (simp add: pacer_inv_def inv_defs)
next
  case (gap_expired p now)
  then show ?case by (simp add: pacer_inv_def inv_defs)
next
  case (gap_nack p now sq rest now' ok)
  then show ?case by (intro inv_retransmit inv_drop_nack [of _ sq]) simp_all
next
  case (gap_receive p now p')
  have "pacer_inv (p'\<lparr>pending := sortPacedPacketsByExtendedSequence (pending p'), worker := GapWait\<rparr>)"
    unfolding gap_receive(5) by (rule inv_receive_to(2)) (use gap_receive in \<open>simp_all add: gap_open_def\<close>)
  moreover have "worker (p'\<lparr>pending := sortPacedPacketsByExtendedSequence (pending p')\<rparr>) = GapWait"
    using gap_receive by simp
  ultimately show ?case
    by (simp only: worker_upd_same)
next
  case (gap_timer p now now')
  then show ?case by (simp add: gap_timeout_def Let_def pacer_inv_def inv_defs observe_wait_def)
next
  case (stop p)
  then show ?case by (simp add: pacer_inv_def inv_defs)
next
  case (exit_gap p now)
  then show ?case by (intro inv_worker_exit) simp
qed (auto intro: inv_EnqueueSource inv_HandleNACK inv_SetRTT inv_release_first inv_worker_exit inv_stop_drain)

lemma pacer_reachable_inv: "pacer_reachable pn p \<Longrightarrow> pacer_inv p"
  by (induction rule: pacer_reachable.induct) (auto intro: pacer_inv_start pacer_inv_step)


definition pion_small :: pion where
  "pion_small = \<lparr>MarshalSize = (\<lambda>p. 12 + length (RtpPayload p)), HeaderMarshalSize = (\<lambda>p. 12),
     MarshalTo = (\<lambda>p. Some (replicate 12 0 @ RtpPayload p)),
     HeaderUnmarshal = (\<lambda>w. Some (empty_packet, 12))\<rparr>"

definition pacer_one :: pacer where
  "pacer_one = snd (EnqueueSource pion_small newAudioForwardPacer (rtp_sample 7 960) source_a 5 True 10)"

lemma pacer_one_reachable: "pacer_reachable pion_small pacer_one"
  unfolding pacer_one_def by (intro pacer_reachable.step [OF pacer_reachable.start] pacer_step.enqueue)


lemma size_cache_owners: "cache_ok c \<Longrightarrow> size (cache_owners c) \<le> 512"
proof -
  have "length (List.map_filter f xs) \<le> length xs" for f :: "nat retransmissionSlot \<Rightarrow> nat option" and xs
    by (induction xs) (auto simp: map_filter_simps split: option.split)
  then show "cache_ok c \<Longrightarrow> ?thesis"
    by (metis cache_ok_def cache_owners_def retransmissionCachePackets_def size_mset)
qed

lemma claim_slot_exists:
  assumes "length pool = ownedPacerPacketCount" and "card (claimed_slots pool) < ownedPacerPacketCount"
    and "start < length pool"
  shows "claim_slot pool start \<noteq> None"
proof
  let ?n = "length pool"
  assume "claim_slot pool start = None"
  then have all: "\<forall>k < ?n. claimed (pool ! ((start + k) mod ?n))"
    by (auto simp: claim_slot_def find_None_iff)
  have "claimed (pool ! i)" if "i < ?n" for i
  proof (cases "start \<le> i")
    case True
    then show ?thesis using all [rule_format, of "i - start"] that by simp
  next
    case False
    then have "(start + (i + ?n - start)) mod ?n = i" using that assms(3) by simp
    then show ?thesis using all [rule_format, of "i + ?n - start"] that False assms(3) by simp
  qed
  then have "claimed_slots pool = {..<?n}" by (auto simp: claimed_slots_def)
  then show False using assms(1,2) by simp
qed

text \<open>The pool is never the bottleneck: whenever the queue has room, an admissible packet handed to an open
  pacer is queued, with its own copy of the packet, in a slot nobody else holds; it is not dropped for lack of
  storage even when the repair cache is full.\<close>

theorem pacer_enqueue_accepts:
  assumes "pacer_reachable pn p" and "length (queue p) < 32" and "withinPacerPacketBounds pn pkt"
    and "enqueueState p AND pacerAdmissionClosed = 0"
  shows "let p' = snd (EnqueueSource pn p pkt source ct known now) in
         \<exists>item. queue p' = queue p @ [item] \<and> owned item \<notin> claimed_slots (ownedPackets p) \<and>
                pp_source item = source \<and> enqueuedAt item = now \<and>
                owned_packet (ownedPackets p' ! owned item) = pkt \<and>
                queueFullDrops (stats p') = queueFullDrops (stats p)"
proof -
  note inv = pacer_reachable_inv [OF assms(1)]
  have len: "length (ownedPackets p) = ownedPacerPacketCount" and ok: "cache_ok (cache p)"
    and own: "references p = mset_set (claimed_slots (ownedPackets p))"
    and pend: "length (pending p) \<le> 33"
    using inv by (simp_all add: pacer_inv_def pool_ok_def bounds_ok_def defaultPacerCapacity_def)
  have "card (claimed_slots (ownedPackets p)) = length (queue p) + length (pending p) + size (cache_owners (cache p))"
    using arg_cong [OF own, of size] by (simp add: references_def)
  then have card: "card (claimed_slots (ownedPackets p)) < ownedPacerPacketCount"
    using assms(2) pend size_cache_owners [OF ok]
    by (simp add: ownedPacerPacketCount_def retransmissionCachePackets_def defaultPacerCapacity_def)
  let ?start = "unat ((nextOwnedSlot p + 1) mod word_of_nat (length (ownedPackets p)))"
  have n: "length (ownedPackets p) = 577"
    using len by (simp add: ownedPacerPacketCount_def retransmissionCachePackets_def defaultPacerCapacity_def)
  have "?start < length (ownedPackets p)"
    unfolding n by (simp add: unat_mod)
  with claim_slot_exists [OF len card] obtain i where i: "claim_slot (ownedPackets p) ?start = Some i" by auto
  note free = claim_slot_free [OF i]
  then show ?thesis
    using assms(2-4) i by (simp add: EnqueueSource_def enqueueOwned_def Let_def defaultPacerCapacity_def claimed_slots_def)
qed

theorem pacer_enqueue_accepts_witness:
  "\<exists>item. queue pacer_one = [item] \<and> owned_packet (ownedPackets pacer_one ! owned item) = rtp_sample 7 960"
proof -
  have "withinPacerPacketBounds pion_small (rtp_sample 7 960)"
    by (simp add: withinPacerPacketBounds_def pion_small_def rtp_sample_def maxPacerHeaderExtensionsCount_def
        maxPacerPacketBytes_def)
  moreover have "queue newAudioForwardPacer = []" "enqueueState newAudioForwardPacer = 0"
    by (simp_all add: newAudioForwardPacer_def)
  ultimately show ?thesis
    using pacer_enqueue_accepts [OF pacer_reachable.start, of pion_small "rtp_sample 7 960" source_a 5 True 10]
    by (auto simp: Let_def simp flip: pacer_one_def)
qed



end
