(* ===== verification/Gate.thy ===== *)
theory Gate
  imports Relay_Prelude
begin

text \<open>
  The lock-free admission gate (\<^verbatim>\<open>internal/admission/gate.go\<close>) under every interleaving of its callers.  Each
  \<^verbatim>\<open>Load\<close> and each \<^verbatim>\<open>CompareAndSwap\<close> is one atomic step of one thread; a thread that holds the gate gives it
  back with \<^verbatim>\<open>Release\<close>.
\<close>

record Gate =
  gate_limit :: int
  active :: int

definition NewGate :: "int \<Rightarrow> Gate" where
  "NewGate limit = \<lparr>gate_limit = limit, active = 0\<rparr>"

text \<open>The atomic steps: the comparison after the load, and the compare-and-swap with its new value.\<close>

definition acquire_refused :: "Gate \<Rightarrow> int \<Rightarrow> bool" where
  "acquire_refused g loaded = (loaded \<ge> gate_limit g)"

definition compare_and_swap :: "Gate \<Rightarrow> int \<Rightarrow> int \<Rightarrow> bool \<times> Gate" where
  "compare_and_swap g old new = (if active g = old then (True, g\<lparr>active := new\<rparr>) else (False, g))"

text \<open>A thread is outside, about to load in \<^verbatim>\<open>TryAcquire\<close>, past that load, holding, about to load in
  \<^verbatim>\<open>Release\<close>, or past that load.\<close>

datatype gate_pc = Outside | TryLoad | TryLoaded int | Holding | RelLoad | RelLoaded int

fun gate_thread :: "Gate \<Rightarrow> gate_pc \<Rightarrow> bool \<Rightarrow> Gate \<times> gate_pc" where
  "gate_thread g Outside want = (g, if want then TryLoad else Outside)"
| "gate_thread g TryLoad _ = (g, TryLoaded (active g))"
| "gate_thread g (TryLoaded v) _ =
     (if acquire_refused g v then (g, Outside)
      else case compare_and_swap g v (v + 1) of (ok, g') \<Rightarrow> (g', if ok then Holding else TryLoad))"
| "gate_thread g Holding want = (g, if want then RelLoad else Holding)"
| "gate_thread g RelLoad _ = (g, RelLoaded (active g))"
| "gate_thread g (RelLoaded v) _ =
     (if v = 0 then (g, Outside)
      else case compare_and_swap g v (v - 1) of (ok, g') \<Rightarrow> (g', if ok then Outside else RelLoad))"

inductive gate_reachable :: "int \<Rightarrow> Gate \<Rightarrow> ('t \<Rightarrow> gate_pc) \<Rightarrow> bool" for limit where
  start: "gate_reachable limit (NewGate limit) (\<lambda>_. Outside)"
| step: "\<lbrakk>gate_reachable limit g pc; gate_thread g (pc t) want = (g', pc')\<rbrakk> \<Longrightarrow>
    gate_reachable limit g' (pc(t := pc'))"

section \<open>The limit holds under every interleaving\<close>

definition inside :: "gate_pc \<Rightarrow> bool" where
  "inside s = (case s of Holding \<Rightarrow> True | RelLoad \<Rightarrow> True | RelLoaded _ \<Rightarrow> True | _ \<Rightarrow> False)"

lemma inside_simps [simp]:
  "\<not> inside Outside" "\<not> inside TryLoad" "\<not> inside (TryLoaded v)" "inside Holding" "inside RelLoad" "inside (RelLoaded v)"
  by (simp_all add: inside_def)

definition gate_inv :: "int \<Rightarrow> Gate \<Rightarrow> ('t \<Rightarrow> gate_pc) \<Rightarrow> bool" where
  "gate_inv limit g pc \<longleftrightarrow> gate_limit g = limit \<and> finite {t. inside (pc t)} \<and>
     active g = int (card {t. inside (pc t)}) \<and> active g \<le> max limit 0 \<and>
     (\<forall>t v. pc t = RelLoaded v \<longrightarrow> v \<noteq> 0)"

lemma inside_upd:
  "{x. inside ((pc(t := s)) x)} = (if inside s then insert t {x. inside (pc x)} else {x. inside (pc x)} - {t})"
  by auto

lemma gate_inv_step:
  assumes "gate_inv limit g pc" and "gate_thread g (pc t) want = (g', pc')"
  shows "gate_inv limit g' (pc(t := pc'))"
proof -
  let ?I = "{x. inside (pc x)}"
  have fin: "finite ?I" and act: "active g = int (card ?I)" and lim: "gate_limit g = limit" "active g \<le> max limit 0"
    and nz: "\<forall>t v. pc t = RelLoaded v \<longrightarrow> v \<noteq> 0"
    using assms(1) by (simp_all add: gate_inv_def)
  have pos: "inside (pc t) \<Longrightarrow> card ?I > 0"
    using fin by (auto simp: card_gt_0_iff)
  show ?thesis
  proof (cases "pc t")
    case (TryLoaded v)
    have out: "t \<notin> ?I" by (simp add: TryLoaded)
    show ?thesis
      using assms(2) fin act lim nz out unfolding gate_inv_def inside_upd
      by (auto simp: TryLoaded acquire_refused_def compare_and_swap_def split: if_splits)
  next
    case (RelLoaded v)
    then have t: "t \<in> ?I" by simp
    have card: "card (?I - {t}) = card ?I - 1" "card ?I > 0"
      using fin t by (auto simp: card_gt_0_iff)
    have v: "v \<noteq> 0" using nz RelLoaded by simp
    show ?thesis
      using assms(2) fin act lim nz t card v unfolding gate_inv_def inside_upd
      by (auto simp: RelLoaded compare_and_swap_def inside_def insert_absorb of_nat_diff split: if_splits)
  next
    case RelLoad
    then have t: "t \<in> ?I" by simp
    show ?thesis
      using assms(2) fin act lim nz t pos unfolding gate_inv_def inside_upd
      by (auto simp: RelLoad insert_absorb split: if_splits)
  next
    case Holding
    then have t: "t \<in> ?I" by simp
    show ?thesis
      using assms(2) fin act lim nz t unfolding gate_inv_def inside_upd
      by (auto simp: Holding insert_absorb split: if_splits)
  next
    case Outside
    then have t: "t \<notin> ?I" by simp
    show ?thesis
      using assms(2) fin act lim nz t unfolding gate_inv_def inside_upd
      by (auto simp: Outside split: if_splits)
  next
    case TryLoad
    then have t: "t \<notin> ?I" by simp
    show ?thesis
      using assms(2) fin act lim nz t unfolding gate_inv_def inside_upd
      by (auto simp: TryLoad split: if_splits)
  qed
qed

lemma gate_reachable_inv: "gate_reachable limit g pc \<Longrightarrow> gate_inv limit g pc"
proof (induction rule: gate_reachable.induct)
  case start
  then show ?case by (simp add: gate_inv_def NewGate_def)
next
  case (step g pc t want g' pc')
  from step.IH step.hyps(2) show ?case by (rule gate_inv_step)
qed

text \<open>C35. The gate admits at most its limit at any moment: under every interleaving of loads and
  compare-and-swaps by any number of threads, the threads inside number exactly the counter, which never
  exceeds the limit, and a non-positive limit admits nobody.\<close>

theorem gate_limit_holds:
  assumes "gate_reachable limit g pc"
  shows "int (card {t. inside (pc t)}) = active g \<and> active g \<le> max limit 0"
  using gate_reachable_inv [OF assms] by (simp add: gate_inv_def)

theorem gate_limit_holds_witness:
  "\<exists>g (pc :: nat \<Rightarrow> gate_pc). gate_reachable 1 g pc \<and> pc 7 = Holding \<and> active g = 1 \<and>
     int (card {t. inside (pc t)}) = 1"
proof -
  define pc0 :: "nat \<Rightarrow> gate_pc" where "pc0 = (\<lambda>_. Outside)"
  have s0: "gate_reachable 1 (NewGate 1) pc0" unfolding pc0_def by (rule gate_reachable.start)
  have s1: "gate_reachable 1 (NewGate 1) (pc0(7 := TryLoad))"
    using gate_reachable.step [OF s0, of 7 True "NewGate 1" TryLoad] by (simp add: pc0_def)
  have s2: "gate_reachable 1 (NewGate 1) (pc0(7 := TryLoaded 0))"
    using gate_reachable.step [OF s1, of 7 True "NewGate 1" "TryLoaded 0"] by (simp add: NewGate_def)
  have s3: "gate_reachable 1 \<lparr>gate_limit = 1, active = 1\<rparr> (pc0(7 := Holding))"
    using gate_reachable.step [OF s2, of 7 True "\<lparr>gate_limit = 1, active = 1\<rparr>" Holding]
    by (simp add: NewGate_def acquire_refused_def compare_and_swap_def)
  show ?thesis
    using gate_limit_holds [OF s3] s3 by (intro exI [of _ "\<lparr>gate_limit = 1, active = 1\<rparr>"] exI [of _ "pc0(7 := Holding)"]) simp
qed

end
