(* ===== verification/Rate_Limit.thy ===== *)
theory Rate_Limit
  imports Relay_Prelude
begin

text \<open>
  The two per-address request limiters: \<^verbatim>\<open>internal/admission/ratelimit.go\<close> in front of the relay's signalling, with
  a background sweep, and \<^verbatim>\<open>access/admission/limiter.go\<close> in front of the access service, with a bounded table
  and an inline prune.  Their common contract is a locale; the bound on granted requests is proved in it.
\<close>

section \<open>The relay limiter\<close>

record ipState =
  st_windowStart :: time
  st_count :: int
  lastSeen :: int

record relayLimiter =
  maxCount :: int
  rl_window :: duration
  rl_entries :: "(string, ipState) gomap"

definition relayLimiter_New :: "int \<Rightarrow> duration \<Rightarrow> relayLimiter" where
  "relayLimiter_New m w = \<lparr>maxCount = m, rl_window = w, rl_entries = []\<rparr>"

definition relayLimiter_Allow :: "relayLimiter \<Rightarrow> string \<Rightarrow> time \<Rightarrow> bool \<times> relayLimiter" where
  "relayLimiter_Allow l ip now =
     (let st = (case map_of (rl_entries l) ip of
                  Some st \<Rightarrow> st
                | None \<Rightarrow> \<lparr>st_windowStart = now, st_count = 0, lastSeen = 0\<rparr>);
          st1 = (if time_Sub now (st_windowStart st) \<ge> rl_window l
                 then st\<lparr>st_windowStart := now, st_count := 0\<rparr> else st);
          st2 = st1\<lparr>lastSeen := now\<rparr>
      in if st_count st2 \<ge> maxCount l
         then (False, l\<lparr>rl_entries := AList.update ip st2 (rl_entries l)\<rparr>)
         else (True, l\<lparr>rl_entries := AList.update ip (st2\<lparr>st_count := st_count st2 + 1\<rparr>) (rl_entries l)\<rparr>))"

text \<open>One tick of the background sweep.\<close>

definition relayLimiter_cleanup :: "relayLimiter \<Rightarrow> time \<Rightarrow> relayLimiter" where
  "relayLimiter_cleanup l now =
     l\<lparr>rl_entries := filter (\<lambda>(ip, st). lastSeen st = 0 \<or> \<not> (time_Sub now (lastSeen st) \<ge> rl_window l)) (rl_entries l)\<rparr>"

section \<open>The access limiter\<close>

record limiter_entry =
  windowStart :: time
  entry_count :: int

record accessLimiter =
  al_entries :: "(string, limiter_entry) gomap"
  al_limit :: int
  al_window :: duration
  maxEntries :: int

definition NewIPLimiter :: "int \<Rightarrow> duration \<Rightarrow> int \<Rightarrow> accessLimiter" where
  "NewIPLimiter limit window n =
     \<lparr>al_entries = [], al_limit = limit, al_window = (if window \<le> 0 then minute else window),
      maxEntries = (if n \<le> 0 then 4096 else n)\<rparr>"

definition accessLimiter_prune :: "accessLimiter \<Rightarrow> time \<Rightarrow> accessLimiter" where
  "accessLimiter_prune l now =
     l\<lparr>al_entries := filter (\<lambda>(k, e). \<not> (time_Sub now (windowStart e) \<ge> al_window l)) (al_entries l)\<rparr>"

text \<open>\<^verbatim>\<open>net.SplitHostPort\<close> is an argument: it gives the host of a remote address, or nothing on an error.\<close>

definition limiter_host :: "(string \<Rightarrow> string option) \<Rightarrow> string \<Rightarrow> string" where
  "limiter_host splitHostPort remoteAddress =
     (let host = (case splitHostPort remoteAddress of Some h \<Rightarrow> h | None \<Rightarrow> remoteAddress)
      in if host = [] then ''unknown'' else host)"

text \<open>The entry of a host whose window is still open, and the table once the expired entry is dropped and a full table
  is pruned for a new host.\<close>

definition live_entry :: "accessLimiter \<Rightarrow> string \<Rightarrow> time \<Rightarrow> limiter_entry option" where
  "live_entry l host now =
     (case map_of (al_entries l) host of
        None \<Rightarrow> None
      | Some e \<Rightarrow> if time_Sub now (windowStart e) \<ge> al_window l then None else Some e)"

definition drop_expired :: "accessLimiter \<Rightarrow> string \<Rightarrow> time \<Rightarrow> accessLimiter" where
  "drop_expired l host now =
     (if map_of (al_entries l) host \<noteq> None \<and> live_entry l host now = None
      then l\<lparr>al_entries := AList.delete host (al_entries l)\<rparr> else l)"

definition make_room :: "accessLimiter \<Rightarrow> string \<Rightarrow> time \<Rightarrow> accessLimiter" where
  "make_room l host now =
     (let l1 = drop_expired l host now
      in if live_entry l host now = None \<and> int (length (al_entries l1)) \<ge> maxEntries l1
         then accessLimiter_prune l1 now else l1)"

definition accessLimiter_Allow_host ::
  "accessLimiter \<Rightarrow> string \<Rightarrow> time \<Rightarrow> (bool \<times> duration) \<times> accessLimiter" where
  "accessLimiter_Allow_host l host now =
     (let l2 = make_room l host now
      in case live_entry l host now of
           None \<Rightarrow>
             if int (length (al_entries l2)) \<ge> maxEntries l2 then ((False, al_window l), l2)
             else ((True, 0), l2\<lparr>al_entries := AList.update host \<lparr>windowStart = now, entry_count = 1\<rparr> (al_entries l2)\<rparr>)
         | Some e \<Rightarrow>
             if entry_count e \<ge> al_limit l then
               let remaining = int64 (al_window l - time_Sub now (windowStart e))
               in ((False, if remaining < second then second else remaining), l2)
             else ((True, 0), l2\<lparr>al_entries := AList.update host (e\<lparr>entry_count := entry_count e + 1\<rparr>) (al_entries l2)\<rparr>))"

definition accessLimiter_Allow ::
  "(string \<Rightarrow> string option) \<Rightarrow> accessLimiter \<Rightarrow> string \<Rightarrow> time \<Rightarrow> (bool \<times> duration) \<times> accessLimiter" where
  "accessLimiter_Allow splitHostPort l remoteAddress now =
     (if al_limit l \<le> 0 then ((True, 0), l)
      else accessLimiter_Allow_host l (limiter_host splitHostPort remoteAddress) now)"

section \<open>The contract of a fixed-window limiter\<close>

datatype 'k limiter_event = Request 'k time | Sweep time

fun event_time :: "'k limiter_event \<Rightarrow> time" where
  "event_time (Request _ t) = t"
| "event_time (Sweep t) = t"

definition window_over :: "duration \<Rightarrow> (time \<times> nat) option \<Rightarrow> time \<Rightarrow> bool" where
  "window_over window e now = (case e of None \<Rightarrow> True | Some (w, _) \<Rightarrow> w + window \<le> now)"

text \<open>The granted requests of a run, each with its time.\<close>

fun limiter_grants ::
  "('s \<Rightarrow> 'k \<Rightarrow> time \<Rightarrow> bool \<times> 's) \<Rightarrow> ('s \<Rightarrow> time \<Rightarrow> 's) \<Rightarrow> 's \<Rightarrow> 'k limiter_event list \<Rightarrow> ('k \<times> time) list" where
  "limiter_grants allow sweep s [] = []"
| "limiter_grants allow sweep s (Sweep t # es) = limiter_grants allow sweep (sweep s t) es"
| "limiter_grants allow sweep s (Request k t # es) =
     (case allow s k t of (ok, s') \<Rightarrow>
        if ok then (k, t) # limiter_grants allow sweep s' es else limiter_grants allow sweep s' es)"

definition grants_within :: "'k \<Rightarrow> time \<Rightarrow> duration \<Rightarrow> ('k \<times> time) list \<Rightarrow> nat" where
  "grants_within k a d gs = length (filter (\<lambda>(k', t). k' = k \<and> a \<le> t \<and> t < a + d) gs)"

lemma length_filter_by_tag:
  "length xs = (\<Sum>w \<in> snd ` set xs. length (filter (\<lambda>p. snd p = w) xs))"
proof (induction xs)
  case (Cons x xs)
  let ?f = "\<lambda>xs w. length (filter (\<lambda>p. snd p = w) xs)"
  have zero: "snd x \<notin> snd ` set xs \<Longrightarrow> filter (\<lambda>p. snd p = snd x) xs = []"
    by (auto simp: filter_empty_conv) (metis image_eqI snd_conv)
  have "(\<Sum>w \<in> snd ` set (x # xs). ?f (x # xs) w) =
      (\<Sum>w \<in> insert (snd x) (snd ` set xs). ?f xs w + (if w = snd x then 1 else 0))"
    by (rule sum.cong) auto
  also have "\<dots> = (\<Sum>w \<in> insert (snd x) (snd ` set xs). ?f xs w) + 1"
    by (simp add: sum.distrib)
  also have "(\<Sum>w \<in> insert (snd x) (snd ` set xs). ?f xs w) = (\<Sum>w \<in> snd ` set xs. ?f xs w)"
    using zero by (cases "snd x \<in> snd ` set xs") (simp_all add: insert_absorb)
  finally show ?case using Cons.IH by simp
qed simp

lemma length_filter_conj_le: "length (filter (\<lambda>x. P x \<and> Q x) xs) \<le> length (filter Q xs)"
  by (induction xs) auto

lemma card_le_two: "W \<subseteq> {a, b} \<Longrightarrow> card W \<le> 2"
proof -
  assume "W \<subseteq> {a, b}"
  then have "card W \<le> card {a, b}" by (rule card_mono [rotated]) simp
  also have "\<dots> \<le> 2" by (simp add: card_insert_if)
  finally show ?thesis .
qed

locale window_limiter =
  fixes entry :: "'s \<Rightarrow> 'k \<Rightarrow> (time \<times> nat) option"
    and allow :: "'s \<Rightarrow> 'k \<Rightarrow> time \<Rightarrow> bool \<times> 's"
    and sweep :: "'s \<Rightarrow> time \<Rightarrow> 's"
    and ok :: "'s \<Rightarrow> time \<Rightarrow> bool"
    and limit :: nat
    and window :: duration
  assumes window_pos: "ok s t \<Longrightarrow> 0 < window"
    and allow_ok: "\<lbrakk>ok s t; t \<le> now; allow s k now = (b, s')\<rbrakk> \<Longrightarrow> ok s' now"
    and sweep_ok: "\<lbrakk>ok s t; t \<le> now\<rbrakk> \<Longrightarrow> ok (sweep s now) now"
    and grant: "\<lbrakk>ok s t; t \<le> now; allow s k now = (True, s')\<rbrakk> \<Longrightarrow>
      (window_over window (entry s k) now \<and> entry s' k = Some (now, 1) \<and> 1 \<le> limit) \<or>
      (\<exists>w c. entry s k = Some (w, c) \<and> c < limit \<and> w \<le> now \<and> now < w + window \<and> entry s' k = Some (w, Suc c))"
    and deny: "\<lbrakk>ok s t; t \<le> now; allow s k now = (False, s')\<rbrakk> \<Longrightarrow>
      entry s' k = entry s k \<or> (window_over window (entry s k) now \<and> entry s' k \<in> {None, Some (now, 0)})"
    and others: "\<lbrakk>ok s t; t \<le> now; allow s k now = (b, s'); k' \<noteq> k\<rbrakk> \<Longrightarrow>
      entry s' k' = entry s k' \<or> (window_over window (entry s k') now \<and> entry s' k' = None)"
    and swept: "\<lbrakk>ok s t; t \<le> now\<rbrakk> \<Longrightarrow>
      entry (sweep s now) k = entry s k \<or> (window_over window (entry s k) now \<and> entry (sweep s now) k = None)"
begin

text \<open>The history of one key: each granted time with the start of the window it was counted in.\<close>

definition history_ok :: "(time \<times> time) list \<Rightarrow> bool" where
  "history_ok h \<longleftrightarrow> (\<forall>(x, w) \<in> set h. w \<le> x \<and> x < w + window) \<and>
     (\<forall>w \<in> snd ` set h. \<forall>w' \<in> snd ` set h. w < w' \<longrightarrow> w + window \<le> w') \<and>
     (\<forall>w. length (filter (\<lambda>p. snd p = w) h) \<le> limit)"

definition history_entry :: "(time \<times> time) list \<Rightarrow> (time \<times> nat) option \<Rightarrow> time \<Rightarrow> bool" where
  "history_entry h e t =
     (case e of
        None \<Rightarrow> \<forall>w \<in> snd ` set h. w + window \<le> t
      | Some (w, c) \<Rightarrow> length (filter (\<lambda>p. snd p = w) h) \<le> c \<and>
          (\<forall>w' \<in> snd ` set h. w' = w \<or> w' + window \<le> w))"

lemma history_entry_over:
  assumes "history_entry h e t" and "t \<le> now" and "window_over window e now" and "0 < window"
  shows "\<forall>w \<in> snd ` set h. w + window \<le> now"
  using assms
  by (auto simp: history_entry_def window_over_def split: option.splits prod.splits)

lemma history_entry_mono: "\<lbrakk>history_entry h e t; t \<le> now\<rbrakk> \<Longrightarrow> history_entry h e now"
  by (auto simp: history_entry_def split: option.splits)

lemma history_fresh:
  assumes "history_ok h" and "\<forall>w \<in> snd ` set h. w + window \<le> now" and "1 \<le> limit"
    and window_pos: "0 < window"
  shows "history_ok (h @ [(now, now)]) \<and> history_entry (h @ [(now, now)]) (Some (now, 1)) now"
proof -
  have "\<forall>p \<in> set h. snd p \<noteq> now" using assms(2) window_pos by auto
  then have "filter (\<lambda>p. snd p = now) h = []" by (simp add: filter_empty_conv)
  then show ?thesis
    using assms window_pos unfolding history_ok_def history_entry_def by auto
qed

lemma history_same:
  assumes "history_ok h" and "history_entry h (Some (w, c)) now" and "c < limit" and "w \<le> now" and "now < w + window"
    and window_pos: "0 < window"
  shows "history_ok (h @ [(now, w)]) \<and> history_entry (h @ [(now, w)]) (Some (w, Suc c)) now"
proof -
  have tags: "\<forall>w' \<in> snd ` set h. w' = w \<or> w' + window \<le> w" and cnt: "length (filter (\<lambda>p. snd p = w) h) \<le> c"
    using assms(2) by (simp_all add: history_entry_def)
  have "\<forall>v. length (filter (\<lambda>p. snd p = v) (h @ [(now, w)])) \<le> limit"
    using assms(1,3) cnt by (auto simp: history_ok_def)
  moreover have "\<forall>v \<in> insert w (snd ` set h). \<forall>v' \<in> insert w (snd ` set h). v < v' \<longrightarrow> v + window \<le> v'"
  proof (intro ballI impI)
    fix v v' assume v: "v \<in> insert w (snd ` set h)" "v' \<in> insert w (snd ` set h)" "v < v'"
    then consider "v' = w" "v \<in> snd ` set h" | "v \<in> snd ` set h" "v' \<in> snd ` set h" | "v = w" "v' \<in> snd ` set h" by auto
    then show "v + window \<le> v'"
    proof cases
      case 1 then show ?thesis using tags v(3) by auto
    next
      case 2 then show ?thesis using assms(1) v(3) unfolding history_ok_def by blast
    next
      case 3 then show ?thesis using tags v(3) window_pos by fastforce
    qed
  qed
  ultimately show ?thesis
    using assms tags cnt by (simp add: history_ok_def history_entry_def)
qed

text \<open>Every run extends a correct history of a key to a correct history.\<close>

lemma history_step:
  assumes "ok s t" and "t \<le> now" and "allow s j now = (b, s')" and "history_ok h" and "history_entry h (entry s k) t"
  shows "history_entry h (entry s' k) now \<or> (b \<and> j = k)"
    and "b \<Longrightarrow> j = k \<Longrightarrow> \<exists>w. history_ok (h @ [(now, w)]) \<and> history_entry (h @ [(now, w)]) (entry s' k) now"
proof -
  note wpos = window_pos [OF assms(1)]
  note mono = history_entry_mono [OF assms(5,2)]
  have over: "window_over window (entry s k) now \<Longrightarrow> \<forall>w \<in> snd ` set h. w + window \<le> now"
    using history_entry_over [OF assms(5,2) _ wpos] .
  have none: "window_over window (entry s k) now \<Longrightarrow> history_entry h None now"
    using over by (simp add: history_entry_def)
  have zero: "window_over window (entry s k) now \<Longrightarrow> history_entry h (Some (now, 0)) now"
    using over wpos by (force simp: history_entry_def filter_empty_conv)
  show "history_entry h (entry s' k) now \<or> (b \<and> j = k)"
  proof (cases "j = k")
    case True
    then show ?thesis using deny [OF assms(1,2), of j s'] assms(3) mono none zero by (cases b) auto
  next
    case False
    then show ?thesis using others [OF assms(1-3), of k] mono none by auto
  qed
  assume "b" "j = k"
  then have "(window_over window (entry s k) now \<and> entry s' k = Some (now, 1) \<and> 1 \<le> limit) \<or>
      (\<exists>w c. entry s k = Some (w, c) \<and> c < limit \<and> w \<le> now \<and> now < w + window \<and> entry s' k = Some (w, Suc c))"
    using grant [OF assms(1,2)] assms(3) by simp
  then show "\<exists>w. history_ok (h @ [(now, w)]) \<and> history_entry (h @ [(now, w)]) (entry s' k) now"
  proof
    assume fresh: "window_over window (entry s k) now \<and> entry s' k = Some (now, 1) \<and> 1 \<le> limit"
    with over have "\<forall>w \<in> snd ` set h. w + window \<le> now" by blast
    from history_fresh [OF assms(4) this _ wpos] show ?thesis using fresh by auto
  next
    assume "\<exists>w c. entry s k = Some (w, c) \<and> c < limit \<and> w \<le> now \<and> now < w + window \<and> entry s' k = Some (w, Suc c)"
    then obtain w c where w: "entry s k = Some (w, c)" "c < limit" "w \<le> now" "now < w + window" "entry s' k = Some (w, Suc c)"
      by blast
    from history_same [OF assms(4) _ w(2-4) wpos] show ?thesis using mono w(1,5) by auto
  qed
qed

lemma history_run:
  assumes "ok s t" and "history_ok h" and "history_entry h (entry s k) t"
    and "sorted (map event_time es)" and "\<forall>e \<in> set es. t \<le> event_time e"
  shows "\<exists>h'. history_ok (h @ h') \<and> map snd (filter (\<lambda>g. fst g = k) (limiter_grants allow sweep s es)) = map fst h'"
  using assms
proof (induction es arbitrary: s t h)
  case Nil
  then show ?case by (intro exI [of _ "[]"]) simp
next
  case (Cons e es)
  show ?case
  proof (cases e)
    case (Sweep now)
    have t: "t \<le> now" using Cons.prems(5) Sweep by simp
    have "history_entry h (entry (sweep s now) k) now"
      using swept [OF Cons.prems(1) t, of k] history_entry_mono [OF Cons.prems(3) t]
        history_entry_over [OF Cons.prems(3) t _ window_pos [OF Cons.prems(1)]] by (auto simp: history_entry_def)
    then have "\<exists>h'. history_ok (h @ h') \<and>
        map snd (filter (\<lambda>g. fst g = k) (limiter_grants allow sweep (sweep s now) es)) = map fst h'"
      using Cons.prems(2,4) Sweep by (intro Cons.IH [OF sweep_ok [OF Cons.prems(1) t]]) auto
    then show ?thesis by (simp add: Sweep)
  next
    case (Request j now)
    have t: "t \<le> now" using Cons.prems(5) Request by simp
    obtain b s' where al: "allow s j now = (b, s')" by (cases "allow s j now")
    note step = history_step [OF Cons.prems(1) t al Cons.prems(2,3)]
    have ok': "ok s' now" using allow_ok [OF Cons.prems(1) t al] .
    have later: "sorted (map event_time es)" "\<forall>e \<in> set es. now \<le> event_time e"
      using Cons.prems(4) Request by auto
    show ?thesis
    proof (cases "b \<and> j = k")
      case True
      then obtain w where w: "history_ok (h @ [(now, w)])" "history_entry (h @ [(now, w)]) (entry s' k) now"
        using step(2) by blast
      from Cons.IH [OF ok' w later] obtain h' where h': "history_ok ((h @ [(now, w)]) @ h')"
        "map snd (filter (\<lambda>g. fst g = k) (limiter_grants allow sweep s' es)) = map fst h'" by blast
      then show ?thesis using True by (intro exI [of _ "(now, w) # h'"]) (use al Request in auto)
    next
      case False
      then have "history_entry h (entry s' k) now" using step(1) by blast
      from Cons.IH [OF ok' Cons.prems(2) this later] show ?thesis using False by (auto simp: Request al)
    qed
  qed
qed

lemma history_window_count:
  assumes "history_ok h"
  shows "length (filter (\<lambda>p. a \<le> fst p \<and> fst p < a + window) h) \<le> 2 * limit"
proof -
  let ?P = "\<lambda>p :: time \<times> time. a \<le> fst p \<and> fst p < a + window"
  define W where "W = snd ` set (filter ?P h)"
  have near: "a - window < w \<and> w < a + window" if "w \<in> W" for w
    using that assms unfolding W_def history_ok_def by fastforce
  have gap: "\<lbrakk>w \<in> W; w' \<in> W; w < w'\<rbrakk> \<Longrightarrow> w + window \<le> w'" for w w'
    using assms unfolding W_def history_ok_def by auto
  have "W \<subseteq> {Min W, Max W}"
  proof
    fix w assume w: "w \<in> W"
    have fin: "finite W" "W \<noteq> {}" using w by (auto simp: W_def)
    note m = Min_in [OF fin] Max_in [OF fin] Min_le [OF fin(1) w] Max_ge [OF fin(1) w]
    show "w \<in> {Min W, Max W}"
    proof (rule ccontr)
      assume "w \<notin> {Min W, Max W}"
      then have "Min W < w" "w < Max W" using m(3,4) by auto
      then have "Min W + 2 * window \<le> Max W" using gap [OF m(1) w] gap [OF w m(2)] by simp
      then show False using near [OF m(1)] near [OF m(2)] by simp
    qed
  qed
  then have card: "card W \<le> 2" by (rule card_le_two)
  have "length (filter ?P h) \<le> (\<Sum>w \<in> W. length (filter (\<lambda>p. snd p = w) h))"
  proof -
    have "length (filter ?P h) = (\<Sum>w \<in> W. length (filter (\<lambda>p. snd p = w) (filter ?P h)))"
      unfolding W_def by (rule length_filter_by_tag)
    also have "\<dots> \<le> (\<Sum>w \<in> W. length (filter (\<lambda>p. snd p = w) h))"
      by (rule sum_mono) (simp only: filter_filter length_filter_conj_le)
    finally show ?thesis .
  qed
  also have "\<dots> \<le> (\<Sum>w \<in> W. limit)"
    using assms by (intro sum_mono) (simp add: history_ok_def)
  also have "\<dots> \<le> 2 * limit" using card by simp
  finally show ?thesis .
qed

lemma grants_bound:
  assumes "ok s t" and "entry s k = None" and "sorted (map event_time es)" and "\<forall>e \<in> set es. t \<le> event_time e"
  shows "grants_within k a window (limiter_grants allow sweep s es) \<le> 2 * limit"
proof -
  have "history_ok []" "history_entry [] (entry s k) t"
    by (simp_all add: history_ok_def history_entry_def assms(2))
  from history_run [OF assms(1) this assms(3,4)] obtain h where h: "history_ok h"
    "map snd (filter (\<lambda>g. fst g = k) (limiter_grants allow sweep s es)) = map fst h" by auto
  have "grants_within k a window (limiter_grants allow sweep s es) =
      length (filter (\<lambda>x. a \<le> x \<and> x < a + window) (map snd (filter (\<lambda>g. fst g = k) (limiter_grants allow sweep s es))))"
    by (simp add: grants_within_def filter_map o_def case_prod_unfold)
  also have "\<dots> = length (filter (\<lambda>p. a \<le> fst p \<and> fst p < a + window) h)"
    unfolding h(2) by (simp add: filter_map o_def)
  finally show ?thesis using history_window_count [OF h(1)] by simp
qed

end

section \<open>Both limiters keep the contract\<close>

definition relay_entry :: "relayLimiter \<Rightarrow> string \<Rightarrow> (time \<times> nat) option" where
  "relay_entry l ip = map_option (\<lambda>st. (st_windowStart st, nat (st_count st))) (map_of (rl_entries l) ip)"

definition relay_ok :: "int \<Rightarrow> duration \<Rightarrow> relayLimiter \<Rightarrow> time \<Rightarrow> bool" where
  "relay_ok m w l t \<longleftrightarrow> maxCount l = m \<and> rl_window l = w \<and> 0 < w \<and> w \<le> max_int64 \<and> map_wf (rl_entries l) \<and>
     (\<forall>ip st. map_of (rl_entries l) ip = Some st \<longrightarrow>
        st_windowStart st \<le> lastSeen st \<and> lastSeen st \<le> t \<and> 0 \<le> st_count st)"

lemma sub_window: "\<lbrakk>0 < w; w \<le> max_int64\<rbrakk> \<Longrightarrow> w \<le> time_Sub now start \<longleftrightarrow> start + w \<le> now"
  using time_Sub_less_iff [of w now start] by (auto simp: min_int64_def not_less [symmetric])

text \<open>The four outcomes of the relay's \<^verbatim>\<open>Allow\<close>: granted or refused, in a fresh window or in the current one.\<close>

lemma relay_Allow_cases:
  assumes ok: "relay_ok m w l t" and al: "relayLimiter_Allow l ip now = (b, l')"
  obtains st where "l' = l\<lparr>rl_entries := AList.update ip st (rl_entries l)\<rparr>" "lastSeen st = now"
    "(window_over w (relay_entry l ip) now \<and> st_windowStart st = now \<and>
        st_count st = (if b then 1 else 0) \<and> (b \<longleftrightarrow> 0 < m)) \<or>
     (\<exists>st0. map_of (rl_entries l) ip = Some st0 \<and> now < st_windowStart st0 + w \<and>
        st_windowStart st = st_windowStart st0 \<and> st_count st = st_count st0 + (if b then 1 else 0) \<and>
        (b \<longleftrightarrow> st_count st0 < m))"
proof -
  have m: "maxCount l = m" "rl_window l = w" and w: "0 < w" "w \<le> max_int64"
    using ok by (simp_all add: relay_ok_def)
  note sw = sub_window [OF w]
  show thesis
  proof (cases "map_of (rl_entries l) ip")
    case None
    then show thesis
      using al m w that [of "\<lparr>st_windowStart = now, st_count = (if b then 1 else 0), lastSeen = now\<rparr>"]
      by (auto simp: relayLimiter_Allow_def sw relay_entry_def window_over_def Let_def split: if_splits)
  next
    case (Some st0)
    show thesis
    proof (cases "st_windowStart st0 + w \<le> now")
      case True
      then show thesis
        using al m Some that [of "\<lparr>st_windowStart = now, st_count = (if b then 1 else 0), lastSeen = now\<rparr>"]
        by (cases st0; cases "maxCount l \<le> 0")
           (simp_all add: relayLimiter_Allow_def sw relay_entry_def window_over_def Let_def)
    next
      case False
      then show thesis
        using al m Some that [of "st0\<lparr>lastSeen := now, st_count := st_count st0 + (if b then 1 else 0)\<rparr>"]
        by (cases "maxCount l \<le> st_count st0")
           (simp_all add: relayLimiter_Allow_def sw not_le Let_def)
    qed
  qed
qed

interpretation relay: window_limiter relay_entry relayLimiter_Allow relayLimiter_cleanup "relay_ok m w" "nat m" w for m w
proof
  show "relay_ok m w s t \<Longrightarrow> 0 < w" for s t by (simp add: relay_ok_def)
next
  fix s t now k b s'
  assume ok: "relay_ok m w s t" "t \<le> now" and al: "relayLimiter_Allow s k now = (b, s')"
  have old: "map_of (rl_entries s) j = Some e \<Longrightarrow> st_windowStart e \<le> lastSeen e \<and> lastSeen e \<le> now \<and> 0 \<le> st_count e" for j e
    using ok unfolding relay_ok_def by (meson order_trans)
  from ok(1) al show "relay_ok m w s' now"
  proof (rule relay_Allow_cases)
    fix st
    assume s': "s' = s\<lparr>rl_entries := AList.update k st (rl_entries s)\<rparr>" and "lastSeen st = now" and
      c: "(window_over w (relay_entry s k) now \<and> st_windowStart st = now \<and>
          st_count st = (if b then 1 else 0) \<and> (b \<longleftrightarrow> 0 < m)) \<or>
       (\<exists>st0. map_of (rl_entries s) k = Some st0 \<and> now < st_windowStart st0 + w \<and>
          st_windowStart st = st_windowStart st0 \<and> st_count st = st_count st0 + (if b then 1 else 0) \<and>
          (b \<longleftrightarrow> st_count st0 < m))"
    from c have "st_windowStart st \<le> now \<and> 0 \<le> st_count st"
      using old [of k] by fastforce
    then show ?thesis
      using ok(1) old \<open>lastSeen st = now\<close> unfolding s' relay_ok_def by (auto split: if_splits)
  qed
next
  fix s t now
  assume "relay_ok m w s t" "t \<le> now"
  then show "relay_ok m w (relayLimiter_cleanup s now) now"
    by (auto simp: relay_ok_def relayLimiter_cleanup_def map_of_filter_wf split: option.splits if_splits)
       (metis order_trans)+
next
  fix s t now k s'
  assume ok: "relay_ok m w s t" "t \<le> now" and al: "relayLimiter_Allow s k now = (True, s')"
  have old: "map_of (rl_entries s) j = Some e \<Longrightarrow> st_windowStart e \<le> now \<and> 0 \<le> st_count e" for j e
    using ok unfolding relay_ok_def by (meson order_trans)
  from ok(1) al show "(window_over w (relay_entry s k) now \<and> relay_entry s' k = Some (now, 1) \<and> 1 \<le> nat m) \<or>
      (\<exists>v c. relay_entry s k = Some (v, c) \<and> c < nat m \<and> v \<le> now \<and> now < v + w \<and> relay_entry s' k = Some (v, Suc c))"
  proof (rule relay_Allow_cases)
    fix st
    assume s': "s' = s\<lparr>rl_entries := AList.update k st (rl_entries s)\<rparr>" and "lastSeen st = now" and
      "(window_over w (relay_entry s k) now \<and> st_windowStart st = now \<and>
          st_count st = (if True then 1 else 0) \<and> (True \<longleftrightarrow> 0 < m)) \<or>
       (\<exists>st0. map_of (rl_entries s) k = Some st0 \<and> now < st_windowStart st0 + w \<and>
          st_windowStart st = st_windowStart st0 \<and> st_count st = st_count st0 + (if True then 1 else 0) \<and>
          (True \<longleftrightarrow> st_count st0 < m))"
    then show ?thesis
    proof (elim disjE exE)
      assume "window_over w (relay_entry s k) now \<and> st_windowStart st = now \<and>
          st_count st = (if True then 1 else 0) \<and> (True \<longleftrightarrow> 0 < m)"
      moreover from this have "0 < m" by simp
      then have "1 \<le> nat m" by linarith
      ultimately show ?thesis by (simp add: relay_entry_def s')
    next
      fix st0
      assume st0: "map_of (rl_entries s) k = Some st0 \<and> now < st_windowStart st0 + w \<and>
          st_windowStart st = st_windowStart st0 \<and> st_count st = st_count st0 + (if True then 1 else 0) \<and>
          (True \<longleftrightarrow> st_count st0 < m)"
      with old [of k st0] show ?thesis
        by (simp add: relay_entry_def s' Suc_nat_eq_nat_zadd1 nat_less_eq_zless add.commute)
    qed
  qed
next
  fix s t now k s'
  assume ok: "relay_ok m w s t" "t \<le> now" and al: "relayLimiter_Allow s k now = (False, s')"
  from ok(1) al show "relay_entry s' k = relay_entry s k \<or>
      (window_over w (relay_entry s k) now \<and> relay_entry s' k \<in> {None, Some (now, 0)})"
    by (rule relay_Allow_cases) (auto simp: relay_entry_def)
next
  fix s t now k b s' k'
  assume ok: "relay_ok m w s t" "t \<le> now" and al: "relayLimiter_Allow s k now = (b, s')" and ne: "k' \<noteq> k"
  from ok(1) al show "relay_entry s' k' = relay_entry s k' \<or> (window_over w (relay_entry s k') now \<and> relay_entry s' k' = None)"
    by (rule relay_Allow_cases) (use ne in \<open>simp add: relay_entry_def\<close>)
next
  fix s t now k
  assume ok: "relay_ok m w s t" "t \<le> now"
  then have wf: "map_wf (rl_entries s)" and w: "0 < w" "w \<le> max_int64" "rl_window s = w"
    by (simp_all add: relay_ok_def)
  show "relay_entry (relayLimiter_cleanup s now) k = relay_entry s k \<or>
      (window_over w (relay_entry s k) now \<and> relay_entry (relayLimiter_cleanup s now) k = None)"
  proof (cases "map_of (rl_entries s) k")
    case None
    then show ?thesis by (simp add: relay_entry_def relayLimiter_cleanup_def map_of_filter_wf [OF wf])
  next
    case (Some st)
    then have "st_windowStart st \<le> lastSeen st" using ok(1) unfolding relay_ok_def by blast
    then show ?thesis
      using Some w
      by (auto simp: relay_entry_def relayLimiter_cleanup_def map_of_filter_wf [OF wf] sub_window window_over_def)
  qed
qed

definition access_entry :: "accessLimiter \<Rightarrow> string \<Rightarrow> (time \<times> nat) option" where
  "access_entry l host = map_option (\<lambda>e. (windowStart e, nat (entry_count e))) (map_of (al_entries l) host)"

definition access_allow :: "accessLimiter \<Rightarrow> string \<Rightarrow> time \<Rightarrow> bool \<times> accessLimiter" where
  "access_allow l host now = (case accessLimiter_Allow_host l host now of ((b, _), l') \<Rightarrow> (b, l'))"

definition access_ok :: "int \<Rightarrow> duration \<Rightarrow> accessLimiter \<Rightarrow> time \<Rightarrow> bool" where
  "access_ok m w l t \<longleftrightarrow> al_limit l = m \<and> 0 < m \<and> al_window l = w \<and> 0 < w \<and> w \<le> max_int64 \<and> map_wf (al_entries l) \<and>
     (\<forall>k e. map_of (al_entries l) k = Some e \<longrightarrow> windowStart e \<le> t \<and> 1 \<le> entry_count e)"

lemma prune_map_of:
  "map_wf (al_entries l) \<Longrightarrow> map_of (al_entries (accessLimiter_prune l now)) k =
     (case map_of (al_entries l) k of None \<Rightarrow> None
      | Some e \<Rightarrow> if al_window l \<le> time_Sub now (windowStart e) then None else Some e)"
  by (simp add: accessLimiter_prune_def map_of_filter_wf split: option.split)

text \<open>A limiter whose entries are those of another, less some whose window is over.\<close>

definition thinned :: "accessLimiter \<Rightarrow> time \<Rightarrow> accessLimiter \<Rightarrow> bool" where
  "thinned l now l' \<longleftrightarrow> al_limit l' = al_limit l \<and> al_window l' = al_window l \<and> map_wf (al_entries l') \<and>
     (\<forall>k. map_of (al_entries l') k = map_of (al_entries l) k \<or>
          (map_of (al_entries l') k = None \<and> window_over (al_window l) (access_entry l k) now))"

lemma thinned_prune:
  assumes "thinned l now l'" and "access_ok m w l t"
  shows "thinned l now (accessLimiter_prune l' now)"
proof -
  have wf: "map_wf (al_entries l')" using assms(1) by (simp add: thinned_def)
  have "map_of (al_entries (accessLimiter_prune l' now)) k = map_of (al_entries l) k \<or>
      (map_of (al_entries (accessLimiter_prune l' now)) k = None \<and> window_over (al_window l) (access_entry l k) now)" for k
  proof -
    have "map_of (al_entries l') k = map_of (al_entries l) k \<or>
        (map_of (al_entries l') k = None \<and> window_over (al_window l) (access_entry l k) now)" "al_window l' = al_window l"
      using assms(1) by (simp_all add: thinned_def)
    then show ?thesis
      using assms(2) unfolding prune_map_of [OF wf] access_ok_def
      by (cases "map_of (al_entries l) k") (auto simp: access_entry_def window_over_def sub_window split: if_splits)
  qed
  then show ?thesis
    using assms(1) wf unfolding thinned_def by (simp add: accessLimiter_prune_def)
qed

text \<open>What one request leaves, from the thinned table it worked on.\<close>

definition access_outcome ::
  "int \<Rightarrow> duration \<Rightarrow> accessLimiter \<Rightarrow> string \<Rightarrow> time \<Rightarrow> bool \<Rightarrow> accessLimiter \<Rightarrow> accessLimiter \<Rightarrow> bool" where
  "access_outcome m w l k now b l2 l' \<longleftrightarrow>
     (\<not> b \<and> l' = l2) \<or>
     (b \<and> window_over w (access_entry l k) now \<and>
        l' = l2\<lparr>al_entries := AList.update k \<lparr>windowStart = now, entry_count = 1\<rparr> (al_entries l2)\<rparr>) \<or>
     (b \<and> (\<exists>e. map_of (al_entries l) k = Some e \<and> now < windowStart e + w \<and> entry_count e < m \<and>
        l' = l2\<lparr>al_entries := AList.update k (e\<lparr>entry_count := entry_count e + 1\<rparr>) (al_entries l2)\<rparr>))"

lemma access_outcome_denied: "access_outcome m w l k now False l2 l' \<longleftrightarrow> l' = l2"
  by (simp add: access_outcome_def)

lemma access_outcome_granted:
  assumes "access_outcome m w l k now True l2 l'"
  obtains "window_over w (access_entry l k) now"
      "l' = l2\<lparr>al_entries := AList.update k \<lparr>windowStart = now, entry_count = 1\<rparr> (al_entries l2)\<rparr>"
  | e where "map_of (al_entries l) k = Some e" "now < windowStart e + w" "entry_count e < m"
      "l' = l2\<lparr>al_entries := AList.update k (e\<lparr>entry_count := entry_count e + 1\<rparr>) (al_entries l2)\<rparr>"
  using assms unfolding access_outcome_def by blast

lemma thinned_make_room:
  assumes ok: "access_ok m w l t"
  shows "thinned l now (make_room l k now)"
proof -
  have "thinned l now (drop_expired l k now)"
    using ok by (auto simp: drop_expired_def live_entry_def thinned_def access_ok_def access_entry_def window_over_def
        sub_window split: option.splits if_splits)
  then show ?thesis using thinned_prune [OF _ ok] by (simp add: make_room_def Let_def)
qed

lemma live_entry_None: "\<lbrakk>access_ok m w l t; live_entry l k now = None\<rbrakk> \<Longrightarrow> window_over w (access_entry l k) now"
  by (auto simp: live_entry_def access_ok_def access_entry_def window_over_def sub_window split: option.splits if_splits)

lemma live_entry_Some:
  "\<lbrakk>access_ok m w l t; live_entry l k now = Some e\<rbrakk> \<Longrightarrow> map_of (al_entries l) k = Some e \<and> now < windowStart e + w"
  by (auto simp: live_entry_def access_ok_def sub_window split: option.splits if_splits)

lemma access_allow_cases:
  assumes ok: "access_ok m w l t" and al: "access_allow l k now = (b, l')"
  obtains l2 where "thinned l now l2" "access_outcome m w l k now b l2 l'"
proof (rule that [OF thinned_make_room [OF ok, of now k]])
  have "al_limit l = m" using ok by (simp add: access_ok_def)
  then show "access_outcome m w l k now b (make_room l k now) l'"
    using al live_entry_None [OF ok, of k now] live_entry_Some [OF ok, of k now]
    by (cases "live_entry l k now")
       (auto simp: access_allow_def accessLimiter_Allow_host_def access_outcome_def Let_def split: if_splits)
qed

lemma access_ok_thinned:
  assumes "access_ok m w l t" and "thinned l now l2" and "t \<le> now"
  shows "access_ok m w l2 now"
proof -
  have "windowStart e \<le> now \<and> 1 \<le> entry_count e" if "map_of (al_entries l2) k = Some e" for k e
  proof -
    have "map_of (al_entries l) k = Some e"
      using assms(2) that unfolding thinned_def by (metis option.discI)
    then show ?thesis using assms(1,3) unfolding access_ok_def by (meson order_trans)
  qed
  then show ?thesis using assms by (simp add: access_ok_def thinned_def)
qed

lemma access_entry_update:
  "access_entry (l\<lparr>al_entries := AList.update k e (al_entries l)\<rparr>) k' =
     (if k' = k then Some (windowStart e, nat (entry_count e)) else access_entry l k')"
  by (simp add: access_entry_def)

lemma access_entry_thinned:
  assumes "thinned l now l2" and "al_window l = w"
  shows "access_entry l2 k = access_entry l k \<or> (window_over w (access_entry l k) now \<and> access_entry l2 k = None)"
proof -
  have "map_of (al_entries l2) k = map_of (al_entries l) k \<or>
      (map_of (al_entries l2) k = None \<and> window_over w (access_entry l k) now)"
    using assms unfolding thinned_def by simp
  then show ?thesis by (elim disjE) (simp_all add: access_entry_def)
qed

lemma access_outcome_ok:
  assumes ok: "access_ok m w s t" "t \<le> now" and thin: "thinned s now l2" and out: "access_outcome m w s k now b l2 s'"
  shows "access_ok m w s' now"
proof -
  have l2: "access_ok m w l2 now" using access_ok_thinned [OF ok(1) thin ok(2)] .
  have upd: "access_ok m w (l2\<lparr>al_entries := AList.update k e (al_entries l2)\<rparr>) now"
    if "windowStart e \<le> now" "1 \<le> entry_count e" for e
    using l2 that by (simp add: access_ok_def)
  show ?thesis
  proof (cases b)
    case False
    then show ?thesis using out l2 by (simp add: access_outcome_denied)
  next
    case True
    with out have "access_outcome m w s k now True l2 s'" by simp
    then show ?thesis
    proof (rule access_outcome_granted)
      fix e
      assume e: "map_of (al_entries s) k = Some e"
        and s': "s' = l2\<lparr>al_entries := AList.update k (e\<lparr>entry_count := entry_count e + 1\<rparr>) (al_entries l2)\<rparr>"
      have "windowStart e \<le> now \<and> 1 \<le> entry_count e"
        using ok e unfolding access_ok_def by (meson order_trans)
      then show ?thesis unfolding s' by (intro upd) simp_all
    next
      assume s': "s' = l2\<lparr>al_entries := AList.update k \<lparr>windowStart = now, entry_count = 1\<rparr> (al_entries l2)\<rparr>"
      show ?thesis unfolding s' by (intro upd) simp_all
    qed
  qed
qed

lemma access_outcome_others:
  assumes "access_outcome m w s k now b l2 s'" and "k' \<noteq> k"
  shows "access_entry s' k' = access_entry l2 k'"
  using assms unfolding access_outcome_def by (elim disjE conjE exE) (simp_all add: access_entry_update)

interpretation access: window_limiter access_entry access_allow accessLimiter_prune "access_ok m w" "nat m" w for m w
proof
  show "access_ok m w s t \<Longrightarrow> 0 < w" for s t by (simp add: access_ok_def)
next
  fix s t now k b s'
  assume ok: "access_ok m w s t" "t \<le> now" and al: "access_allow s k now = (b, s')"
  show "access_ok m w s' now"
    by (rule access_allow_cases [OF ok(1) al]) (rule access_outcome_ok [OF ok])
next
  fix s t now
  assume ok: "access_ok m w s t" "t \<le> now"
  have "thinned s now s" using ok by (simp add: thinned_def access_ok_def)
  from access_ok_thinned [OF ok(1) thinned_prune [OF this ok(1)] ok(2)]
  show "access_ok m w (accessLimiter_prune s now) now" .
next
  fix s t now k s'
  assume ok: "access_ok m w s t" "t \<le> now" and al: "access_allow s k now = (True, s')"
  obtain l2 where "access_outcome m w s k now True l2 s'" by (rule access_allow_cases [OF ok(1) al])
  then show "(window_over w (access_entry s k) now \<and> access_entry s' k = Some (now, 1) \<and> 1 \<le> nat m) \<or>
      (\<exists>v c. access_entry s k = Some (v, c) \<and> c < nat m \<and> v \<le> now \<and> now < v + w \<and> access_entry s' k = Some (v, Suc c))"
  proof (rule access_outcome_granted)
    assume "window_over w (access_entry s k) now"
      "s' = l2\<lparr>al_entries := AList.update k \<lparr>windowStart = now, entry_count = 1\<rparr> (al_entries l2)\<rparr>"
    moreover have "0 < m" using ok(1) by (simp add: access_ok_def)
    then have "1 \<le> nat m" by linarith
    ultimately show ?thesis by (simp add: access_entry_update)
  next
    fix e
    assume e: "map_of (al_entries s) k = Some e" "now < windowStart e + w" "entry_count e < m"
      "s' = l2\<lparr>al_entries := AList.update k (e\<lparr>entry_count := entry_count e + 1\<rparr>) (al_entries l2)\<rparr>"
    have "windowStart e \<le> now \<and> 1 \<le> entry_count e"
      using ok e(1) unfolding access_ok_def by (meson order_trans)
    then show ?thesis using e by (simp add: access_entry_def Suc_nat_eq_nat_zadd1 nat_less_eq_zless add.commute)
  qed
next
  fix s t now k s'
  assume ok: "access_ok m w s t" "t \<le> now" and al: "access_allow s k now = (False, s')"
  obtain l2 where l2: "thinned s now l2" "access_outcome m w s k now False l2 s'"
    by (rule access_allow_cases [OF ok(1) al])
  have "al_window s = w" using ok(1) by (simp add: access_ok_def)
  from access_entry_thinned [OF l2(1) this, of k]
  show "access_entry s' k = access_entry s k \<or>
      (window_over w (access_entry s k) now \<and> access_entry s' k \<in> {None, Some (now, 0)})"
    using l2(2) unfolding access_outcome_denied by blast
next
  fix s t now k b s' k'
  assume ok: "access_ok m w s t" "t \<le> now" and al: "access_allow s k now = (b, s')" and ne: "k' \<noteq> k"
  obtain l2 where l2: "thinned s now l2" "access_outcome m w s k now b l2 s'"
    by (rule access_allow_cases [OF ok(1) al])
  have "al_window s = w" using ok(1) by (simp add: access_ok_def)
  from access_entry_thinned [OF l2(1) this, of k']
  show "access_entry s' k' = access_entry s k' \<or> (window_over w (access_entry s k') now \<and> access_entry s' k' = None)"
    unfolding access_outcome_others [OF l2(2) ne] .
next
  fix s t now k
  assume ok: "access_ok m w s t" "t \<le> now"
  have "thinned s now s" using ok by (simp add: thinned_def access_ok_def)
  from access_entry_thinned [OF thinned_prune [OF this ok(1)], of w k]
  show "access_entry (accessLimiter_prune s now) k = access_entry s k \<or>
      (window_over w (access_entry s k) now \<and> access_entry (accessLimiter_prune s now) k = None)"
    using ok by (simp add: access_ok_def)
qed

section \<open>What the limiters grant\<close>



text \<open>The access service's limiter keeps the same bound, with its bounded table and the prune that makes room in
  it: one host is granted at most twice the limit in any interval one window long.\<close>

theorem access_limiter_bound:
  assumes "0 < m" and "0 < w" and "w \<le> max_int64" and "sorted (map event_time es)"
  shows "grants_within host a w (limiter_grants access_allow accessLimiter_prune (NewIPLimiter m w n) es) \<le> 2 * nat m"
proof -
  define t where "t = (case es of [] \<Rightarrow> 0 | e # _ \<Rightarrow> event_time e)"
  have "access_ok m w (NewIPLimiter m w n) t" "access_entry (NewIPLimiter m w n) host = None"
    using assms(1-3) by (simp_all add: access_ok_def NewIPLimiter_def access_entry_def)
  moreover have "\<forall>e \<in> set es. t \<le> event_time e"
    using assms(4) by (cases es) (auto simp: t_def)
  ultimately show ?thesis using access.grants_bound assms(4) by blast
qed

theorem access_limiter_bound_witness:
  "grants_within ''h'' 0 10 (limiter_grants access_allow accessLimiter_prune (NewIPLimiter 1 10 1)
     [Request ''h'' 1, Request ''g'' 2, Request ''h'' 3, Request ''g'' 12]) \<le> 2 * nat 1"
  using access_limiter_bound [of 1 10 "[Request ''h'' 1, Request ''g'' 2, Request ''h'' 3, Request ''g'' 12]" "''h''" 0 1]
  by (simp add: max_int64_def del: limiter_grants.simps)

lemma make_room_length: "length (al_entries (make_room l k now)) \<le> length (al_entries l)"
proof -
  have "length (al_entries (drop_expired l k now)) \<le> length (al_entries l)" by (simp add: drop_expired_def)
  then show ?thesis
    using order_trans [OF length_filter_le, of "al_entries (drop_expired l k now)"]
    by (simp add: make_room_def accessLimiter_prune_def Let_def)
qed

text \<open>The identity table of the access limiter never grows past its bound, whatever addresses are presented.\<close>

theorem access_limiter_table_bound:
  assumes bound: "int (length (al_entries l)) \<le> maxEntries l"
  shows "int (length (al_entries (snd (accessLimiter_Allow sp l addr now)))) \<le> maxEntries l"
proof -
  define k where "k = limiter_host sp addr"
  define l2 where "l2 = make_room l k now"
  have max: "maxEntries l2 = maxEntries l"
    by (simp add: l2_def make_room_def drop_expired_def accessLimiter_prune_def Let_def)
  have le: "length (al_entries l2) \<le> length (al_entries l)" unfolding l2_def by (rule make_room_length)
  have "int (length (al_entries (snd (accessLimiter_Allow_host l k now)))) \<le> maxEntries l"
  proof (cases "live_entry l k now")
    case None
    have "int (length (AList.update k v (al_entries l2))) \<le> maxEntries l"
      if "int (length (al_entries l2)) < maxEntries l" for v
      using that by (simp add: length_update)
    then show ?thesis using None le bound max by (simp add: accessLimiter_Allow_host_def Let_def flip: l2_def)
  next
    case (Some e)
    then have "l2 = l" by (simp add: l2_def make_room_def drop_expired_def)
    moreover have "map_of (al_entries l) k \<noteq> None" using Some by (auto simp: live_entry_def split: option.splits)
    ultimately show ?thesis
      using Some bound by (auto simp: accessLimiter_Allow_host_def Let_def length_update l2_def [symmetric])
  qed
  then show ?thesis using bound by (simp add: accessLimiter_Allow_def k_def)
qed

theorem access_limiter_table_bound_witness:
  "int (length (al_entries (snd (accessLimiter_Allow Some
      \<lparr>al_entries = [(''h'', \<lparr>windowStart = 0, entry_count = 1\<rparr>)], al_limit = 1, al_window = 10, maxEntries = 1\<rparr> ''g'' 20)))) \<le> 1"
  using access_limiter_table_bound
    [of "\<lparr>al_entries = [(''h'', \<lparr>windowStart = 0, entry_count = 1\<rparr>)], al_limit = 1, al_window = 10, maxEntries = 1\<rparr>"
        Some "''g''" 20]
  by simp

end
