(* ===== verification/Storage.thy ===== *)
theory Storage
  imports Relay_Prelude
begin

text \<open>
  The records of \<^verbatim>\<open>access/storage/storage.go\<close>, the errors the access packages return, and the transaction computations
  in which the access service is written.  A callback that receives a \<^verbatim>\<open>storage.Tx\<close> is a function from the
  transaction to an error or a value and the transaction it leaves.
\<close>

section \<open>Errors\<close>

datatype access_error =
    ErrConflict | ErrReadOnly | ErrClosed | ErrCapacity
  | ErrContext | ErrMarshal | ErrRandom | ErrSigning
  | ErrSessionCapacity | ErrInvitationCapacity | ErrSSECapacity | ErrSessionNotReady | ErrWriterFenced
  | ErrInvalidRelayState | ErrInvalidCapability | ErrNoRows | ErrNotExist | ErrUnsupportedSchema
  | ErrInvalidWordCount | ErrInvalidInvitationVisibility | ErrNameAllocationUnavailable
  | ErrRetryConflict | ErrReceiptCapacity | ErrStoredName | ErrNameGeneration | ErrConfiguration

section \<open>Records\<close>

definition SchemaVersion :: int where "SchemaVersion = 1"
definition MaxRecordBytes :: nat where "MaxRecordBytes = 262144"

record storage_counts =
  SessionCount :: nat
  GrantCount :: nat
  ReceiptCount :: nat

record namespace_record =
  ns_SchemaVersion :: int
  ns_Incarnation :: string
  ns_WriterTerm :: u64
  ns_WriterID :: string
  LeaseExpiresAt :: time

definition zero_namespace :: namespace_record where
  "zero_namespace = \<lparr>ns_SchemaVersion = 0, ns_Incarnation = [], ns_WriterTerm = 0, ns_WriterID = [],
     LeaseExpiresAt = zero_time\<rparr>"

record BusState =
  bs_BusID :: string
  bs_Role :: string
  SourceActive :: bool
  SourceGeneration :: u64

record SubscriptionState =
  SubscriberID :: string
  ss_BusID :: string

record RelayState =
  ContractVersion :: int
  rs_SessionID :: string
  RelayEpoch :: string
  Revision :: u64
  rs_WriterTerm :: u64
  ObservedAt :: time
  Buses :: "BusState list"
  Subscriptions :: "SubscriptionState list"

definition zero_relay :: RelayState where
  "zero_relay = \<lparr>ContractVersion = 0, rs_SessionID = [], RelayEpoch = [], Revision = 0, rs_WriterTerm = 0,
     ObservedAt = zero_time, Buses = [], Subscriptions = []\<rparr>"

record SessionRecord =
  sr_SchemaVersion :: int
  sr_ID :: string
  sr_Issuer :: string
  sr_Incarnation :: string
  LegacyTokensBefore :: time
  RequiredBuses :: "string list"
  Codec :: string
  StateRevision :: u64
  Relay :: RelayState
  sr_WriterTerm :: u64
  MediaTerm :: u64
  LastActiveAt :: time
  sr_ExpiresAt :: time

record GrantRecord =
  gr_SchemaVersion :: int
  gr_ID :: string
  JoinCode :: string
  Alias :: string
  gr_GrammarName :: string
  WordCount :: int
  Visibility :: string
  gr_SessionID :: string
  gr_BusID :: string
  gr_CreatedAt :: time
  gr_ExpiresAt :: time

record Receipt =
  rc_SchemaVersion :: int
  Key :: string
  Operation :: string
  rc_SessionID :: string
  RequestDigest :: bytes
  CredentialDigest :: bytes
  Response :: bytes
  StatusCode :: int
  rc_CreatedAt :: time
  rc_ExpiresAt :: time

text \<open>What an adapter stores, as one type: the JSON encoding of a value is an argument of the operations that bound it.\<close>

datatype stored =
    StoredSession SessionRecord | StoredGrant GrantRecord | StoredReceipt Receipt | StoredNamespace namespace_record

type_synonym marshaller = "stored \<Rightarrow> nat option"

section \<open>Contexts\<close>

text \<open>
  A \<^verbatim>\<open>context.Context\<close> is asked for its error at several points of an operation.  It is the number of polls
  it answers without an error, or nothing when it is never cancelled; once cancelled it stays cancelled.
\<close>

type_synonym go_context = "nat option"

definition ctx_error :: "go_context \<Rightarrow> nat \<Rightarrow> access_error option" where
  "ctx_error c i = (case c of None \<Rightarrow> None | Some n \<Rightarrow> if n \<le> i then Some ErrContext else None)"

lemma ctx_error_None [simp]: "ctx_error None i = None"
  by (simp add: ctx_error_def)

lemma ctx_error_stays: "\<lbrakk>ctx_error c i = Some e; i \<le> j\<rbrakk> \<Longrightarrow> ctx_error c j = Some e"
  by (auto simp: ctx_error_def split: option.splits if_splits)

lemma ctx_error_earlier: "\<lbrakk>ctx_error c j = None; i \<le> j\<rbrakk> \<Longrightarrow> ctx_error c i = None"
  by (auto simp: ctx_error_def split: option.splits if_splits)

section \<open>Transaction computations\<close>

type_synonym ('t, 'a) txm = "'t \<Rightarrow> (access_error + 'a) \<times> 't"

definition tx_return :: "'a \<Rightarrow> ('t, 'a) txm" where
  "tx_return a t = (Inr a, t)"

definition tx_fail :: "access_error \<Rightarrow> ('t, 'a) txm" where
  "tx_fail e t = (Inl e, t)"

text \<open>The pattern \<^verbatim>\<open>if err != nil { return err }\<close>.\<close>

definition tx_bind :: "('t, 'a) txm \<Rightarrow> ('a \<Rightarrow> ('t, 'b) txm) \<Rightarrow> ('t, 'b) txm" where
  "tx_bind m f t = (case m t of (Inl e, t') \<Rightarrow> (Inl e, t') | (Inr a, t') \<Rightarrow> f a t')"

text \<open>The pattern \<^verbatim>\<open>if errors.Is(err, e)\<close> after a call.\<close>

definition tx_catch :: "('t, 'a) txm \<Rightarrow> access_error \<Rightarrow> ('t, 'a) txm \<Rightarrow> ('t, 'a) txm" where
  "tx_catch m e h t = (case m t of (Inl e', t') \<Rightarrow> if e' = e then h t' else (Inl e', t') | (Inr a, t') \<Rightarrow> (Inr a, t'))"

definition tx_guard :: "bool \<Rightarrow> access_error \<Rightarrow> ('t, unit) txm" where
  "tx_guard b e = (if b then tx_return () else tx_fail e)"

definition tx_lift :: "access_error + 'a \<Rightarrow> ('t, 'a) txm" where
  "tx_lift r t = (r, t)"

fun tx_each :: "('x \<Rightarrow> ('t, unit) txm) \<Rightarrow> 'x list \<Rightarrow> ('t, unit) txm" where
  "tx_each f [] = tx_return ()"
| "tx_each f (x # xs) = tx_bind (f x) (\<lambda>_. tx_each f xs)"

lemma tx_bind_Inr_iff: "tx_bind m f t = (Inr b, t') \<longleftrightarrow> (\<exists>a s. m t = (Inr a, s) \<and> f a s = (Inr b, t'))"
  by (auto simp: tx_bind_def split: prod.splits sum.splits)

lemma tx_bind_Inl_iff:
  "tx_bind m f t = (Inl e, t') \<longleftrightarrow> m t = (Inl e, t') \<or> (\<exists>a s. m t = (Inr a, s) \<and> f a s = (Inl e, t'))"
  by (auto simp: tx_bind_def split: prod.splits sum.splits)

lemma tx_return_iff [simp]: "tx_return a t = (r, t') \<longleftrightarrow> r = Inr a \<and> t' = t"
  by (auto simp: tx_return_def)

lemma tx_fail_iff [simp]: "tx_fail e t = (r, t') \<longleftrightarrow> r = Inl e \<and> t' = t"
  by (auto simp: tx_fail_def)

lemma tx_guard_iff [simp]:
  "tx_guard b e t = (r, t') \<longleftrightarrow> t' = t \<and> r = (if b then Inr () else Inl e)"
  by (auto simp: tx_guard_def)

lemma tx_lift_iff [simp]: "tx_lift x t = (r, t') \<longleftrightarrow> r = x \<and> t' = t"
  by (auto simp: tx_lift_def)

lemma tx_bind_Inr [intro]: "\<lbrakk>m t = (Inr a, s); f a s = r\<rbrakk> \<Longrightarrow> tx_bind m f t = r"
  by (simp add: tx_bind_def)

lemma tx_bind_return [simp]: "tx_bind (tx_return a) f = f a"
  by (rule ext) (simp add: tx_bind_def tx_return_def)

lemma tx_bind_fail [simp]: "tx_bind (tx_fail e) f = tx_fail e"
  by (rule ext) (simp add: tx_bind_def tx_fail_def)

lemma tx_bind_assoc: "tx_bind (tx_bind m f) g = tx_bind m (\<lambda>a. tx_bind (f a) g)"
  by (rule ext) (simp add: tx_bind_def split: prod.split sum.split)

section \<open>The transaction interface\<close>

text \<open>
  The methods of \<^verbatim>\<open>storage.Tx\<close> as a table of functions, so that the access service is written once for every
  adapter, as in the source.  A lookup returns its record or nothing.
\<close>

record 't Tx =
  Tx_Now :: "('t, time) txm"
  Tx_Session :: "string \<Rightarrow> ('t, SessionRecord option) txm"
  Tx_Sessions :: "int \<Rightarrow> ('t, SessionRecord list) txm"
  Tx_PutSession :: "SessionRecord \<Rightarrow> ('t, unit) txm"
  Tx_DeleteSession :: "string \<Rightarrow> ('t, unit) txm"
  Tx_Grant :: "string \<Rightarrow> ('t, GrantRecord option) txm"
  Tx_PutGrant :: "GrantRecord \<Rightarrow> ('t, unit) txm"
  Tx_DeleteGrant :: "string \<Rightarrow> ('t, unit) txm"
  Tx_Receipt :: "string \<Rightarrow> ('t, Receipt option) txm"
  Tx_PutReceipt :: "Receipt \<Rightarrow> ('t, unit) txm"
  Tx_Counts :: "('t, storage_counts) txm"
  Tx_PruneExpired :: "('t, unit) txm"
  Tx_Namespace :: "('t, namespace_record) txm"
  Tx_PutNamespace :: "namespace_record \<Rightarrow> ('t, unit) txm"

datatype transactionMode = readTransaction | writeTransaction

text \<open>The record maps an adapter holds.\<close>

record records =
  sessions :: "(string, SessionRecord) gomap"
  grants :: "(string, GrantRecord) gomap"
  locators :: "(string, string) gomap"
  receipts :: "(string, Receipt) gomap"
  ns_record :: namespace_record

definition bounded :: "marshaller \<Rightarrow> stored \<Rightarrow> ('t, unit) txm" where
  "bounded marshal v =
     (case marshal v of
        None \<Rightarrow> tx_fail ErrMarshal
      | Some n \<Rightarrow> if n > MaxRecordBytes then tx_fail ErrCapacity else tx_return ())"

definition grant_conflict :: "records \<Rightarrow> GrantRecord \<Rightarrow> bool" where
  "grant_conflict d r =
     (if gr_ID r = [] \<or> JoinCode r = [] \<or> Alias r = [] \<or> JoinCode r = Alias r then True
      else if \<not> has_key (gr_SessionID r) (sessions d) then True
      else if has_key (gr_ID r) (grants d) then True
      else if has_key (JoinCode r) (locators d) then True
      else has_key (Alias r) (locators d))"

section \<open>Relations kept by a computation\<close>

text \<open>Every outcome of the computation is related to its start; reflexive and transitive relations compose.\<close>

definition tx_keeps :: "('t \<Rightarrow> 't \<Rightarrow> bool) \<Rightarrow> ('t, 'a) txm \<Rightarrow> bool" where
  "tx_keeps R m \<longleftrightarrow> (\<forall>t. R t (snd (m t)))"

lemma tx_keepsD: "\<lbrakk>tx_keeps R m; m t = (r, t')\<rbrakk> \<Longrightarrow> R t t'"
  unfolding tx_keeps_def by (metis snd_conv)

locale tx_relation =
  fixes R :: "'t \<Rightarrow> 't \<Rightarrow> bool"
  assumes R_refl: "R t t"
    and R_trans: "\<lbrakk>R t u; R u v\<rbrakk> \<Longrightarrow> R t v"
begin

lemma keeps_return: "tx_keeps R (tx_return a)"
  by (simp add: tx_keeps_def tx_return_def R_refl)

lemma keeps_fail: "tx_keeps R (tx_fail e)"
  by (simp add: tx_keeps_def tx_fail_def R_refl)

lemma keeps_guard: "tx_keeps R (tx_guard b e)"
  by (simp add: tx_guard_def keeps_return keeps_fail)

lemma keeps_lift: "tx_keeps R (tx_lift r)"
  by (simp add: tx_keeps_def tx_lift_def R_refl)

lemma keeps_bind:
  assumes m: "tx_keeps R m" and f: "\<And>a. tx_keeps R (f a)"
  shows "tx_keeps R (tx_bind m f)"
  unfolding tx_keeps_def
proof
  fix t
  obtain r s where ms: "m t = (r, s)" by (cases "m t")
  have "R t s" using m ms by (rule tx_keepsD)
  moreover have "R s (snd (f a s))" for a using f [of a] by (simp add: tx_keeps_def)
  ultimately show "R t (snd (tx_bind m f t))"
    using ms by (cases r) (auto simp: tx_bind_def intro: R_trans)
qed

lemma keeps_catch:
  assumes m: "tx_keeps R m" and h: "tx_keeps R h"
  shows "tx_keeps R (tx_catch m e h)"
  unfolding tx_keeps_def
proof
  fix t
  obtain r s where ms: "m t = (r, s)" by (cases "m t")
  have "R t s" using m ms by (rule tx_keepsD)
  moreover have "R s (snd (h s))" using h by (simp add: tx_keeps_def)
  ultimately show "R t (snd (tx_catch m e h t))"
    using ms by (cases r) (auto simp: tx_catch_def intro: R_trans)
qed

lemma keeps_each: "(\<And>x. tx_keeps R (f x)) \<Longrightarrow> tx_keeps R (tx_each f xs)"
  by (induction xs) (simp_all add: keeps_return keeps_bind)

lemma keeps_if: "\<lbrakk>b \<Longrightarrow> tx_keeps R m; \<not> b \<Longrightarrow> tx_keeps R n\<rbrakk> \<Longrightarrow> tx_keeps R (if b then m else n)"
  by simp

lemma keeps_case_option:
  "\<lbrakk>tx_keeps R m; \<And>a. tx_keeps R (f a)\<rbrakk> \<Longrightarrow> tx_keeps R (case x of None \<Rightarrow> m | Some a \<Rightarrow> f a)"
  by (cases x) simp_all

lemma keeps_case_sum:
  "\<lbrakk>\<And>e. tx_keeps R (h e); \<And>a. tx_keeps R (f a)\<rbrakk> \<Longrightarrow> tx_keeps R (case x of Inl e \<Rightarrow> h e | Inr a \<Rightarrow> f a)"
  by (cases x) simp_all

lemmas keeps_rules = keeps_return keeps_fail keeps_guard keeps_lift keeps_bind keeps_catch keeps_each keeps_if
  keeps_case_option keeps_case_sum

end

end
