(* ===== verification/Token.thy ===== *)
theory Token
  imports Identifiers Storage
begin

text \<open>
  The capability tokens of \<^verbatim>\<open>access/token/token.go\<close>.  The JWT library is an argument: it makes numeric dates, signs
  claims under a secret, and parses a token under the options the code passes.  What the code relies on
  is \<^verbatim>\<open>jwt_documented\<close>, a named hypothesis of the round-trip properties.
\<close>

section \<open>Claims\<close>

definition Issuer :: string where "Issuer = ''pocketstation-relay''"
definition LegacyIssuer :: string where "LegacyIssuer = ''pocketstation-control-plane''"
definition token_Audience :: string where "token_Audience = ''pocketstation-relay''"
definition tokenTyp :: string where "tokenTyp = ''pks-relay-capability+jwt''"
definition maxBusScopes :: nat where "maxBusScopes = 16"
definition maxIdentifierLength :: nat where "maxIdentifierLength = 128"

definition RoleSource :: string where "RoleSource = ''source''"
definition RoleSubscriber :: string where "RoleSubscriber = ''subscriber''"

record Claims =
  c_SessionID :: string
  c_BusID :: string
  c_BusIDs :: "string list"
  c_Role :: string
  c_Control :: bool
  c_Incarnation :: string
  c_Issuer :: string
  c_Subject :: string
  c_Audience :: "string list"
  c_ExpiresAt :: "time option"
  c_NotBefore :: "time option"
  c_IssuedAt :: "time option"
  c_ID :: string

text \<open>The claims a caller fills in; the registered claims are set when signing.\<close>

definition new_claims :: "string \<Rightarrow> string \<Rightarrow> string \<Rightarrow> string list \<Rightarrow> bool \<Rightarrow> Claims" where
  "new_claims sid role bus buses control =
     \<lparr>c_SessionID = sid, c_BusID = bus, c_BusIDs = buses, c_Role = role, c_Control = control, c_Incarnation = [],
      c_Issuer = [], c_Subject = [], c_Audience = [], c_ExpiresAt = None, c_NotBefore = None, c_IssuedAt = None, c_ID = []\<rparr>"

section \<open>The JWT library\<close>

record jwt_options =
  opt_typ :: string
  opt_issuer :: string
  opt_now :: time
  opt_audience :: string
  opt_leeway :: duration

record jwt_library =
  NewNumericDate :: "time \<Rightarrow> time"
  SignedString :: "bytes \<Rightarrow> string \<Rightarrow> Claims \<Rightarrow> string option"
  ParseWithClaims :: "jwt_options \<Rightarrow> bytes \<Rightarrow> string \<Rightarrow> Claims option"

text \<open>The checks the parser makes for the options the code sets: issuer, audience, required expiry, not-before and issued-at,
  each with the leeway.\<close>

definition jwt_valid :: "jwt_options \<Rightarrow> Claims \<Rightarrow> bool" where
  "jwt_valid opt c \<longleftrightarrow> c_Issuer c = opt_issuer opt \<and> opt_audience opt \<in> set (c_Audience c) \<and>
     (case c_ExpiresAt c of None \<Rightarrow> False | Some e \<Rightarrow> opt_now opt < e + opt_leeway opt) \<and>
     (case c_NotBefore c of None \<Rightarrow> True | Some n \<Rightarrow> n \<le> opt_now opt + opt_leeway opt) \<and>
     (case c_IssuedAt c of None \<Rightarrow> True | Some i \<Rightarrow> i \<le> opt_now opt + opt_leeway opt)"

definition jwt_documented :: "jwt_library \<Rightarrow> bool" where
  "jwt_documented lib \<longleftrightarrow>
     (\<forall>t. NewNumericDate lib t \<le> t \<and> t < NewNumericDate lib t + second) \<and>
     (\<forall>t u. t \<le> u \<longrightarrow> NewNumericDate lib t \<le> NewNumericDate lib u) \<and>
     (\<forall>secret typ c encoded opt. SignedString lib secret typ c = Some encoded \<longrightarrow> opt_typ opt = typ \<longrightarrow> jwt_valid opt c \<longrightarrow>
        ParseWithClaims lib opt secret encoded = Some c) \<and>
     (\<forall>secret opt encoded c. ParseWithClaims lib opt secret encoded = Some c \<longrightarrow> jwt_valid opt c)"

lemma jwt_parse_signed:
  "\<lbrakk>jwt_documented lib; SignedString lib secret (opt_typ opt) c = Some encoded; jwt_valid opt c\<rbrakk> \<Longrightarrow>
     ParseWithClaims lib opt secret encoded = Some c"
  unfolding jwt_documented_def by blast

lemma jwt_parse_valid: "\<lbrakk>jwt_documented lib; ParseWithClaims lib opt secret encoded = Some c\<rbrakk> \<Longrightarrow> jwt_valid opt c"
  unfolding jwt_documented_def by blast

lemma jwt_date: "jwt_documented lib \<Longrightarrow> NewNumericDate lib t \<le> t \<and> t < NewNumericDate lib t + second"
  unfolding jwt_documented_def by blast

lemma jwt_date_mono: "\<lbrakk>jwt_documented lib; t \<le> u\<rbrakk> \<Longrightarrow> NewNumericDate lib t \<le> NewNumericDate lib u"
  unfolding jwt_documented_def by blast

section \<open>Signing\<close>

definition hex_digit :: "nat \<Rightarrow> char" where
  "hex_digit n = ''0123456789abcdef'' ! n"

definition hex_EncodeToString :: "bytes \<Rightarrow> string" where
  "hex_EncodeToString bs = concat (map (\<lambda>b. [hex_digit (unat b div 16), hex_digit (unat b mod 16)]) bs)"

text \<open>\<^verbatim>\<open>rand.Read\<close> of sixteen bytes: the bytes read, or nothing on an error.\<close>

definition randomTokenID :: "bytes option \<Rightarrow> access_error + string" where
  "randomTokenID rnd = (case rnd of None \<Rightarrow> Inl ErrRandom | Some value \<Rightarrow> Inr (hex_EncodeToString value))"

definition validateScope :: "Claims \<Rightarrow> bool" where
  "validateScope c =
     (if c_Role c = RoleSource then
        \<not> (c_BusID c \<noteq> [] \<or> length (c_BusIDs c) = 0 \<or> length (c_BusIDs c) > maxBusScopes \<or> invalidIdentifiers (c_BusIDs c) 64)
      else if c_Role c = RoleSubscriber then
        \<not> (\<not> validIdentifier (c_BusID c) 64 \<or> length (c_BusIDs c) \<noteq> 0 \<or> c_Control c)
      else False)"

definition token_subject :: "Claims \<Rightarrow> string" where
  "token_subject c = ''relay-session:'' @ c_SessionID c @ '':'' @ c_Role c"

definition registered :: "jwt_library \<Rightarrow> string \<Rightarrow> string \<Rightarrow> time \<Rightarrow> duration \<Rightarrow> Claims \<Rightarrow> Claims" where
  "registered lib issuer jti now ttl c =
     c\<lparr>c_Issuer := issuer, c_Subject := token_subject c, c_Audience := [token_Audience],
       c_ExpiresAt := Some (NewNumericDate lib (now + ttl)),
       c_NotBefore := Some (NewNumericDate lib (now + (- (5 * second)))),
       c_IssuedAt := Some (NewNumericDate lib now), c_ID := jti\<rparr>"

definition SignProfile ::
  "jwt_library \<Rightarrow> bytes \<Rightarrow> string \<Rightarrow> string \<Rightarrow> Claims \<Rightarrow> duration \<Rightarrow> time \<Rightarrow> bytes option \<Rightarrow> access_error + string" where
  "SignProfile lib secret issuer incarnation claims ttl now rnd =
     (if issuer \<noteq> Issuer \<and> issuer \<noteq> LegacyIssuer then Inl ErrInvalidCapability
      else
        let claims = claims\<lparr>c_Incarnation := incarnation\<rparr>
        in if \<not> validateScope claims then Inl ErrInvalidCapability
           else if length secret < 32 \<or> \<not> validIdentifier (c_SessionID claims) maxIdentifierLength \<or> ttl \<le> 0
           then Inl ErrInvalidCapability
           else
             case randomTokenID rnd of
               Inl e \<Rightarrow> Inl e
             | Inr jti \<Rightarrow>
                 (case SignedString lib secret tokenTyp (registered lib issuer jti now ttl claims) of
                    None \<Rightarrow> Inl ErrSigning
                  | Some encoded \<Rightarrow> Inr encoded))"

definition token_sign :: "jwt_library \<Rightarrow> bytes \<Rightarrow> Claims \<Rightarrow> duration \<Rightarrow> time \<Rightarrow> bytes option \<Rightarrow> access_error + string" where
  "token_sign lib secret claims ttl now rnd = SignProfile lib secret Issuer [] claims ttl now rnd"

definition SignSource ::
  "jwt_library \<Rightarrow> bytes \<Rightarrow> string \<Rightarrow> string list \<Rightarrow> duration \<Rightarrow> time \<Rightarrow> bytes option \<Rightarrow> access_error + string" where
  "SignSource lib secret sid busIDs ttl now rnd =
     (if length busIDs = 0 \<or> length busIDs > maxBusScopes \<or> invalidIdentifiers busIDs 64 then Inl ErrInvalidCapability
      else token_sign lib secret (new_claims sid RoleSource [] busIDs True) ttl now rnd)"

definition SignPublisher ::
  "jwt_library \<Rightarrow> bytes \<Rightarrow> string \<Rightarrow> string \<Rightarrow> duration \<Rightarrow> time \<Rightarrow> bytes option \<Rightarrow> access_error + string" where
  "SignPublisher lib secret sid busID ttl now rnd =
     (if \<not> validIdentifier busID 64 then Inl ErrInvalidCapability
      else token_sign lib secret (new_claims sid RoleSource [] [busID] False) ttl now rnd)"

definition SignSubscriber ::
  "jwt_library \<Rightarrow> bytes \<Rightarrow> string \<Rightarrow> string \<Rightarrow> duration \<Rightarrow> time \<Rightarrow> bytes option \<Rightarrow> access_error + string" where
  "SignSubscriber lib secret sid busID ttl now rnd =
     (if \<not> validIdentifier busID 64 then Inl ErrInvalidCapability
      else token_sign lib secret (new_claims sid RoleSubscriber busID [] False) ttl now rnd)"

section \<open>Verifying\<close>

definition verify_options :: "string \<Rightarrow> time \<Rightarrow> jwt_options" where
  "verify_options issuer now =
     \<lparr>opt_typ = tokenTyp, opt_issuer = issuer, opt_now = now, opt_audience = token_Audience, opt_leeway = 5 * second\<rparr>"

definition claims_incomplete :: "Claims \<Rightarrow> bool" where
  "claims_incomplete c =
     (\<not> validIdentifier (c_SessionID c) maxIdentifierLength \<or> c_ID c = [] \<or>
      c_IssuedAt c = None \<or> c_NotBefore c = None \<or> c_ExpiresAt c = None \<or> c_Subject c \<noteq> token_subject c \<or>
      the (c_ExpiresAt c) < the (c_IssuedAt c))"

definition VerifyProfile :: "jwt_library \<Rightarrow> bytes \<Rightarrow> string \<Rightarrow> string \<Rightarrow> time \<Rightarrow> access_error + Claims" where
  "VerifyProfile lib secret encoded issuer now =
     (if issuer \<noteq> Issuer \<and> issuer \<noteq> LegacyIssuer then Inl ErrInvalidCapability
      else if length secret < 32 \<or> encoded = [] \<or> length encoded > 16384 then Inl ErrInvalidCapability
      else
        case ParseWithClaims lib (verify_options issuer now) secret encoded of
          None \<Rightarrow> Inl ErrInvalidCapability
        | Some claims \<Rightarrow>
            if claims_incomplete claims then Inl ErrInvalidCapability
            else if \<not> validateScope claims then Inl ErrInvalidCapability
            else Inr claims)"

definition token_Verify :: "jwt_library \<Rightarrow> bytes \<Rightarrow> string \<Rightarrow> time \<Rightarrow> access_error + Claims" where
  "token_Verify lib secret encoded now = VerifyProfile lib secret encoded Issuer now"

definition CanControl :: "Claims \<Rightarrow> bool" where
  "CanControl c \<longleftrightarrow> c_Role c = RoleSource \<and> c_Control c"

definition EffectiveSessionID :: "Claims \<Rightarrow> string" where
  "EffectiveSessionID c = c_SessionID c"

definition AllowsBus :: "Claims \<Rightarrow> string \<Rightarrow> bool" where
  "AllowsBus c busID =
     (if c_Role c = RoleSubscriber then c_BusID c = busID else list_ex (\<lambda>bus. bus = busID) (c_BusIDs c))"

section \<open>What the tokens grant\<close>

lemma roles_distinct [simp]: "RoleSource \<noteq> RoleSubscriber" "RoleSubscriber \<noteq> RoleSource"
  by (simp_all add: RoleSource_def RoleSubscriber_def)

lemma hex_nonempty: "bs \<noteq> [] \<Longrightarrow> hex_EncodeToString bs \<noteq> []"
  by (cases bs) (simp_all add: hex_EncodeToString_def)

lemma length_hex: "length (hex_EncodeToString bs) = 2 * length bs"
  by (induction bs) (simp_all add: hex_EncodeToString_def)

lemma SignProfile_Inr:
  "SignProfile lib secret issuer inc c ttl now rnd = Inr encoded \<longleftrightarrow>
     (issuer = Issuer \<or> issuer = LegacyIssuer) \<and> validateScope (c\<lparr>c_Incarnation := inc\<rparr>) \<and> 32 \<le> length secret \<and>
     validIdentifier (c_SessionID c) maxIdentifierLength \<and> 0 < ttl \<and>
     (\<exists>value. rnd = Some value \<and>
        SignedString lib secret tokenTyp (registered lib issuer (hex_EncodeToString value) now ttl (c\<lparr>c_Incarnation := inc\<rparr>)) = Some encoded)"
proof (cases rnd)
  case None
  then show ?thesis by (simp add: SignProfile_def randomTokenID_def Let_def)
next
  case (Some v)
  let ?s = "SignedString lib secret tokenTyp (registered lib issuer (hex_EncodeToString v) now ttl (c\<lparr>c_Incarnation := inc\<rparr>))"
  have "SignProfile lib secret issuer inc c ttl now rnd =
      (if (issuer = Issuer \<or> issuer = LegacyIssuer) \<and> validateScope (c\<lparr>c_Incarnation := inc\<rparr>) \<and> 32 \<le> length secret \<and>
         validIdentifier (c_SessionID c) maxIdentifierLength \<and> 0 < ttl
       then case ?s of None \<Rightarrow> Inl ErrSigning | Some encoded \<Rightarrow> Inr encoded else Inl ErrInvalidCapability)"
    using Some by (simp add: SignProfile_def randomTokenID_def Let_def not_less not_le)
  then show ?thesis using Some by (cases ?s) (auto split: if_splits)
qed

lemma validateScope_irrelevant:
  "validateScope (c\<lparr>c_Incarnation := inc\<rparr>) = validateScope c" "validateScope (registered lib issuer jti now ttl c) = validateScope c"
  by (simp_all add: validateScope_def registered_def)

text \<open>A signed token verifies to the claims that were signed, at every moment of its lifetime.\<close>

lemma sign_verify:
  assumes lib: "jwt_documented lib" and signed: "SignProfile lib secret issuer inc c ttl now rnd = Inr encoded"
    and rnd: "rnd = Some value" "value \<noteq> []" and size: "encoded \<noteq> []" "length encoded \<le> 16384"
    and time: "now \<le> t" "t < now + ttl"
  shows "VerifyProfile lib secret encoded issuer t =
    Inr (registered lib issuer (hex_EncodeToString value) now ttl (c\<lparr>c_Incarnation := inc\<rparr>))"
proof -
  let ?c = "registered lib issuer (hex_EncodeToString value) now ttl (c\<lparr>c_Incarnation := inc\<rparr>)"
  have s: "issuer = Issuer \<or> issuer = LegacyIssuer" "validateScope c" "32 \<le> length secret"
    "validIdentifier (c_SessionID c) maxIdentifierLength" "0 < ttl" "SignedString lib secret tokenTyp ?c = Some encoded"
    using signed rnd(1) unfolding SignProfile_Inr by (auto simp: validateScope_irrelevant)
  have date: "NewNumericDate lib x \<le> x" "x < NewNumericDate lib x + second" for x
    using jwt_date [OF lib] by blast+
  have mono: "NewNumericDate lib now \<le> NewNumericDate lib (now + ttl)"
    using jwt_date_mono [OF lib] s(5) by simp
  have "jwt_valid (verify_options issuer t) ?c"
    using date [of "now + ttl"] date [of now] date [of "now - 5 * second"] time
    by (simp add: jwt_valid_def verify_options_def registered_def)
  then have "ParseWithClaims lib (verify_options issuer t) secret encoded = Some ?c"
    using s(6) by (intro jwt_parse_signed [OF lib]) (simp_all add: verify_options_def)
  moreover have "\<not> claims_incomplete ?c"
    using s(4) hex_nonempty [OF rnd(2)] mono
    by (simp add: claims_incomplete_def registered_def token_subject_def)
  ultimately show ?thesis
    using s size by (auto simp: VerifyProfile_def validateScope_irrelevant)
qed


text \<open>A library that knows one token, to instantiate the properties.\<close>

definition whole_seconds :: "time \<Rightarrow> time" where
  "whole_seconds t = t - t mod second"

definition one_token_library :: "bytes \<Rightarrow> Claims \<Rightarrow> jwt_library" where
  "one_token_library secret0 c0 =
     \<lparr>NewNumericDate = whole_seconds,
      SignedString = (\<lambda>secret typ c. if secret = secret0 \<and> typ = tokenTyp \<and> c = c0 then Some ''t'' else None),
      ParseWithClaims = (\<lambda>opt secret encoded.
        if secret = secret0 \<and> opt_typ opt = tokenTyp \<and> encoded = ''t'' \<and> jwt_valid opt c0 then Some c0 else None)\<rparr>"

lemma whole_seconds_mono: "t \<le> u \<Longrightarrow> whole_seconds t \<le> whole_seconds u"
proof -
  assume "t \<le> u"
  then have "t div second * second \<le> u div second * second" by (intro mult_right_mono zdiv_mono1) simp_all
  then show ?thesis by (simp add: whole_seconds_def minus_mod_eq_div_mult)
qed

lemma one_token_documented: "jwt_documented (one_token_library secret0 c0)"
proof -
  have "whole_seconds t \<le> t \<and> t < whole_seconds t + second" for t
    using pos_mod_bound [of second t] pos_mod_sign [of second t] by (simp add: whole_seconds_def)
  then show ?thesis
    by (simp add: jwt_documented_def one_token_library_def whole_seconds_mono)
qed

definition example_secret :: bytes where "example_secret = replicate 32 7"

definition example_claims :: Claims where
  "example_claims = registered \<lparr>NewNumericDate = whole_seconds, SignedString = (\<lambda>_ _ _. None), ParseWithClaims = (\<lambda>_ _ _. None)\<rparr>
     Issuer ''07'' 0 minute (new_claims ''s'' RoleSource [] [''mic''] True)"

definition example_library :: jwt_library where
  "example_library = one_token_library example_secret example_claims"

lemma example_documented: "jwt_documented example_library"
  by (simp add: example_library_def one_token_documented)

lemma example_registered:
  "registered example_library Issuer (hex_EncodeToString [7]) 0 minute
     ((new_claims ''s'' RoleSource [] [''mic''] True)\<lparr>c_Incarnation := []\<rparr>) = example_claims"
  by (simp add: example_claims_def registered_def example_library_def one_token_library_def hex_EncodeToString_def
      hex_digit_def new_claims_def)

lemma example_profile:
  "SignProfile example_library example_secret Issuer [] (new_claims ''s'' RoleSource [] [''mic''] True) minute 0 (Some [7]) = Inr ''t''"
proof -
  have "SignedString example_library example_secret tokenTyp example_claims = Some ''t''"
    by (simp add: example_library_def one_token_library_def)
  moreover have "validateScope (new_claims ''s'' RoleSource [] [''mic''] True)" by code_simp
  moreover have "validIdentifier (c_SessionID (new_claims ''s'' RoleSource [] [''mic''] True)) maxIdentifierLength"
    by (simp add: new_claims_def validIdentifier_iff identifier_char_def maxIdentifierLength_def)
  moreover have "32 \<le> length example_secret" by (simp add: example_secret_def)
  ultimately show ?thesis
    unfolding SignProfile_Inr validateScope_irrelevant using example_registered by simp
qed

lemma example_signed: "SignSource example_library example_secret ''s'' [''mic''] minute 0 (Some [7]) = Inr ''t''"
  using example_profile
  by (simp add: SignSource_def token_sign_def maxBusScopes_def invalidIdentifiers_iff validIdentifier_iff identifier_char_def)

lemma example_verified: "VerifyProfile example_library example_secret ''t'' Issuer 0 = Inr example_claims"
  using sign_verify [OF example_documented example_profile, of "[7]" 0] unfolding example_registered by simp


text \<open>C38. A token verifies, throughout its lifetime, to exactly the right it was signed for: the owner token controls the
  Session and may publish to its buses, a publisher token may publish to one bus and controls nothing, a
  subscriber token reads one bus and controls nothing.\<close>

theorem signed_capability:
  assumes lib: "jwt_documented lib" and draw: "rnd = Some bs" "bs \<noteq> []"
    and size: "encoded \<noteq> []" "length encoded \<le> 16384" and time: "now \<le> t" "t < now + ttl"
  shows "(SignSource lib secret sid buses ttl now rnd = Inr encoded \<longrightarrow>
      (\<exists>c. token_Verify lib secret encoded t = Inr c \<and> c_SessionID c = sid \<and> CanControl c \<and> (\<forall>b. AllowsBus c b = (b \<in> set buses)))) \<and>
    (SignPublisher lib secret sid bus ttl now rnd = Inr encoded \<longrightarrow>
      (\<exists>c. token_Verify lib secret encoded t = Inr c \<and> c_SessionID c = sid \<and> \<not> CanControl c \<and> (\<forall>b. AllowsBus c b = (b = bus)))) \<and>
    (SignSubscriber lib secret sid bus ttl now rnd = Inr encoded \<longrightarrow>
      (\<exists>c. token_Verify lib secret encoded t = Inr c \<and> c_SessionID c = sid \<and> \<not> CanControl c \<and> (\<forall>b. AllowsBus c b = (b = bus))))"
proof -
  have V: "token_Verify lib secret encoded t =
      Inr (registered lib Issuer (hex_EncodeToString bs) now ttl (c\<lparr>c_Incarnation := []\<rparr>))"
    if "token_sign lib secret c ttl now rnd = Inr encoded" for c
    unfolding token_Verify_def
    by (rule sign_verify [OF lib that [unfolded token_sign_def] draw size time])
  have A: "AllowsBus (registered lib Issuer j now ttl ((new_claims sid RoleSource [] bs' ctl)\<lparr>c_Incarnation := []\<rparr>)) b = (b \<in> set bs')"
    "CanControl (registered lib Issuer j now ttl ((new_claims sid RoleSource [] bs' ctl)\<lparr>c_Incarnation := []\<rparr>)) = ctl"
    "c_SessionID (registered lib Issuer j now ttl ((new_claims sid r b' bs' ctl)\<lparr>c_Incarnation := []\<rparr>)) = sid"
    "AllowsBus (registered lib Issuer j now ttl ((new_claims sid RoleSubscriber bus [] False)\<lparr>c_Incarnation := []\<rparr>)) b = (b = bus)"
    "\<not> CanControl (registered lib Issuer j now ttl ((new_claims sid RoleSubscriber bus [] False)\<lparr>c_Incarnation := []\<rparr>))"
    for j b bs' ctl r b'
    by (auto simp: AllowsBus_def CanControl_def registered_def new_claims_def list_ex_iff)
  show ?thesis
  proof (intro conjI impI)
    assume "SignSource lib secret sid buses ttl now rnd = Inr encoded"
    then have "token_sign lib secret (new_claims sid RoleSource [] buses True) ttl now rnd = Inr encoded"
      by (simp add: SignSource_def split: if_splits)
    from V [OF this] A show "\<exists>c. token_Verify lib secret encoded t = Inr c \<and> c_SessionID c = sid \<and> CanControl c \<and>
      (\<forall>b. AllowsBus c b = (b \<in> set buses))" by blast
  next
    assume "SignPublisher lib secret sid bus ttl now rnd = Inr encoded"
    then have "token_sign lib secret (new_claims sid RoleSource [] [bus] False) ttl now rnd = Inr encoded"
      by (simp add: SignPublisher_def split: if_splits)
    from V [OF this] show "\<exists>c. token_Verify lib secret encoded t = Inr c \<and> c_SessionID c = sid \<and> \<not> CanControl c \<and>
      (\<forall>b. AllowsBus c b = (b = bus))" by (auto simp: A)
  next
    assume "SignSubscriber lib secret sid bus ttl now rnd = Inr encoded"
    then have "token_sign lib secret (new_claims sid RoleSubscriber bus [] False) ttl now rnd = Inr encoded"
      by (simp add: SignSubscriber_def split: if_splits)
    from V [OF this] A(3-5) show "\<exists>c. token_Verify lib secret encoded t = Inr c \<and> c_SessionID c = sid \<and> \<not> CanControl c \<and>
      (\<forall>b. AllowsBus c b = (b = bus))" by blast
  qed
qed

theorem signed_capability_witness:
  "\<exists>c. token_Verify example_library example_secret ''t'' second = Inr c \<and> c_SessionID c = ''s'' \<and> CanControl c \<and>
     (\<forall>b. AllowsBus c b = (b \<in> set [''mic'']))"
  using signed_capability [OF example_documented, of "Some [7]" "[7]" "''t''" 0 second minute example_secret "''s''" "[''mic'']"]
    example_signed by simp

end
