(* ===== verification/Access_State.thy ===== *)
theory Access_State
  imports Identifiers Storage
begin

text \<open>
  Session state snapshots of \<^verbatim>\<open>access/state.go\<close>: the required buses of a Session, the check and the normal form of a
  snapshot a Relay reports, and the public state with its readiness.
\<close>

definition RelayStateContractVersion :: int where "RelayStateContractVersion = 1"
definition maxBusCount :: nat where "maxBusCount = 16"
definition maxBusIdentifierSize :: nat where "maxBusIdentifierSize = 64"
definition maxRelayEpochSize :: nat where "maxRelayEpochSize = 128"
definition maxSubscriberIDSize :: nat where "maxSubscriberIDSize = 128"

record State =
  State_SessionID :: string
  State_StateRevision :: u64
  State_RelayEpoch :: string
  State_RelayRevision :: u64
  State_RequiredBuses :: "string list"
  State_Buses :: "BusState list"
  State_Subscriptions :: "SubscriptionState list"
  Ready :: bool
  SubscriptionCount :: nat
  State_Codec :: string

text \<open>The loop over the sorted buses compares each with its predecessor.\<close>

fun required_loop :: "string option \<Rightarrow> string list \<Rightarrow> bool" where
  "required_loop prev [] = True"
| "required_loop prev (v # vs) =
     (if \<not> validIdentifier v maxBusIdentifierSize \<or> prev = Some v then False else required_loop (Some v) vs)"

definition validateRequiredBuses :: "string list \<Rightarrow> access_error + string list" where
  "validateRequiredBuses values =
     (if length values = 0 \<or> length values > maxBusCount then Inl ErrInvalidRelayState
      else
        let result = sort values
        in if required_loop None result then Inr result else Inl ErrInvalidRelayState)"

fun snapshot_buses :: "string set \<Rightarrow> BusState list \<Rightarrow> string set option" where
  "snapshot_buses busIDs [] = Some busIDs"
| "snapshot_buses busIDs (bus # rest) =
     (if \<not> validIdentifier (bs_BusID bus) maxBusIdentifierSize \<or> \<not> validIdentifier (bs_Role bus) maxBusIdentifierSize then None
      else if bs_BusID bus \<in> busIDs then None
      else snapshot_buses (insert (bs_BusID bus) busIDs) rest)"

fun snapshot_subscriptions :: "string set \<Rightarrow> string set \<Rightarrow> SubscriptionState list \<Rightarrow> bool" where
  "snapshot_subscriptions busIDs seen [] = True"
| "snapshot_subscriptions busIDs seen (sub # rest) =
     (if \<not> validIdentifier (SubscriberID sub) maxSubscriberIDSize \<or> \<not> validIdentifier (ss_BusID sub) maxBusIdentifierSize then False
      else if ss_BusID sub \<noteq> ''mix'' \<and> ss_BusID sub \<notin> busIDs then False
      else if SubscriberID sub \<in> seen then False
      else snapshot_subscriptions busIDs (insert (SubscriberID sub) seen) rest)"

definition validateRelaySnapshot :: "RelayState \<Rightarrow> bool" where
  "validateRelaySnapshot snapshot =
     (if ContractVersion snapshot \<noteq> RelayStateContractVersion \<or> rs_SessionID snapshot = [] \<or>
         \<not> validIdentifier (RelayEpoch snapshot) maxRelayEpochSize \<or> Revision snapshot = 0 \<or>
         ObservedAt snapshot = zero_time \<or> length (Buses snapshot) > maxBusCount \<or> length (Subscriptions snapshot) > 1024
      then False
      else
        case snapshot_buses {} (Buses snapshot) of
          None \<Rightarrow> False
        | Some busIDs \<Rightarrow> snapshot_subscriptions busIDs {} (Subscriptions snapshot))"

definition normalizeRelaySnapshot :: "RelayState \<Rightarrow> RelayState" where
  "normalizeRelaySnapshot snapshot =
     snapshot\<lparr>Buses := sort_key bs_BusID (Buses snapshot), Subscriptions := sort_key SubscriberID (Subscriptions snapshot)\<rparr>"

definition bus_active :: "BusState list \<Rightarrow> string \<Rightarrow> bool" where
  "bus_active buses required = list_ex (\<lambda>bus. bs_BusID bus = required \<and> SourceActive bus) buses"

definition session_State :: "SessionRecord \<Rightarrow> State" where
  "session_State r =
     \<lparr>State_SessionID = sr_ID r, State_StateRevision = StateRevision r, State_RelayEpoch = RelayEpoch (Relay r),
      State_RelayRevision = Revision (Relay r), State_RequiredBuses = RequiredBuses r, State_Buses = Buses (Relay r),
      State_Subscriptions = Subscriptions (Relay r),
      Ready = fold (\<lambda>required ready. if \<not> bus_active (Buses (Relay r)) required then False else ready) (RequiredBuses r) True,
      SubscriptionCount = length (Subscriptions (Relay r)), State_Codec = Codec r\<rparr>"

section \<open>What the checks accept\<close>

lemma required_loop_sorted:
  "sorted vs \<Longrightarrow> (\<forall>v \<in> set vs. prev \<noteq> Some v \<longrightarrow> (\<forall>p. prev = Some p \<longrightarrow> p < v)) \<Longrightarrow>
     required_loop prev vs \<longleftrightarrow> (\<forall>v \<in> set vs. validIdentifier v 64) \<and> distinct vs \<and> (\<forall>v \<in> set vs. prev \<noteq> Some v)"
proof (induction vs arbitrary: prev)
  case Nil
  then show ?case by simp
next
  case (Cons v vs)
  have "\<forall>w \<in> set vs. Some v \<noteq> Some w \<longrightarrow> (\<forall>p. Some v = Some p \<longrightarrow> p < w)"
    using Cons.prems(1) by (auto simp: order.order_iff_strict)
  note IH = Cons.IH [OF _ this]
  show ?case
  proof (cases "prev = Some v")
    case True
    then show ?thesis by simp
  next
    case False
    then have "prev \<noteq> Some w" if "w \<in> set vs" "w \<noteq> v" for w
      using Cons.prems that by (cases prev) (force simp: order.strict_iff_not)+
    then show ?thesis using False IH Cons.prems(1) by (auto simp: maxBusIdentifierSize_def)
  qed
qed

lemma validateRequiredBuses_Inr:
  "validateRequiredBuses vs = Inr bs \<longleftrightarrow>
     bs = sort vs \<and> vs \<noteq> [] \<and> length vs \<le> 16 \<and> (\<forall>v \<in> set vs. validIdentifier v 64) \<and> distinct vs"
  using required_loop_sorted [of "sort vs" None]
  by (auto simp: validateRequiredBuses_def Let_def maxBusCount_def split: if_splits)

lemma ready_fold:
  "fold (\<lambda>required ready. if \<not> P required then False else ready) rs b \<longleftrightarrow> b \<and> (\<forall>r \<in> set rs. P r)"
  by (induction rs arbitrary: b) auto

lemma Ready_iff: "Ready (session_State r) \<longleftrightarrow> (\<forall>required \<in> set (RequiredBuses r). bus_active (Buses (Relay r)) required)"
  by (simp add: session_State_def ready_fold)

lemma snapshot_buses_Some:
  "snapshot_buses seen buses = Some ids \<longleftrightarrow>
     ids = seen \<union> bs_BusID ` set buses \<and> distinct (map bs_BusID buses) \<and> bs_BusID ` set buses \<inter> seen = {} \<and>
     (\<forall>bus \<in> set buses. validIdentifier (bs_BusID bus) 64 \<and> validIdentifier (bs_Role bus) 64)"
  by (induction buses arbitrary: seen) (auto simp: maxBusIdentifierSize_def)

lemma snapshot_subscriptions_iff:
  "snapshot_subscriptions ids seen subs \<longleftrightarrow>
     distinct (map SubscriberID subs) \<and> SubscriberID ` set subs \<inter> seen = {} \<and>
     (\<forall>sub \<in> set subs. validIdentifier (SubscriberID sub) 128 \<and> validIdentifier (ss_BusID sub) 64 \<and>
        (ss_BusID sub = ''mix'' \<or> ss_BusID sub \<in> ids))"
  by (induction subs arbitrary: seen) (auto simp: maxBusIdentifierSize_def maxSubscriberIDSize_def)

text \<open>An accepted snapshot names each bus and each subscriber once, and every subscriber listens to a bus of the snapshot or
  to the mix; a snapshot in which this fails is refused.\<close>

lemma validateRelaySnapshot_iff:
  "validateRelaySnapshot s \<longleftrightarrow>
     ContractVersion s = 1 \<and> rs_SessionID s \<noteq> [] \<and> validIdentifier (RelayEpoch s) 128 \<and> Revision s \<noteq> 0 \<and>
     ObservedAt s \<noteq> zero_time \<and> length (Buses s) \<le> 16 \<and> length (Subscriptions s) \<le> 1024 \<and>
     distinct (map bs_BusID (Buses s)) \<and> distinct (map SubscriberID (Subscriptions s)) \<and>
     list_all (\<lambda>bus. validIdentifier (bs_BusID bus) 64 \<and> validIdentifier (bs_Role bus) 64) (Buses s) \<and>
     list_all (\<lambda>sub. validIdentifier (SubscriberID sub) 128 \<and> validIdentifier (ss_BusID sub) 64 \<and>
        (ss_BusID sub = ''mix'' \<or> ss_BusID sub \<in> bs_BusID ` set (Buses s))) (Subscriptions s)"
proof (cases "snapshot_buses {} (Buses s)")
  case None
  then have "\<not> (distinct (map bs_BusID (Buses s)) \<and>
      (\<forall>bus \<in> set (Buses s). validIdentifier (bs_BusID bus) 64 \<and> validIdentifier (bs_Role bus) 64))"
    using snapshot_buses_Some [of "{}" "Buses s" "bs_BusID ` set (Buses s)"] by auto
  then show ?thesis using None by (auto simp: validateRelaySnapshot_def list_all_iff)
next
  case (Some ids)
  then show ?thesis
    using snapshot_buses_Some [of "{}" "Buses s" ids]
    by (auto simp: validateRelaySnapshot_def snapshot_subscriptions_iff list_all_iff RelayStateContractVersion_def
        maxRelayEpochSize_def maxBusCount_def)
qed

text \<open>Normalizing keeps what is reported and makes it independent of the order of the report.\<close>

lemma normalize_mset:
  "mset (Buses (normalizeRelaySnapshot s)) = mset (Buses s)" "mset (Subscriptions (normalizeRelaySnapshot s)) = mset (Subscriptions s)"
  by (simp_all add: normalizeRelaySnapshot_def)

lemma sort_key_distinct_unique:
  assumes "mset xs = mset ys" and "distinct (map f xs)"
  shows "sort_key f xs = sort_key f ys"
proof (rule sort_key_inj_key_eq)
  show "mset xs = mset (sort_key f ys)" using assms(1) by simp
  show "inj_on f (set xs)" using assms(2) by (simp add: distinct_map)
  show "sorted (map f (sort_key f ys))" by simp
qed

text \<open>The stored form of an accepted snapshot does not depend on the order in which its buses and subscribers were
  reported.\<close>

theorem relay_snapshot_order_independent:
  assumes "validateRelaySnapshot s" and "mset (Buses t) = mset (Buses s)" and "mset (Subscriptions t) = mset (Subscriptions s)"
  shows "Buses (normalizeRelaySnapshot t) = Buses (normalizeRelaySnapshot s) \<and>
    Subscriptions (normalizeRelaySnapshot t) = Subscriptions (normalizeRelaySnapshot s)"
proof -
  obtain ids where "snapshot_buses {} (Buses s) = Some ids" "snapshot_subscriptions ids {} (Subscriptions s)"
    using assms(1) by (auto simp: validateRelaySnapshot_def split: if_splits option.splits)
  then have "distinct (map bs_BusID (Buses s))" "distinct (map SubscriberID (Subscriptions s))"
    by (simp_all add: snapshot_buses_Some snapshot_subscriptions_iff)
  then show ?thesis
    using sort_key_distinct_unique [OF assms(2) [symmetric], of bs_BusID]
      sort_key_distinct_unique [OF assms(3) [symmetric], of SubscriberID]
    by (simp add: normalizeRelaySnapshot_def)
qed

definition example_bus :: "string \<Rightarrow> BusState" where
  "example_bus b = \<lparr>bs_BusID = b, bs_Role = ''audio'', SourceActive = True, SourceGeneration = 1\<rparr>"

definition example_snapshot :: RelayState where
  "example_snapshot = \<lparr>ContractVersion = 1, rs_SessionID = ''s'', RelayEpoch = ''e'', Revision = 1, rs_WriterTerm = 1,
     ObservedAt = 0, Buses = [example_bus ''mic'', example_bus ''app''], Subscriptions = [\<lparr>SubscriberID = ''u'', ss_BusID = ''mix''\<rparr>]\<rparr>"

theorem relay_snapshot_order_independent_witness:
  "Buses (normalizeRelaySnapshot (example_snapshot\<lparr>Buses := [example_bus ''app'', example_bus ''mic'']\<rparr>)) =
     Buses (normalizeRelaySnapshot example_snapshot)"
proof -
  have "validateRelaySnapshot example_snapshot" by code_simp
  from relay_snapshot_order_independent [OF this, of "example_snapshot\<lparr>Buses := [example_bus ''app'', example_bus ''mic'']\<rparr>"]
  show ?thesis by (simp add: example_snapshot_def add_mset_commute)
qed

end
