(* ===== verification/Abstract_Store.thy ===== *)
theory Abstract_Store
  imports Storage
begin

text \<open>
  The abstract store behind \<^verbatim>\<open>storage.Tx\<close>: every method as a function of the record maps, the referential integrity
  those functions preserve, and the contract of an adapter.  An adapter's transaction may be interrupted
  by its context at any poll; as long as the context is live it behaves as the abstract store does.
  \<^verbatim>\<open>storage.Store\<close> promises that only such transactions are committed.
\<close>

section \<open>The operations as functions of the records\<close>

definition put_session :: "SessionRecord \<Rightarrow> records \<Rightarrow> records" where
  "put_session r d = d\<lparr>sessions := AList.update (sr_ID r) r (sessions d)\<rparr>"

definition put_grant :: "GrantRecord \<Rightarrow> records \<Rightarrow> records" where
  "put_grant r d = d\<lparr>grants := AList.update (gr_ID r) r (grants d),
     locators := AList.update (Alias r) (gr_ID r) (AList.update (JoinCode r) (gr_ID r) (locators d))\<rparr>"

definition put_receipt :: "Receipt \<Rightarrow> records \<Rightarrow> records" where
  "put_receipt r d = d\<lparr>receipts := AList.update (Key r) r (receipts d)\<rparr>"

definition put_namespace :: "namespace_record \<Rightarrow> records \<Rightarrow> records" where
  "put_namespace r d = d\<lparr>ns_record := r\<rparr>"

definition del_grants :: "(string \<Rightarrow> GrantRecord \<Rightarrow> bool) \<Rightarrow> records \<Rightarrow> records" where
  "del_grants P d = d\<lparr>grants := filter (\<lambda>(k, g). \<not> P k g) (grants d),
     locators := filter (\<lambda>(l, _). \<not> list_ex (\<lambda>(k, g). P k g \<and> (l = JoinCode g \<or> l = Alias g)) (grants d)) (locators d)\<rparr>"

definition drop_sessions :: "(string \<Rightarrow> bool) \<Rightarrow> records \<Rightarrow> records" where
  "drop_sessions S d =
     (let d' = del_grants (\<lambda>_ g. S (gr_SessionID g)) d
      in d'\<lparr>sessions := filter (\<lambda>(k, _). \<not> S k) (sessions d), receipts := filter (\<lambda>(k, r). \<not> S (rc_SessionID r)) (receipts d)\<rparr>)"

definition expired_session :: "time \<Rightarrow> records \<Rightarrow> string \<Rightarrow> bool" where
  "expired_session now d k = (case map_of (sessions d) k of None \<Rightarrow> False | Some r \<Rightarrow> \<not> sr_ExpiresAt r > now)"

definition prune_records :: "time \<Rightarrow> records \<Rightarrow> records" where
  "prune_records now d =
     (let d' = del_grants (\<lambda>_ g. \<not> gr_ExpiresAt g > now) (drop_sessions (expired_session now d) d)
      in d'\<lparr>receipts := filter (\<lambda>(k, r). rc_ExpiresAt r > now) (receipts d')\<rparr>)"

section \<open>Integrity\<close>

text \<open>Every session and receipt is stored under its own key; every grant and receipt belongs to a stored session; the locators
  are exactly the join codes and aliases of the stored grants.\<close>

definition sessions_ok :: "(string, SessionRecord) gomap \<Rightarrow> bool" where
  "sessions_ok ss \<longleftrightarrow> map_wf ss \<and> (\<forall>k r. map_of ss k = Some r \<longrightarrow> sr_ID r = k)"

definition grants_ok :: "(string, SessionRecord) gomap \<Rightarrow> (string, GrantRecord) gomap \<Rightarrow> bool" where
  "grants_ok ss gs \<longleftrightarrow> map_wf gs \<and>
     (\<forall>k g. map_of gs k = Some g \<longrightarrow> gr_ID g = k \<and> JoinCode g \<noteq> [] \<and> Alias g \<noteq> [] \<and> JoinCode g \<noteq> Alias g \<and>
        has_key (gr_SessionID g) ss)"

definition locators_ok :: "(string, GrantRecord) gomap \<Rightarrow> (string, string) gomap \<Rightarrow> bool" where
  "locators_ok gs ls \<longleftrightarrow> map_wf ls \<and>
     (\<forall>l k. map_of ls l = Some k \<longleftrightarrow> (\<exists>g. map_of gs k = Some g \<and> (l = JoinCode g \<or> l = Alias g)))"

definition receipts_ok :: "(string, SessionRecord) gomap \<Rightarrow> (string, Receipt) gomap \<Rightarrow> bool" where
  "receipts_ok ss rs \<longleftrightarrow> map_wf rs \<and> (\<forall>k r. map_of rs k = Some r \<longrightarrow> Key r = k \<and> has_key (rc_SessionID r) ss)"

definition records_ok :: "records \<Rightarrow> bool" where
  "records_ok d \<longleftrightarrow> sessions_ok (sessions d) \<and> grants_ok (sessions d) (grants d) \<and>
     locators_ok (grants d) (locators d) \<and> receipts_ok (sessions d) (receipts d)"

lemma records_okD:
  assumes "records_ok d"
  shows "map_wf (sessions d)" "map_wf (grants d)" "map_wf (locators d)" "map_wf (receipts d)"
  using assms by (simp_all add: records_ok_def sessions_ok_def grants_ok_def locators_ok_def receipts_ok_def)

lemma has_key_update [simp]: "has_key k (AList.update k' v m) \<longleftrightarrow> k = k' \<or> has_key k m"
  by (simp add: has_key_def)

lemma records_ok_put_session [relay_inv]: "records_ok d \<Longrightarrow> records_ok (put_session r d)"
  by (simp add: records_ok_def sessions_ok_def grants_ok_def receipts_ok_def put_session_def)

lemma records_ok_put_namespace [relay_inv]: "records_ok d \<Longrightarrow> records_ok (put_namespace r d)"
  by (simp add: records_ok_def put_namespace_def)

lemma records_ok_put_grant [relay_inv]:
  assumes ok: "records_ok d" and free: "\<not> grant_conflict d g"
  shows "records_ok (put_grant g d)"
proof -
  have g: "gr_ID g \<noteq> []" "JoinCode g \<noteq> []" "Alias g \<noteq> []" "JoinCode g \<noteq> Alias g"
      "has_key (gr_SessionID g) (sessions d)"
    and new: "map_of (grants d) (gr_ID g) = None" "map_of (locators d) (JoinCode g) = None" "map_of (locators d) (Alias g) = None"
    using free by (auto simp: grant_conflict_def has_key_def split: if_splits)
  have old: "map_of (locators d) l = Some k \<longleftrightarrow> (\<exists>h. map_of (grants d) k = Some h \<and> (l = JoinCode h \<or> l = Alias h))" for l k
    using ok by (simp add: records_ok_def locators_ok_def)
  have "(map_of (locators (put_grant g d)) l = Some k) =
      (\<exists>h. map_of (grants (put_grant g d)) k = Some h \<and> (l = JoinCode h \<or> l = Alias h))" for l k
    using old [of l k] old [of l "gr_ID g"] new g(4) old [of "JoinCode g" k] old [of "Alias g" k]
    by (cases "k = gr_ID g"; cases "l = JoinCode g"; cases "l = Alias g") (simp_all add: put_grant_def)
  then have "locators_ok (grants (put_grant g d)) (locators (put_grant g d))"
    using records_okD [OF ok] by (simp add: locators_ok_def) (simp add: put_grant_def)
  then show ?thesis
    using ok g by (simp add: records_ok_def grants_ok_def put_grant_def)
qed

lemma records_ok_put_receipt [relay_inv]:
  "\<lbrakk>records_ok d; has_key (rc_SessionID r) (sessions d)\<rbrakk> \<Longrightarrow> records_ok (put_receipt r d)"
  by (simp add: records_ok_def receipts_ok_def put_receipt_def)

lemma list_ex_grants:
  "map_wf m \<Longrightarrow> list_ex (\<lambda>(k, g). P k g) m \<longleftrightarrow> (\<exists>k g. map_of m k = Some g \<and> P k g)"
  by (auto simp: list_ex_iff dest: map_of_SomeD) (metis map_of_eq_Some_iff)

lemma map_of_filter_Some:
  "map_wf m \<Longrightarrow> map_of (filter P m) k = Some v \<longleftrightarrow> map_of m k = Some v \<and> P (k, v)"
  by (auto simp: map_of_filter_wf split: option.splits)

lemma has_key_filter: "map_wf m \<Longrightarrow> has_key k (filter (\<lambda>(k, _). P k) m) \<longleftrightarrow> has_key k m \<and> P k"
  by (simp add: has_key_def map_of_filter_wf split: option.split)

lemma grants_ok_filter: "grants_ok ss gs \<Longrightarrow> grants_ok ss (filter P gs)"
  unfolding grants_ok_def by (auto simp: map_of_filter_Some)

lemma grants_ok_filter_sessions:
  "\<lbrakk>grants_ok ss gs; map_wf ss; \<And>k g. map_of gs k = Some g \<Longrightarrow> P (gr_SessionID g)\<rbrakk> \<Longrightarrow>
     grants_ok (filter (\<lambda>(k, _). P k) ss) gs"
  unfolding grants_ok_def by (simp add: has_key_filter)

lemma locators_ok_del_grants:
  assumes ok: "locators_ok (grants d) (locators d)" and wf: "map_wf (grants d)"
  shows "locators_ok (grants (del_grants P d)) (locators (del_grants P d))"
proof -
  have wfl: "map_wf (locators d)"
    and old: "map_of (locators d) l = Some k \<longleftrightarrow> (\<exists>h. map_of (grants d) k = Some h \<and> (l = JoinCode h \<or> l = Alias h))" for l k
    using ok by (simp_all add: locators_ok_def)
  have grants': "map_of (grants (del_grants P d)) k = Some h \<longleftrightarrow> map_of (grants d) k = Some h \<and> \<not> P k h" for k h
    using wf by (simp add: del_grants_def map_of_filter_Some)
  have dead: "list_ex (\<lambda>(k, g). P k g \<and> (l = JoinCode g \<or> l = Alias g)) (grants d) \<longleftrightarrow>
      (\<exists>k g. map_of (grants d) k = Some g \<and> P k g \<and> (l = JoinCode g \<or> l = Alias g))" for l
    using list_ex_grants [OF wf, of "\<lambda>k g. P k g \<and> (l = JoinCode g \<or> l = Alias g)"] by simp
  have locators': "map_of (locators (del_grants P d)) l = Some k \<longleftrightarrow>
      map_of (locators d) l = Some k \<and> \<not> (\<exists>k g. map_of (grants d) k = Some g \<and> P k g \<and> (l = JoinCode g \<or> l = Alias g))" for l k
    using wfl unfolding dead [symmetric] by (simp add: del_grants_def map_of_filter_Some)
  have "map_of (locators (del_grants P d)) l = Some k \<longleftrightarrow>
      (\<exists>h. map_of (grants (del_grants P d)) k = Some h \<and> (l = JoinCode h \<or> l = Alias h))" for l k
  proof -
    have "\<not> (\<exists>k' g. map_of (grants d) k' = Some g \<and> P k' g \<and> (l = JoinCode g \<or> l = Alias g)) \<longleftrightarrow> \<not> P k h"
      if "map_of (grants d) k = Some h" "l = JoinCode h \<or> l = Alias h" for h
    proof -
      have "map_of (locators d) l = Some k" using that old by blast
      then have "k' = k" if "map_of (grants d) k' = Some g" "l = JoinCode g \<or> l = Alias g" for k' g
        using that old [of l k'] by auto
      then show ?thesis using that by (metis option.inject)
    qed
    then show ?thesis unfolding locators' grants' old by blast
  qed
  moreover have "map_wf (locators (del_grants P d))" using wfl by (simp add: del_grants_def)
  ultimately show ?thesis by (simp add: locators_ok_def)
qed

lemma records_ok_del_grants [relay_inv]:
  assumes ok: "records_ok d"
  shows "records_ok (del_grants P d)"
proof -
  note wf = records_okD [OF ok]
  have "locators_ok (grants (del_grants P d)) (locators (del_grants P d))"
    using ok wf by (intro locators_ok_del_grants) (simp_all add: records_ok_def)
  moreover have "sessions (del_grants P d) = sessions d" "receipts (del_grants P d) = receipts d"
    "grants (del_grants P d) = filter (\<lambda>(k, g). \<not> P k g) (grants d)"
    by (simp_all add: del_grants_def)
  ultimately show ?thesis
    using ok by (simp add: records_ok_def grants_ok_filter)
qed

lemma records_ok_drop_sessions [relay_inv]:
  assumes ok: "records_ok d"
  shows "records_ok (drop_sessions S d)"
proof -
  let ?d = "del_grants (\<lambda>_ g. S (gr_SessionID g)) d"
  have d': "records_ok ?d" using records_ok_del_grants [OF ok] .
  note wf = records_okD [OF ok]
  have fields: "sessions (drop_sessions S d) = filter (\<lambda>(k, _). \<not> S k) (sessions d)" "grants (drop_sessions S d) = grants ?d"
    "locators (drop_sessions S d) = locators ?d" "receipts (drop_sessions S d) = filter (\<lambda>(k, r). \<not> S (rc_SessionID r)) (receipts d)"
    by (simp_all add: drop_sessions_def Let_def)
  have kept: "map_of (grants ?d) k = Some g \<Longrightarrow> \<not> S (gr_SessionID g)" for k g
    using wf by (simp add: del_grants_def map_of_filter_Some)
  have same: "sessions ?d = sessions d" by (simp add: del_grants_def)
  have "sessions_ok (filter (\<lambda>(k, _). \<not> S k) (sessions d))"
    using ok wf by (simp add: records_ok_def sessions_ok_def map_of_filter_Some)
  moreover have "grants_ok (sessions d) (grants ?d)" using d' by (simp add: records_ok_def same)
  then have "grants_ok (filter (\<lambda>(k, _). \<not> S k) (sessions d)) (grants ?d)"
    using wf(1) kept by (rule grants_ok_filter_sessions)
  moreover have "receipts_ok (filter (\<lambda>(k, _). \<not> S k) (sessions d)) (filter (\<lambda>(k, r). \<not> S (rc_SessionID r)) (receipts d))"
    using ok wf by (auto simp: records_ok_def receipts_ok_def has_key_filter map_of_filter_Some)
  ultimately show ?thesis
    using d' unfolding records_ok_def fields by simp
qed

lemma receipts_ok_filter: "receipts_ok ss rs \<Longrightarrow> receipts_ok ss (filter P rs)"
  unfolding receipts_ok_def by (auto simp: map_of_filter_Some)

lemma records_ok_filter_receipts [relay_inv]:
  "records_ok d \<Longrightarrow> records_ok (d\<lparr>receipts := filter P (receipts d)\<rparr>)"
  by (simp add: records_ok_def receipts_ok_filter)

lemma records_ok_prune [relay_inv]: "records_ok d \<Longrightarrow> records_ok (prune_records now d)"
  unfolding prune_records_def Let_def
  by (intro records_ok_filter_receipts records_ok_del_grants records_ok_drop_sessions)

section \<open>The methods on the abstract store\<close>

definition abs_write :: "transactionMode \<Rightarrow> (records, unit) txm" where
  "abs_write mode = tx_guard (mode = writeTransaction) ErrReadOnly"

definition abs_read :: "(records \<Rightarrow> 'a) \<Rightarrow> (records, 'a) txm" where
  "abs_read f d = (Inr (f d), d)"

definition abs_modify :: "(records \<Rightarrow> records) \<Rightarrow> (records, unit) txm" where
  "abs_modify f d = (Inr (), f d)"

definition lookup_grant :: "records \<Rightarrow> string \<Rightarrow> GrantRecord option" where
  "lookup_grant d locator = (case map_of (locators d) locator of None \<Rightarrow> None | Some gid \<Rightarrow> map_of (grants d) gid)"

definition sorted_sessions :: "records \<Rightarrow> SessionRecord list" where
  "sorted_sessions d = map (\<lambda>k. the (map_of (sessions d) k)) (sort (map fst (sessions d)))"

definition count_records :: "records \<Rightarrow> storage_counts" where
  "count_records d = \<lparr>SessionCount = length (sessions d), GrantCount = length (grants d), ReceiptCount = length (receipts d)\<rparr>"

definition abstract_tx :: "marshaller \<Rightarrow> transactionMode \<Rightarrow> time \<Rightarrow> records Tx" where
  "abstract_tx marshal mode now =
     \<lparr>Tx_Now = tx_return now,
      Tx_Session = (\<lambda>sid. abs_read (\<lambda>d. map_of (sessions d) sid)),
      Tx_Sessions = (\<lambda>limit d.
        if limit < 0 \<or> int (length (sessions d)) > limit then tx_fail ErrCapacity d else abs_read sorted_sessions d),
      Tx_PutSession = (\<lambda>r. tx_bind (bounded marshal (StoredSession r)) (\<lambda>_.
        tx_bind (abs_write mode) (\<lambda>_. abs_modify (put_session r)))),
      Tx_DeleteSession = (\<lambda>sid. tx_bind (abs_write mode) (\<lambda>_. abs_modify (drop_sessions (\<lambda>k. k = sid)))),
      Tx_Grant = (\<lambda>locator. abs_read (\<lambda>d. lookup_grant d locator)),
      Tx_PutGrant = (\<lambda>r. tx_bind (bounded marshal (StoredGrant r)) (\<lambda>_.
        tx_bind (abs_write mode) (\<lambda>_ d.
          if grant_conflict d r then tx_fail ErrConflict d else abs_modify (put_grant r) d))),
      Tx_DeleteGrant = (\<lambda>gid. tx_bind (abs_write mode) (\<lambda>_. abs_modify (del_grants (\<lambda>k _. k = gid)))),
      Tx_Receipt = (\<lambda>key. abs_read (\<lambda>d. map_of (receipts d) key)),
      Tx_PutReceipt = (\<lambda>r. tx_bind (bounded marshal (StoredReceipt r)) (\<lambda>_.
        tx_bind (abs_write mode) (\<lambda>_ d.
          if \<not> has_key (rc_SessionID r) (sessions d) \<or> has_key (Key r) (receipts d) then tx_fail ErrConflict d
          else abs_modify (put_receipt r) d))),
      Tx_Counts = abs_read count_records,
      Tx_PruneExpired = tx_bind (abs_write mode) (\<lambda>_. abs_modify (prune_records now)),
      Tx_Namespace = abs_read ns_record,
      Tx_PutNamespace = (\<lambda>r. tx_bind (bounded marshal (StoredNamespace r)) (\<lambda>_.
        tx_bind (abs_write mode) (\<lambda>_. abs_modify (put_namespace r))))\<rparr>"

lemma abs_read_iff [simp]: "abs_read f d = (r, d') \<longleftrightarrow> r = Inr (f d) \<and> d' = d"
  by (auto simp: abs_read_def)

lemma abs_modify_iff [simp]: "abs_modify f d = (r, d') \<longleftrightarrow> r = Inr () \<and> d' = f d"
  by (auto simp: abs_modify_def)

lemma abs_write_write [simp]: "abs_write writeTransaction = tx_return ()"
  by (simp add: abs_write_def tx_guard_def)

lemma bounded_iff:
  "bounded marshal v t = (r, t') \<longleftrightarrow> t' = t \<and>
     r = (case marshal v of None \<Rightarrow> Inl ErrMarshal | Some n \<Rightarrow> if n > MaxRecordBytes then Inl ErrCapacity else Inr ())"
  by (auto simp: bounded_def split: option.splits)

lemma bounded_Inr [simp]:
  "bounded marshal v t = (Inr u, t') \<longleftrightarrow> t' = t \<and> (\<exists>n. marshal v = Some n \<and> n \<le> MaxRecordBytes)"
  by (auto simp: bounded_iff split: option.splits if_splits)

section \<open>Every method keeps the integrity of the records\<close>

definition integrity_step :: "records \<Rightarrow> records \<Rightarrow> bool" where
  "integrity_step d d' \<longleftrightarrow> (records_ok d \<longrightarrow> records_ok d')"

interpretation integrity: tx_relation integrity_step
  by unfold_locales (auto simp: integrity_step_def)

lemma keeps_abs_read: "tx_keeps integrity_step (abs_read f)"
  by (simp add: tx_keeps_def abs_read_def integrity_step_def)

lemma keeps_abs_modify: "(\<And>d. records_ok d \<Longrightarrow> records_ok (f d)) \<Longrightarrow> tx_keeps integrity_step (abs_modify f)"
  by (simp add: tx_keeps_def abs_modify_def integrity_step_def)

lemma keeps_bounded: "tx_keeps integrity_step (bounded marshal v)"
  unfolding bounded_def by (cases "marshal v") (simp_all add: integrity.keeps_rules)

lemma keeps_conditional:
  assumes "\<And>d. \<lbrakk>records_ok d; \<not> c d\<rbrakk> \<Longrightarrow> records_ok (f d)"
  shows "tx_keeps integrity_step (\<lambda>d. if c d then tx_fail e d else abs_modify f d)"
  using assms by (simp add: tx_keeps_def abs_modify_def tx_fail_def integrity_step_def)

lemma keeps_abs_sessions:
  "tx_keeps integrity_step (\<lambda>d. if c d then tx_fail e d else abs_read f d)"
  by (simp add: tx_keeps_def abs_read_def tx_fail_def integrity_step_def)

lemmas abs_keeps = integrity.keeps_return integrity.keeps_guard integrity.keeps_bind keeps_abs_read keeps_abs_modify
  keeps_bounded keeps_conditional keeps_abs_sessions records_ok_put_session records_ok_put_namespace
  records_ok_put_grant records_ok_put_receipt records_ok_del_grants records_ok_drop_sessions records_ok_prune

lemma abstract_tx_integrity:
  fixes marshal mode now
  defines "ops \<equiv> abstract_tx marshal mode now"
  shows "tx_keeps integrity_step (Tx_Now ops)" "tx_keeps integrity_step (Tx_Session ops sid)"
    "tx_keeps integrity_step (Tx_Sessions ops limit)" "tx_keeps integrity_step (Tx_PutSession ops r)"
    "tx_keeps integrity_step (Tx_DeleteSession ops sid)" "tx_keeps integrity_step (Tx_Grant ops l)"
    "tx_keeps integrity_step (Tx_PutGrant ops g)" "tx_keeps integrity_step (Tx_DeleteGrant ops gid)"
    "tx_keeps integrity_step (Tx_Receipt ops k)" "tx_keeps integrity_step (Tx_PutReceipt ops c)"
    "tx_keeps integrity_step (Tx_Counts ops)" "tx_keeps integrity_step (Tx_PruneExpired ops)"
    "tx_keeps integrity_step (Tx_Namespace ops)" "tx_keeps integrity_step (Tx_PutNamespace ops n)"
  unfolding ops_def abstract_tx_def Tx.simps abs_write_def
  by (intro abs_keeps; (assumption | simp))+

section \<open>The contract of an adapter\<close>

locale tx_view =
  fixes frame :: "'t \<Rightarrow> 't \<Rightarrow> bool"
    and live :: "'t \<Rightarrow> bool"
    and wf :: "'t \<Rightarrow> bool"
    and view_mode :: "'t \<Rightarrow> transactionMode"
    and view_now :: "'t \<Rightarrow> time"
    and view_data :: "'t \<Rightarrow> records"
  assumes frame_refl: "frame t t"
    and frame_trans: "\<lbrakk>frame t u; frame u v\<rbrakk> \<Longrightarrow> frame t v"
    and frame_live: "\<lbrakk>frame t u; live u\<rbrakk> \<Longrightarrow> live t"
    and frame_mode: "frame t u \<Longrightarrow> view_mode u = view_mode t"
    and frame_now: "frame t u \<Longrightarrow> view_now u = view_now t"
begin

text \<open>A computation of the adapter against one of the abstract store.\<close>

definition refines :: "('t, 'a) txm \<Rightarrow> (transactionMode \<Rightarrow> time \<Rightarrow> (records, 'a) txm) \<Rightarrow> bool" where
  "refines m p \<longleftrightarrow> (\<forall>t r t'. wf t \<longrightarrow> m t = (r, t') \<longrightarrow>
     frame t t' \<and> wf t' \<and> (live t' \<longrightarrow> p (view_mode t) (view_now t) (view_data t) = (r, view_data t')))"

lemma refinesI:
  assumes "\<And>t r t'. \<lbrakk>wf t; m t = (r, t')\<rbrakk> \<Longrightarrow> frame t t' \<and> wf t'"
    and "\<And>t r t'. \<lbrakk>wf t; m t = (r, t'); live t'; live t\<rbrakk> \<Longrightarrow> p (view_mode t) (view_now t) (view_data t) = (r, view_data t')"
  shows "refines m p"
  unfolding refines_def using assms frame_live by blast

lemma refinesD:
  assumes "refines m p" and "wf t" and "m t = (r, t')"
  shows "frame t t'" and "wf t'" and "live t' \<Longrightarrow> p (view_mode t) (view_now t) (view_data t) = (r, view_data t')"
  using assms unfolding refines_def by blast+

lemma refines_return: "refines (tx_return a) (\<lambda>_ _. tx_return a)"
  by (simp add: refines_def frame_refl)

lemma refines_fail: "refines (tx_fail e) (\<lambda>_ _. tx_fail e)"
  by (simp add: refines_def frame_refl)

lemma refines_guard: "refines (tx_guard b e) (\<lambda>_ _. tx_guard b e)"
  by (simp add: refines_def frame_refl)

lemma refines_lift: "refines (tx_lift x) (\<lambda>_ _. tx_lift x)"
  by (simp add: refines_def frame_refl)

lemma refines_bounded: "refines (bounded marshal v) (\<lambda>_ _. bounded marshal v)"
  by (simp add: refines_def bounded_iff frame_refl)

lemma refines_bind:
  assumes m: "refines m p" and f: "\<And>a. refines (f a) (g a)"
  shows "refines (tx_bind m f) (\<lambda>mode now. tx_bind (p mode now) (\<lambda>a. g a mode now))"
  unfolding refines_def
proof (intro allI impI)
  fix t r t'
  assume wf: "wf t" and run: "tx_bind m f t = (r, t')"
  obtain x u where u: "m t = (x, u)" by (cases "m t")
  note m' = refinesD [OF m wf u]
  show "frame t t' \<and> wf t' \<and>
      (live t' \<longrightarrow> tx_bind (p (view_mode t) (view_now t)) (\<lambda>a. g a (view_mode t) (view_now t)) (view_data t) = (r, view_data t'))"
  proof (cases x)
    case (Inl e)
    then show ?thesis using run u m' by (auto simp: tx_bind_def)
  next
    case (Inr a)
    then have fa: "f a u = (r, t')" using run u by (simp add: tx_bind_def)
    note f' = refinesD [OF f m'(2) fa]
    show ?thesis
      using m' f' Inr frame_trans [OF m'(1) f'(1)] frame_live [OF f'(1)] frame_mode [OF m'(1)] frame_now [OF m'(1)]
      by (auto simp: tx_bind_def)
  qed
qed

lemma refines_catch:
  assumes m: "refines m p" and h: "refines h q"
  shows "refines (tx_catch m e h) (\<lambda>mode now. tx_catch (p mode now) e (q mode now))"
  unfolding refines_def
proof (intro allI impI)
  fix t r t'
  assume wf: "wf t" and run: "tx_catch m e h t = (r, t')"
  obtain x u where u: "m t = (x, u)" by (cases "m t")
  note m' = refinesD [OF m wf u]
  show "frame t t' \<and> wf t' \<and>
      (live t' \<longrightarrow> tx_catch (p (view_mode t) (view_now t)) e (q (view_mode t) (view_now t)) (view_data t) = (r, view_data t'))"
  proof (cases "x = Inl e")
    case True
    then have hu: "h u = (r, t')" using run u by (simp add: tx_catch_def)
    note h' = refinesD [OF h m'(2) hu]
    show ?thesis
      using m' h' True frame_trans [OF m'(1) h'(1)] frame_live [OF h'(1)] frame_mode [OF m'(1)] frame_now [OF m'(1)]
      by (auto simp: tx_catch_def)
  next
    case False
    then have "r = x" "t' = u" using run u by (auto simp: tx_catch_def split: sum.splits)
    then show ?thesis using m' False by (auto simp: tx_catch_def split: sum.splits)
  qed
qed

lemma refines_if:
  "\<lbrakk>b \<Longrightarrow> refines m p; \<not> b \<Longrightarrow> refines n q\<rbrakk> \<Longrightarrow>
     refines (if b then m else n) (\<lambda>mode now. if b then p mode now else q mode now)"
  by simp

lemma refines_case_option:
  "\<lbrakk>refines m p; \<And>a. refines (f a) (g a)\<rbrakk> \<Longrightarrow>
     refines (case x of None \<Rightarrow> m | Some a \<Rightarrow> f a) (\<lambda>mode now. case x of None \<Rightarrow> p mode now | Some a \<Rightarrow> g a mode now)"
  by (cases x) simp_all

lemma refines_case_sum:
  "\<lbrakk>\<And>e. refines (h e) (q e); \<And>a. refines (f a) (g a)\<rbrakk> \<Longrightarrow>
     refines (case x of Inl e \<Rightarrow> h e | Inr a \<Rightarrow> f a) (\<lambda>mode now. case x of Inl e \<Rightarrow> q e mode now | Inr a \<Rightarrow> g a mode now)"
  by (cases x) simp_all

lemma refines_each:
  "(\<And>x. refines (f x) (g x)) \<Longrightarrow> refines (tx_each f xs) (\<lambda>mode now. tx_each (\<lambda>x. g x mode now) xs)"
  by (induction xs) (simp_all add: refines_return refines_bind)

lemmas refines_rules = refines_return refines_fail refines_guard refines_lift refines_bind refines_catch refines_if
  refines_case_option refines_each

end

locale store_adapter = tx_view frame live wf view_mode view_now view_data
  for frame :: "'t \<Rightarrow> 't \<Rightarrow> bool" and live wf view_mode view_now view_data +
  fixes ops :: "'t Tx" and marshal :: marshaller
  assumes ref_Now: "refines (Tx_Now ops) (\<lambda>m n. Tx_Now (abstract_tx marshal m n))"
    and ref_Session: "refines (Tx_Session ops sid) (\<lambda>m n. Tx_Session (abstract_tx marshal m n) sid)"
    and ref_Sessions: "refines (Tx_Sessions ops limit) (\<lambda>m n. Tx_Sessions (abstract_tx marshal m n) limit)"
    and ref_PutSession: "refines (Tx_PutSession ops r) (\<lambda>m n. Tx_PutSession (abstract_tx marshal m n) r)"
    and ref_DeleteSession: "refines (Tx_DeleteSession ops sid) (\<lambda>m n. Tx_DeleteSession (abstract_tx marshal m n) sid)"
    and ref_Grant: "refines (Tx_Grant ops l) (\<lambda>m n. Tx_Grant (abstract_tx marshal m n) l)"
    and ref_PutGrant: "refines (Tx_PutGrant ops g) (\<lambda>m n. Tx_PutGrant (abstract_tx marshal m n) g)"
    and ref_DeleteGrant: "refines (Tx_DeleteGrant ops gid) (\<lambda>m n. Tx_DeleteGrant (abstract_tx marshal m n) gid)"
    and ref_Receipt: "refines (Tx_Receipt ops k) (\<lambda>m n. Tx_Receipt (abstract_tx marshal m n) k)"
    and ref_PutReceipt: "refines (Tx_PutReceipt ops c) (\<lambda>m n. Tx_PutReceipt (abstract_tx marshal m n) c)"
    and ref_Counts: "refines (Tx_Counts ops) (\<lambda>m n. Tx_Counts (abstract_tx marshal m n))"
    and ref_PruneExpired: "refines (Tx_PruneExpired ops) (\<lambda>m n. Tx_PruneExpired (abstract_tx marshal m n))"
    and ref_Namespace: "refines (Tx_Namespace ops) (\<lambda>m n. Tx_Namespace (abstract_tx marshal m n))"
    and ref_PutNamespace: "refines (Tx_PutNamespace ops ns) (\<lambda>m n. Tx_PutNamespace (abstract_tx marshal m n) ns)"
begin

lemmas refines_ops = ref_Now ref_Session ref_Sessions ref_PutSession ref_DeleteSession ref_Grant ref_PutGrant ref_DeleteGrant
  ref_Receipt ref_PutReceipt ref_Counts ref_PruneExpired ref_Namespace ref_PutNamespace

end

text \<open>
  The contract of \<^verbatim>\<open>storage.Store\<close>: an error rolls back every write; a successful update installs what the
  callback computes on the abstract store from the committed records; a view changes nothing.
\<close>

locale atomic_store = store_adapter frame live wf view_mode view_now view_data ops marshal
  for frame :: "'t \<Rightarrow> 't \<Rightarrow> bool" and live wf view_mode view_now view_data ops marshal +
  fixes update :: "go_context \<Rightarrow> time \<Rightarrow> ('t, 'a) txm \<Rightarrow> 's \<Rightarrow> (access_error option \<times> 'a option) \<times> 's"
    and view :: "go_context \<Rightarrow> time \<Rightarrow> ('t, 'a) txm \<Rightarrow> 's \<Rightarrow> (access_error option \<times> 'a option) \<times> 's"
    and data :: "'s \<Rightarrow> records"
    and store_wf :: "'s \<Rightarrow> bool"
  assumes rollback: "\<lbrakk>update ctx now fn s = ((Some e, a), s')\<rbrakk> \<Longrightarrow> s' = s"
    and commit: "\<lbrakk>store_wf s; update ctx now fn s = ((None, a), s'); refines fn p\<rbrakk> \<Longrightarrow>
      \<exists>x. a = Some x \<and> p writeTransaction now (data s) = (Inr x, data s') \<and> store_wf s'"
    and view_only: "view ctx now fn s = (r, s') \<Longrightarrow> s' = s"
    and view_result: "\<lbrakk>store_wf s; view ctx now fn s = ((None, a), s'); refines fn p\<rbrakk> \<Longrightarrow>
      \<exists>x d. a = Some x \<and> p readTransaction now (data s) = (Inr x, d)"
begin

text \<open>What the abstract computation keeps, the store keeps, whether or not the update commits.\<close>

lemma update_keeps:
  assumes wf: "store_wf s" and up: "update ctx now fn s = (r, s')" and ref: "refines fn p"
    and keeps: "tx_keeps R (p writeTransaction now)" and refl: "R (data s) (data s)"
  shows "R (data s) (data s') \<and> store_wf s'"
proof (cases "fst r")
  case None
  then obtain a where r: "r = (None, a)" by (cases r) auto
  from commit [OF wf up [unfolded r] ref] obtain x where
    x: "p writeTransaction now (data s) = (Inr x, data s')" "store_wf s'" by blast
  then show ?thesis using tx_keepsD [OF keeps x(1)] by simp
next
  case (Some e)
  then obtain a where r: "r = (Some e, a)" by (cases r) auto
  show ?thesis using rollback [OF up [unfolded r]] wf refl by simp
qed

end

end
