(* ===== verification/Access_Service.thy ===== *)
theory Access_Service
  imports Token Access_State Abstract_Store
begin

text \<open>
  The Session access service of \<^verbatim>\<open>access/service.go\<close>, \<^verbatim>\<open>access/renewal.go\<close> and \<^verbatim>\<open>access/authority.go\<close>, written against the
  transaction interface.  An operation receives the methods of the transaction and the store's \<^verbatim>\<open>Update\<close> or
  \<^verbatim>\<open>View\<close> with its context and clock; random draws are arguments.  The state of the service itself is
  fixed once it is created.
\<close>

section \<open>Configuration\<close>

record Config =
  NamePolicy :: string
  MaxSessions :: int
  MaxInvitations :: int
  MaxReceipts :: int
  MaxSSEPerSession :: int
  SessionTTL :: duration
  OwnerTokenTTL :: duration
  PublisherTokenTTL :: duration
  SubscriberTokenTTL :: duration
  ReceiptTTL :: duration
  ObservationTTL :: duration
  WriterLeaseDuration :: duration
  cfg_WriterID :: string
  OperationTimeout :: duration

record Service =
  svc_secret :: bytes
  svc_config :: Config
  svc_term :: u64
  svc_incarnation :: string

record Session =
  ses_record :: SessionRecord
  sourceToken :: string

definition AutoTwoThenThree :: string where "AutoTwoThenThree = ''auto''"

text \<open>\<^verbatim>\<open>strconv.Itoa\<close> on the counts a policy can name.\<close>

definition itoa :: "nat \<Rightarrow> string" where
  "itoa n = (if n < 10 then [hex_digit n] else [hex_digit (n div 10), hex_digit (n mod 10)])"

text \<open>A policy names a fixed count when it parses to a count in range that prints back to it.\<close>

definition fixedCount :: "string \<Rightarrow> nat option" where
  "fixedCount policy = find (\<lambda>n. itoa n = policy) [2..<16]"

definition FixedNamePolicy :: "int \<Rightarrow> access_error + string" where
  "FixedNamePolicy n = (if n < 2 \<or> n > 15 then Inl ErrInvalidWordCount else Inr (itoa (nat n)))"

definition ParseNameAllocationPolicy :: "(string \<Rightarrow> string) \<Rightarrow> access_error + string" where
  "ParseNameAllocationPolicy getenv =
     (let v = getenv ''POCKETSTATION_NAME_POLICY''
      in if v = [] then Inr AutoTwoThenThree
         else if v = AutoTwoThenThree then Inr v
         else if fixedCount v \<noteq> None then Inr v
         else Inl ErrConfiguration)"

definition default_int :: "int \<Rightarrow> int \<Rightarrow> int" where
  "default_int d v = (if v \<le> 0 then d else v)"

definition config_defaults :: "Config \<Rightarrow> Config" where
  "config_defaults c =
     (let sessionTTL = default_int (120 * minute) (SessionTTL c);
          ownerTTL = default_int (15 * minute) (OwnerTokenTTL c)
      in \<lparr>NamePolicy = (if NamePolicy c = [] then AutoTwoThenThree else NamePolicy c),
          MaxSessions = default_int 1000 (MaxSessions c),
          MaxInvitations = default_int 4000 (MaxInvitations c),
          MaxReceipts = default_int 4000 (MaxReceipts c),
          MaxSSEPerSession = default_int 16 (MaxSSEPerSession c),
          SessionTTL = sessionTTL,
          OwnerTokenTTL = (if ownerTTL > sessionTTL then sessionTTL else ownerTTL),
          PublisherTokenTTL = default_int (15 * minute) (PublisherTokenTTL c),
          SubscriberTokenTTL = default_int (120 * minute) (SubscriberTokenTTL c),
          ReceiptTTL = default_int (2 * minute) (ReceiptTTL c),
          ObservationTTL = default_int (15 * second) (ObservationTTL c),
          WriterLeaseDuration = default_int (30 * second) (WriterLeaseDuration c),
          cfg_WriterID = (if cfg_WriterID c = [] then ''default'' else cfg_WriterID c),
          OperationTimeout = (if OperationTimeout c \<le> 0 \<or> OperationTimeout c > 30 * second then 5 * second else OperationTimeout c)\<rparr>)"

text \<open>\<^verbatim>\<open>randomSessionID\<close>: sixteen random bytes as a version 4 UUID.\<close>

definition uuid_bytes :: "bytes \<Rightarrow> bytes" where
  "uuid_bytes v = (let w = v[6 := or (and (v ! 6) 15) 64] in w[8 := or (and (w ! 8) 63) 128])"

definition randomSessionID :: "bytes option \<Rightarrow> access_error + string" where
  "randomSessionID rnd =
     (case rnd of
        None \<Rightarrow> Inl ErrRandom
      | Some v \<Rightarrow>
          let encoded = hex_EncodeToString (uuid_bytes v)
          in Inr (take 8 encoded @ ''-'' @ take 4 (drop 8 encoded) @ ''-'' @ take 4 (drop 12 encoded) @ ''-'' @
               take 4 (drop 16 encoded) @ ''-'' @ drop 20 encoded))"

section \<open>Transactions of the service\<close>

definition checkWriter :: "'t Tx \<Rightarrow> Service \<Rightarrow> ('t, unit) txm" where
  "checkWriter tx s =
     tx_bind (Tx_Namespace tx) (\<lambda>ns.
     if ns_WriterTerm ns \<noteq> svc_term s \<or> ns_WriterID ns \<noteq> cfg_WriterID (svc_config s) \<or> ns_Incarnation ns \<noteq> svc_incarnation s
     then tx_fail ErrWriterFenced else tx_return ())"

text \<open>The callback every \<^verbatim>\<open>update\<close> wraps around its own: the writer is checked, the lease extended and expired records pruned.\<close>

definition svc_update :: "'t Tx \<Rightarrow> Service \<Rightarrow> ('t, 'a) txm \<Rightarrow> ('t, 'a) txm" where
  "svc_update tx s fn =
     tx_bind (checkWriter tx s) (\<lambda>_.
     tx_bind (Tx_Namespace tx) (\<lambda>ns.
     tx_bind (Tx_Now tx) (\<lambda>now.
     tx_bind (Tx_PutNamespace tx (ns\<lparr>LeaseExpiresAt := now + WriterLeaseDuration (svc_config s)\<rparr>)) (\<lambda>_.
     tx_bind (Tx_PruneExpired tx) (\<lambda>_. fn)))))"

definition active :: "'t Tx \<Rightarrow> Service \<Rightarrow> string \<Rightarrow> ('t, SessionRecord) txm" where
  "active tx s sid =
     tx_bind (Tx_Session tx sid) (\<lambda>found.
     tx_bind (Tx_Now tx) (\<lambda>now.
     case found of
       None \<Rightarrow> tx_fail ErrNoRows
     | Some r \<Rightarrow> if \<not> sr_ExpiresAt r > now \<or> sr_Incarnation r \<noteq> svc_incarnation s then tx_fail ErrNoRows else tx_return r))"

text \<open>The error and result a Go method returns from what the store's \<^verbatim>\<open>Update\<close> or \<^verbatim>\<open>View\<close> returned.\<close>

definition returned :: "(access_error option \<times> 'a option) \<times> 's \<Rightarrow> (access_error + 'a) \<times> 's" where
  "returned x = (case x of ((Some e, _), s) \<Rightarrow> (Inl e, s) | ((None, Some a), s) \<Rightarrow> (Inr a, s) | ((None, None), s) \<Rightarrow> (Inl ErrContext, s))"

type_synonym ('t, 'a, 's) storage_call = "('t, 'a) txm \<Rightarrow> 's \<Rightarrow> (access_error option \<times> 'a option) \<times> 's"

definition svc_sign ::
  "jwt_library \<Rightarrow> Service \<Rightarrow> SessionRecord \<Rightarrow> Claims \<Rightarrow> duration \<Rightarrow> time \<Rightarrow> bytes option \<Rightarrow> access_error + string" where
  "svc_sign lib s r claims ttl now rnd = SignProfile lib (svc_secret s) (sr_Issuer r) (sr_Incarnation r) claims ttl now rnd"

subsection \<open>Creating, reading and deleting Sessions\<close>

definition new_session :: "Service \<Rightarrow> string \<Rightarrow> string list \<Rightarrow> time \<Rightarrow> SessionRecord" where
  "new_session s sid required now =
     \<lparr>sr_SchemaVersion = SchemaVersion, sr_ID = sid, sr_Issuer = Issuer, sr_Incarnation = svc_incarnation s,
      LegacyTokensBefore = zero_time, RequiredBuses = required, Codec = ''opus'', StateRevision = 1, Relay = zero_relay,
      sr_WriterTerm = svc_term s, MediaTerm = 0, LastActiveAt = now, sr_ExpiresAt = now + SessionTTL (svc_config s)\<rparr>"

definition create_tx ::
  "'t Tx \<Rightarrow> jwt_library \<Rightarrow> Service \<Rightarrow> string list \<Rightarrow> bytes option \<Rightarrow> bytes option \<Rightarrow> ('t, Session) txm" where
  "create_tx tx lib s required idDraw jtiDraw =
     tx_bind (Tx_Counts tx) (\<lambda>counts.
     if int (SessionCount counts) \<ge> MaxSessions (svc_config s) then tx_fail ErrSessionCapacity
     else
       tx_bind (tx_lift (randomSessionID idDraw)) (\<lambda>sid.
       tx_bind (Tx_Now tx) (\<lambda>now.
       tx_bind (tx_lift (svc_sign lib s (new_session s sid required now) (new_claims sid RoleSource [] required True)
                  (OwnerTokenTTL (svc_config s)) now jtiDraw)) (\<lambda>credential.
       tx_bind (Tx_PutSession tx (new_session s sid required now)) (\<lambda>_.
       tx_return \<lparr>ses_record = new_session s sid required now, sourceToken = credential\<rparr>)))))"

definition CreateContext ::
  "('t, Session, 's) storage_call \<Rightarrow> 't Tx \<Rightarrow> jwt_library \<Rightarrow> Service \<Rightarrow> string list \<Rightarrow> bytes option \<Rightarrow> bytes option \<Rightarrow> 's \<Rightarrow>
     (access_error + Session) \<times> 's" where
  "CreateContext update tx lib s required idDraw jtiDraw st =
     (case validateRequiredBuses (if required = [] then [''application'', ''microphone''] else required) of
        Inl e \<Rightarrow> (Inl e, st)
      | Inr buses \<Rightarrow> returned (update (svc_update tx s (create_tx tx lib s buses idDraw jtiDraw)) st))"

text \<open>A stored observation is stale when another service instance wrote it or when it is too old.\<close>

definition stale_observation :: "Service \<Rightarrow> SessionRecord \<Rightarrow> time \<Rightarrow> bool" where
  "stale_observation s r now \<longleftrightarrow>
     sr_WriterTerm r \<noteq> svc_term s \<or> time_Sub now (ObservedAt (Relay r)) > ObservationTTL (svc_config s)"

definition forget_observation :: "SessionRecord \<Rightarrow> SessionRecord" where
  "forget_observation r = r\<lparr>Relay := (Relay r)\<lparr>Buses := [], Subscriptions := []\<rparr>, StateRevision := StateRevision r + 1\<rparr>"

definition get_tx :: "'t Tx \<Rightarrow> Service \<Rightarrow> string \<Rightarrow> ('t, Session) txm" where
  "get_tx tx s sid =
     tx_bind (active tx s sid) (\<lambda>r.
     tx_bind (Tx_Now tx) (\<lambda>now.
     if stale_observation s r now \<and> (length (Buses (Relay r)) > 0 \<or> length (Subscriptions (Relay r)) > 0)
     then tx_bind (Tx_PutSession tx (forget_observation r)) (\<lambda>_. tx_return \<lparr>ses_record = forget_observation r, sourceToken = []\<rparr>)
     else tx_return \<lparr>ses_record = r, sourceToken = []\<rparr>))"

definition GetContext :: "('t, Session, 's) storage_call \<Rightarrow> 't Tx \<Rightarrow> Service \<Rightarrow> string \<Rightarrow> 's \<Rightarrow> (access_error + Session) \<times> 's" where
  "GetContext update tx s sid st = returned (update (svc_update tx s (get_tx tx s sid)) st)"

definition delete_tx :: "'t Tx \<Rightarrow> Service \<Rightarrow> string \<Rightarrow> ('t, bool) txm" where
  "delete_tx tx s sid =
     tx_bind (tx_catch (tx_bind (active tx s sid) (\<lambda>_. tx_return True)) ErrNoRows (tx_return False)) (\<lambda>found.
     if \<not> found then tx_return False
     else tx_bind (Tx_DeleteSession tx sid) (\<lambda>_. tx_return True))"

text \<open>The flag the callback captured is returned also when the commit fails.\<close>

definition DeleteContext :: "('t, bool, 's) storage_call \<Rightarrow> 't Tx \<Rightarrow> Service \<Rightarrow> string \<Rightarrow> 's \<Rightarrow> (bool \<times> access_error option) \<times> 's" where
  "DeleteContext update tx s sid st =
     (case update (svc_update tx s (delete_tx tx s sid)) st of
        ((err, captured), st') \<Rightarrow> (((case captured of Some d \<Rightarrow> d | None \<Rightarrow> False), err), st'))"

subsection \<open>Authorization\<close>

definition authorizeRecord :: "jwt_library \<Rightarrow> Service \<Rightarrow> SessionRecord \<Rightarrow> string \<Rightarrow> time \<Rightarrow> access_error + Claims" where
  "authorizeRecord lib s r encoded now =
     (case VerifyProfile lib (svc_secret s) encoded (sr_Issuer r) now of
        Inl e \<Rightarrow> Inl e
      | Inr c \<Rightarrow>
          if c_SessionID c \<noteq> sr_ID r then Inl ErrInvalidCapability
          else if c_Incarnation c \<noteq> sr_Incarnation r \<and>
            (c_Incarnation c \<noteq> [] \<or> sr_Issuer r \<noteq> LegacyIssuer \<or> LegacyTokensBefore r = zero_time \<or>
             the (c_IssuedAt c) > LegacyTokensBefore r)
          then Inl ErrInvalidCapability
          else Inr c)"

definition authorize_tx :: "'t Tx \<Rightarrow> jwt_library \<Rightarrow> Service \<Rightarrow> string \<Rightarrow> string \<Rightarrow> ('t, Claims) txm" where
  "authorize_tx tx lib s sid encoded =
     tx_bind (checkWriter tx s) (\<lambda>_.
     tx_bind (active tx s sid) (\<lambda>r.
     tx_bind (Tx_Now tx) (\<lambda>now.
     tx_lift (authorizeRecord lib s r encoded now))))"

definition Authorize ::
  "('t, Claims, 's) storage_call \<Rightarrow> 't Tx \<Rightarrow> jwt_library \<Rightarrow> Service \<Rightarrow> string \<Rightarrow> string \<Rightarrow> 's \<Rightarrow> (access_error + Claims) \<times> 's" where
  "Authorize view tx lib s sid encoded st = returned (view (authorize_tx tx lib s sid encoded) st)"

subsection \<open>Issuing tokens\<close>

definition contains :: "string list \<Rightarrow> string \<Rightarrow> bool" where
  "contains vs target = list_ex (\<lambda>v. v = target) vs"

definition touch :: "Service \<Rightarrow> SessionRecord \<Rightarrow> time \<Rightarrow> SessionRecord" where
  "touch s r now = r\<lparr>LastActiveAt := now, sr_ExpiresAt := now + SessionTTL (svc_config s)\<rparr>"

definition issue_tx ::
  "'t Tx \<Rightarrow> jwt_library \<Rightarrow> Service \<Rightarrow> string \<Rightarrow> string \<Rightarrow> string \<Rightarrow> bytes option \<Rightarrow> ('t, string) txm" where
  "issue_tx tx lib s sid bus role jtiDraw =
     tx_bind (active tx s sid) (\<lambda>r.
     if bus \<noteq> ''mix'' \<and> \<not> contains (RequiredBuses r) bus then tx_fail ErrInvalidRelayState
     else if role = RoleSource \<and> bus = ''mix'' then tx_fail ErrInvalidRelayState
     else
       tx_bind (Tx_Now tx) (\<lambda>now.
       tx_bind (tx_lift (svc_sign lib s r
           (if role = RoleSource then new_claims sid role [] [bus] False else new_claims sid role bus [] False)
           (if role = RoleSource then PublisherTokenTTL (svc_config s) else SubscriberTokenTTL (svc_config s)) now jtiDraw)) (\<lambda>result.
       tx_bind (Tx_PutSession tx (touch s r now)) (\<lambda>_. tx_return result))))"

definition issue ::
  "('t, string, 's) storage_call \<Rightarrow> 't Tx \<Rightarrow> jwt_library \<Rightarrow> Service \<Rightarrow> string \<Rightarrow> string \<Rightarrow> string \<Rightarrow> bytes option \<Rightarrow> 's \<Rightarrow>
     (access_error + string) \<times> 's" where
  "issue update tx lib s sid bus role jtiDraw st = returned (update (svc_update tx s (issue_tx tx lib s sid bus role jtiDraw)) st)"

definition IssuePublisherTokenContext ::
  "('t, string, 's) storage_call \<Rightarrow> 't Tx \<Rightarrow> jwt_library \<Rightarrow> Service \<Rightarrow> string \<Rightarrow> string \<Rightarrow> bytes option \<Rightarrow> 's \<Rightarrow> (access_error + string) \<times> 's" where
  "IssuePublisherTokenContext update tx lib s sid bus = issue update tx lib s sid bus RoleSource"

definition IssueSubscriberTokenContext ::
  "('t, string, 's) storage_call \<Rightarrow> 't Tx \<Rightarrow> jwt_library \<Rightarrow> Service \<Rightarrow> string \<Rightarrow> string \<Rightarrow> bytes option \<Rightarrow> 's \<Rightarrow> (access_error + string) \<times> 's" where
  "IssueSubscriberTokenContext update tx lib s sid bus = issue update tx lib s sid bus RoleSubscriber"

definition time_Truncate_second :: "time \<Rightarrow> time" where
  "time_Truncate_second t = t - (t - zero_time) mod second"

definition renew_tx ::
  "'t Tx \<Rightarrow> jwt_library \<Rightarrow> Service \<Rightarrow> string \<Rightarrow> string \<Rightarrow> bytes option \<Rightarrow> ('t, string \<times> time) txm" where
  "renew_tx tx lib s sid credential jtiDraw =
     tx_bind (active tx s sid) (\<lambda>r.
     tx_bind (Tx_Now tx) (\<lambda>now.
     tx_bind (tx_lift (authorizeRecord lib s r credential now)) (\<lambda>c.
     if \<not> CanControl c then tx_fail ErrInvalidCapability
     else
       tx_bind (tx_lift (svc_sign lib s r (new_claims sid RoleSource [] (RequiredBuses r) True)
                  (OwnerTokenTTL (svc_config s)) now jtiDraw)) (\<lambda>result.
       tx_bind (Tx_PutSession tx (touch s r now)) (\<lambda>_.
       tx_return (result, time_Truncate_second (now + OwnerTokenTTL (svc_config s))))))))"

definition RenewOwner ::
  "('t, string \<times> time, 's) storage_call \<Rightarrow> 't Tx \<Rightarrow> jwt_library \<Rightarrow> Service \<Rightarrow> string \<Rightarrow> string \<Rightarrow> bytes option \<Rightarrow> 's \<Rightarrow>
     (access_error + string \<times> time) \<times> 's" where
  "RenewOwner update tx lib s sid credential jtiDraw st =
     returned (update (svc_update tx s (renew_tx tx lib s sid credential jtiDraw)) st)"

subsection \<open>Relay observations\<close>

text \<open>The record once a snapshot of the placed Relay is accepted, and whether it changed the reported state.\<close>

definition snapshot_changed :: "RelayState \<Rightarrow> SessionRecord \<Rightarrow> bool" where
  "snapshot_changed snapshot r \<longleftrightarrow>
     Revision snapshot \<noteq> Revision (Relay r) \<or> Buses snapshot \<noteq> Buses (Relay r) \<or> Subscriptions snapshot \<noteq> Subscriptions (Relay r)"

definition snapshot_active :: "RelayState \<Rightarrow> bool" where
  "snapshot_active snapshot = fold (\<lambda>bus act. act \<or> SourceActive bus) (Buses snapshot) (length (Subscriptions snapshot) > 0)"

definition apply_snapshot :: "Service \<Rightarrow> RelayState \<Rightarrow> time \<Rightarrow> SessionRecord \<Rightarrow> SessionRecord" where
  "apply_snapshot s snapshot now r =
     (let changed = snapshot_changed snapshot r;
          r1 = r\<lparr>Relay := snapshot\<lparr>ObservedAt := now\<rparr>, sr_WriterTerm := svc_term s\<rparr>;
          r2 = (if changed then r1\<lparr>StateRevision := StateRevision r1 + 1\<rparr> else r1)
      in if snapshot_active snapshot then touch s r2 now else r2)"

definition apply_tx :: "'t Tx \<Rightarrow> Service \<Rightarrow> string \<Rightarrow> RelayState \<Rightarrow> ('t, State \<times> bool) txm" where
  "apply_tx tx s sid snapshot =
     tx_bind (tx_catch (active tx s sid) ErrNoRows (tx_fail ErrNotExist)) (\<lambda>r.
     if rs_WriterTerm snapshot \<noteq> MediaTerm r \<or> MediaTerm r = 0 \<or> RelayEpoch snapshot \<noteq> RelayEpoch (Relay r)
     then tx_fail ErrWriterFenced
     else if RelayEpoch snapshot = RelayEpoch (Relay r) \<and> Revision snapshot < Revision (Relay r)
     then tx_return (session_State r, False)
     else if list_ex (\<lambda>bus. \<not> contains (RequiredBuses r) (bs_BusID bus)) (Buses snapshot)
     then tx_fail ErrInvalidRelayState
     else
       tx_bind (Tx_Now tx) (\<lambda>now.
       tx_bind (Tx_PutSession tx (apply_snapshot s snapshot now r)) (\<lambda>_.
       tx_return (session_State (apply_snapshot s snapshot now r), snapshot_changed snapshot r))))"

definition ApplyRelayStateContext ::
  "('t, State \<times> bool, 's) storage_call \<Rightarrow> 't Tx \<Rightarrow> Service \<Rightarrow> string \<Rightarrow> RelayState \<Rightarrow> 's \<Rightarrow> (access_error + State \<times> bool) \<times> 's" where
  "ApplyRelayStateContext update tx s sid snapshot st =
     (if rs_SessionID snapshot \<noteq> sid then (Inl ErrInvalidRelayState, st)
      else if \<not> validateRelaySnapshot snapshot then (Inl ErrInvalidRelayState, st)
      else returned (update (svc_update tx s (apply_tx tx s sid (normalizeRelaySnapshot snapshot))) st))"

subsection \<open>Media placement\<close>

definition place_relay :: "Service \<Rightarrow> string \<Rightarrow> string \<Rightarrow> time \<Rightarrow> SessionRecord \<Rightarrow> SessionRecord" where
  "place_relay s sid epoch now r =
     (let term = MediaTerm r + 1
      in r\<lparr>MediaTerm := term,
           Relay := zero_relay\<lparr>rs_SessionID := sid, RelayEpoch := epoch, rs_WriterTerm := term, ObservedAt := now\<rparr>,
           StateRevision := StateRevision r + 1, sr_WriterTerm := svc_term s\<rparr>)"

definition acquire_tx :: "'t Tx \<Rightarrow> Service \<Rightarrow> string \<Rightarrow> string \<Rightarrow> u64 \<Rightarrow> ('t, u64) txm" where
  "acquire_tx tx s sid epoch expected =
     tx_bind (active tx s sid) (\<lambda>r.
     if RelayEpoch (Relay r) = epoch \<and> MediaTerm r \<noteq> 0 then tx_return (MediaTerm r)
     else if MediaTerm r \<noteq> expected then tx_fail ErrWriterFenced
     else
       tx_bind (Tx_Now tx) (\<lambda>now.
       tx_bind (Tx_PutSession tx (place_relay s sid epoch now r)) (\<lambda>_.
       tx_return (MediaTerm (place_relay s sid epoch now r)))))"

definition AcquireRelayWriter ::
  "('t, u64, 's) storage_call \<Rightarrow> 't Tx \<Rightarrow> Service \<Rightarrow> string \<Rightarrow> string \<Rightarrow> u64 \<Rightarrow> 's \<Rightarrow> (access_error + u64) \<times> 's" where
  "AcquireRelayWriter update tx s sid epoch expected st =
     (if \<not> validIdentifier epoch 128 then (Inl ErrInvalidRelayState, st)
      else returned (update (svc_update tx s (acquire_tx tx s sid epoch expected)) st))"

record AuthorityMetadata =
  am_SessionID :: string
  am_Issuer :: string
  am_Incarnation :: string
  am_LegacyTokensBefore :: time
  am_MediaTerm :: u64
  am_RelayEpoch :: string
  am_RequiredBuses :: "string list"

definition metadata_tx :: "'t Tx \<Rightarrow> Service \<Rightarrow> string \<Rightarrow> ('t, AuthorityMetadata) txm" where
  "metadata_tx tx s sid =
     tx_bind (checkWriter tx s) (\<lambda>_.
     tx_bind (active tx s sid) (\<lambda>r.
     tx_return \<lparr>am_SessionID = sr_ID r, am_Issuer = sr_Issuer r, am_Incarnation = sr_Incarnation r,
       am_LegacyTokensBefore = LegacyTokensBefore r, am_MediaTerm = MediaTerm r, am_RelayEpoch = RelayEpoch (Relay r),
       am_RequiredBuses = RequiredBuses r\<rparr>))"

definition Metadata :: "('t, AuthorityMetadata, 's) storage_call \<Rightarrow> 't Tx \<Rightarrow> Service \<Rightarrow> string \<Rightarrow> 's \<Rightarrow> (access_error + AuthorityMetadata) \<times> 's" where
  "Metadata view tx s sid st = returned (view (metadata_tx tx s sid) st)"

definition ready_tx :: "'t Tx \<Rightarrow> Service \<Rightarrow> ('t, unit) txm" where
  "ready_tx tx s =
     tx_bind (Tx_Namespace tx) (\<lambda>ns.
     if ns_SchemaVersion ns \<noteq> SchemaVersion then tx_fail ErrWriterFenced else checkWriter tx s)"

definition svc_Ready :: "('t, unit, 's) storage_call \<Rightarrow> 't Tx \<Rightarrow> Service \<Rightarrow> 's \<Rightarrow> (access_error + unit) \<times> 's" where
  "svc_Ready view tx s st = returned (view (ready_tx tx s) st)"

subsection \<open>Starting a service and resetting a restored store\<close>

text \<open>The namespace a starting service installs: it initializes an empty namespace, keeps its own, or takes over one whose
  lease has expired under the next term.\<close>

definition claim_namespace :: "Config \<Rightarrow> string \<Rightarrow> time \<Rightarrow> namespace_record \<Rightarrow> access_error + namespace_record" where
  "claim_namespace c fresh now ns0 =
     (let ns1 = (if ns_Incarnation ns0 = []
                 then \<lparr>ns_SchemaVersion = SchemaVersion, ns_Incarnation = fresh, ns_WriterTerm = 1, ns_WriterID = cfg_WriterID c,
                       LeaseExpiresAt = zero_time\<rparr>
                 else ns0);
          ns2 = (if ns_WriterID ns1 = []
                 then (if ns_WriterTerm ns1 = 0 then ns1\<lparr>ns_WriterID := cfg_WriterID c, ns_WriterTerm := 1\<rparr>
                       else ns1\<lparr>ns_WriterID := cfg_WriterID c\<rparr>)
                 else ns1)
      in if ns_WriterID ns2 \<noteq> cfg_WriterID c \<and> LeaseExpiresAt ns2 > now then Inl ErrWriterFenced
         else
           let ns3 = (if ns_WriterID ns2 \<noteq> cfg_WriterID c
                      then ns2\<lparr>ns_WriterTerm := ns_WriterTerm ns2 + 1, ns_WriterID := cfg_WriterID c\<rparr> else ns2)
           in Inr (ns3\<lparr>LeaseExpiresAt := now + WriterLeaseDuration c\<rparr>))"

definition start_tx :: "'t Tx \<Rightarrow> Config \<Rightarrow> bytes option \<Rightarrow> ('t, namespace_record) txm" where
  "start_tx tx c idDraw =
     tx_bind (Tx_Namespace tx) (\<lambda>ns.
     if ns_SchemaVersion ns > SchemaVersion then tx_fail ErrUnsupportedSchema
     else
       tx_bind (if ns_Incarnation ns = [] then tx_lift (randomSessionID idDraw) else tx_return []) (\<lambda>fresh.
       tx_bind (Tx_Now tx) (\<lambda>now.
       tx_bind (tx_lift (claim_namespace c fresh now ns)) (\<lambda>ns'.
       tx_bind (Tx_PutNamespace tx ns') (\<lambda>_.
       tx_bind (Tx_Sessions tx (MaxSessions c)) (\<lambda>rows.
       tx_bind (tx_each (\<lambda>r.
         if length (Buses (Relay r)) > 0 \<or> length (Subscriptions (Relay r)) > 0
         then Tx_PutSession tx (forget_observation r) else tx_return ()) rows) (\<lambda>_.
       tx_return ns')))))))"

definition NewService ::
  "('t, namespace_record, 's) storage_call \<Rightarrow> 't Tx \<Rightarrow> bytes \<Rightarrow> Config \<Rightarrow> bytes option \<Rightarrow> 's \<Rightarrow> (access_error + Service) \<times> 's" where
  "NewService update tx secret config idDraw st =
     (if length secret < 32 then (Inl ErrConfiguration, st)
      else
        let c = config_defaults config
        in if NamePolicy c \<noteq> AutoTwoThenThree \<and> fixedCount (NamePolicy c) = None then (Inl ErrConfiguration, st)
           else
             case returned (update (start_tx tx c idDraw) st) of
               (Inl e, st') \<Rightarrow> (Inl e, st')
             | (Inr ns, st') \<Rightarrow>
                 (Inr \<lparr>svc_secret = secret, svc_config = c, svc_term = ns_WriterTerm ns, svc_incarnation = ns_Incarnation ns\<rparr>, st'))"

definition reset_tx :: "'t Tx \<Rightarrow> int \<Rightarrow> bytes option \<Rightarrow> ('t, unit) txm" where
  "reset_tx tx maxSessions idDraw =
     tx_bind (Tx_Sessions tx maxSessions) (\<lambda>rows.
     tx_bind (tx_each (\<lambda>r. Tx_DeleteSession tx (sr_ID r)) rows) (\<lambda>_.
     tx_bind (tx_lift (randomSessionID idDraw)) (\<lambda>fresh.
     Tx_PutNamespace tx (zero_namespace\<lparr>ns_SchemaVersion := SchemaVersion, ns_Incarnation := fresh\<rparr>))))"

definition ResetRestoredStore :: "('t, unit, 's) storage_call \<Rightarrow> 't Tx \<Rightarrow> int \<Rightarrow> bytes option \<Rightarrow> 's \<Rightarrow> (access_error + unit) \<times> 's" where
  "ResetRestoredStore update tx maxSessions idDraw st = returned (update (reset_tx tx maxSessions idDraw) st)"

section \<open>The service on any adapter\<close>

text \<open>Every transaction of the service, run on an adapter, refines itself run on the abstract store.\<close>

context store_adapter
begin

lemma ref_checkWriter: "refines (checkWriter ops s) (\<lambda>m n. checkWriter (abstract_tx marshal m n) s)"
  unfolding checkWriter_def by (intro refines_rules refines_ops)

lemma ref_svc_update:
  "refines fn p \<Longrightarrow> refines (svc_update ops s fn) (\<lambda>m n. svc_update (abstract_tx marshal m n) s (p m n))"
  unfolding svc_update_def by (intro refines_rules refines_ops ref_checkWriter)

lemma ref_active: "refines (active ops s sid) (\<lambda>m n. active (abstract_tx marshal m n) s sid)"
  unfolding active_def by (intro refines_rules refines_ops)

lemma ref_create:
  "refines (create_tx ops lib s buses d1 d2) (\<lambda>m n. create_tx (abstract_tx marshal m n) lib s buses d1 d2)"
  unfolding create_tx_def by (intro refines_rules refines_ops)

lemma ref_get: "refines (get_tx ops s sid) (\<lambda>m n. get_tx (abstract_tx marshal m n) s sid)"
  unfolding get_tx_def by (intro refines_rules refines_ops ref_active)

lemma ref_delete: "refines (delete_tx ops s sid) (\<lambda>m n. delete_tx (abstract_tx marshal m n) s sid)"
  unfolding delete_tx_def by (intro refines_rules refines_ops ref_active)

lemma ref_authorize:
  "refines (authorize_tx ops lib s sid encoded) (\<lambda>m n. authorize_tx (abstract_tx marshal m n) lib s sid encoded)"
  unfolding authorize_tx_def by (intro refines_rules refines_ops ref_active ref_checkWriter)

lemma ref_issue:
  "refines (issue_tx ops lib s sid bus role d) (\<lambda>m n. issue_tx (abstract_tx marshal m n) lib s sid bus role d)"
  unfolding issue_tx_def by (intro refines_rules refines_ops ref_active)

lemma ref_renew:
  "refines (renew_tx ops lib s sid credential d) (\<lambda>m n. renew_tx (abstract_tx marshal m n) lib s sid credential d)"
  unfolding renew_tx_def by (intro refines_rules refines_ops ref_active)

lemma ref_apply: "refines (apply_tx ops s sid snapshot) (\<lambda>m n. apply_tx (abstract_tx marshal m n) s sid snapshot)"
  unfolding apply_tx_def by (intro refines_rules refines_ops ref_active)

lemma ref_acquire: "refines (acquire_tx ops s sid epoch e) (\<lambda>m n. acquire_tx (abstract_tx marshal m n) s sid epoch e)"
  unfolding acquire_tx_def by (intro refines_rules refines_ops ref_active)

lemma ref_metadata: "refines (metadata_tx ops s sid) (\<lambda>m n. metadata_tx (abstract_tx marshal m n) s sid)"
  unfolding metadata_tx_def by (intro refines_rules refines_ops ref_active ref_checkWriter)

lemma ref_ready: "refines (ready_tx ops s) (\<lambda>m n. ready_tx (abstract_tx marshal m n) s)"
  unfolding ready_tx_def by (intro refines_rules refines_ops ref_checkWriter)

lemma ref_start: "refines (start_tx ops c d) (\<lambda>m n. start_tx (abstract_tx marshal m n) c d)"
  unfolding start_tx_def by (intro refines_rules refines_ops)

lemma ref_reset: "refines (reset_tx ops limit d) (\<lambda>m n. reset_tx (abstract_tx marshal m n) limit d)"
  unfolding reset_tx_def by (intro refines_rules refines_ops)

lemmas refines_service = ref_create ref_get ref_delete ref_issue ref_renew ref_apply ref_acquire

end

end
