(* ===== verification/Word_Sets.thy ===== *)
theory Word_Sets
  imports Relay_Prelude
begin

unbundle bit_operations_syntax

text \<open>
  The bit sets of \<^verbatim>\<open>access/names/phrases.go\<close>: sixteen machine words that hold a subset of a vocabulary, with membership,
  counting and selection by rank.  \<^verbatim>\<open>OnesCount64\<close> and \<^verbatim>\<open>TrailingZeros64\<close> are those of \<^verbatim>\<open>math/bits\<close>.  Counts are
  naturals: a set has at most 1024 members, so the 64-bit counts of the source cannot wrap.
\<close>

type_synonym wordSet = "u64 list"

definition bitsetWords :: nat where "bitsetWords = (1023 + 63) div 64"

definition empty_set :: wordSet where "empty_set = replicate bitsetWords 0"

definition ws_add :: "wordSet \<Rightarrow> nat \<Rightarrow> wordSet" where
  "ws_add s i = s[i div 64 := s ! (i div 64) OR push_bit (i mod 64) 1]"

definition ws_has :: "wordSet \<Rightarrow> nat \<Rightarrow> bool" where
  "ws_has s i \<longleftrightarrow> s ! (i div 64) AND push_bit (i mod 64) 1 \<noteq> 0"

definition OnesCount64 :: "u64 \<Rightarrow> nat" where
  "OnesCount64 w = length (filter (bit w) [0..<64])"

definition TrailingZeros64 :: "u64 \<Rightarrow> nat" where
  "TrailingZeros64 w = length (takeWhile (\<lambda>i. \<not> bit w i) [0..<64])"

definition ws_count :: "wordSet \<Rightarrow> nat" where
  "ws_count s = fold (\<lambda>w n. n + OnesCount64 w) s 0"

fun clear_lowest :: "nat \<Rightarrow> u64 \<Rightarrow> u64" where
  "clear_lowest 0 w = w"
| "clear_lowest (Suc rank) w = clear_lowest rank (w AND (w - 1))"

fun ws_at_from :: "nat \<Rightarrow> wordSet \<Rightarrow> nat \<Rightarrow> int" where
  "ws_at_from slot [] rank = - 1"
| "ws_at_from slot (w # ws) rank =
     (if rank \<ge> OnesCount64 w then ws_at_from (Suc slot) ws (rank - OnesCount64 w)
      else int (slot * 64 + TrailingZeros64 (clear_lowest rank w)))"

definition ws_at :: "wordSet \<Rightarrow> nat \<Rightarrow> int" where
  "ws_at s rank = ws_at_from 0 s rank"

section \<open>The members of a machine word\<close>

definition word_elems :: "u64 \<Rightarrow> nat list" where
  "word_elems w = filter (bit w) [0..<64]"

lemma OnesCount64_elems: "OnesCount64 w = length (word_elems w)"
  by (simp add: OnesCount64_def word_elems_def)

lemma takeWhile_upt_hd:
  assumes "filter P [a..<b] = x # xs"
  shows "length (takeWhile (\<lambda>i. \<not> P i) [a..<b]) = x - a"
  using assms
proof (induction "b - a" arbitrary: a)
  case 0
  then show ?case by simp
next
  case (Suc n)
  then have ab: "a < b" by simp
  show ?case
  proof (cases "P a")
    case True
    then show ?thesis using Suc.prems ab by (simp add: upt_conv_Cons)
  next
    case False
    then have f: "filter P [Suc a..<b] = x # xs" using Suc.prems ab by (simp add: upt_conv_Cons)
    then have "x \<in> set (filter P [Suc a..<b])" by simp
    then have "Suc a \<le> x" by auto
    moreover have "length (takeWhile (\<lambda>i. \<not> P i) [Suc a..<b]) = x - Suc a" using Suc.hyps f by auto
    ultimately show ?thesis using False ab by (simp add: upt_conv_Cons)
  qed
qed

lemma TrailingZeros64_hd: "word_elems w \<noteq> [] \<Longrightarrow> TrailingZeros64 w = hd (word_elems w)"
  unfolding TrailingZeros64_def word_elems_def
  using takeWhile_upt_hd [of "bit w" 0 64] by (cases "filter (bit w) [0..<64]") auto

text \<open>Clearing the lowest set bit removes the least member.\<close>

lemma lowest_bit_decrement:
  fixes w :: u64
  assumes k: "bit w k" and low: "\<And>i. i < k \<Longrightarrow> \<not> bit w i"
  shows "bit (w AND (w - 1)) i \<longleftrightarrow> bit w i \<and> i \<noteq> k"
proof -
  have k64: "k < 64" using bit_imp_le_length [OF k] by simp
  define h where "h = w AND NOT (mask (Suc k))"
  have bh: "bit h j \<longleftrightarrow> bit w j \<and> k < j" for j
    using bit_imp_le_length [of w j] by (auto simp: h_def bit_simps)
  have disj: "h AND push_bit k 1 = 0"
    by (rule bit_eqI) (auto simp: bit_simps bh)
  have w: "w = h + push_bit k 1"
  proof -
    have "h OR push_bit k 1 = w"
    proof (rule bit_eqI)
      fix j assume "possible_bit TYPE(u64) j"
      then have "j < 64" by (simp add: possible_bit_word)
      then show "bit (h OR push_bit k 1) j = bit w j"
        using k low [of j] by (cases j k rule: linorder_cases) (auto simp: bit_simps bh)
    qed
    then show ?thesis using disjunctive_add_eq_or [OF disj] by simp
  qed
  have "w - 1 = h + mask k"
    by (simp add: w mask_eq_exp_minus_1 push_bit_eq_mult)
  moreover have "h AND mask k = 0"
    by (rule bit_eqI) (auto simp: bit_simps bh)
  ultimately have w1: "w - 1 = h OR mask k" by (simp add: disjunctive_add_eq_or)
  show ?thesis
  proof (cases "i < 64")
    case True
    then show ?thesis
      using k low [of i] by (cases i k rule: linorder_cases) (auto simp: w1 bit_simps bh)
  next
    case False
    then show ?thesis using bit_imp_le_length [of w i] by (auto simp: bit_simps)
  qed
qed

lemma filter_remove_hd:
  assumes "filter P xs = x # ys" and "distinct xs" and "\<And>i. i \<in> set xs \<Longrightarrow> Q i \<longleftrightarrow> P i \<and> i \<noteq> x"
  shows "filter Q xs = ys"
proof -
  have "filter Q xs = filter (\<lambda>i. i \<noteq> x) (filter P xs)"
    using assms(3) by (auto intro: filter_cong)
  also have "\<dots> = filter (\<lambda>i. i \<noteq> x) ys" by (simp add: assms(1))
  also have "\<dots> = ys"
  proof (rule filter_True)
    have "distinct (x # ys)" using assms(1,2) by (metis distinct_filter)
    then show "\<forall>i \<in> set ys. i \<noteq> x" by auto
  qed
  finally show ?thesis .
qed

lemma word_elems_clear:
  assumes "word_elems w = k # ks"
  shows "word_elems (w AND (w - 1)) = ks"
  unfolding word_elems_def
proof (rule filter_remove_hd)
  show "filter (bit w) [0..<64] = k # ks" using assms by (simp add: word_elems_def)
  show "distinct [0..<64::nat]" by simp
  have sorted: "sorted (k # ks)"
    using assms sorted_filter [of "\<lambda>x. x" "[0..<64]" "bit w"] by (simp add: word_elems_def)
  have set: "i \<in> set (k # ks) \<longleftrightarrow> i < 64 \<and> bit w i" for i
    unfolding assms [symmetric] by (auto simp: word_elems_def)
  have "bit w k" using set [of k] by simp
  moreover have "\<not> bit w i" if "i < k" for i
  proof
    assume "bit w i"
    then have "i \<in> set (k # ks)" using set bit_imp_le_length [of w i] by simp
    then show False using sorted that by auto
  qed
  ultimately show "bit (w AND (w - 1)) i = (bit w i \<and> i \<noteq> k)" for i by (rule lowest_bit_decrement)
qed

lemma clear_lowest_elems: "rank \<le> length (word_elems w) \<Longrightarrow> word_elems (clear_lowest rank w) = drop rank (word_elems w)"
proof (induction rank arbitrary: w)
  case 0
  then show ?case by simp
next
  case (Suc rank)
  then obtain k ks where "word_elems w = k # ks" by (cases "word_elems w") auto
  then show ?case using Suc word_elems_clear by simp
qed

section \<open>Selection by rank enumerates the members\<close>

lemma ws_has_bit: "ws_has s i \<longleftrightarrow> bit (s ! (i div 64)) (i mod 64)"
  by (simp add: ws_has_def push_bit_eq_mult and_exp_eq_0_iff_not_bit)

fun ws_elems_from :: "nat \<Rightarrow> wordSet \<Rightarrow> nat list" where
  "ws_elems_from slot [] = []"
| "ws_elems_from slot (w # ws) = map (\<lambda>i. slot * 64 + i) (word_elems w) @ ws_elems_from (Suc slot) ws"

lemma ws_at_from_elems:
  "rank < length (ws_elems_from slot s) \<Longrightarrow> ws_at_from slot s rank = int (ws_elems_from slot s ! rank)"
proof (induction s arbitrary: slot rank)
  case Nil
  then show ?case by simp
next
  case (Cons w ws)
  show ?case
  proof (cases "OnesCount64 w \<le> rank")
    case True
    then show ?thesis
      using Cons.IH [of "rank - OnesCount64 w" "Suc slot"] Cons.prems
      by (simp add: nth_append OnesCount64_elems)
  next
    case False
    then have r: "rank < length (word_elems w)" by (simp add: OnesCount64_elems)
    then have e: "word_elems (clear_lowest rank w) = drop rank (word_elems w)" by (simp add: clear_lowest_elems)
    then have "TrailingZeros64 (clear_lowest rank w) = word_elems w ! rank"
      using r TrailingZeros64_hd [of "clear_lowest rank w"] by (simp add: hd_drop_conv_nth)
    then show ?thesis using r False by (simp add: nth_append)
  qed
qed

text \<open>The members of a set in increasing order.\<close>

definition ws_elems :: "wordSet \<Rightarrow> nat list" where
  "ws_elems s = filter (ws_has s) [0..<64 * length s]"

lemma upt_blocks: "[a * 64..<(a + Suc n) * 64] = map (\<lambda>i. a * 64 + i) [0..<64] @ [Suc a * 64..<(Suc a + n) * 64]" for a n :: nat
proof -
  have "[a * 64..<(a + Suc n) * 64] = [a * 64..<a * 64 + 64] @ [a * 64 + 64..<a * 64 + 64 + n * 64]"
    by (subst upt_add_eq_append [symmetric]) (simp_all add: algebra_simps)
  moreover have "[a * 64..<a * 64 + 64] = map (\<lambda>i. a * 64 + i) [0..<64]"
    by (rule nth_equalityI) simp_all
  ultimately show ?thesis by (simp add: algebra_simps)
qed

lemma ws_elems_from_filter:
  "ws_elems_from slot s = filter (\<lambda>i. bit (s ! (i div 64 - slot)) (i mod 64)) [slot * 64..<(slot + length s) * 64]"
proof (induction s arbitrary: slot)
  case Nil
  then show ?case by simp
next
  case (Cons w ws)
  have "filter (\<lambda>i. bit ((w # ws) ! (i div 64 - slot)) (i mod 64)) (map (\<lambda>i. slot * 64 + i) [0..<64]) =
      map (\<lambda>i. slot * 64 + i) (word_elems w)"
  proof -
    have "filter ((\<lambda>i. bit ((w # ws) ! (i div 64 - slot)) (i mod 64)) \<circ> (\<lambda>i. slot * 64 + i)) [0..<64] = filter (bit w) [0..<64]"
      by (rule filter_cong) simp_all
    then show ?thesis by (simp only: filter_map word_elems_def)
  qed
  moreover have "filter (\<lambda>i. bit ((w # ws) ! (i div 64 - slot)) (i mod 64)) [Suc slot * 64..<(Suc slot + length ws) * 64] =
      filter (\<lambda>i. bit (ws ! (i div 64 - Suc slot)) (i mod 64)) [Suc slot * 64..<(Suc slot + length ws) * 64]"
  proof (rule filter_cong)
    fix i assume "i \<in> set [Suc slot * 64..<(Suc slot + length ws) * 64]"
    then have "Suc slot * 64 \<le> i" by simp
    from div_le_mono [OF this, of 64] have "Suc slot \<le> i div 64" by simp
    then have "i div 64 - slot = Suc (i div 64 - Suc slot)" by simp
    then show "bit ((w # ws) ! (i div 64 - slot)) (i mod 64) = bit (ws ! (i div 64 - Suc slot)) (i mod 64)" by simp
  qed simp
  ultimately show ?case
    using Cons.IH by (simp only: ws_elems_from.simps length_Cons upt_blocks filter_append)
qed

lemma ws_elems_eq: "ws_elems s = ws_elems_from 0 s"
  by (simp add: ws_elems_from_filter ws_elems_def ws_has_bit [abs_def] mult.commute)

lemma ws_count_elems: "ws_count s = length (ws_elems s)"
proof -
  have "fold (\<lambda>w n. n + OnesCount64 w) s n = n + length (ws_elems_from slot s)" for n slot
  proof (induction s arbitrary: n slot)
    case (Cons w ws)
    show ?case using Cons.IH [of "n + OnesCount64 w" "Suc slot"] by (simp add: OnesCount64_elems)
  qed simp
  from this [of 0 0] show ?thesis by (simp add: ws_count_def ws_elems_eq)
qed

lemma ws_at_elems: "rank < ws_count s \<Longrightarrow> ws_at s rank = int (ws_elems s ! rank)"
  by (simp add: ws_at_def ws_count_elems ws_elems_eq ws_at_from_elems)

lemma ws_elems_props: "distinct (ws_elems s)" "i \<in> set (ws_elems s) \<longleftrightarrow> i < 64 * length s \<and> ws_has s i"
  by (auto simp: ws_elems_def)

lemma ws_has_add:
  "\<lbrakk>i < 64 * length s; j < 64 * length s\<rbrakk> \<Longrightarrow> ws_has (ws_add s i) j \<longleftrightarrow> j = i \<or> ws_has s j"
proof -
  assume ij: "i < 64 * length s" "j < 64 * length s"
  then have "i div 64 < length s" "j div 64 < length s" by (simp_all add: less_mult_imp_div_less mult.commute)
  moreover have "j div 64 = i div 64 \<and> j mod 64 = i mod 64 \<longleftrightarrow> j = i" by (metis div_mult_mod_eq)
  ultimately show ?thesis
    by (cases "j div 64 = i div 64") (auto simp: ws_has_bit ws_add_def bit_simps)
qed

lemma length_ws_add [simp]: "length (ws_add s i) = length s"
  by (simp add: ws_add_def)

lemma ws_has_empty: "i < 1024 \<Longrightarrow> \<not> ws_has empty_set i"
  by (simp add: ws_has_bit empty_set_def bitsetWords_def less_mult_imp_div_less)

end
