(* ===== verification/Names.thy ===== *)
theory Names
  imports Word_Sets
begin

unbundle bit_operations_syntax

text \<open>
  Readable names of \<^verbatim>\<open>access/names\<close>: the phrase grammar built from an editorial lexicon, the enumeration of its two- and
  three-word phrases, the composed names of four to fifteen words, and the parsers.  The lexicon is an
  argument: the word tables are data of the package, and no property depends on their content beyond
  \<^verbatim>\<open>lexicon_ok\<close>.
\<close>

section \<open>Lexicon and strings\<close>

type_synonym word_family = "16 word"

definition allFamilies :: word_family where "allFamilies = 511"

record lexicon =
  lex_words :: "string list"
  nounGroups :: "(word_family \<times> string list) list"
  adjectiveGroups :: "(word_family \<times> string list) list"
  modifierGroups :: "(word_family \<times> string list) list"
  qualifierPairs :: "(string \<times> string) list"
  confusableGroups :: "string list list"
  disallowedPairs :: "(string \<times> string) list"
  specificAdjectiveHeads :: "(string \<times> string list) list"
  lex_tripleHeads :: "string list"
  lex_tripleAdjectives :: "string list"
  composedPalettes :: "(string list \<times> string list) list"
  legacyRoots :: "string list \<times> string list \<times> string list"
  legacyTails :: "string list \<times> string list \<times> string list"

datatype names_error = ErrWordCount | ErrCapacityOverflow | ErrName | ErrIndex | ErrNoRandomness

definition GrammarName :: string where "GrammarName = ''natural-phrases-1''"
definition previousGrammarName :: string where "previousGrammarName = ''natural-words-1''"
definition legacyGrammarName :: string where "legacyGrammarName = ''en-scene-v1''"
definition ComposedGrammarName :: string where "ComposedGrammarName = ''composed-phrases-1''"
definition MinWordCount :: nat where "MinWordCount = 2"
definition MaxWordCount :: nat where "MaxWordCount = 15"
definition MaxNameBytes :: nat where "MaxNameBytes = MaxWordCount * 8 + MaxWordCount - 1"
definition MaxPhraseBytes :: nat where "MaxPhraseBytes = 24"

record Name =
  Text :: string
  nm_GrammarName :: string
  nm_WordCount :: nat

text \<open>\<^verbatim>\<open>strings.Split(s, "-")\<close> and \<^verbatim>\<open>strings.Join(parts, "-")\<close>.\<close>

fun split_dash :: "string \<Rightarrow> string list" where
  "split_dash [] = [[]]"
| "split_dash (c # cs) =
     (if c = CHR ''-'' then [] # split_dash cs
      else case split_dash cs of [] \<Rightarrow> [[c]] | p # ps \<Rightarrow> (c # p) # ps)"

fun join_dash :: "string list \<Rightarrow> string" where
  "join_dash [] = []"
| "join_dash [p] = p"
| "join_dash (p # q # ps) = p @ ''-'' @ join_dash (q # ps)"

section \<open>The phrase grammar\<close>

record lexicalRole =
  noun :: word_family
  adjective :: word_family
  modifier :: word_family

record phraseGrammar =
  g_roles :: "lexicalRole list"
  g_compatible :: "wordSet list"
  g_adjectiveHeads :: "wordSet list"
  g_modifierHeads :: "wordSet list"
  g_qualifiers :: "(nat \<times> nat) list"
  g_tripleHeads :: wordSet
  g_tripleAdjectives :: wordSet
  g_lengthMasks :: "wordSet list"

text \<open>\<^verbatim>\<open>wordIndex\<close>: the position of a word; a word the table lacks reads as position 0.\<close>

definition wordIndex :: "lexicon \<Rightarrow> string \<Rightarrow> nat option" where
  "wordIndex lx w = map_of (rev (zip (lex_words lx) [0..<length (lex_words lx)])) w"

definition word_pos :: "lexicon \<Rightarrow> string \<Rightarrow> nat" where
  "word_pos lx w = (case wordIndex lx w of None \<Rightarrow> 0 | Some i \<Rightarrow> i)"

definition mark_roles ::
  "lexicon \<Rightarrow> (word_family \<Rightarrow> lexicalRole \<Rightarrow> lexicalRole) \<Rightarrow> (word_family \<times> string list) list \<Rightarrow> lexicalRole list \<Rightarrow> lexicalRole list" where
  "mark_roles lx mark = fold (\<lambda>(fam, ws). fold (\<lambda>w roles. roles[word_pos lx w := mark fam (roles ! word_pos lx w)]) ws)"

definition build_roles :: "lexicon \<Rightarrow> lexicalRole list" where
  "build_roles lx =
     (let r0 = replicate (length (lex_words lx)) \<lparr>noun = 0, adjective = 0, modifier = 0\<rparr>;
          r1 = mark_roles lx (\<lambda>fam r. r\<lparr>noun := noun r OR fam\<rparr>) (nounGroups lx) r0;
          r2 = mark_roles lx (\<lambda>fam r. r\<lparr>adjective := adjective r OR fam\<rparr>) (adjectiveGroups lx) r1
      in mark_roles lx (\<lambda>fam r. r\<lparr>modifier := modifier r OR fam\<rparr>) (modifierGroups lx) r2)"

definition blocked_pairs :: "lexicon \<Rightarrow> (nat \<times> nat) list" where
  "blocked_pairs lx =
     concat (map (\<lambda>group. [(word_pos lx a, word_pos lx b). a \<leftarrow> group, b \<leftarrow> group]) (confusableGroups lx)) @
     concat (map (\<lambda>(a, b). [(word_pos lx a, word_pos lx b), (word_pos lx b, word_pos lx a)]) (disallowedPairs lx))"

text \<open>One row of the double loop over the words: the set of second words that pass a test.\<close>

definition collect_words :: "lexicon \<Rightarrow> (nat \<Rightarrow> bool) \<Rightarrow> wordSet" where
  "collect_words lx P = fold (\<lambda>b s. if P b then ws_add s b else s) [0..<length (lex_words lx)] empty_set"

definition mark_words :: "lexicon \<Rightarrow> string list \<Rightarrow> wordSet \<Rightarrow> wordSet" where
  "mark_words lx ws s = fold (\<lambda>w s. ws_add s (word_pos lx w)) ws s"

definition buildPhraseGrammar :: "lexicon \<Rightarrow> phraseGrammar" where
  "buildPhraseGrammar lx =
     (let n = length (lex_words lx);
          roles = build_roles lx;
          blocked = blocked_pairs lx;
          ok = (\<lambda>a b. \<not> (a = b \<or> (a, b) \<in> set blocked));
          adjectiveHeads = map (\<lambda>a. collect_words lx (\<lambda>b. ok a b \<and> adjective (roles ! a) AND noun (roles ! b) \<noteq> 0)) [0..<n]
      in \<lparr>g_roles = fold (\<lambda>(adj, heads) roles. roles[word_pos lx adj := (roles ! word_pos lx adj)\<lparr>adjective := allFamilies\<rparr>])
            (specificAdjectiveHeads lx) roles,
          g_compatible = map (\<lambda>a. collect_words lx (ok a)) [0..<n],
          g_adjectiveHeads = fold (\<lambda>(adj, heads) hs. hs[word_pos lx adj := mark_words lx heads (hs ! word_pos lx adj)])
            (specificAdjectiveHeads lx) adjectiveHeads,
          g_modifierHeads = map (\<lambda>a. collect_words lx (\<lambda>b. ok a b \<and> modifier (roles ! a) AND noun (roles ! b) \<noteq> 0)) [0..<n],
          g_qualifiers = map (\<lambda>(a, b). (word_pos lx a, word_pos lx b)) (qualifierPairs lx),
          g_tripleHeads = mark_words lx (lex_tripleHeads lx) empty_set,
          g_tripleAdjectives = mark_words lx (lex_tripleAdjectives lx) empty_set,
          g_lengthMasks = map (\<lambda>limit. collect_words lx (\<lambda>i. length (lex_words lx ! i) \<le> limit)) [0..<MaxPhraseBytes + 1]\<rparr>)"

text \<open>\<^verbatim>\<open>heads\<close>: the words that complete a phrase, for a first word and, in a triple, a second one.\<close>

definition pattern_heads :: "phraseGrammar \<Rightarrow> nat \<Rightarrow> nat option \<Rightarrow> wordSet" where
  "pattern_heads g a b =
     (case b of
        None \<Rightarrow> map (\<lambda>i. (g_adjectiveHeads g ! a ! i OR g_modifierHeads g ! a ! i) AND g_compatible g ! a ! i) [0..<bitsetWords]
      | Some b \<Rightarrow>
          if adjective (g_roles g ! a) = 0 \<or> \<not> ws_has (g_compatible g ! a) b then empty_set
          else map (\<lambda>i.
            let o1 = (if ws_has (g_tripleAdjectives g) a then g_adjectiveHeads g ! a ! i AND g_modifierHeads g ! b ! i else 0);
                o2 = (if (a, b) \<in> set (g_qualifiers g) then o1 OR (g_adjectiveHeads g ! a ! i AND g_adjectiveHeads g ! b ! i) else o1)
            in o2 AND (g_compatible g ! a ! i AND g_compatible g ! b ! i AND g_tripleHeads g ! i)) [0..<bitsetWords])"

definition phrase_prefix :: "lexicon \<Rightarrow> nat \<Rightarrow> nat option \<Rightarrow> nat" where
  "phrase_prefix lx a b =
     length (lex_words lx ! a) + 1 + (case b of None \<Rightarrow> 0 | Some b \<Rightarrow> length (lex_words lx ! b) + 1)"

definition phrase_heads :: "lexicon \<Rightarrow> phraseGrammar \<Rightarrow> nat \<Rightarrow> nat option \<Rightarrow> wordSet" where
  "phrase_heads lx g a b =
     (let out = pattern_heads g a b
      in if phrase_prefix lx a b > MaxPhraseBytes then empty_set
         else map (\<lambda>i. out ! i AND g_lengthMasks g ! (MaxPhraseBytes - phrase_prefix lx a b) ! i) [0..<bitsetWords])"

definition admits :: "lexicon \<Rightarrow> phraseGrammar \<Rightarrow> string list \<Rightarrow> bool" where
  "admits lx g parts =
     (if list_ex (\<lambda>p. wordIndex lx p = None) parts then False
      else
        let ids = map (word_pos lx) parts;
            second = (if length parts = 3 then Some (ids ! 1) else None)
        in ws_has (phrase_heads lx g (ids ! 0) second) (ids ! (length parts - 1)))"

section \<open>Enumerating phrases\<close>

record phraseBlock =
  blk_first :: nat
  blk_second :: "nat option"
  blk_heads :: wordSet
  blk_end :: nat

text \<open>The blocks of the nonempty head sets, each with the running total of phrases up to it.\<close>

fun build_blocks :: "nat \<Rightarrow> (nat \<times> nat option \<times> wordSet) list \<Rightarrow> phraseBlock list" where
  "build_blocks acc [] = []"
| "build_blocks acc ((a, b, heads) # rest) =
     (if ws_count heads > 0
      then \<lparr>blk_first = a, blk_second = b, blk_heads = heads, blk_end = acc + ws_count heads\<rparr> #
           build_blocks (acc + ws_count heads) rest
      else build_blocks acc rest)"

definition pair_sets :: "lexicon \<Rightarrow> phraseGrammar \<Rightarrow> (nat \<times> nat option \<times> wordSet) list" where
  "pair_sets lx g = map (\<lambda>a. (a, None, phrase_heads lx g a None)) [0..<length (lex_words lx)]"

definition triple_sets :: "lexicon \<Rightarrow> phraseGrammar \<Rightarrow> (nat \<times> nat option \<times> wordSet) list" where
  "triple_sets lx g =
     concat (map (\<lambda>a. if adjective (g_roles g ! a) = 0 then []
       else map (\<lambda>b. (a, Some b, phrase_heads lx g a (Some b))) [0..<length (lex_words lx)]) [0..<length (lex_words lx)])"

definition phrase_blocks :: "lexicon \<Rightarrow> phraseGrammar \<Rightarrow> nat \<Rightarrow> phraseBlock list" where
  "phrase_blocks lx g wordCount =
     (if wordCount = 2 then build_blocks 0 (pair_sets lx g)
      else if wordCount = 3 then build_blocks 0 (triple_sets lx g) else [])"

definition phraseCapacity :: "lexicon \<Rightarrow> phraseGrammar \<Rightarrow> nat \<Rightarrow> nat" where
  "phraseCapacity lx g wordCount =
     (let blocks = phrase_blocks lx g wordCount
      in if length blocks = 0 then 0 else blk_end (blocks ! (length blocks - 1)))"

text \<open>\<^verbatim>\<open>sort.Search\<close>: binary search for the first index at which the predicate holds.\<close>

function search_from :: "(nat \<Rightarrow> bool) \<Rightarrow> nat \<Rightarrow> nat \<Rightarrow> nat" where
  "search_from f i j = (if i < j then let h = (i + j) div 2 in if \<not> f h then search_from f (h + 1) j else search_from f i h else i)"
  by pat_completeness auto
termination by (relation "measure (\<lambda>(f, i, j). j - i)") auto

declare search_from.simps [simp del]

definition sort_Search :: "nat \<Rightarrow> (nat \<Rightarrow> bool) \<Rightarrow> nat" where
  "sort_Search n f = search_from f 0 n"

definition phraseAt :: "lexicon \<Rightarrow> phraseGrammar \<Rightarrow> nat \<Rightarrow> nat \<Rightarrow> names_error + Name" where
  "phraseAt lx g index wordCount =
     (let capacity = phraseCapacity lx g wordCount
      in if capacity = 0 then Inl ErrWordCount
         else if index \<ge> capacity then Inl ErrIndex
         else
           let blocks = phrase_blocks lx g wordCount;
               i = sort_Search (length blocks) (\<lambda>i. blk_end (blocks ! i) > index);
               prior = (if i > 0 then blk_end (blocks ! (i - 1)) else 0);
               block = blocks ! i;
               head = nat (ws_at (blk_heads block) (index - prior));
               text = lex_words lx ! blk_first block @ ''-'' @
                 (case blk_second block of Some b \<Rightarrow> lex_words lx ! b @ ''-'' | None \<Rightarrow> []) @ lex_words lx ! head
           in Inr \<lparr>Text = text, nm_GrammarName = GrammarName, nm_WordCount = wordCount\<rparr>)"

section \<open>Composed names\<close>

definition group_pairs :: "lexicon \<Rightarrow> phraseGrammar \<Rightarrow> string list \<times> string list \<Rightarrow> string list" where
  "group_pairs lx g palette =
     [a @ ''-'' @ b. a \<leftarrow> fst palette, b \<leftarrow> snd palette, admits lx g [a, b]]"

definition group_triples :: "lexicon \<Rightarrow> phraseGrammar \<Rightarrow> string list \<times> string list \<Rightarrow> string list" where
  "group_triples lx g palette =
     [a @ ''-'' @ b @ ''-'' @ c. a \<leftarrow> fst palette, b \<leftarrow> fst palette, c \<leftarrow> snd palette, admits lx g [a, b, c]]"

text \<open>The pool of group \<^verbatim>\<open>i\<close> in a name of the given length: an odd name starts with a triple.\<close>

definition group_pool :: "lexicon \<Rightarrow> phraseGrammar \<Rightarrow> nat \<Rightarrow> nat \<Rightarrow> string list" where
  "group_pool lx g wordCount i =
     (if i = 0 \<and> wordCount mod 2 = 1 then group_triples lx g (composedPalettes lx ! i)
      else group_pairs lx g (composedPalettes lx ! i))"

definition CapacityBig :: "lexicon \<Rightarrow> phraseGrammar \<Rightarrow> nat \<Rightarrow> nat" where
  "CapacityBig lx g wordCount =
     (if wordCount < MinWordCount \<or> wordCount > MaxWordCount then 0
      else if wordCount \<le> 3 then phraseCapacity lx g wordCount
      else fold (\<lambda>i capacity. capacity * length (group_pool lx g wordCount i)) [0..<wordCount div 2] 1)"

definition CapacityUint64 :: "lexicon \<Rightarrow> phraseGrammar \<Rightarrow> nat \<Rightarrow> names_error + nat" where
  "CapacityUint64 lx g wordCount =
     (if wordCount < MinWordCount \<or> wordCount > MaxWordCount then Inl ErrWordCount
      else let n = CapacityBig lx g wordCount in if n \<ge> 2 ^ 64 then Inl ErrCapacityOverflow else Inr n)"

definition Capacity :: "lexicon \<Rightarrow> phraseGrammar \<Rightarrow> nat \<Rightarrow> nat" where
  "Capacity lx g wordCount = (case CapacityUint64 lx g wordCount of Inl _ \<Rightarrow> 0 | Inr n \<Rightarrow> n)"

text \<open>The digits of a rank, last group first.\<close>

fun rank_texts :: "(nat \<Rightarrow> string list) \<Rightarrow> nat \<Rightarrow> nat \<Rightarrow> string list" where
  "rank_texts pool 0 rank = []"
| "rank_texts pool (Suc i) rank = rank_texts pool i (rank div length (pool i)) @ [pool i ! (rank mod length (pool i))]"

definition AtBig :: "lexicon \<Rightarrow> phraseGrammar \<Rightarrow> int \<Rightarrow> nat \<Rightarrow> names_error + Name" where
  "AtBig lx g index wordCount =
     (let capacity = CapacityBig lx g wordCount
      in if capacity = 0 then Inl ErrWordCount
         else if index < 0 \<or> index \<ge> int capacity then Inl ErrIndex
         else if wordCount \<le> 3 then phraseAt lx g (nat index) wordCount
         else Inr \<lparr>Text = join_dash (rank_texts (group_pool lx g wordCount) (wordCount div 2) (nat index)),
                   nm_GrammarName = ComposedGrammarName, nm_WordCount = wordCount\<rparr>)"

text \<open>\<^verbatim>\<open>rand.Int\<close> draws a uniform number below its bound; the draw is an argument, absent on a read error.\<close>

definition Generate :: "lexicon \<Rightarrow> phraseGrammar \<Rightarrow> (nat \<Rightarrow> nat option) \<Rightarrow> nat \<Rightarrow> names_error + Name" where
  "Generate lx g draw wordCount =
     (let capacity = CapacityBig lx g wordCount
      in if capacity = 0 then Inl ErrWordCount
         else
           case draw capacity of
             None \<Rightarrow> Inl ErrNoRandomness
           | Some index \<Rightarrow> AtBig lx g (int index) wordCount)"

definition names_At :: "lexicon \<Rightarrow> phraseGrammar \<Rightarrow> u64 \<Rightarrow> nat \<Rightarrow> names_error + Name" where
  "names_At lx g index wordCount = AtBig lx g (uint index) wordCount"

section \<open>Parsing\<close>

text \<open>\<^verbatim>\<open>strings.ToLower(strings.TrimSpace(text))\<close>: on ASCII text as written; text with other bytes goes through the
  Unicode tables, an argument.\<close>

definition ascii_space :: "char \<Rightarrow> bool" where
  "ascii_space c \<longleftrightarrow> of_char c \<in> {9, 10, 11, 12, 13, 32 :: nat}"

definition ascii_lower :: "char \<Rightarrow> char" where
  "ascii_lower c = (if 65 \<le> (of_char c :: nat) \<and> (of_char c :: nat) \<le> 90 then char_of ((of_char c :: nat) + 32) else c)"

definition lower_trim :: "(string \<Rightarrow> string) \<Rightarrow> string \<Rightarrow> string" where
  "lower_trim unicode text =
     (if list_all (\<lambda>c. (of_char c :: nat) < 128) text
      then map ascii_lower (rev (dropWhile ascii_space (rev (dropWhile ascii_space text))))
      else unicode text)"

definition lower_letter :: "char \<Rightarrow> bool" where
  "lower_letter c \<longleftrightarrow> CHR ''a'' \<le> c \<and> c \<le> CHR ''z''"

definition Normalize :: "(string \<Rightarrow> string) \<Rightarrow> string \<Rightarrow> names_error + string" where
  "Normalize unicode text =
     (if length text > MaxNameBytes then Inl ErrName
      else
        let result = lower_trim unicode text;
            ws = split_dash result
        in if length ws < MinWordCount \<or> length ws > MaxWordCount then Inl ErrName
           else if list_ex (\<lambda>w. length w < 3 \<or> length w > 24 \<or> list_ex (\<lambda>c. \<not> lower_letter c) w) ws then Inl ErrName
           else Inr result)"

text \<open>The loop over the groups, from word offset \<^verbatim>\<open>off\<close> on.\<close>

definition group_width :: "nat \<Rightarrow> nat \<Rightarrow> nat" where
  "group_width wordCount i = (if i = 0 \<and> wordCount mod 2 = 1 then 3 else 2)"

fun compose_loop :: "lexicon \<Rightarrow> phraseGrammar \<Rightarrow> string list \<Rightarrow> nat list \<Rightarrow> nat \<Rightarrow> nat option" where
  "compose_loop lx g parts [] off = Some off"
| "compose_loop lx g parts (i # is') off =
     (let width = group_width (length parts) i
      in if join_dash (take width (drop off parts)) \<in> set (group_pool lx g (length parts) i)
         then compose_loop lx g parts is' (off + width) else None)"

definition parseComposed :: "lexicon \<Rightarrow> phraseGrammar \<Rightarrow> string list \<Rightarrow> bool" where
  "parseComposed lx g parts =
     (if length parts < 4 \<or> length parts > MaxWordCount then False
      else compose_loop lx g parts [0..<length parts div 2] 0 = Some (length parts))"

definition has_prefix :: "string \<Rightarrow> string \<Rightarrow> bool" where
  "has_prefix s p \<longleftrightarrow> take (length p) s = p"

definition legacyWord :: "string \<Rightarrow> string list \<Rightarrow> string list \<Rightarrow> bool" where
  "legacyWord word roots tails = list_ex (\<lambda>root. has_prefix word root \<and> list_ex (\<lambda>t. t = drop (length root) word) tails) roots"

definition previous_words :: "lexicon \<Rightarrow> string list \<Rightarrow> bool" where
  "previous_words lx parts =
     (if length parts = 2 \<or> length parts = 3
      then \<not> list_ex (\<lambda>i. wordIndex lx (parts ! i) = None \<or> parts ! i \<in> set (take i parts)) [0..<length parts]
      else False)"

definition legacy_words :: "lexicon \<Rightarrow> string list \<Rightarrow> bool" where
  "legacy_words lx parts \<longleftrightarrow>
     (length parts = 2 \<or> length parts = 3) \<and>
     legacyWord (parts ! 0) (fst (legacyRoots lx)) (fst (legacyTails lx)) \<and>
     legacyWord (parts ! 1) (fst (snd (legacyRoots lx))) (fst (snd (legacyTails lx))) \<and>
     (length parts = 2 \<or> legacyWord (parts ! 2) (snd (snd (legacyRoots lx))) (snd (snd (legacyTails lx))))"

definition ParseStored :: "lexicon \<Rightarrow> phraseGrammar \<Rightarrow> (string \<Rightarrow> string) \<Rightarrow> string \<Rightarrow> string \<Rightarrow> names_error + Name" where
  "ParseStored lx g unicode grammar text =
     (case Normalize unicode text of
        Inl e \<Rightarrow> Inl e
      | Inr result \<Rightarrow>
          let parts = split_dash result;
              valid = (if grammar = GrammarName then (length parts = 2 \<or> length parts = 3) \<and> admits lx g parts
                       else if grammar = ComposedGrammarName then parseComposed lx g parts
                       else if grammar = previousGrammarName then previous_words lx parts
                       else if grammar = legacyGrammarName then legacy_words lx parts
                       else False)
          in if \<not> valid then Inl ErrName
             else Inr \<lparr>Text = result, nm_GrammarName = grammar, nm_WordCount = length parts\<rparr>)"

fun parse_first :: "(string \<Rightarrow> names_error + Name) \<Rightarrow> string list \<Rightarrow> names_error + Name" where
  "parse_first parse [] = Inl ErrName"
| "parse_first parse (grammar # rest) = (case parse grammar of Inr name \<Rightarrow> Inr name | Inl _ \<Rightarrow> parse_first parse rest)"

definition names_Parse :: "lexicon \<Rightarrow> phraseGrammar \<Rightarrow> (string \<Rightarrow> string) \<Rightarrow> string \<Rightarrow> names_error + Name" where
  "names_Parse lx g unicode text =
     parse_first (\<lambda>grammar. ParseStored lx g unicode grammar text)
       [GrammarName, ComposedGrammarName, previousGrammarName, legacyGrammarName]"

end
