(* ===== verification/Invitation.thy ===== *)
theory Invitation
  imports Access_Service Names
begin

text \<open>
  Invitations of \<^verbatim>\<open>access/invitation.go\<close>: allocation of a readable name with a retry budget, inspection, and redemption
  with retry receipts.  Digests, the response encoder, \<^verbatim>\<open>uuid.Parse\<close> and Unicode folding are arguments; the
  draws of one attempt are its name rank and the random bytes of its two identifiers.
\<close>

section \<open>Types\<close>

definition invitationTTL :: duration where "invitationTTL = 15 * minute"

definition InvitationVisibilityPublic :: string where "InvitationVisibilityPublic = ''public''"
definition InvitationVisibilityPrivate :: string where "InvitationVisibilityPrivate = ''private''"

record InvitationOptions =
  io_Visibility :: string
  io_WordCount :: int

record Invitation =
  inv_WordCount :: nat
  Code :: string
  inv_Alias :: string
  inv_Visibility :: string
  inv_ExpiresAt :: time

record InvitationMetadata =
  im_WordCount :: int
  im_Alias :: string
  im_Visibility :: string
  im_ExpiresAt :: time

record ResolvedInvitation =
  ri_SessionID :: string
  ri_BusID :: string
  ri_SubscriberToken :: string

record allocation_draw =
  name_draw :: "nat \<Rightarrow> nat option"
  code_draw :: "bytes option"
  grant_draw :: "bytes option"

section \<open>Creating an invitation\<close>

definition requested_words :: "InvitationOptions \<Rightarrow> access_error + int" where
  "requested_words options =
     (let words = (if io_Visibility options = [] then Inr 0
                   else if io_Visibility options = InvitationVisibilityPublic then Inr 2
                   else if io_Visibility options = InvitationVisibilityPrivate then Inr 3
                   else Inl ErrInvalidInvitationVisibility)
      in case words of
           Inl e \<Rightarrow> Inl e
         | Inr w \<Rightarrow>
             if io_WordCount options \<noteq> 0
             then if io_WordCount options < int MinWordCount \<or> io_WordCount options > int MaxWordCount \<or> w \<noteq> 0
                  then Inl ErrInvalidWordCount else Inr (io_WordCount options)
             else Inr w)"

definition invitation_policy :: "Config \<Rightarrow> int \<Rightarrow> string" where
  "invitation_policy c words =
     (if words \<noteq> 0 then (case FixedNamePolicy words of Inr p \<Rightarrow> p | Inl _ \<Rightarrow> []) else NamePolicy c)"

definition busReady :: "Service \<Rightarrow> SessionRecord \<Rightarrow> string \<Rightarrow> time \<Rightarrow> bool" where
  "busReady s r bus now =
     (if sr_WriterTerm r \<noteq> svc_term s \<or> time_Sub now (ObservedAt (Relay r)) > ObservationTTL (svc_config s) then False
      else if bus = ''mix'' then Ready (session_State r)
      else if \<not> contains (RequiredBuses r) bus then False
      else case find (\<lambda>b. bs_BusID b = bus) (Buses (Relay r)) of Some b \<Rightarrow> SourceActive b | None \<Rightarrow> False)"

definition attempt_words :: "string \<Rightarrow> nat \<Rightarrow> nat" where
  "attempt_words policy shortCollisions =
     (case fixedCount policy of Some fixed \<Rightarrow> fixed | None \<Rightarrow> if shortCollisions \<ge> 8 then 3 else 2)"

definition attempt_visibility :: "nat \<Rightarrow> string" where
  "attempt_visibility words = (if words \<ge> 3 then InvitationVisibilityPrivate else InvitationVisibilityPublic)"

definition names_lift :: "names_error + 'a \<Rightarrow> access_error + 'a" where
  "names_lift r = (case r of Inl _ \<Rightarrow> Inl ErrNameGeneration | Inr a \<Rightarrow> Inr a)"

definition invitation_expiry :: "SessionRecord \<Rightarrow> time \<Rightarrow> time" where
  "invitation_expiry r now = (if sr_ExpiresAt r < now + invitationTTL then sr_ExpiresAt r else now + invitationTTL)"

definition new_grant :: "SessionRecord \<Rightarrow> string \<Rightarrow> string \<Rightarrow> nat \<Rightarrow> Name \<Rightarrow> string \<Rightarrow> string \<Rightarrow> time \<Rightarrow> GrantRecord" where
  "new_grant r sid bus words name code grantID now =
     \<lparr>gr_SchemaVersion = SchemaVersion, gr_ID = grantID, JoinCode = code, Alias = Text name, gr_GrammarName = nm_GrammarName name,
      WordCount = int words, Visibility = attempt_visibility words, gr_SessionID = sid, gr_BusID = bus, gr_CreatedAt = now,
      gr_ExpiresAt = invitation_expiry r now\<rparr>"

text \<open>A name another grant holds counts as a short collision when it has two words.\<close>

definition collision :: "nat \<Rightarrow> 'a option \<Rightarrow> nat \<Rightarrow> nat" where
  "collision words occupied shortCollisions =
     (if occupied \<noteq> None \<and> words = 2 then shortCollisions + 1 else shortCollisions)"

text \<open>The allocation loop, one element of the list per attempt.\<close>

fun allocate ::
  "'t Tx \<Rightarrow> lexicon \<Rightarrow> string \<Rightarrow> SessionRecord \<Rightarrow> string \<Rightarrow> string \<Rightarrow> allocation_draw list \<Rightarrow> nat \<Rightarrow> ('t, Invitation) txm" where
  "allocate tx lx policy r sid bus [] shortCollisions = tx_fail ErrNameAllocationUnavailable"
| "allocate tx lx policy r sid bus (d # ds) shortCollisions =
     tx_bind (tx_lift (names_lift (Generate lx (buildPhraseGrammar lx) (name_draw d) (attempt_words policy shortCollisions)))) (\<lambda>name.
     tx_bind (Tx_Grant tx (Text name)) (\<lambda>occupied.
     if occupied \<noteq> None
     then allocate tx lx policy r sid bus ds (collision (attempt_words policy shortCollisions) occupied shortCollisions)
     else
       tx_bind (tx_lift (randomSessionID (code_draw d))) (\<lambda>code.
       tx_bind (tx_lift (randomSessionID (grant_draw d))) (\<lambda>grantID.
       tx_bind (Tx_Now tx) (\<lambda>now.
       tx_bind (tx_catch
           (tx_bind (Tx_PutGrant tx (new_grant r sid bus (attempt_words policy shortCollisions) name code grantID now)) (\<lambda>_. tx_return True))
           ErrConflict (tx_return False)) (\<lambda>stored.
       if stored
       then tx_return \<lparr>inv_WordCount = attempt_words policy shortCollisions, Code = code, inv_Alias = Text name,
              inv_Visibility = attempt_visibility (attempt_words policy shortCollisions), inv_ExpiresAt = invitation_expiry r now\<rparr>
       else
         tx_bind (Tx_Grant tx (Text name)) (\<lambda>occupied.
         allocate tx lx policy r sid bus ds (collision (attempt_words policy shortCollisions) occupied shortCollisions))))))))"

definition invite_tx ::
  "'t Tx \<Rightarrow> lexicon \<Rightarrow> Service \<Rightarrow> string \<Rightarrow> string \<Rightarrow> string \<Rightarrow> (nat \<Rightarrow> allocation_draw) \<Rightarrow> ('t, Invitation) txm" where
  "invite_tx tx lx s policy sid bus draws =
     tx_bind (tx_catch (active tx s sid) ErrNoRows (tx_fail ErrNotExist)) (\<lambda>r.
     tx_bind (Tx_Now tx) (\<lambda>now.
     if \<not> busReady s r bus now then tx_fail ErrSessionNotReady
     else
       tx_bind (Tx_Counts tx) (\<lambda>counts.
       if int (GrantCount counts) \<ge> MaxInvitations (svc_config s) then tx_fail ErrInvitationCapacity
       else allocate tx lx policy r sid bus (map draws [0..<32]) 0)))"

definition CreateInvitationWithOptionsContext ::
  "('t, Invitation, 's) storage_call \<Rightarrow> 't Tx \<Rightarrow> lexicon \<Rightarrow> Service \<Rightarrow> string \<Rightarrow> string \<Rightarrow> InvitationOptions \<Rightarrow>
     (nat \<Rightarrow> allocation_draw) \<Rightarrow> 's \<Rightarrow> (access_error + Invitation) \<times> 's" where
  "CreateInvitationWithOptionsContext update tx lx s sid bus options draws st =
     (case requested_words options of
        Inl e \<Rightarrow> (Inl e, st)
      | Inr words \<Rightarrow>
          returned (update (svc_update tx s (invite_tx tx lx s (invitation_policy (svc_config s) words) sid bus draws)) st))"

definition CreateInvitationContext ::
  "('t, Invitation, 's) storage_call \<Rightarrow> 't Tx \<Rightarrow> lexicon \<Rightarrow> Service \<Rightarrow> string \<Rightarrow> string \<Rightarrow> string \<Rightarrow>
     (nat \<Rightarrow> allocation_draw) \<Rightarrow> 's \<Rightarrow> (access_error + Invitation) \<times> 's" where
  "CreateInvitationContext update tx lx s sid bus visibility =
     CreateInvitationWithOptionsContext update tx lx s sid bus \<lparr>io_Visibility = visibility, io_WordCount = 0\<rparr>"

section \<open>Inspecting an invitation\<close>

definition inspect_tx :: "'t Tx \<Rightarrow> lexicon \<Rightarrow> (string \<Rightarrow> string) \<Rightarrow> Service \<Rightarrow> string \<Rightarrow> ('t, InvitationMetadata) txm" where
  "inspect_tx tx lx unicode s locator =
     tx_bind (checkWriter tx s) (\<lambda>_.
     tx_bind (Tx_Grant tx locator) (\<lambda>found.
     tx_bind (Tx_Now tx) (\<lambda>now.
     case found of
       None \<Rightarrow> tx_fail ErrNotExist
     | Some r \<Rightarrow>
         if \<not> gr_ExpiresAt r > now then tx_fail ErrNotExist
         else
           tx_bind (tx_catch (active tx s (gr_SessionID r)) ErrNoRows (tx_fail ErrNotExist)) (\<lambda>_.
           case ParseStored lx (buildPhraseGrammar lx) unicode (gr_GrammarName r) (Alias r) of
             Inl _ \<Rightarrow> tx_fail ErrStoredName
           | Inr _ \<Rightarrow> tx_return \<lparr>im_WordCount = WordCount r, im_Alias = Alias r, im_Visibility = Visibility r,
               im_ExpiresAt = gr_ExpiresAt r\<rparr>))))"

definition InspectInvitationContext ::
  "('t, InvitationMetadata, 's) storage_call \<Rightarrow> 't Tx \<Rightarrow> lexicon \<Rightarrow> (string \<Rightarrow> string) \<Rightarrow> Service \<Rightarrow> string \<Rightarrow> 's \<Rightarrow>
     (access_error + InvitationMetadata) \<times> 's" where
  "InspectInvitationContext view tx lx unicode s locator st =
     (if locator = [] \<or> length locator > MaxNameBytes then (Inl ErrNotExist, st)
      else returned (view (inspect_tx tx lx unicode s locator) st))"

section \<open>Redemption\<close>

text \<open>What redemption takes from other packages: \<^verbatim>\<open>sha256.Sum256\<close>, \<^verbatim>\<open>hmac.New(sha256.New, secret)\<close>, \<^verbatim>\<open>uuid.Parse\<close>.\<close>

record redeem_library =
  Sum256 :: "string \<Rightarrow> bytes"
  hmac_Sum :: "bytes \<Rightarrow> string \<Rightarrow> bytes"
  uuid_Parse_ok :: "string \<Rightarrow> bool"
  unicode_fold :: "string \<Rightarrow> string"

definition validOpaqueInvitationCode :: "redeem_library \<Rightarrow> string \<Rightarrow> bool" where
  "validOpaqueInvitationCode rl v =
     (if length v \<noteq> 36 then False else uuid_Parse_ok rl v \<and> count_list v (CHR ''-'') = 4)"

definition request_digest :: "redeem_library \<Rightarrow> string \<Rightarrow> bytes" where
  "request_digest rl locator = Sum256 rl (''redeem'' @ [CHR 0x00] @ locator)"

definition credential_digest :: "redeem_library \<Rightarrow> Service \<Rightarrow> string \<Rightarrow> bytes" where
  "credential_digest rl s code = hmac_Sum rl (svc_secret s) (''join'' @ [CHR 0x00] @ code)"

definition receipt_key :: "redeem_library \<Rightarrow> string \<Rightarrow> string" where
  "receipt_key rl key = hex_EncodeToString (Sum256 rl (''redeem'' @ [CHR 0x00] @ key))"

text \<open>A retry is answered from its receipt only for the same request and credential.\<close>

definition replay_tx ::
  "'t Tx \<Rightarrow> redeem_library \<Rightarrow> Service \<Rightarrow> string \<Rightarrow> string \<Rightarrow> Receipt \<Rightarrow> ('t, bytes \<times> ResolvedInvitation option) txm" where
  "replay_tx tx rl s locator code receipt =
     (if Operation receipt \<noteq> ''redeem'' \<or> RequestDigest receipt \<noteq> request_digest rl locator \<or>
         CredentialDigest receipt \<noteq> credential_digest rl s code
      then tx_fail ErrRetryConflict
      else
        tx_bind (Tx_Now tx) (\<lambda>now.
        if \<not> rc_ExpiresAt receipt > now then tx_fail ErrNotExist
        else
          tx_bind (tx_catch (active tx s (rc_SessionID receipt)) ErrNoRows (tx_fail ErrNotExist)) (\<lambda>_.
          tx_return (Response receipt, None))))"

definition receipt_expiry :: "Config \<Rightarrow> GrantRecord \<Rightarrow> SessionRecord \<Rightarrow> time \<Rightarrow> time" where
  "receipt_expiry c grant session now =
     fold (\<lambda>bound expires. if bound < expires then bound else expires)
       [gr_ExpiresAt grant, sr_ExpiresAt session, time_Truncate_second (now + SubscriberTokenTTL c)] (now + ReceiptTTL c)"

definition new_receipt :: "redeem_library \<Rightarrow> Service \<Rightarrow> GrantRecord \<Rightarrow> SessionRecord \<Rightarrow> string \<Rightarrow> string \<Rightarrow> string \<Rightarrow> bytes \<Rightarrow> time \<Rightarrow> Receipt" where
  "new_receipt rl s grant session locator code key response now =
     \<lparr>rc_SchemaVersion = SchemaVersion, Key = receipt_key rl key, Operation = ''redeem'', rc_SessionID = gr_SessionID grant,
      RequestDigest = request_digest rl locator, CredentialDigest = credential_digest rl s code, Response = response,
      StatusCode = 200, rc_CreatedAt = now, rc_ExpiresAt = receipt_expiry (svc_config s) grant session now\<rparr>"

definition consume_tx ::
  "'t Tx \<Rightarrow> lexicon \<Rightarrow> jwt_library \<Rightarrow> redeem_library \<Rightarrow> (ResolvedInvitation \<Rightarrow> access_error + bytes) \<Rightarrow> Service \<Rightarrow>
     string \<Rightarrow> string \<Rightarrow> string \<Rightarrow> bytes option \<Rightarrow> ('t, bytes \<times> ResolvedInvitation option) txm" where
  "consume_tx tx lx lib rl encode s locator code key jtiDraw =
     tx_bind (Tx_Grant tx locator) (\<lambda>found.
     tx_bind (Tx_Now tx) (\<lambda>now.
     case found of
       None \<Rightarrow> tx_fail ErrNotExist
     | Some grant \<Rightarrow>
         if \<not> gr_ExpiresAt grant > now \<or> JoinCode grant \<noteq> code then tx_fail ErrNotExist
         else
           case ParseStored lx (buildPhraseGrammar lx) (unicode_fold rl) (gr_GrammarName grant) (Alias grant) of
             Inl _ \<Rightarrow> tx_fail ErrStoredName
           | Inr _ \<Rightarrow>
               tx_bind (tx_catch (active tx s (gr_SessionID grant)) ErrNoRows (tx_fail ErrNotExist)) (\<lambda>session.
               tx_bind (if key \<noteq> [] then Tx_Counts tx
                        else tx_return \<lparr>SessionCount = 0, GrantCount = 0, ReceiptCount = 0\<rparr>) (\<lambda>counts.
               if key \<noteq> [] \<and> int (ReceiptCount counts) \<ge> MaxReceipts (svc_config s) then tx_fail ErrReceiptCapacity
               else
                 tx_bind (tx_lift (svc_sign lib s session
                     (new_claims (gr_SessionID grant) RoleSubscriber (gr_BusID grant) [] False)
                     (SubscriberTokenTTL (svc_config s)) now jtiDraw)) (\<lambda>credential.
                 tx_bind (tx_lift (encode \<lparr>ri_SessionID = gr_SessionID grant, ri_BusID = gr_BusID grant, ri_SubscriberToken = credential\<rparr>)) (\<lambda>result.
                 if length result > 16384 then tx_fail ErrCapacity
                 else
                   tx_bind (if key \<noteq> [] then Tx_PutReceipt tx (new_receipt rl s grant session locator code key result now)
                            else tx_return ()) (\<lambda>_.
                   tx_bind (Tx_DeleteGrant tx (gr_ID grant)) (\<lambda>_.
                   tx_return (result, Some \<lparr>ri_SessionID = gr_SessionID grant, ri_BusID = gr_BusID grant,
                     ri_SubscriberToken = credential\<rparr>)))))))))"

definition redeem_tx ::
  "'t Tx \<Rightarrow> lexicon \<Rightarrow> jwt_library \<Rightarrow> redeem_library \<Rightarrow> (ResolvedInvitation \<Rightarrow> access_error + bytes) \<Rightarrow> Service \<Rightarrow>
     string \<Rightarrow> string \<Rightarrow> string \<Rightarrow> bytes option \<Rightarrow> ('t, bytes \<times> ResolvedInvitation option) txm" where
  "redeem_tx tx lx lib rl encode s locator code key jtiDraw =
     tx_bind (if key \<noteq> [] then Tx_Receipt tx (receipt_key rl key) else tx_return None) (\<lambda>receipt.
     case receipt of
       Some r \<Rightarrow> replay_tx tx rl s locator code r
     | None \<Rightarrow> consume_tx tx lx lib rl encode s locator code key jtiDraw)"

text \<open>A bare join code may stand as its own locator.\<close>

definition effective_code :: "redeem_library \<Rightarrow> string \<Rightarrow> string \<Rightarrow> string" where
  "effective_code rl locator code = (if code = [] \<and> validOpaqueInvitationCode rl locator then locator else code)"

definition redeem ::
  "('t, bytes \<times> ResolvedInvitation option, 's) storage_call \<Rightarrow> 't Tx \<Rightarrow> lexicon \<Rightarrow> jwt_library \<Rightarrow> redeem_library \<Rightarrow>
     (ResolvedInvitation \<Rightarrow> access_error + bytes) \<Rightarrow> Service \<Rightarrow> string \<Rightarrow> string \<Rightarrow> string \<Rightarrow> bytes option \<Rightarrow> 's \<Rightarrow>
     (access_error + bytes \<times> ResolvedInvitation option) \<times> 's" where
  "redeem update tx lx lib rl encode s locator code0 key jtiDraw st =
     (let code = effective_code rl locator code0
      in if \<not> validOpaqueInvitationCode rl code \<or> length locator > MaxNameBytes \<or> locator = [] then (Inl ErrNotExist, st)
         else if key \<noteq> [] \<and> (length key < 16 \<or> length key > 128 \<or> \<not> validIdentifier key 128) then (Inl ErrRetryConflict, st)
         else returned (update (svc_update tx s (redeem_tx tx lx lib rl encode s locator code key jtiDraw)) st))"

definition ResolveInvitationContext ::
  "('t, bytes \<times> ResolvedInvitation option, 's) storage_call \<Rightarrow> 't Tx \<Rightarrow> lexicon \<Rightarrow> jwt_library \<Rightarrow> redeem_library \<Rightarrow>
     (ResolvedInvitation \<Rightarrow> access_error + bytes) \<Rightarrow> Service \<Rightarrow> string \<Rightarrow> string \<Rightarrow> bytes option \<Rightarrow> 's \<Rightarrow>
     (access_error + ResolvedInvitation) \<times> 's" where
  "ResolveInvitationContext update tx lx lib rl marshal s locator code jtiDraw st =
     (case redeem update tx lx lib rl marshal s locator code [] jtiDraw st of
        (Inl e, st') \<Rightarrow> (Inl e, st')
      | (Inr (_, captured), st') \<Rightarrow>
          (Inr (case captured of Some r \<Rightarrow> r | None \<Rightarrow> \<lparr>ri_SessionID = [], ri_BusID = [], ri_SubscriberToken = []\<rparr>), st'))"

section \<open>The invitation transactions on any adapter\<close>

context store_adapter
begin

lemma ref_allocate:
  "refines (allocate ops lx policy r sid bus ds c) (\<lambda>m n. allocate (abstract_tx marshal m n) lx policy r sid bus ds c)"
proof (induction ds arbitrary: c)
  case Nil
  show ?case unfolding allocate.simps by (intro refines_rules)
next
  case (Cons d ds)
  show ?case unfolding allocate.simps by (intro refines_rules refines_ops Cons.IH)
qed

lemma ref_invite:
  "refines (invite_tx ops lx s policy sid bus draws) (\<lambda>m n. invite_tx (abstract_tx marshal m n) lx s policy sid bus draws)"
  unfolding invite_tx_def by (intro refines_rules refines_ops ref_active ref_allocate)

lemma ref_inspect:
  "refines (inspect_tx ops lx unicode s locator) (\<lambda>m n. inspect_tx (abstract_tx marshal m n) lx unicode s locator)"
  unfolding inspect_tx_def by (intro refines_rules refines_case_sum refines_ops ref_active ref_checkWriter)

lemma ref_redeem:
  "refines (redeem_tx ops lx lib rl encode s locator code key d)
     (\<lambda>m n. redeem_tx (abstract_tx marshal m n) lx lib rl encode s locator code key d)"
  unfolding redeem_tx_def replay_tx_def consume_tx_def by (intro refines_rules refines_case_sum refines_ops ref_active)

end

end
