(* ===== verification/Access_Effects.thy ===== *)
theory Access_Effects
  imports Invitation
begin

text \<open>
  What each transaction of the access service does to the records when it succeeds on the abstract store in a write
  transaction.  These effect lemmas are the interface between the service code and the properties.
\<close>

section \<open>Running the methods\<close>

definition fits :: "marshaller \<Rightarrow> stored \<Rightarrow> bool" where
  "fits marshal v \<longleftrightarrow> (\<exists>n. marshal v = Some n \<and> n \<le> MaxRecordBytes)"

lemma run_Now [simp]: "Tx_Now (abstract_tx marshal m now) = tx_return now"
  by (simp add: abstract_tx_def)

lemma run_Session [simp]: "Tx_Session (abstract_tx marshal m now) sid d = (Inr (map_of (sessions d) sid), d)"
  by (simp add: abstract_tx_def)

lemma run_Grant [simp]: "Tx_Grant (abstract_tx marshal m now) l d = (Inr (lookup_grant d l), d)"
  by (simp add: abstract_tx_def)

lemma run_Receipt [simp]: "Tx_Receipt (abstract_tx marshal m now) k d = (Inr (map_of (receipts d) k), d)"
  by (simp add: abstract_tx_def)

lemma run_Counts [simp]: "Tx_Counts (abstract_tx marshal m now) d = (Inr (count_records d), d)"
  by (simp add: abstract_tx_def)

lemma run_Namespace [simp]: "Tx_Namespace (abstract_tx marshal m now) d = (Inr (ns_record d), d)"
  by (simp add: abstract_tx_def)

lemma run_Sessions:
  "Tx_Sessions (abstract_tx marshal m now) limit d = (Inr rows, d') \<longleftrightarrow>
     0 \<le> limit \<and> int (length (sessions d)) \<le> limit \<and> rows = sorted_sessions d \<and> d' = d"
  by (auto simp: abstract_tx_def)

lemma run_PutSession:
  "Tx_PutSession (abstract_tx marshal writeTransaction now) r d = (Inr u, d') \<longleftrightarrow> fits marshal (StoredSession r) \<and> d' = put_session r d"
  by (auto simp: abstract_tx_def fits_def tx_bind_Inr_iff)

lemma run_DeleteSession:
  "Tx_DeleteSession (abstract_tx marshal writeTransaction now) sid d = (Inr u, d') \<longleftrightarrow> d' = drop_sessions (\<lambda>k. k = sid) d"
  by (auto simp: abstract_tx_def)

lemma run_PutGrant:
  "Tx_PutGrant (abstract_tx marshal writeTransaction now) g d = (Inr u, d') \<longleftrightarrow>
     fits marshal (StoredGrant g) \<and> \<not> grant_conflict d g \<and> d' = put_grant g d"
  by (auto simp: abstract_tx_def fits_def tx_bind_Inr_iff)

lemma run_PutGrant_error:
  "Tx_PutGrant (abstract_tx marshal m now) g d = (Inl e, d') \<Longrightarrow> d' = d"
  by (auto simp: abstract_tx_def tx_bind_Inl_iff abs_write_def bounded_iff split: if_splits option.splits)

lemma run_DeleteGrant:
  "Tx_DeleteGrant (abstract_tx marshal writeTransaction now) gid d = (Inr u, d') \<longleftrightarrow> d' = del_grants (\<lambda>k _. k = gid) d"
  by (auto simp: abstract_tx_def)

lemma run_PutReceipt:
  "Tx_PutReceipt (abstract_tx marshal writeTransaction now) r d = (Inr u, d') \<longleftrightarrow>
     fits marshal (StoredReceipt r) \<and> has_key (rc_SessionID r) (sessions d) \<and> \<not> has_key (Key r) (receipts d) \<and> d' = put_receipt r d"
  by (auto simp: abstract_tx_def fits_def tx_bind_Inr_iff)

lemma run_PruneExpired:
  "Tx_PruneExpired (abstract_tx marshal writeTransaction now) d = (Inr u, d') \<longleftrightarrow> d' = prune_records now d"
  by (auto simp: abstract_tx_def)

lemma run_PutNamespace:
  "Tx_PutNamespace (abstract_tx marshal writeTransaction now) r d = (Inr u, d') \<longleftrightarrow> fits marshal (StoredNamespace r) \<and> d' = put_namespace r d"
  by (auto simp: abstract_tx_def fits_def tx_bind_Inr_iff)

lemma run_lift: "tx_lift x t = (Inr a, t') \<longleftrightarrow> x = Inr a \<and> t' = t"
  by (auto simp: tx_lift_def)

declare tx_lift_iff [simp del]

lemmas runs = tx_bind_Inr_iff run_lift run_Sessions run_PutSession run_DeleteSession run_PutGrant run_DeleteGrant run_PutReceipt
  run_PruneExpired run_PutNamespace

lemma tx_catch_fail_Inr: "tx_catch m e (tx_fail e') t = (Inr a, t') \<longleftrightarrow> m t = (Inr a, t')"
  by (auto simp: tx_catch_def split: prod.splits sum.splits if_splits)

section \<open>The writer check and the wrapper of every update\<close>

definition is_writer :: "Service \<Rightarrow> records \<Rightarrow> bool" where
  "is_writer s d \<longleftrightarrow> ns_WriterTerm (ns_record d) = svc_term s \<and> ns_WriterID (ns_record d) = cfg_WriterID (svc_config s) \<and>
     ns_Incarnation (ns_record d) = svc_incarnation s"

lemma checkWriter_run:
  "checkWriter (abstract_tx marshal m now) s d = (if is_writer s d then Inr () else Inl ErrWriterFenced, d)"
  by (auto simp: checkWriter_def is_writer_def tx_bind_def tx_return_def tx_fail_def)

definition renewed :: "Service \<Rightarrow> time \<Rightarrow> records \<Rightarrow> records" where
  "renewed s now d =
     prune_records now (put_namespace ((ns_record d)\<lparr>LeaseExpiresAt := now + WriterLeaseDuration (svc_config s)\<rparr>) d)"

lemma svc_update_run:
  "svc_update (abstract_tx marshal writeTransaction now) s fn d = (Inr a, d') \<longleftrightarrow>
     is_writer s d \<and> fits marshal (StoredNamespace ((ns_record d)\<lparr>LeaseExpiresAt := now + WriterLeaseDuration (svc_config s)\<rparr>)) \<and>
     fn (renewed s now d) = (Inr a, d')"
  by (auto simp: svc_update_def runs checkWriter_run renewed_def)

definition live_session :: "Service \<Rightarrow> time \<Rightarrow> records \<Rightarrow> string \<Rightarrow> SessionRecord \<Rightarrow> bool" where
  "live_session s now d sid r \<longleftrightarrow> map_of (sessions d) sid = Some r \<and> now < sr_ExpiresAt r \<and> sr_Incarnation r = svc_incarnation s"

lemma active_run: "active (abstract_tx marshal m now) s sid d = (Inr r, d') \<longleftrightarrow> live_session s now d sid r \<and> d' = d"
  by (auto simp: active_def live_session_def tx_bind_Inr_iff split: option.splits if_splits)

lemma active_error: "active (abstract_tx marshal m now) s sid d = (Inl e, d') \<longleftrightarrow> (\<nexists>r. live_session s now d sid r) \<and> e = ErrNoRows \<and> d' = d"
  by (auto simp: active_def live_session_def tx_bind_Inl_iff split: option.splits if_splits)

section \<open>Effects\<close>

lemma create_effect:
  "create_tx (abstract_tx marshal writeTransaction now) lib s required idDraw jtiDraw d = (Inr ses, d') \<longleftrightarrow>
     int (length (sessions d)) < MaxSessions (svc_config s) \<and>
     (\<exists>sid credential. randomSessionID idDraw = Inr sid \<and>
        svc_sign lib s (new_session s sid required now) (new_claims sid RoleSource [] required True) (OwnerTokenTTL (svc_config s)) now jtiDraw =
          Inr credential \<and>
        fits marshal (StoredSession (new_session s sid required now)) \<and>
        ses = \<lparr>ses_record = new_session s sid required now, sourceToken = credential\<rparr> \<and>
        d' = put_session (new_session s sid required now) d)"
  by (auto simp: create_tx_def runs count_records_def)

text \<open>The other writers of a session replace the record of a live session by one with the same identifier.\<close>

definition session_step :: "Service \<Rightarrow> time \<Rightarrow> string \<Rightarrow> records \<Rightarrow> records \<Rightarrow> bool" where
  "session_step s now sid d d' \<longleftrightarrow>
     (\<exists>r. live_session s now d sid r \<and> (d' = d \<or> (\<exists>r'. sr_ID r' = sr_ID r \<and> d' = put_session r' d)))"

lemma session_step_same: "live_session s now d sid r \<Longrightarrow> session_step s now sid d d"
  by (auto simp: session_step_def)

lemma session_step_put: "\<lbrakk>live_session s now d sid r; sr_ID r' = sr_ID r\<rbrakk> \<Longrightarrow> session_step s now sid d (put_session r' d)"
  by (auto simp: session_step_def)

lemmas session_steps = session_step_same session_step_put

lemma kept_ID [simp]: "sr_ID (forget_observation r) = sr_ID r" "sr_ID (touch s r now) = sr_ID r"
  "sr_ID (apply_snapshot s snapshot now r) = sr_ID r" "sr_ID (place_relay s sid epoch now r) = sr_ID r"
  by (simp_all add: forget_observation_def apply_snapshot_def touch_def place_relay_def Let_def)

lemma get_effect:
  "get_tx (abstract_tx marshal writeTransaction now) s sid d = (Inr a, d') \<Longrightarrow> session_step s now sid d d'"
  by (auto simp: get_tx_def runs active_run split: if_splits intro: session_steps)

lemma issue_effect:
  "issue_tx (abstract_tx marshal writeTransaction now) lib s sid bus role draw d = (Inr a, d') \<Longrightarrow> session_step s now sid d d'"
  by (auto simp: issue_tx_def runs active_run split: if_splits intro: session_steps)

lemma renew_effect:
  "renew_tx (abstract_tx marshal writeTransaction now) lib s sid credential draw d = (Inr a, d') \<Longrightarrow> session_step s now sid d d'"
  by (auto simp: renew_tx_def runs active_run split: if_splits intro: session_steps)

lemma apply_effect:
  "apply_tx (abstract_tx marshal writeTransaction now) s sid snapshot d = (Inr a, d') \<Longrightarrow> session_step s now sid d d'"
  by (auto simp: apply_tx_def runs active_run tx_catch_fail_Inr split: if_splits intro: session_steps)

lemma acquire_effect:
  "acquire_tx (abstract_tx marshal writeTransaction now) s sid epoch expected d = (Inr a, d') \<Longrightarrow> session_step s now sid d d'"
  by (auto simp: acquire_tx_def runs active_run split: if_splits intro: session_steps)

lemma delete_effect:
  "delete_tx (abstract_tx marshal writeTransaction now) s sid d = (Inr deleted, d') \<longleftrightarrow>
     (if deleted then (\<exists>r. live_session s now d sid r) \<and> d' = drop_sessions (\<lambda>k. k = sid) d
      else (\<nexists>r. live_session s now d sid r) \<and> d' = d)"
proof (cases "active (abstract_tx marshal writeTransaction now) s sid d")
  case (Pair x d1)
  show ?thesis
  proof (cases x)
    case (Inl e)
    then have "e = ErrNoRows" "d1 = d" "\<nexists>r. live_session s now d sid r" using Pair by (simp_all add: active_error)
    then show ?thesis using Pair Inl by (auto simp: delete_tx_def tx_bind_def tx_catch_def tx_return_def)
  next
    case (Inr r)
    then have "live_session s now d sid r" "d1 = d" using Pair by (simp_all add: active_run)
    then show ?thesis using Pair Inr
      by (auto simp: delete_tx_def tx_bind_def tx_catch_def tx_return_def run_DeleteSession split: prod.splits sum.splits)
        (auto simp: abstract_tx_def)
  qed
qed

lemma catch_conflict:
  "tx_catch (tx_bind (Tx_PutGrant (abstract_tx marshal writeTransaction now) g) (\<lambda>_. tx_return True)) ErrConflict (tx_return False) d = (Inr b, d') \<Longrightarrow>
     if b then fits marshal (StoredGrant g) \<and> \<not> grant_conflict d g \<and> d' = put_grant g d else d' = d"
  by (auto simp: tx_catch_def tx_bind_def run_PutGrant dest: run_PutGrant_error split: prod.splits sum.splits if_splits)

definition grant_step :: "SessionRecord \<Rightarrow> string \<Rightarrow> string \<Rightarrow> time \<Rightarrow> Invitation \<Rightarrow> records \<Rightarrow> records \<Rightarrow> bool" where
  "grant_step r sid bus now result d d' \<longleftrightarrow>
     (\<exists>g. \<not> grant_conflict d g \<and> d' = put_grant g d \<and> gr_SessionID g = sid \<and> gr_BusID g = bus \<and> JoinCode g = Code result \<and>
        Alias g = inv_Alias result \<and> gr_ExpiresAt g = inv_ExpiresAt result \<and> inv_ExpiresAt result = invitation_expiry r now)"

lemma allocate_effect:
  "allocate (abstract_tx marshal writeTransaction now) lx policy r sid bus ds c d = (Inr result, d') \<Longrightarrow> grant_step r sid bus now result d d'"
proof (induction ds arbitrary: c)
  case Nil
  then show ?case by simp
next
  case (Cons a ds)
  from Cons.prems show ?case
    by (auto simp: runs grant_step_def new_grant_def split: if_splits dest!: catch_conflict dest: Cons.IH [unfolded grant_step_def])
qed

lemma invite_effect:
  "invite_tx (abstract_tx marshal writeTransaction now) lx s policy sid bus draws d = (Inr result, d') \<Longrightarrow>
     \<exists>r. live_session s now d sid r \<and> busReady s r bus now \<and> int (length (grants d)) < MaxInvitations (svc_config s) \<and>
       grant_step r sid bus now result d d'"
  by (auto simp: invite_tx_def runs active_run tx_catch_fail_Inr count_records_def not_le split: if_splits dest!: allocate_effect)

text \<open>A redemption either replays a receipt, changing nothing, or consumes a grant, possibly leaving a receipt.\<close>

definition consume_step ::
  "jwt_library \<Rightarrow> redeem_library \<Rightarrow> Service \<Rightarrow> (ResolvedInvitation \<Rightarrow> access_error + bytes) \<Rightarrow> time \<Rightarrow> string \<Rightarrow> string \<Rightarrow> string \<Rightarrow>
     bytes option \<Rightarrow> bytes \<Rightarrow> GrantRecord \<Rightarrow> SessionRecord \<Rightarrow> records \<Rightarrow> records \<Rightarrow> bool" where
  "consume_step lib rl s encode now locator code key draw response grant session d d' \<longleftrightarrow>
     lookup_grant d locator = Some grant \<and> now < gr_ExpiresAt grant \<and> JoinCode grant = code \<and>
     live_session s now d (gr_SessionID grant) session \<and>
     (\<exists>credential. svc_sign lib s session (new_claims (gr_SessionID grant) RoleSubscriber (gr_BusID grant) [] False)
          (SubscriberTokenTTL (svc_config s)) now draw = Inr credential \<and>
        encode \<lparr>ri_SessionID = gr_SessionID grant, ri_BusID = gr_BusID grant, ri_SubscriberToken = credential\<rparr> = Inr response) \<and>
     (if key = [] then d' = del_grants (\<lambda>k _. k = gr_ID grant) d
      else map_of (receipts d) (receipt_key rl key) = None \<and> int (length (receipts d)) < MaxReceipts (svc_config s) \<and>
        has_key (gr_SessionID grant) (sessions d) \<and>
        d' = del_grants (\<lambda>k _. k = gr_ID grant) (put_receipt (new_receipt rl s grant session locator code key response now) d))"

lemma consume_effect:
  assumes "consume_tx (abstract_tx marshal writeTransaction now) lx lib rl encode s locator code key draw d = (Inr (response, captured), d')"
    and "key = [] \<or> map_of (receipts d) (receipt_key rl key) = None"
  shows "\<exists>grant session. consume_step lib rl s encode now locator code key draw response grant session d d' \<and>
    (\<exists>ri. captured = Some ri \<and> ri_SessionID ri = gr_SessionID grant \<and> ri_BusID ri = gr_BusID grant)"
  using assms
  by (auto simp: consume_tx_def consume_step_def runs active_run tx_catch_fail_Inr count_records_def new_receipt_def not_le
      live_session_def split: if_splits option.splits sum.splits)

lemma replay_effect:
  "replay_tx (abstract_tx marshal writeTransaction now) rl s locator code receipt d = (Inr (response, captured), d') \<longleftrightarrow>
     Operation receipt = ''redeem'' \<and> RequestDigest receipt = request_digest rl locator \<and>
     CredentialDigest receipt = credential_digest rl s code \<and> now < rc_ExpiresAt receipt \<and>
     (\<exists>r. live_session s now d (rc_SessionID receipt) r) \<and> response = Response receipt \<and> captured = None \<and> d' = d"
  by (auto simp: replay_tx_def runs active_run tx_catch_fail_Inr split: if_splits)

lemma redeem_effect:
  assumes "redeem_tx (abstract_tx marshal writeTransaction now) lx lib rl encode s locator code key draw d = (Inr (response, captured), d')"
  shows "(key \<noteq> [] \<and> d' = d \<and> (\<exists>receipt. map_of (receipts d) (receipt_key rl key) = Some receipt \<and> response = Response receipt \<and>
            CredentialDigest receipt = credential_digest rl s code \<and> RequestDigest receipt = request_digest rl locator)) \<or>
    ((key = [] \<or> map_of (receipts d) (receipt_key rl key) = None) \<and>
     (\<exists>grant session. consume_step lib rl s encode now locator code key draw response grant session d d'))"
proof (cases "key \<noteq> [] \<and> map_of (receipts d) (receipt_key rl key) \<noteq> None")
  case True
  then show ?thesis using assms by (auto simp: redeem_tx_def runs replay_effect)
next
  case False
  then have "consume_tx (abstract_tx marshal writeTransaction now) lx lib rl encode s locator code key draw d = (Inr (response, captured), d')"
    using assms by (auto simp: redeem_tx_def runs split: if_splits)
  from consume_effect [OF this] False show ?thesis by auto
qed

text \<open>A start installs the claimed namespace and keeps every record map but the observations of the sessions.\<close>

definition start_step :: "Config \<Rightarrow> time \<Rightarrow> string \<Rightarrow> namespace_record \<Rightarrow> records \<Rightarrow> records \<Rightarrow> bool" where
  "start_step c now fresh ns d d' \<longleftrightarrow>
     claim_namespace c fresh now (ns_record d) = Inr ns \<and> ns_record d' = ns \<and> map fst (sessions d') = map fst (sessions d) \<and>
     grants d' = grants d \<and> locators d' = locators d \<and> receipts d' = receipts d"

lemma each_put_keeps:
  assumes "tx_each (\<lambda>r. if P r then Tx_PutSession (abstract_tx marshal writeTransaction now) (f r) else tx_return ()) rows d = (Inr u, d')"
    and "\<And>r. r \<in> set rows \<Longrightarrow> sr_ID (f r) \<in> fst ` set (sessions d)"
  shows "map fst (sessions d') = map fst (sessions d) \<and> grants d' = grants d \<and> locators d' = locators d \<and>
    receipts d' = receipts d \<and> ns_record d' = ns_record d"
  using assms
proof (induction rows arbitrary: d)
  case (Cons r rows)
  from Cons.prems(1) obtain d1 where one: "d1 = (if P r then put_session (f r) d else d)"
    and rest: "tx_each (\<lambda>r. if P r then Tx_PutSession (abstract_tx marshal writeTransaction now) (f r) else tx_return ()) rows d1 = (Inr u, d')"
    by (auto simp: runs split: if_splits)
  have keys: "map fst (sessions d1) = map fst (sessions d)"
    using one Cons.prems(2) [of r] by (auto simp: put_session_def update_keys)
  then have "fst ` set (sessions d1) = fst ` set (sessions d)" by (metis image_set)
  then show ?case using Cons.IH [OF rest] Cons.prems(2) keys one by (auto simp: put_session_def)
qed simp

lemma sorted_sessions_ID:
  assumes "records_ok d" and "r \<in> set (sorted_sessions d)"
  shows "sr_ID r \<in> fst ` set (sessions d)"
proof -
  obtain k where k: "k \<in> fst ` set (sessions d)" "r = the (map_of (sessions d) k)" using assms(2) by (auto simp: sorted_sessions_def)
  then obtain r' where "map_of (sessions d) k = Some r'" by (metis map_of_eq_None_iff not_None_eq)
  then show ?thesis using assms(1) k by (auto simp: records_ok_def sessions_ok_def)
qed

lemma start_effect:
  assumes "start_tx (abstract_tx marshal writeTransaction now) c draw d = (Inr ns, d')" and "records_ok d"
  shows "\<exists>fresh. start_step c now fresh ns d d' \<and> (ns_Incarnation (ns_record d) = [] \<longrightarrow> randomSessionID draw = Inr fresh)"
proof -
  from assms(1) obtain fresh where claim: "claim_namespace c fresh now (ns_record d) = Inr ns"
    and fresh: "ns_Incarnation (ns_record d) = [] \<longrightarrow> randomSessionID draw = Inr fresh"
    and each: "tx_each (\<lambda>r. if length (Buses (Relay r)) > 0 \<or> length (Subscriptions (Relay r)) > 0
         then Tx_PutSession (abstract_tx marshal writeTransaction now) (forget_observation r) else tx_return ())
        (sorted_sessions (put_namespace ns d)) (put_namespace ns d) = (Inr (), d')"
    by (auto simp: start_tx_def runs split: if_splits)
  have same: "sorted_sessions (put_namespace ns d) = sorted_sessions d" "sessions (put_namespace ns d) = sessions d"
    by (simp_all add: sorted_sessions_def put_namespace_def)
  show ?thesis
    using each_put_keeps [OF each] sorted_sessions_ID [OF assms(2)] claim fresh
    by (auto simp: start_step_def same) (auto simp: put_namespace_def)
qed

lemma each_delete:
  "tx_each (\<lambda>r. Tx_DeleteSession (abstract_tx marshal writeTransaction now) (sr_ID r)) rows d = (Inr u, d') \<Longrightarrow>
     (records_ok d \<longrightarrow> records_ok d') \<and> sessions d' = filter (\<lambda>(k, _). k \<notin> sr_ID ` set rows) (sessions d)"
proof (induction rows arbitrary: d)
  case (Cons r rows)
  then have "tx_each (\<lambda>r. Tx_DeleteSession (abstract_tx marshal writeTransaction now) (sr_ID r)) rows (drop_sessions (\<lambda>k. k = sr_ID r) d) = (Inr u, d')"
    by (simp add: runs)
  note IH = Cons.IH [OF this]
  have "sessions (drop_sessions (\<lambda>k. k = sr_ID r) d) = filter (\<lambda>(k, _). k \<noteq> sr_ID r) (sessions d)"
    by (simp add: drop_sessions_def Let_def)
  then have "sessions d' = filter (\<lambda>(k, _). k \<notin> sr_ID ` set (r # rows)) (sessions d)"
    using IH by (auto simp: split_beta intro: filter_cong)
  then show ?case using IH records_ok_drop_sessions by blast
qed simp

lemma map_of_no_key: "(\<And>k. map_of m k = None) \<Longrightarrow> m = []"
  by (cases m) (auto, metis option.distinct(1))

lemma reset_effect:
  assumes "reset_tx (abstract_tx marshal writeTransaction now) limit draw d = (Inr u, d')" and ok: "records_ok d"
  shows "\<exists>fresh. randomSessionID draw = Inr fresh \<and>
    d' = \<lparr>sessions = [], grants = [], locators = [], receipts = [],
          ns_record = zero_namespace\<lparr>ns_SchemaVersion := SchemaVersion, ns_Incarnation := fresh\<rparr>\<rparr>"
proof -
  from assms(1) obtain fresh d1 where fresh: "randomSessionID draw = Inr fresh"
    and each: "tx_each (\<lambda>r. Tx_DeleteSession (abstract_tx marshal writeTransaction now) (sr_ID r)) (sorted_sessions d) d = (Inr (), d1)"
    and d': "d' = put_namespace (zero_namespace\<lparr>ns_SchemaVersion := SchemaVersion, ns_Incarnation := fresh\<rparr>) d1"
    by (auto simp: reset_tx_def runs)
  have key: "k \<in> sr_ID ` set (sorted_sessions d)" if "(k, r) \<in> set (sessions d)" for k r
  proof -
    have m: "map_of (sessions d) k = Some r"
      using that records_okD(1) [OF ok] by (simp add: map_of_eq_Some_iff)
    then have "sr_ID r = k" using ok unfolding records_ok_def sessions_ok_def by blast
    moreover have "k \<in> fst ` set (sessions d)" using that by force
    then have "r \<in> set (sorted_sessions d)" using m by (auto simp: sorted_sessions_def intro!: image_eqI [of _ _ k])
    ultimately show ?thesis by blast
  qed
  have empty: "sessions d1 = []" using each_delete [OF each] key by (auto simp: filter_empty_conv)
  have ok1: "records_ok d1" using each_delete [OF each] ok by simp
  have "map_of (grants d1) k = None" for k
    using ok1 empty by (cases "map_of (grants d1) k") (auto simp: records_ok_def grants_ok_def has_key_def)
  then have g: "grants d1 = []" by (rule map_of_no_key)
  have "map_of (receipts d1) k = None" for k
    using ok1 empty by (cases "map_of (receipts d1) k") (auto simp: records_ok_def receipts_ok_def has_key_def)
  then have r: "receipts d1 = []" by (rule map_of_no_key)
  have "map_of (locators d1) k = None" for k
    using ok1 g by (cases "map_of (locators d1) k") (auto simp: records_ok_def locators_ok_def)
  then have "locators d1 = []" by (rule map_of_no_key)
  then show ?thesis using fresh d' empty g r by (simp add: put_namespace_def)
qed

end
