(* ===== verification/Memory_Store.thy ===== *)
theory Memory_Store
  imports Storage
begin

text \<open>
  The in-memory adapter of \<^verbatim>\<open>access/storage/memory/memory.go\<close>: the record maps, every operation of its transaction,
  and \<^verbatim>\<open>run\<close>, which works on a clone of the maps and installs it only when the callback and the
  context both report no error.
\<close>

section \<open>State\<close>

record transaction =
  tx_ctx :: go_context
  tx_polls :: nat
  tx_data :: records
  tx_mode :: transactionMode
  tx_now :: time

type_synonym 'a mem = "(transaction, 'a) txm"

record mem_store =
  ms_data :: records
  ms_closed :: bool

definition NewWithClock :: mem_store where
  "NewWithClock = \<lparr>ms_data = \<lparr>sessions = [], grants = [], locators = [], receipts = [], ns_record = zero_namespace\<rparr>,
     ms_closed = False\<rparr>"

section \<open>Operations of a transaction\<close>

definition mem_Now :: "time mem" where
  "mem_Now t = (Inr (tx_now t), t)"

text \<open>One poll of \<^verbatim>\<open>ctx.Err()\<close>.\<close>

definition poll :: "unit mem" where
  "poll t = (case ctx_error (tx_ctx t) (tx_polls t) of None \<Rightarrow> Inr () | Some e \<Rightarrow> Inl e, t\<lparr>tx_polls := Suc (tx_polls t)\<rparr>)"

definition mem_write :: "unit mem" where
  "mem_write = tx_bind poll (\<lambda>_ t. if tx_mode t \<noteq> writeTransaction then tx_fail ErrReadOnly t else tx_return () t)"

text \<open>A read of the maps followed by the poll whose error the caller sees.\<close>

definition mem_read :: "(records \<Rightarrow> 'a) \<Rightarrow> 'a mem" where
  "mem_read f t = tx_bind poll (\<lambda>_. tx_return (f (tx_data t))) t"

definition mem_modify :: "(records \<Rightarrow> records) \<Rightarrow> unit mem" where
  "mem_modify f t = (Inr (), t\<lparr>tx_data := f (tx_data t)\<rparr>)"

definition mem_Session :: "string \<Rightarrow> SessionRecord option mem" where
  "mem_Session sid = mem_read (\<lambda>d. map_of (sessions d) sid)"

definition mem_Sessions :: "int \<Rightarrow> SessionRecord list mem" where
  "mem_Sessions limit t =
     (if limit < 0 then tx_fail ErrCapacity t
      else
        let keys = sort (map fst (sessions (tx_data t)))
        in if int (length keys) > limit then tx_fail ErrCapacity t
           else mem_read (\<lambda>d. map (\<lambda>k. the (map_of (sessions d) k)) keys) t)"

definition mem_PutSession :: "marshaller \<Rightarrow> SessionRecord \<Rightarrow> unit mem" where
  "mem_PutSession marshal r =
     tx_bind (bounded marshal (StoredSession r)) (\<lambda>_.
     tx_bind mem_write (\<lambda>_.
     mem_modify (\<lambda>d. d\<lparr>sessions := AList.update (sr_ID r) r (sessions d)\<rparr>)))"

definition mem_DeleteGrant :: "string \<Rightarrow> unit mem" where
  "mem_DeleteGrant gid =
     tx_bind mem_write (\<lambda>_.
     mem_modify (\<lambda>d.
       case map_of (grants d) gid of
         Some r \<Rightarrow> d\<lparr>locators := AList.delete (Alias r) (AList.delete (JoinCode r) (locators d)),
                    grants := AList.delete gid (grants d)\<rparr>
       | None \<Rightarrow> d))"

text \<open>The loop over the grants ignores the error of each removal.\<close>

definition delete_grants :: "(GrantRecord \<Rightarrow> bool) \<Rightarrow> transaction \<Rightarrow> transaction" where
  "delete_grants P t =
     fold (\<lambda>(k, r) t. if P r then snd (mem_DeleteGrant k t) else t) (grants (tx_data t)) t"

definition mem_DeleteSession :: "string \<Rightarrow> unit mem" where
  "mem_DeleteSession sid =
     tx_bind mem_write (\<lambda>_.
     tx_bind (mem_modify (sessions_update (AList.delete sid))) (\<lambda>_.
     tx_bind (\<lambda>t. (Inr (), delete_grants (\<lambda>r. gr_SessionID r = sid) t)) (\<lambda>_.
     mem_modify (receipts_update (filter (\<lambda>(k, r). rc_SessionID r \<noteq> sid))))))"

definition mem_Grant :: "string \<Rightarrow> GrantRecord option mem" where
  "mem_Grant locator =
     mem_read (\<lambda>d. case map_of (locators d) locator of None \<Rightarrow> None | Some gid \<Rightarrow> map_of (grants d) gid)"

definition mem_PutGrant :: "marshaller \<Rightarrow> GrantRecord \<Rightarrow> unit mem" where
  "mem_PutGrant marshal r =
     tx_bind (bounded marshal (StoredGrant r)) (\<lambda>_.
     tx_bind mem_write (\<lambda>_ t.
       if grant_conflict (tx_data t) r then tx_fail ErrConflict t
       else mem_modify (\<lambda>d. d\<lparr>grants := AList.update (gr_ID r) r (grants d),
              locators := AList.update (Alias r) (gr_ID r) (AList.update (JoinCode r) (gr_ID r) (locators d))\<rparr>) t))"

definition mem_Receipt :: "string \<Rightarrow> Receipt option mem" where
  "mem_Receipt key = mem_read (\<lambda>d. map_of (receipts d) key)"

definition mem_PutReceipt :: "marshaller \<Rightarrow> Receipt \<Rightarrow> unit mem" where
  "mem_PutReceipt marshal r =
     tx_bind (bounded marshal (StoredReceipt r)) (\<lambda>_.
     tx_bind mem_write (\<lambda>_ t.
       if \<not> has_key (rc_SessionID r) (sessions (tx_data t)) then tx_fail ErrConflict t
       else if has_key (Key r) (receipts (tx_data t)) then tx_fail ErrConflict t
       else mem_modify (\<lambda>d. d\<lparr>receipts := AList.update (Key r) r (receipts d)\<rparr>) t))"

definition mem_Counts :: "storage_counts mem" where
  "mem_Counts = mem_read (\<lambda>d. \<lparr>SessionCount = length (sessions d), GrantCount = length (grants d),
     ReceiptCount = length (receipts d)\<rparr>)"

definition prune_sessions :: "transaction \<Rightarrow> transaction" where
  "prune_sessions t =
     fold (\<lambda>(k, r) t. if \<not> sr_ExpiresAt r > tx_now t then snd (mem_DeleteSession k t) else t) (sessions (tx_data t)) t"

definition mem_PruneExpired :: "unit mem" where
  "mem_PruneExpired =
     tx_bind mem_write (\<lambda>_.
     tx_bind (\<lambda>t. (Inr (), prune_sessions t)) (\<lambda>_.
     tx_bind (\<lambda>t. (Inr (), delete_grants (\<lambda>r. \<not> gr_ExpiresAt r > tx_now t) t)) (\<lambda>_ t.
     mem_modify (receipts_update (filter (\<lambda>(k, r). rc_ExpiresAt r > tx_now t))) t)))"

definition mem_Namespace :: "namespace_record mem" where
  "mem_Namespace = mem_read ns_record"

definition mem_PutNamespace :: "marshaller \<Rightarrow> namespace_record \<Rightarrow> unit mem" where
  "mem_PutNamespace marshal r =
     tx_bind (bounded marshal (StoredNamespace r)) (\<lambda>_.
     tx_bind mem_write (\<lambda>_.
     mem_modify (\<lambda>d. d\<lparr>ns_record := r\<rparr>)))"

definition memory_tx :: "marshaller \<Rightarrow> transaction Tx" where
  "memory_tx marshal =
     \<lparr>Tx_Now = mem_Now, Tx_Session = mem_Session, Tx_Sessions = mem_Sessions, Tx_PutSession = mem_PutSession marshal,
      Tx_DeleteSession = mem_DeleteSession, Tx_Grant = mem_Grant, Tx_PutGrant = mem_PutGrant marshal,
      Tx_DeleteGrant = mem_DeleteGrant, Tx_Receipt = mem_Receipt, Tx_PutReceipt = mem_PutReceipt marshal,
      Tx_Counts = mem_Counts, Tx_PruneExpired = mem_PruneExpired, Tx_Namespace = mem_Namespace,
      Tx_PutNamespace = mem_PutNamespace marshal\<rparr>"

section \<open>Transactions\<close>

text \<open>
  \<^verbatim>\<open>run\<close> returns the Go error, the value the callback captured if it completed, and the store.  The wait for the
  gate and the first check of the context give the same answer for a context cancelled by then, so
  they are one poll.
\<close>

definition mem_run ::
  "transactionMode \<Rightarrow> go_context \<Rightarrow> time \<Rightarrow> 'a mem \<Rightarrow> mem_store \<Rightarrow> (access_error option \<times> 'a option) \<times> mem_store" where
  "mem_run mode ctx now fn s =
     (case ctx_error ctx 0 of
        Some e \<Rightarrow> ((Some e, None), s)
      | None \<Rightarrow>
          if ms_closed s then ((Some ErrClosed, None), s)
          else
            case fn \<lparr>tx_ctx = ctx, tx_polls = 1, tx_data = ms_data s, tx_mode = mode, tx_now = now\<rparr> of
              (Inl e, t) \<Rightarrow> ((Some e, None), s)
            | (Inr a, t) \<Rightarrow>
                (case fst (poll t) of
                   Inl e \<Rightarrow> ((Some e, Some a), s)
                 | Inr _ \<Rightarrow> ((None, Some a), if mode = writeTransaction then s\<lparr>ms_data := tx_data t\<rparr> else s)))"

definition mem_Update :: "go_context \<Rightarrow> time \<Rightarrow> 'a mem \<Rightarrow> mem_store \<Rightarrow> (access_error option \<times> 'a option) \<times> mem_store" where
  "mem_Update = mem_run writeTransaction"

definition mem_View :: "go_context \<Rightarrow> time \<Rightarrow> 'a mem \<Rightarrow> mem_store \<Rightarrow> (access_error option \<times> 'a option) \<times> mem_store" where
  "mem_View = mem_run readTransaction"

definition mem_Close :: "mem_store \<Rightarrow> mem_store" where
  "mem_Close s = s\<lparr>ms_closed := True\<rparr>"

end
