(* ===== verification/Memory_Refinement.thy ===== *)
theory Memory_Refinement
  imports Memory_Store Abstract_Store
begin

text \<open>
  The in-memory adapter against the abstract store.  Its removal loops ignore the error of each inner call; the proof
  that a committed transaction nevertheless removed everything rests on the context staying cancelled once
  it is cancelled.  \<^verbatim>\<open>Memory_Adapter\<close> collects the operations into the adapter contract.
\<close>

section \<open>The view of a transaction\<close>

definition live :: "transaction \<Rightarrow> bool" where
  "live t \<longleftrightarrow> ctx_error (tx_ctx t) (tx_polls t) = None"

definition tx_frame :: "transaction \<Rightarrow> transaction \<Rightarrow> bool" where
  "tx_frame t t' \<longleftrightarrow> tx_ctx t' = tx_ctx t \<and> tx_mode t' = tx_mode t \<and> tx_now t' = tx_now t \<and> tx_polls t \<le> tx_polls t'"

definition tx_wf :: "transaction \<Rightarrow> bool" where
  "tx_wf t \<longleftrightarrow> map_wf (sessions (tx_data t)) \<and> map_wf (grants (tx_data t)) \<and> map_wf (locators (tx_data t)) \<and>
     map_wf (receipts (tx_data t))"

lemma live_earlier: "\<lbrakk>tx_frame t t'; live t'\<rbrakk> \<Longrightarrow> live t"
  using ctx_error_earlier [of "tx_ctx t" "tx_polls t'" "tx_polls t"] by (simp add: tx_frame_def live_def)

interpretation memory: tx_view tx_frame live tx_wf tx_mode tx_now tx_data
  by unfold_locales (auto simp: tx_frame_def intro: live_earlier [unfolded tx_frame_def])

section \<open>Polls, reads and guarded writes\<close>

lemma poll_cases:
  obtains "live t" "poll t = (Inr (), t\<lparr>tx_polls := Suc (tx_polls t)\<rparr>)"
  | "\<not> live t" "poll t = (Inl ErrContext, t\<lparr>tx_polls := Suc (tx_polls t)\<rparr>)"
proof (cases "ctx_error (tx_ctx t) (tx_polls t)")
  case None
  then show thesis using that(1) by (simp add: poll_def live_def)
next
  case (Some e)
  then have "e = ErrContext" by (auto simp: ctx_error_def split: option.splits if_splits)
  then show thesis using Some that(2) by (simp add: poll_def live_def)
qed

lemma polled [simp]:
  "tx_frame t (t\<lparr>tx_polls := Suc (tx_polls t)\<rparr>)" "tx_wf (t\<lparr>tx_polls := n\<rparr>) = tx_wf t"
  by (simp_all add: tx_frame_def tx_wf_def)

lemma mem_read_refines: "memory.refines (mem_read f) (\<lambda>_ _. abs_read f)"
proof (rule memory.refinesI)
  fix t r t' assume "tx_wf t" "mem_read f t = (r, t')"
  then show "tx_frame t t' \<and> tx_wf t'"
    by (cases rule: poll_cases [of t]) (auto simp: mem_read_def tx_bind_def)
next
  fix t r t' assume "mem_read f t = (r, t')" "live t"
  then show "abs_read f (tx_data t) = (r, tx_data t')"
    by (cases rule: poll_cases [of t]) (auto simp: mem_read_def tx_bind_def)
qed

lemma mem_write_refines: "memory.refines mem_write (\<lambda>mode _. abs_write mode)"
proof (rule memory.refinesI)
  fix t r t' assume "tx_wf t" "mem_write t = (r, t')"
  then show "tx_frame t t' \<and> tx_wf t'"
    by (cases rule: poll_cases [of t]) (auto simp: mem_write_def tx_bind_def split: if_splits)
next
  fix t r t' assume "mem_write t = (r, t')" "live t"
  then show "abs_write (tx_mode t) (tx_data t) = (r, tx_data t')"
    by (cases rule: poll_cases [of t]) (auto simp: mem_write_def abs_write_def tx_bind_def split: if_splits)
qed

lemma mem_modify_iff [simp]: "mem_modify f t = (r, t') \<longleftrightarrow> r = Inr () \<and> t' = t\<lparr>tx_data := f (tx_data t)\<rparr>"
  by (auto simp: mem_modify_def)

text \<open>An in-place change of the maps, against the function it computes.\<close>

lemma mem_modify_refines:
  assumes "\<And>t. tx_wf t \<Longrightarrow> tx_wf (t\<lparr>tx_data := f (tx_data t)\<rparr>) \<and> f (tx_data t) = g (tx_data t)"
  shows "memory.refines (mem_modify f) (\<lambda>_ _. abs_modify g)"
proof (rule memory.refinesI)
  fix t r t' assume wf: "tx_wf t" and m: "mem_modify f t = (r, t')"
  have t': "t' = t\<lparr>tx_data := f (tx_data t)\<rparr>" using m by simp
  have "tx_wf t'" using assms [OF wf] unfolding t' by (rule conjunct1)
  then show "tx_frame t t' \<and> tx_wf t'" unfolding t' by (simp add: tx_frame_def)
next
  fix t r t' assume wf: "tx_wf t" and m: "mem_modify f t = (r, t')"
  have t': "t' = t\<lparr>tx_data := f (tx_data t)\<rparr>" and r: "r = Inr ()" using m by simp_all
  have "f (tx_data t) = g (tx_data t)" using assms [OF wf] by (rule conjunct2)
  then show "abs_modify g (tx_data t) = (r, tx_data t')" unfolding t' r by simp
qed

lemma mem_conditional_refines:
  assumes "memory.refines m (\<lambda>_ _. p)"
  shows "memory.refines (\<lambda>t. if c (tx_data t) then tx_fail e t else m t) (\<lambda>_ _ d. if c d then tx_fail e d else p d)"
proof (rule memory.refinesI)
  fix t r t' assume wf: "tx_wf t" and run: "(if c (tx_data t) then tx_fail e t else m t) = (r, t')"
  show "tx_frame t t' \<and> tx_wf t'"
  proof (cases "c (tx_data t)")
    case True
    then show ?thesis using run wf memory.frame_refl by simp
  next
    case False
    then have "m t = (r, t')" using run by simp
    from memory.refinesD(1,2) [OF assms wf this] show ?thesis by simp
  qed
next
  fix t r t' assume wf: "tx_wf t" and run: "(if c (tx_data t) then tx_fail e t else m t) = (r, t')" and lv: "live t'"
  show "(if c (tx_data t) then tx_fail e (tx_data t) else p (tx_data t)) = (r, tx_data t')"
  proof (cases "c (tx_data t)")
    case True
    then show ?thesis using run by simp
  next
    case False
    then have "m t = (r, t')" using run by simp
    from memory.refinesD(3) [OF assms wf this lv] show ?thesis using False by simp
  qed
qed

section \<open>Removing grants and sessions\<close>

lemma del_grants_del_grants: "del_grants P (del_grants Q d) = del_grants (\<lambda>k g. P k g \<or> Q k g) d"
proof -
  have ex: "\<not> list_ex (\<lambda>(k, g). P k g \<and> (l = JoinCode g \<or> l = Alias g)) (filter (\<lambda>(k, g). \<not> Q k g) (grants d)) \<and>
      \<not> list_ex (\<lambda>(k, g). Q k g \<and> (l = JoinCode g \<or> l = Alias g)) (grants d) \<longleftrightarrow>
      \<not> list_ex (\<lambda>(k, g). (P k g \<or> Q k g) \<and> (l = JoinCode g \<or> l = Alias g)) (grants d)" for l
    by (auto simp: list_ex_iff)
  have "filter (\<lambda>(k, g). \<not> P k g) (filter (\<lambda>(k, g). \<not> Q k g) (grants d)) = filter (\<lambda>(k, g). \<not> (P k g \<or> Q k g)) (grants d)"
    unfolding filter_filter by (rule filter_cong) auto
  moreover have "filter (\<lambda>(l, _). \<not> list_ex (\<lambda>(k, g). P k g \<and> (l = JoinCode g \<or> l = Alias g)) (filter (\<lambda>(k, g). \<not> Q k g) (grants d)))
        (filter (\<lambda>(l, _). \<not> list_ex (\<lambda>(k, g). Q k g \<and> (l = JoinCode g \<or> l = Alias g)) (grants d)) (locators d)) =
      filter (\<lambda>(l, _). \<not> list_ex (\<lambda>(k, g). (P k g \<or> Q k g) \<and> (l = JoinCode g \<or> l = Alias g)) (grants d)) (locators d)"
    unfolding filter_filter by (rule filter_cong) (use ex in auto)
  ultimately show ?thesis by (simp add: del_grants_def)
qed

lemma del_grants_cong:
  assumes "\<And>k g. (k, g) \<in> set (grants d) \<Longrightarrow> P k g = Q k g"
  shows "del_grants P d = del_grants Q d"
proof -
  have "list_ex (\<lambda>(k, g). P k g \<and> (l = JoinCode g \<or> l = Alias g)) (grants d) =
      list_ex (\<lambda>(k, g). Q k g \<and> (l = JoinCode g \<or> l = Alias g)) (grants d)" for l
    using assms by (auto simp: list_ex_iff)
  moreover have "filter (\<lambda>(k, g). \<not> P k g) (grants d) = filter (\<lambda>(k, g). \<not> Q k g) (grants d)"
    using assms by (auto intro: filter_cong)
  ultimately show ?thesis by (simp add: del_grants_def)
qed

lemma drop_sessions_drop_sessions: "drop_sessions A (drop_sessions B d) = drop_sessions (\<lambda>k. A k \<or> B k) d"
proof -
  have com: "del_grants P (e\<lparr>sessions := x, receipts := y\<rparr>) = (del_grants P e)\<lparr>sessions := x, receipts := y\<rparr>" for P e x y
    by (simp add: del_grants_def)
  have "filter (\<lambda>(k, _). \<not> A k) (filter (\<lambda>(k, _). \<not> B k) (sessions d)) = filter (\<lambda>(k, _). \<not> (A k \<or> B k)) (sessions d)"
    "filter (\<lambda>(k, r). \<not> A (rc_SessionID r)) (filter (\<lambda>(k, r). \<not> B (rc_SessionID r)) (receipts d)) =
      filter (\<lambda>(k, r). \<not> (A (rc_SessionID r) \<or> B (rc_SessionID r))) (receipts d)"
    unfolding filter_filter by (auto intro: filter_cong)
  then show ?thesis
    by (simp add: drop_sessions_def Let_def com del_grants_del_grants)
qed

lemma mem_delete_data:
  assumes "map_wf (grants d)"
  shows "(case map_of (grants d) gid of
       Some r \<Rightarrow> d\<lparr>locators := AList.delete (Alias r) (AList.delete (JoinCode r) (locators d)), grants := AList.delete gid (grants d)\<rparr>
     | None \<Rightarrow> d) = del_grants (\<lambda>k _. k = gid) d"
proof (cases "map_of (grants d) gid")
  case None
  then have "\<And>k g. (k, g) \<in> set (grants d) \<Longrightarrow> k \<noteq> gid"
    by (metis map_of_eq_None_iff image_eqI fst_conv)
  then have "del_grants (\<lambda>k _. k = gid) d = del_grants (\<lambda>_ _. False) d" by (intro del_grants_cong) simp
  also have "\<dots> = d" by (simp add: del_grants_def list_ex_iff case_prod_unfold)
  finally show ?thesis using None by simp
next
  case (Some r)
  have "list_ex (\<lambda>(k, g). k = gid \<and> (l = JoinCode g \<or> l = Alias g)) (grants d) \<longleftrightarrow> l = JoinCode r \<or> l = Alias r" for l
    using list_ex_grants [OF assms, of "\<lambda>k g. k = gid \<and> (l = JoinCode g \<or> l = Alias g)"] Some by simp
  then have "filter (\<lambda>(l, _). \<not> list_ex (\<lambda>(k, g). k = gid \<and> (l = JoinCode g \<or> l = Alias g)) (grants d)) (locators d) =
      AList.delete (Alias r) (AList.delete (JoinCode r) (locators d))"
    by (auto simp: AList.delete_eq intro: filter_cong)
  moreover have "filter (\<lambda>(k, g). k \<noteq> gid) (grants d) = AList.delete gid (grants d)"
    by (auto simp: AList.delete_eq intro: filter_cong)
  ultimately show ?thesis using Some by (simp add: del_grants_def)
qed

lemma mem_DeleteGrant_refines:
  "memory.refines (mem_DeleteGrant gid) (\<lambda>m _. tx_bind (abs_write m) (\<lambda>_. abs_modify (del_grants (\<lambda>k _. k = gid))))"
  unfolding mem_DeleteGrant_def
proof (intro memory.refines_bind mem_write_refines mem_modify_refines)
  fix t assume wf: "tx_wf t"
  let ?f = "\<lambda>d. case map_of (grants d) gid of
       Some r \<Rightarrow> d\<lparr>locators := AList.delete (Alias r) (AList.delete (JoinCode r) (locators d)), grants := AList.delete gid (grants d)\<rparr>
     | None \<Rightarrow> d"
  have eq: "?f (tx_data t) = del_grants (\<lambda>k _. k = gid) (tx_data t)"
    using wf by (intro mem_delete_data) (simp add: tx_wf_def)
  have "tx_wf (t\<lparr>tx_data := del_grants P (tx_data t)\<rparr>)" for P
    using wf by (simp add: tx_wf_def del_grants_def)
  with eq show "tx_wf (t\<lparr>tx_data := ?f (tx_data t)\<rparr>) \<and> ?f (tx_data t) = del_grants (\<lambda>k _. k = gid) (tx_data t)"
    by simp
qed

text \<open>A loop over a map whose body may fail silently: as long as the context is live afterwards, every step took effect.\<close>

lemma loop_refines:
  assumes step: "\<And>x t. \<lbrakk>tx_wf t; tx_mode t = writeTransaction\<rbrakk> \<Longrightarrow>
      tx_frame t (f x t) \<and> tx_wf (f x t) \<and> (live (f x t) \<longrightarrow> tx_data (f x t) = F (tx_now t) x (tx_data t))"
    and "tx_wf t" and "tx_mode t = writeTransaction"
  shows "tx_frame t (fold f xs t) \<and> tx_wf (fold f xs t) \<and>
    (live (fold f xs t) \<longrightarrow> tx_data (fold f xs t) = fold (F (tx_now t)) xs (tx_data t))"
  using assms(2,3)
proof (induction xs arbitrary: t)
  case Nil
  then show ?case using memory.frame_refl by simp
next
  case (Cons x xs)
  note s = step [OF Cons.prems, of x]
  have "tx_mode (f x t) = writeTransaction" "tx_now (f x t) = tx_now t" using s Cons.prems(2) by (simp_all add: tx_frame_def)
  note IH = Cons.IH [OF _ this(1)] and now = this(2)
  have "live (fold f xs (f x t)) \<Longrightarrow> live (f x t)" using IH s live_earlier by blast
  then show ?case using IH s now memory.frame_trans [of t "f x t"] by auto
qed

lemma delete_grants_refines:
  assumes "tx_wf t" and "tx_mode t = writeTransaction"
  shows "tx_frame t (delete_grants P t)" and "tx_wf (delete_grants P t)"
    and "live (delete_grants P t) \<Longrightarrow> tx_data (delete_grants P t) = del_grants (\<lambda>_ g. P g) (tx_data t)"
proof -
  let ?f = "\<lambda>(k, r) t. if P r then snd (mem_DeleteGrant k t) else t"
  let ?F = "\<lambda>now :: time. \<lambda>(k, r) d. if P r then del_grants (\<lambda>k' _. k' = k) d else d"
  have step: "tx_frame u (?f x u) \<and> tx_wf (?f x u) \<and> (live (?f x u) \<longrightarrow> tx_data (?f x u) = ?F (tx_now u) x (tx_data u))"
    if u: "tx_wf u" "tx_mode u = writeTransaction" for x u
  proof -
    obtain v w where vw: "mem_DeleteGrant (fst x) u = (v, w)" by (cases "mem_DeleteGrant (fst x) u")
    note D = memory.refinesD [OF mem_DeleteGrant_refines u(1) vw]
    show ?thesis using D vw u memory.frame_refl by (cases x; cases "P (snd x)") auto
  qed
  have pure: "fold (?F now) xs d = del_grants (\<lambda>k _. \<exists>r. (k, r) \<in> set xs \<and> P r) d" for now xs d
  proof (induction xs arbitrary: d)
    case Nil
    show ?case by (simp add: del_grants_def list_ex_iff case_prod_unfold)
  next
    case (Cons x xs)
    show ?case by (cases x) (auto simp: Cons.IH del_grants_del_grants intro!: arg_cong [where f = "\<lambda>P. del_grants P d"])
  qed
  note L = loop_refines [where f = ?f and F = ?F and xs = "grants (tx_data t)", OF step assms, folded delete_grants_def]
  show "tx_frame t (delete_grants P t)" "tx_wf (delete_grants P t)" using L by simp_all
  have "map_wf (grants (tx_data t))" using assms(1) by (simp add: tx_wf_def)
  then have "del_grants (\<lambda>k _. \<exists>r. (k, r) \<in> set (grants (tx_data t)) \<and> P r) (tx_data t) = del_grants (\<lambda>_ g. P g) (tx_data t)"
    by (intro del_grants_cong) (metis eq_key_imp_eq_value)
  then show "live (delete_grants P t) \<Longrightarrow> tx_data (delete_grants P t) = del_grants (\<lambda>_ g. P g) (tx_data t)"
    using L by (simp add: pure)
qed

lemma mem_write_Inr: "mem_write t = (Inr v, u) \<Longrightarrow> tx_mode t = writeTransaction \<and> u = t\<lparr>tx_polls := Suc (tx_polls t)\<rparr>"
  by (cases rule: poll_cases [of t]) (auto simp: mem_write_def tx_bind_def split: if_splits)

text \<open>A computation that first checks for a write transaction needs to be followed only in one.\<close>

lemma guarded_refines:
  assumes "\<And>t r t'. \<lbrakk>tx_wf t; tx_mode t = writeTransaction; m t = (r, t')\<rbrakk> \<Longrightarrow>
      tx_frame t t' \<and> tx_wf t' \<and> (live t' \<longrightarrow> (r, tx_data t') = (Inr (), g (tx_now t) (tx_data t)))"
  shows "memory.refines (tx_bind mem_write (\<lambda>_. m)) (\<lambda>mode now. tx_bind (abs_write mode) (\<lambda>_. abs_modify (g now)))"
  unfolding memory.refines_def
proof (intro allI impI)
  fix t r t'
  assume wf: "tx_wf t" and run: "tx_bind mem_write (\<lambda>_. m) t = (r, t')"
  obtain w u where w: "mem_write t = (w, u)" by (cases "mem_write t")
  note W = memory.refinesD [OF mem_write_refines wf w]
  show "tx_frame t t' \<and> tx_wf t' \<and>
      (live t' \<longrightarrow> tx_bind (abs_write (tx_mode t)) (\<lambda>_. abs_modify (g (tx_now t))) (tx_data t) = (r, tx_data t'))"
  proof (cases w)
    case (Inl e)
    then show ?thesis using run w W by (auto simp: tx_bind_def)
  next
    case (Inr v)
    with w have mode: "tx_mode t = writeTransaction" and u: "u = t\<lparr>tx_polls := Suc (tx_polls t)\<rparr>"
      using mem_write_Inr by blast+
    have "m u = (r, t')" using run w Inr by (simp add: tx_bind_def)
    from assms [OF W(2) _ this] have M: "tx_frame u t'" "tx_wf t'"
      "live t' \<Longrightarrow> (r, tx_data t') = (Inr (), g (tx_now t) (tx_data t))" using mode by (simp_all add: u)
    then show ?thesis using memory.frame_trans [OF W(1) M(1)] mode by auto
  qed
qed

definition mem_delete_session_body :: "string \<Rightarrow> transaction \<Rightarrow> transaction" where
  "mem_delete_session_body sid t =
     (let u = delete_grants (\<lambda>r. gr_SessionID r = sid) (t\<lparr>tx_data := sessions_update (AList.delete sid) (tx_data t)\<rparr>)
      in u\<lparr>tx_data := receipts_update (filter (\<lambda>(k, r). rc_SessionID r \<noteq> sid)) (tx_data u)\<rparr>)"

lemma mem_delete_session_body:
  assumes wf: "tx_wf t" and mode: "tx_mode t = writeTransaction"
  shows "tx_frame t (mem_delete_session_body sid t)" and "tx_wf (mem_delete_session_body sid t)"
    and "live (mem_delete_session_body sid t) \<Longrightarrow>
      tx_data (mem_delete_session_body sid t) = drop_sessions (\<lambda>k. k = sid) (tx_data t)"
proof -
  define t1 where "t1 = t\<lparr>tx_data := sessions_update (AList.delete sid) (tx_data t)\<rparr>"
  define u where "u = delete_grants (\<lambda>r. gr_SessionID r = sid) t1"
  have t1: "tx_wf t1" "tx_mode t1 = writeTransaction" "tx_frame t t1"
    using wf mode by (simp_all add: t1_def tx_wf_def tx_frame_def)
  note G = delete_grants_refines [OF t1(1,2), of "\<lambda>r. gr_SessionID r = sid", folded u_def]
  have eq: "mem_delete_session_body sid t = u\<lparr>tx_data := receipts_update (filter (\<lambda>(k, r). rc_SessionID r \<noteq> sid)) (tx_data u)\<rparr>"
    by (simp add: mem_delete_session_body_def u_def t1_def Let_def)
  have fr: "tx_frame u (mem_delete_session_body sid t)" by (simp add: eq tx_frame_def)
  show "tx_frame t (mem_delete_session_body sid t)"
    using memory.frame_trans [OF memory.frame_trans [OF t1(3) G(1)] fr] .
  show "tx_wf (mem_delete_session_body sid t)" using G(2) by (simp add: eq tx_wf_def)
  assume "live (mem_delete_session_body sid t)"
  then have "live u" using fr live_earlier by blast
  then have "tx_data u = del_grants (\<lambda>_ g. gr_SessionID g = sid) (sessions_update (AList.delete sid) (tx_data t))"
    using G(3) by (simp add: t1_def)
  moreover have "AList.delete sid xs = filter (\<lambda>(k, _). k \<noteq> sid) xs" for xs :: "(string \<times> SessionRecord) list"
    by (auto simp: AList.delete_eq intro: filter_cong)
  ultimately show "tx_data (mem_delete_session_body sid t) = drop_sessions (\<lambda>k. k = sid) (tx_data t)"
    by (simp add: eq drop_sessions_def del_grants_def Let_def)
qed

lemma mem_DeleteSession_eq: "mem_DeleteSession sid = tx_bind mem_write (\<lambda>_ t. (Inr (), mem_delete_session_body sid t))"
  by (rule ext) (simp add: mem_DeleteSession_def mem_delete_session_body_def mem_modify_def tx_bind_def Let_def
      split: prod.split sum.split)

lemma mem_DeleteSession_refines:
  "memory.refines (mem_DeleteSession sid) (\<lambda>m _. tx_bind (abs_write m) (\<lambda>_. abs_modify (drop_sessions (\<lambda>k. k = sid))))"
  unfolding mem_DeleteSession_eq
  by (rule guarded_refines [where g = "\<lambda>_. drop_sessions (\<lambda>k. k = sid)"]) (auto dest: mem_delete_session_body)

lemma wf_exists_entry:
  assumes "map_wf m"
  shows "(\<exists>v. (k, v) \<in> set m \<and> P v) \<longleftrightarrow> (case map_of m k of None \<Rightarrow> False | Some v \<Rightarrow> P v)"
proof (cases "map_of m k")
  case None
  then show ?thesis by (metis map_of_eq_None_iff fst_conv image_eqI option.simps(4))
next
  case (Some v)
  then show ?thesis using assms map_of_SomeD [OF Some] by (auto dest: eq_key_imp_eq_value)
qed

lemma drop_sessions_None: "drop_sessions (\<lambda>_. False) d = d"
  by (simp add: drop_sessions_def del_grants_def list_ex_iff case_prod_unfold)

lemma prune_sessions_refines:
  assumes "tx_wf t" and "tx_mode t = writeTransaction"
  shows "tx_frame t (prune_sessions t)" and "tx_wf (prune_sessions t)"
    and "live (prune_sessions t) \<Longrightarrow>
      tx_data (prune_sessions t) = drop_sessions (expired_session (tx_now t) (tx_data t)) (tx_data t)"
proof -
  let ?f = "\<lambda>(k, r) t. if \<not> sr_ExpiresAt r > tx_now t then snd (mem_DeleteSession k t) else t"
  let ?F = "\<lambda>now. \<lambda>(k, r) d. if \<not> sr_ExpiresAt r > now then drop_sessions (\<lambda>k'. k' = k) d else d"
  have step: "tx_frame u (?f x u) \<and> tx_wf (?f x u) \<and> (live (?f x u) \<longrightarrow> tx_data (?f x u) = ?F (tx_now u) x (tx_data u))"
    if u: "tx_wf u" "tx_mode u = writeTransaction" for x u
  proof -
    obtain v w where vw: "mem_DeleteSession (fst x) u = (v, w)" by (cases "mem_DeleteSession (fst x) u")
    note D = memory.refinesD [OF mem_DeleteSession_refines u(1) vw]
    show ?thesis using D vw u memory.frame_refl by (cases x; cases "sr_ExpiresAt (snd x) > tx_now u") auto
  qed
  have pure: "fold (?F now) xs d = drop_sessions (\<lambda>k. \<exists>r. (k, r) \<in> set xs \<and> \<not> sr_ExpiresAt r > now) d" for now xs d
  proof (induction xs arbitrary: d)
    case Nil
    show ?case by (simp add: drop_sessions_None)
  next
    case (Cons x xs)
    show ?case
      by (cases x) (auto simp: Cons.IH drop_sessions_drop_sessions intro!: arg_cong [where f = "\<lambda>P. drop_sessions P d"])
  qed
  note L = loop_refines [where f = ?f and F = ?F and xs = "sessions (tx_data t)", OF step assms, folded prune_sessions_def]
  show "tx_frame t (prune_sessions t)" "tx_wf (prune_sessions t)" using L by simp_all
  have "map_wf (sessions (tx_data t))" using assms(1) by (simp add: tx_wf_def)
  then have "(\<lambda>k. \<exists>r. (k, r) \<in> set (sessions (tx_data t)) \<and> \<not> sr_ExpiresAt r > now) = expired_session now (tx_data t)" for now
    by (simp add: fun_eq_iff expired_session_def wf_exists_entry)
  then show "live (prune_sessions t) \<Longrightarrow>
      tx_data (prune_sessions t) = drop_sessions (expired_session (tx_now t) (tx_data t)) (tx_data t)"
    using L by (simp add: pure)
qed

definition mem_prune_body :: "transaction \<Rightarrow> transaction" where
  "mem_prune_body t =
     (let u = prune_sessions t;
          v = delete_grants (\<lambda>r. \<not> gr_ExpiresAt r > tx_now u) u
      in v\<lparr>tx_data := receipts_update (filter (\<lambda>(k, r). rc_ExpiresAt r > tx_now v)) (tx_data v)\<rparr>)"

lemma mem_prune_body:
  assumes wf: "tx_wf t" and mode: "tx_mode t = writeTransaction"
  shows "tx_frame t (mem_prune_body t)" and "tx_wf (mem_prune_body t)"
    and "live (mem_prune_body t) \<Longrightarrow> tx_data (mem_prune_body t) = prune_records (tx_now t) (tx_data t)"
proof -
  define u where "u = prune_sessions t"
  define v where "v = delete_grants (\<lambda>r. \<not> gr_ExpiresAt r > tx_now u) u"
  note S = prune_sessions_refines [OF wf mode, folded u_def]
  have u: "tx_mode u = writeTransaction" "tx_now u = tx_now t" using S(1) mode by (simp_all add: tx_frame_def)
  note G = delete_grants_refines [OF S(2) u(1), of "\<lambda>r. \<not> gr_ExpiresAt r > tx_now u", folded v_def]
  have v: "tx_now v = tx_now t" using G(1) u by (simp add: tx_frame_def)
  have eq: "mem_prune_body t = v\<lparr>tx_data := receipts_update (filter (\<lambda>(k, r). rc_ExpiresAt r > tx_now t)) (tx_data v)\<rparr>"
    using v by (simp add: mem_prune_body_def Let_def flip: u_def v_def)
  have fr: "tx_frame v (mem_prune_body t)" by (simp add: eq tx_frame_def)
  show "tx_frame t (mem_prune_body t)" using memory.frame_trans [OF memory.frame_trans [OF S(1) G(1)] fr] .
  show "tx_wf (mem_prune_body t)" using G(2) by (simp add: eq tx_wf_def)
  assume "live (mem_prune_body t)"
  then have lv: "live v" using fr live_earlier by blast
  then have "live u" using G(1) live_earlier by blast
  with lv show "tx_data (mem_prune_body t) = prune_records (tx_now t) (tx_data t)"
    using G(3) S(3) u by (simp add: eq prune_records_def Let_def)
qed

lemma mem_PruneExpired_eq: "mem_PruneExpired = tx_bind mem_write (\<lambda>_ t. (Inr (), mem_prune_body t))"
  by (rule ext) (simp add: mem_PruneExpired_def mem_prune_body_def mem_modify_def tx_bind_def Let_def
      split: prod.split sum.split)

lemma mem_PruneExpired_refines:
  "memory.refines mem_PruneExpired (\<lambda>m n. tx_bind (abs_write m) (\<lambda>_. abs_modify (prune_records n)))"
  unfolding mem_PruneExpired_eq by (rule guarded_refines) (auto dest: mem_prune_body)

section \<open>The adapter keeps its contract\<close>

lemma mem_put_refines:
  assumes "\<And>t. tx_wf t \<Longrightarrow> tx_wf (t\<lparr>tx_data := f (tx_data t)\<rparr>)"
  shows "memory.refines (tx_bind (bounded marshal v) (\<lambda>_. tx_bind mem_write (\<lambda>_. mem_modify f)))
    (\<lambda>m _. tx_bind (bounded marshal v) (\<lambda>_. tx_bind (abs_write m) (\<lambda>_. abs_modify f)))"
  using assms by (intro memory.refines_bind memory.refines_bounded mem_write_refines mem_modify_refines) simp

lemma mem_insert_refines:
  assumes "\<And>t. tx_wf t \<Longrightarrow> tx_wf (t\<lparr>tx_data := f (tx_data t)\<rparr>)"
  shows "memory.refines (tx_bind (bounded marshal v) (\<lambda>_. tx_bind mem_write (\<lambda>_ t.
        if c (tx_data t) then tx_fail e t else mem_modify f t)))
    (\<lambda>m _. tx_bind (bounded marshal v) (\<lambda>_. tx_bind (abs_write m) (\<lambda>_ d. if c d then tx_fail e d else abs_modify f d)))"
  using assms
  by (intro memory.refines_bind memory.refines_bounded mem_write_refines mem_conditional_refines mem_modify_refines) simp

lemma mem_Sessions_refines:
  "memory.refines (mem_Sessions limit) (\<lambda>_ _ d.
     if limit < 0 \<or> int (length (sessions d)) > limit then tx_fail ErrCapacity d else abs_read sorted_sessions d)"
proof -
  have "mem_Sessions limit = (\<lambda>t. if limit < 0 \<or> int (length (sessions (tx_data t))) > limit then tx_fail ErrCapacity t
      else mem_read sorted_sessions t)"
    by (rule ext) (simp add: mem_Sessions_def mem_read_def sorted_sessions_def Let_def)
  then show ?thesis
    using mem_conditional_refines [OF mem_read_refines [of sorted_sessions],
        where c = "\<lambda>d. limit < 0 \<or> int (length (sessions d)) > limit" and e = ErrCapacity] by simp
qed

end
