(* ===== verification/Memory_Adapter.thy ===== *)
theory Memory_Adapter
  imports Memory_Refinement Invitation
begin

text \<open>
  The in-memory adapter meets the adapter contract, and its \<^verbatim>\<open>run\<close> the all-or-nothing contract of
  \<^verbatim>\<open>storage.Store\<close>; so the access service over it refines the service over the abstract store.
\<close>

section \<open>The adapter contract\<close>

interpretation memory: store_adapter tx_frame live tx_wf tx_mode tx_now tx_data "memory_tx marshal" marshal for marshal
proof unfold_locales
  show "memory.refines (Tx_Now (memory_tx marshal)) (\<lambda>m n. Tx_Now (abstract_tx marshal m n))"
    by (simp add: memory.refines_def memory_tx_def abstract_tx_def mem_Now_def tx_return_def memory.frame_refl)
  show "memory.refines (Tx_Session (memory_tx marshal) sid) (\<lambda>m n. Tx_Session (abstract_tx marshal m n) sid)" for sid
    by (simp add: memory_tx_def abstract_tx_def mem_Session_def mem_read_refines)
  show "memory.refines (Tx_Sessions (memory_tx marshal) limit) (\<lambda>m n. Tx_Sessions (abstract_tx marshal m n) limit)" for limit
    by (simp add: memory_tx_def abstract_tx_def mem_Sessions_refines)
  show "memory.refines (Tx_PutSession (memory_tx marshal) r) (\<lambda>m n. Tx_PutSession (abstract_tx marshal m n) r)" for r
    using mem_put_refines [of "put_session r" marshal "StoredSession r"]
    by (simp add: memory_tx_def abstract_tx_def mem_PutSession_def tx_wf_def put_session_def [abs_def])
  show "memory.refines (Tx_DeleteSession (memory_tx marshal) sid) (\<lambda>m n. Tx_DeleteSession (abstract_tx marshal m n) sid)" for sid
    by (simp add: memory_tx_def abstract_tx_def mem_DeleteSession_refines)
  show "memory.refines (Tx_Grant (memory_tx marshal) l) (\<lambda>m n. Tx_Grant (abstract_tx marshal m n) l)" for l
    by (simp add: memory_tx_def abstract_tx_def mem_Grant_def lookup_grant_def mem_read_refines)
  show "memory.refines (Tx_PutGrant (memory_tx marshal) g) (\<lambda>m n. Tx_PutGrant (abstract_tx marshal m n) g)" for g
    using mem_insert_refines [of "put_grant g" marshal "StoredGrant g" "\<lambda>d. grant_conflict d g" ErrConflict]
    unfolding memory_tx_def abstract_tx_def Tx.simps mem_PutGrant_def tx_wf_def put_grant_def [abs_def] by simp
  show "memory.refines (Tx_DeleteGrant (memory_tx marshal) gid) (\<lambda>m n. Tx_DeleteGrant (abstract_tx marshal m n) gid)" for gid
    by (simp add: memory_tx_def abstract_tx_def mem_DeleteGrant_refines)
  show "memory.refines (Tx_Receipt (memory_tx marshal) k) (\<lambda>m n. Tx_Receipt (abstract_tx marshal m n) k)" for k
    by (simp add: memory_tx_def abstract_tx_def mem_Receipt_def mem_read_refines)
  show "memory.refines (Tx_PutReceipt (memory_tx marshal) c) (\<lambda>m n. Tx_PutReceipt (abstract_tx marshal m n) c)" for c
  proof -
    have eq: "mem_PutReceipt marshal c = tx_bind (bounded marshal (StoredReceipt c)) (\<lambda>_. tx_bind mem_write (\<lambda>_ t.
        if \<not> has_key (rc_SessionID c) (sessions (tx_data t)) \<or> has_key (Key c) (receipts (tx_data t)) then tx_fail ErrConflict t
        else mem_modify (put_receipt c) t))"
      unfolding mem_PutReceipt_def put_receipt_def [abs_def]
      by (intro arg_cong2 [where f = tx_bind] refl ext) auto
    show ?thesis
      using mem_insert_refines [of "put_receipt c" marshal "StoredReceipt c"
          "\<lambda>d. \<not> has_key (rc_SessionID c) (sessions d) \<or> has_key (Key c) (receipts d)" ErrConflict]
      by (simp add: memory_tx_def abstract_tx_def eq tx_wf_def put_receipt_def)
  qed
  show "memory.refines (Tx_Counts (memory_tx marshal)) (\<lambda>m n. Tx_Counts (abstract_tx marshal m n))"
    by (simp add: memory_tx_def abstract_tx_def mem_Counts_def count_records_def [abs_def] mem_read_refines)
  show "memory.refines (Tx_PruneExpired (memory_tx marshal)) (\<lambda>m n. Tx_PruneExpired (abstract_tx marshal m n))"
    by (simp add: memory_tx_def abstract_tx_def mem_PruneExpired_refines)
  show "memory.refines (Tx_Namespace (memory_tx marshal)) (\<lambda>m n. Tx_Namespace (abstract_tx marshal m n))"
    by (simp add: memory_tx_def abstract_tx_def mem_Namespace_def mem_read_refines)
  show "memory.refines (Tx_PutNamespace (memory_tx marshal) ns) (\<lambda>m n. Tx_PutNamespace (abstract_tx marshal m n) ns)" for ns
    using mem_put_refines [of "put_namespace ns" marshal "StoredNamespace ns"]
    by (simp add: memory_tx_def abstract_tx_def mem_PutNamespace_def tx_wf_def put_namespace_def [abs_def])
qed

section \<open>All or nothing\<close>

definition mem_wf :: "mem_store \<Rightarrow> bool" where
  "mem_wf s \<longleftrightarrow> map_wf (sessions (ms_data s)) \<and> map_wf (grants (ms_data s)) \<and> map_wf (locators (ms_data s)) \<and>
     map_wf (receipts (ms_data s))"

lemma mem_run_error: "mem_run mode ctx now fn s = ((Some e, a), s') \<Longrightarrow> s' = s"
  by (auto simp: mem_run_def split: option.splits if_splits prod.splits sum.splits)

lemma mem_run_commit:
  assumes wf: "mem_wf s" and run: "mem_run mode ctx now fn s = ((None, a), s')" and ref: "memory.refines fn p"
  shows "\<exists>x d. a = Some x \<and> p mode now (ms_data s) = (Inr x, d) \<and> (mode = writeTransaction \<longrightarrow> ms_data s' = d \<and> mem_wf s')"
proof -
  let ?t = "\<lparr>tx_ctx = ctx, tx_polls = 1, tx_data = ms_data s, tx_mode = mode, tx_now = now\<rparr>"
  obtain r t where rt: "fn ?t = (r, t)" by (cases "fn ?t")
  obtain x where x: "r = Inr x" "a = Some x" "fst (poll t) = Inr ()"
    "s' = (if mode = writeTransaction then s\<lparr>ms_data := tx_data t\<rparr> else s)"
    using run rt by (auto simp: mem_run_def split: option.splits if_splits sum.splits)
  have "tx_wf ?t" using wf by (simp add: tx_wf_def mem_wf_def)
  note D = memory.refinesD [OF ref this rt]
  have "live t" using x(3) by (cases rule: poll_cases [of t]) simp_all
  with D(3) have "p mode now (ms_data s) = (Inr x, tx_data t)" by (simp add: x(1))
  moreover have "mem_wf s'" if "mode = writeTransaction" using D(2) that x(4) by (simp add: tx_wf_def mem_wf_def)
  ultimately show ?thesis using x(2,4) by (intro exI [of _ x] exI [of _ "tx_data t"]) simp
qed

interpretation memory: atomic_store tx_frame live tx_wf tx_mode tx_now tx_data "memory_tx marshal" marshal
  mem_Update mem_View ms_data mem_wf for marshal
proof unfold_locales
  fix ctx now fn s e a s'
  assume "mem_Update ctx now fn s = ((Some e, a), s')"
  then show "s' = s" unfolding mem_Update_def by (rule mem_run_error)
next
  fix s ctx now fn a s' p
  assume "mem_wf s" "mem_Update ctx now fn s = ((None, a), s')" "memory.refines fn p"
  from mem_run_commit [OF this(1) this(2) [unfolded mem_Update_def] this(3)]
  show "\<exists>x. a = Some x \<and> p writeTransaction now (ms_data s) = (Inr x, ms_data s') \<and> mem_wf s'" by auto
next
  fix ctx now fn s r s'
  assume "mem_View ctx now fn s = (r, s')"
  then show "s' = s"
    by (auto simp: mem_View_def mem_run_def split: option.splits if_splits prod.splits sum.splits)
next
  fix s ctx now fn a s' p
  assume "mem_wf s" "mem_View ctx now fn s = ((None, a), s')" "memory.refines fn p"
  from mem_run_commit [OF this(1) this(2) [unfolded mem_View_def] this(3)]
  show "\<exists>x d. a = Some x \<and> p readTransaction now (ms_data s) = (Inr x, d)" by auto
qed

end
