(* ===== verification/Access_Requests.thy ===== *)
theory Access_Requests
  imports Access_Effects Memory_Adapter
begin

text \<open>
  The access authority as its clients drive it: a request names an operation of the service with its inputs, and is
  served by some service instance over the shared in-memory store, with its own context and clock reading.
  Instances of several writers, current and superseded, may take turns in any order.
\<close>

section \<open>Requests\<close>

record access_env =
  env_marshal :: marshaller
  env_lib :: jwt_library
  env_lex :: lexicon
  env_redeem :: redeem_library
  env_encode :: "ResolvedInvitation \<Rightarrow> access_error + bytes"

datatype access_request =
    CreateRequest "string list" "bytes option" "bytes option"
  | GetRequest string
  | DeleteRequest string
  | AuthorizeRequest string string
  | PublisherRequest string string "bytes option"
  | SubscriberRequest string string "bytes option"
  | RenewRequest string string "bytes option"
  | RelayStateRequest string RelayState
  | RelayWriterRequest string string u64
  | MetadataRequest string
  | ReadyRequest
  | InviteRequest string string InvitationOptions "nat \<Rightarrow> allocation_draw"
  | InspectRequest string
  | RedeemRequest string string string "bytes option"
  | StartRequest bytes Config "bytes option"
  | ResetRequest int "bytes option"

definition status :: "(access_error + 'a) \<times> 's \<Rightarrow> access_error option \<times> 's" where
  "status x = (case x of (Inl e, st) \<Rightarrow> (Some e, st) | (Inr _, st) \<Rightarrow> (None, st))"

definition serve ::
  "access_env \<Rightarrow> Service \<Rightarrow> go_context \<Rightarrow> time \<Rightarrow> access_request \<Rightarrow> mem_store \<Rightarrow> access_error option \<times> mem_store" where
  "serve env s ctx now req st =
     (case req of
        CreateRequest required d1 d2 \<Rightarrow>
          status (CreateContext (mem_Update ctx now) (memory_tx (env_marshal env)) (env_lib env) s required d1 d2 st)
      | GetRequest sid \<Rightarrow> status (GetContext (mem_Update ctx now) (memory_tx (env_marshal env)) s sid st)
      | DeleteRequest sid \<Rightarrow>
          (case DeleteContext (mem_Update ctx now) (memory_tx (env_marshal env)) s sid st of ((_, err), st') \<Rightarrow> (err, st'))
      | AuthorizeRequest sid encoded \<Rightarrow>
          status (Authorize (mem_View ctx now) (memory_tx (env_marshal env)) (env_lib env) s sid encoded st)
      | PublisherRequest sid bus draw \<Rightarrow>
          status (IssuePublisherTokenContext (mem_Update ctx now) (memory_tx (env_marshal env)) (env_lib env) s sid bus draw st)
      | SubscriberRequest sid bus draw \<Rightarrow>
          status (IssueSubscriberTokenContext (mem_Update ctx now) (memory_tx (env_marshal env)) (env_lib env) s sid bus draw st)
      | RenewRequest sid credential draw \<Rightarrow>
          status (RenewOwner (mem_Update ctx now) (memory_tx (env_marshal env)) (env_lib env) s sid credential draw st)
      | RelayStateRequest sid snapshot \<Rightarrow>
          status (ApplyRelayStateContext (mem_Update ctx now) (memory_tx (env_marshal env)) s sid snapshot st)
      | RelayWriterRequest sid epoch expected \<Rightarrow>
          status (AcquireRelayWriter (mem_Update ctx now) (memory_tx (env_marshal env)) s sid epoch expected st)
      | MetadataRequest sid \<Rightarrow> status (Metadata (mem_View ctx now) (memory_tx (env_marshal env)) s sid st)
      | ReadyRequest \<Rightarrow> status (svc_Ready (mem_View ctx now) (memory_tx (env_marshal env)) s st)
      | InviteRequest sid bus options draws \<Rightarrow>
          status (CreateInvitationWithOptionsContext (mem_Update ctx now) (memory_tx (env_marshal env)) (env_lex env) s sid bus options draws st)
      | InspectRequest locator \<Rightarrow>
          status (InspectInvitationContext (mem_View ctx now) (memory_tx (env_marshal env)) (env_lex env) (unicode_fold (env_redeem env)) s locator st)
      | RedeemRequest locator code key draw \<Rightarrow>
          status (redeem (mem_Update ctx now) (memory_tx (env_marshal env)) (env_lex env) (env_lib env) (env_redeem env) (env_encode env) s
            locator code key draw st)
      | StartRequest secret config draw \<Rightarrow>
          status (NewService (mem_Update ctx now) (memory_tx (env_marshal env)) secret config draw st)
      | ResetRequest limit draw \<Rightarrow>
          status (ResetRestoredStore (mem_Update ctx now) (memory_tx (env_marshal env)) limit draw st))"

text \<open>What the callback of a request did to the records when the request committed.\<close>

definition request_effect :: "access_env \<Rightarrow> Service \<Rightarrow> time \<Rightarrow> access_request \<Rightarrow> records \<Rightarrow> records \<Rightarrow> bool" where
  "request_effect env s now req d d' \<longleftrightarrow>
     (let tx = abstract_tx (env_marshal env) writeTransaction now in
      case req of
        CreateRequest required d1 d2 \<Rightarrow>
          (\<exists>buses a. validateRequiredBuses (if required = [] then [''application'', ''microphone''] else required) = Inr buses \<and>
             create_tx tx (env_lib env) s buses d1 d2 d = (Inr a, d'))
      | GetRequest sid \<Rightarrow> (\<exists>a. get_tx tx s sid d = (Inr a, d'))
      | DeleteRequest sid \<Rightarrow> (\<exists>a. delete_tx tx s sid d = (Inr a, d'))
      | PublisherRequest sid bus draw \<Rightarrow> (\<exists>a. issue_tx tx (env_lib env) s sid bus RoleSource draw d = (Inr a, d'))
      | SubscriberRequest sid bus draw \<Rightarrow> (\<exists>a. issue_tx tx (env_lib env) s sid bus RoleSubscriber draw d = (Inr a, d'))
      | RenewRequest sid credential draw \<Rightarrow> (\<exists>a. renew_tx tx (env_lib env) s sid credential draw d = (Inr a, d'))
      | RelayStateRequest sid snapshot \<Rightarrow> (\<exists>a. apply_tx tx s sid (normalizeRelaySnapshot snapshot) d = (Inr a, d'))
      | RelayWriterRequest sid epoch expected \<Rightarrow> (\<exists>a. acquire_tx tx s sid epoch expected d = (Inr a, d'))
      | InviteRequest sid bus options draws \<Rightarrow>
          (\<exists>policy a. invite_tx tx (env_lex env) s policy sid bus draws d = (Inr a, d'))
      | RedeemRequest locator code key draw \<Rightarrow>
          (\<exists>a. redeem_tx tx (env_lex env) (env_lib env) (env_redeem env) (env_encode env) s locator
             (effective_code (env_redeem env) locator code) key draw d = (Inr a, d'))
      | _ \<Rightarrow> False)"

section \<open>A request commits the effect of its callback or leaves the store alone\<close>

lemma update_cases:
  assumes "mem_wf st" and "mem_Update ctx now fn st = (r, st')" and "memory.refines fn p"
  obtains (rolled) e a where "r = (Some e, a)" "st' = st"
    | (committed) x where "r = (None, Some x)" "p writeTransaction now (ms_data st) = (Inr x, ms_data st')"
proof (cases "fst r")
  case None
  then obtain a where r: "r = (None, a)" by (cases r) auto
  from memory.commit [OF assms(1) assms(2) [unfolded r] assms(3)] obtain x where
    "a = Some x" "p writeTransaction now (ms_data st) = (Inr x, ms_data st')" by blast
  then show ?thesis using committed r by simp
next
  case (Some e)
  then obtain a where r: "r = (Some e, a)" by (cases r) auto
  then show ?thesis using rolled memory.rollback assms(2) by metis
qed

lemma status_returned_update:
  assumes wf: "mem_wf st" and run: "status (returned (mem_Update ctx now (svc_update (memory_tx marshal) s fn) st)) = (err, st')"
    and ref: "memory.refines fn p"
  shows "(st' = st \<and> err \<noteq> None) \<or>
    (err = None \<and> is_writer s (ms_data st) \<and> (\<exists>a. p writeTransaction now (renewed s now (ms_data st)) = (Inr a, ms_data st')))"
proof (cases "mem_Update ctx now (svc_update (memory_tx marshal) s fn) st")
  case (Pair r st1)
  then have st1: "st1 = st'" using run by (auto simp: status_def returned_def split: prod.splits option.splits sum.splits)
  show ?thesis
    using wf Pair memory.ref_svc_update [OF ref]
  proof (cases rule: update_cases)
    case (rolled e a)
    then show ?thesis using run Pair by (auto simp: status_def returned_def)
  next
    case (committed x)
    then show ?thesis using run Pair st1 by (simp add: status_def returned_def svc_update_run)
  qed
qed

lemma status_view:
  "status (returned (mem_View ctx now fn st)) = (err, st') \<Longrightarrow> st' = st"
proof (cases "mem_View ctx now fn st")
  case (Pair r st1)
  assume "status (returned (mem_View ctx now fn st)) = (err, st')"
  then show ?thesis
    using Pair memory.view_only [OF Pair] by (auto simp: status_def returned_def split: prod.splits option.splits sum.splits)
qed

lemma delete_status:
  assumes wf: "mem_wf st"
    and run: "(case DeleteContext (mem_Update ctx now) (memory_tx marshal) s sid st of ((_, err), st') \<Rightarrow> (err, st')) = (err, st')"
  shows "(st' = st \<and> err \<noteq> None) \<or>
    (err = None \<and> is_writer s (ms_data st) \<and>
     (\<exists>a. delete_tx (abstract_tx marshal writeTransaction now) s sid (renewed s now (ms_data st)) = (Inr a, ms_data st')))"
proof (cases "mem_Update ctx now (svc_update (memory_tx marshal) s (delete_tx (memory_tx marshal) s sid)) st")
  case (Pair r st1)
  show ?thesis
    using wf Pair memory.ref_svc_update [OF memory.ref_delete]
  proof (cases rule: update_cases)
    case (rolled e a)
    then show ?thesis using run Pair by (auto simp: DeleteContext_def)
  next
    case (committed x)
    then show ?thesis using run Pair by (simp add: DeleteContext_def svc_update_run)
  qed
qed

definition administrative :: "access_request \<Rightarrow> bool" where
  "administrative req \<longleftrightarrow> (case req of StartRequest _ _ _ \<Rightarrow> True | ResetRequest _ _ \<Rightarrow> True | _ \<Rightarrow> False)"

lemma serve_cases:
  assumes wf: "mem_wf st" and run: "serve env s ctx now req st = (err, st')" and ordinary: "\<not> administrative req"
  shows "st' = st \<or>
    (err = None \<and> is_writer s (ms_data st) \<and> request_effect env s now req (renewed s now (ms_data st)) (ms_data st'))"
proof (cases req)
  case (CreateRequest required d1 d2)
  then show ?thesis using run status_returned_update [OF wf _ memory.ref_create]
    by (fastforce simp: serve_def request_effect_def CreateContext_def status_def Let_def split: sum.splits)
next
  case (GetRequest sid)
  then show ?thesis using run status_returned_update [OF wf _ memory.ref_get]
    by (fastforce simp: serve_def request_effect_def GetContext_def)
next
  case (DeleteRequest sid)
  then show ?thesis using delete_status [OF wf] run by (fastforce simp: serve_def request_effect_def)
next
  case (PublisherRequest sid bus draw)
  then show ?thesis using run status_returned_update [OF wf _ memory.ref_issue]
    by (fastforce simp: serve_def request_effect_def IssuePublisherTokenContext_def issue_def)
next
  case (SubscriberRequest sid bus draw)
  then show ?thesis using run status_returned_update [OF wf _ memory.ref_issue]
    by (fastforce simp: serve_def request_effect_def IssueSubscriberTokenContext_def issue_def)
next
  case (RenewRequest sid credential draw)
  then show ?thesis using run status_returned_update [OF wf _ memory.ref_renew]
    by (fastforce simp: serve_def request_effect_def RenewOwner_def)
next
  case (RelayStateRequest sid snapshot)
  then show ?thesis using run status_returned_update [OF wf _ memory.ref_apply]
    by (fastforce simp: serve_def request_effect_def ApplyRelayStateContext_def status_def split: if_splits)
next
  case (RelayWriterRequest sid epoch expected)
  then show ?thesis using run status_returned_update [OF wf _ memory.ref_acquire]
    by (fastforce simp: serve_def request_effect_def AcquireRelayWriter_def status_def split: if_splits)
next
  case (InviteRequest sid bus options draws)
  then show ?thesis using run status_returned_update [OF wf _ memory.ref_invite]
    by (fastforce simp: serve_def request_effect_def CreateInvitationWithOptionsContext_def status_def split: sum.splits)
next
  case (RedeemRequest locator code key draw)
  then show ?thesis using run status_returned_update [OF wf _ memory.ref_redeem]
    by (fastforce simp: serve_def request_effect_def redeem_def status_def Let_def split: if_splits)
next
  case (InspectRequest locator)
  then show ?thesis using run status_view
    by (fastforce simp: serve_def InspectInvitationContext_def status_def split: if_splits)
qed (use run ordinary status_view in \<open>fastforce simp: serve_def administrative_def Authorize_def Metadata_def svc_Ready_def\<close>)+

end
