(* ===== verification/Access_Safety.thy ===== *)
theory Access_Safety
  imports Access_Requests
begin

text \<open>
  Safety of the access authority over every history of requests: the records stay consistent and within the configured
  capacities, a writer excludes the others while its lease runs, and a superseded service never writes again.
\<close>

section \<open>Histories\<close>

type_synonym served_request = "Service \<times> go_context \<times> time \<times> access_request"

definition run_requests :: "access_env \<Rightarrow> served_request list \<Rightarrow> mem_store \<Rightarrow> mem_store" where
  "run_requests env H st = fold (\<lambda>(s, ctx, now, req) st. snd (serve env s ctx now req st)) H st"

lemma run_requests_Nil [simp]: "run_requests env [] st = st"
  by (simp add: run_requests_def)

lemma run_requests_Cons [simp]:
  "run_requests env ((s, ctx, now, req) # H) st = run_requests env H (snd (serve env s ctx now req st))"
  by (simp add: run_requests_def)

section \<open>Consistency and capacity\<close>

definition within :: "int \<Rightarrow> int \<Rightarrow> int \<Rightarrow> records \<Rightarrow> bool" where
  "within m i r d \<longleftrightarrow> int (length (sessions d)) \<le> m \<and> int (length (grants d)) \<le> i \<and> int (length (receipts d)) \<le> r"

definition store_inv :: "int \<Rightarrow> int \<Rightarrow> int \<Rightarrow> records \<Rightarrow> bool" where
  "store_inv m i r d \<longleftrightarrow> records_ok d \<and> within m i r d"

lemma length_update_key:
  "length (AList.update k v al) = (if k \<in> fst ` set al then length al else Suc (length al))"
proof -
  have "length (map fst (AList.update k v al)) = length (if k \<in> fst ` set al then map fst al else map fst al @ [k])"
    by (simp add: update_keys)
  then show ?thesis by (simp split: if_splits)
qed

lemma length_filter_le_int: "int (length xs) \<le> m \<Longrightarrow> int (length (filter P xs)) \<le> m"
  using length_filter_le [of P xs] by linarith

lemma within_del_grants: "within m i r d \<Longrightarrow> within m i r (del_grants P d)"
  by (simp add: within_def del_grants_def length_filter_le_int)

lemma within_drop_sessions: "within m i r d \<Longrightarrow> within m i r (drop_sessions S d)"
  using within_del_grants [of m i r d "\<lambda>_ g. S (gr_SessionID g)"]
  by (simp add: within_def drop_sessions_def Let_def length_filter_le_int)

lemma within_prune: "within m i r d \<Longrightarrow> within m i r (prune_records now d)"
  using within_del_grants [OF within_drop_sessions [of m i r d "expired_session now d"], of "\<lambda>_ g. \<not> gr_ExpiresAt g > now"]
  by (simp add: within_def prune_records_def Let_def length_filter_le_int)

lemma store_inv_renewed: "store_inv m i r d \<Longrightarrow> store_inv m i r (renewed s now d)"
proof -
  assume inv: "store_inv m i r d"
  let ?d = "put_namespace ((ns_record d)\<lparr>LeaseExpiresAt := now + WriterLeaseDuration (svc_config s)\<rparr>) d"
  have "records_ok ?d" "within m i r ?d"
    using inv by (simp_all add: store_inv_def records_ok_put_namespace) (simp add: within_def put_namespace_def)
  then show ?thesis by (simp add: store_inv_def renewed_def records_ok_prune within_prune)
qed

lemma store_inv_put_session:
  assumes inv: "store_inv m i r d" and room: "has_key (sr_ID x) (sessions d) \<or> int (length (sessions d)) < m"
  shows "store_inv m i r (put_session x d)"
proof -
  have "within m i r (put_session x d)"
    using inv room by (auto simp: store_inv_def within_def put_session_def length_update_key has_key_def map_of_eq_None_iff)
  then show ?thesis using inv by (simp add: store_inv_def records_ok_put_session)
qed

lemma store_inv_session_step:
  assumes inv: "store_inv m i r d" and step: "session_step s now sid d d'"
  shows "store_inv m i r d'"
proof -
  from step obtain x where x: "live_session s now d sid x" "d' = d \<or> (\<exists>x'. sr_ID x' = sr_ID x \<and> d' = put_session x' d)"
    by (auto simp: session_step_def)
  have "sr_ID x = sid" "has_key sid (sessions d)"
    using inv x(1) by (auto simp: store_inv_def records_ok_def sessions_ok_def live_session_def has_key_def)
  then show ?thesis using x(2) inv store_inv_put_session by metis
qed

definition capacities :: "int \<Rightarrow> int \<Rightarrow> int \<Rightarrow> Service \<Rightarrow> bool" where
  "capacities m i r s \<longleftrightarrow> MaxSessions (svc_config s) \<le> m \<and> MaxInvitations (svc_config s) \<le> i \<and> MaxReceipts (svc_config s) \<le> r"

lemma store_inv_create:
  assumes "store_inv m i r d" "capacities m i r s"
    "create_tx (abstract_tx marshal writeTransaction now) lib s buses d1 d2 d = (Inr a, d')"
  shows "store_inv m i r d'"
  using assms by (auto simp: create_effect capacities_def intro!: store_inv_put_session)

lemma store_inv_delete:
  assumes "store_inv m i r d" "delete_tx (abstract_tx marshal writeTransaction now) s sid d = (Inr a, d')"
  shows "store_inv m i r d'"
  using assms by (auto simp: delete_effect store_inv_def records_ok_drop_sessions within_drop_sessions split: if_splits)

lemma store_inv_invite:
  assumes inv: "store_inv m i r d" and cap: "capacities m i r s"
    and run: "invite_tx (abstract_tx marshal writeTransaction now) lx s policy sid bus draws d = (Inr a, d')"
  shows "store_inv m i r d'"
proof -
  from invite_effect [OF run] obtain x where less: "int (length (grants d)) < MaxInvitations (svc_config s)"
    and step: "grant_step x sid bus now a d d'" by auto
  from step obtain g where g: "\<not> grant_conflict d g" "d' = put_grant g d" by (auto simp: grant_step_def)
  have "within m i r (put_grant g d)"
    using inv cap less by (simp add: store_inv_def within_def put_grant_def length_update_key capacities_def)
  then show ?thesis using inv g by (simp add: store_inv_def records_ok_put_grant)
qed

lemma store_inv_redeem:
  assumes inv: "store_inv m i r d" and cap: "capacities m i r s"
    and run: "redeem_tx (abstract_tx marshal writeTransaction now) lx lib rl encode s locator code key draw d = (Inr a, d')"
  shows "store_inv m i r d'"
proof -
  obtain response captured where a: "a = (response, captured)" by (cases a)
  from redeem_effect [OF run [unfolded a]] consider "d' = d"
    | grant session where "consume_step lib rl s encode now locator code key draw response grant session d d'" by blast
  then show ?thesis
  proof cases
    case 1
    then show ?thesis using inv by simp
  next
    case 2
    show ?thesis
    proof (cases "key = []")
      case True
      then have "d' = del_grants (\<lambda>k _. k = gr_ID grant) d" using 2 by (simp add: consume_step_def)
      then show ?thesis using inv by (simp add: store_inv_def records_ok_del_grants within_del_grants)
    next
      case False
      let ?receipt = "new_receipt rl s grant session locator code key response now"
      have d': "d' = del_grants (\<lambda>k _. k = gr_ID grant) (put_receipt ?receipt d)" and
        room: "int (length (receipts d)) < MaxReceipts (svc_config s)" and has: "has_key (rc_SessionID ?receipt) (sessions d)"
        using 2 False by (simp_all add: consume_step_def new_receipt_def)
      have "within m i r (put_receipt ?receipt d)"
        using inv cap room by (simp add: store_inv_def within_def put_receipt_def length_update_key capacities_def)
      then show ?thesis
        using inv d' records_ok_put_receipt [OF _ has] by (simp add: store_inv_def records_ok_del_grants within_del_grants)
    qed
  qed
qed

lemma store_inv_request:
  assumes inv: "store_inv m i r d" and cap: "capacities m i r s" and eff: "request_effect env s now req d d'"
  shows "store_inv m i r d'"
  using eff inv cap unfolding request_effect_def Let_def
  by (cases req)
    (auto intro: store_inv_create store_inv_delete store_inv_invite store_inv_redeem
      store_inv_session_step [OF _ get_effect] store_inv_session_step [OF _ issue_effect] store_inv_session_step [OF _ renew_effect]
      store_inv_session_step [OF _ apply_effect] store_inv_session_step [OF _ acquire_effect])

lemma start_keeps_integrity: "tx_keeps integrity_step (start_tx (abstract_tx marshal writeTransaction now) c draw)"
  unfolding start_tx_def by (intro integrity.keeps_rules abstract_tx_integrity)

lemma NewService_cases:
  assumes wf: "mem_wf st" and run: "NewService (mem_Update ctx now) (memory_tx marshal) secret config draw st = (res, st')"
  shows "(st' = st \<and> (\<exists>e. res = Inl e)) \<or>
    (\<exists>ns. start_tx (abstract_tx marshal writeTransaction now) (config_defaults config) draw (ms_data st) = (Inr ns, ms_data st') \<and>
      res = Inr \<lparr>svc_secret = secret, svc_config = config_defaults config, svc_term = ns_WriterTerm ns, svc_incarnation = ns_Incarnation ns\<rparr>)"
proof (cases "mem_Update ctx now (start_tx (memory_tx marshal) (config_defaults config) draw) st")
  case (Pair r st1)
  show ?thesis
    using wf Pair memory.ref_start
  proof (cases rule: update_cases)
    case (rolled e a)
    then show ?thesis using run Pair by (auto simp: NewService_def returned_def Let_def split: if_splits)
  next
    case (committed x)
    then show ?thesis using run Pair by (auto simp: NewService_def returned_def Let_def split: if_splits)
  qed
qed

lemma Reset_cases:
  assumes wf: "mem_wf st" and run: "ResetRestoredStore (mem_Update ctx now) (memory_tx marshal) limit draw st = (res, st')"
  shows "(st' = st \<and> (\<exists>e. res = Inl e)) \<or>
    (res = Inr () \<and> reset_tx (abstract_tx marshal writeTransaction now) limit draw (ms_data st) = (Inr (), ms_data st'))"
proof (cases "mem_Update ctx now (reset_tx (memory_tx marshal) limit draw) st")
  case (Pair r st1)
  show ?thesis
    using wf Pair memory.ref_reset
  proof (cases rule: update_cases)
    case (rolled e a)
    then show ?thesis using run Pair by (auto simp: ResetRestoredStore_def returned_def)
  next
    case (committed x)
    then show ?thesis using run Pair by (auto simp: ResetRestoredStore_def returned_def)
  qed
qed

lemma store_inv_start:
  assumes inv: "store_inv m i r d" and run: "start_tx (abstract_tx marshal writeTransaction now) c draw d = (Inr ns, d')"
  shows "store_inv m i r d'"
proof -
  have ok: "records_ok d" using inv by (simp add: store_inv_def)
  then have "records_ok d'" using tx_keepsD [OF start_keeps_integrity run] by (simp add: integrity_step_def)
  moreover from start_effect [OF run ok] have "within m i r d'"
    using inv by (auto simp: store_inv_def within_def start_step_def dest: map_eq_imp_length_eq)
  ultimately show ?thesis by (simp add: store_inv_def)
qed

lemma mem_wf_records_ok: "records_ok (ms_data st) \<Longrightarrow> mem_wf st"
  using records_okD by (simp add: mem_wf_def)

lemma store_inv_serve:
  assumes inv: "store_inv m i r (ms_data st)" and cap: "capacities m i r s" and pos: "0 \<le> m" "0 \<le> i" "0 \<le> r"
  shows "store_inv m i r (ms_data (snd (serve env s ctx now req st)))"
proof (cases "serve env s ctx now req st")
  case (Pair err st')
  have wf: "mem_wf st" using inv mem_wf_records_ok by (simp add: store_inv_def)
  have ok: "records_ok (ms_data st)" using inv by (simp add: store_inv_def)
  consider "\<not> administrative req" | secret config draw where "req = StartRequest secret config draw"
    | limit draw where "req = ResetRequest limit draw" by (cases req) (auto simp: administrative_def)
  then show ?thesis
  proof cases
    case 1
    then show ?thesis using serve_cases [OF wf Pair] inv store_inv_request [OF store_inv_renewed [OF inv] cap] Pair by auto
  next
    case 2
    then obtain res where "NewService (mem_Update ctx now) (memory_tx (env_marshal env)) secret config draw st = (res, st')"
      using Pair by (cases "NewService (mem_Update ctx now) (memory_tx (env_marshal env)) secret config draw st")
        (auto simp: serve_def status_def split: sum.splits)
    from NewService_cases [OF wf this] show ?thesis using inv store_inv_start [OF inv] Pair by auto
  next
    case 3
    then obtain res where "ResetRestoredStore (mem_Update ctx now) (memory_tx (env_marshal env)) limit draw st = (res, st')"
      using Pair by (cases "ResetRestoredStore (mem_Update ctx now) (memory_tx (env_marshal env)) limit draw st")
        (auto simp: serve_def status_def split: sum.splits)
    from Reset_cases [OF wf this] consider "st' = st"
      | "reset_tx (abstract_tx (env_marshal env) writeTransaction now) limit draw (ms_data st) = (Inr (), ms_data st')" by blast
    then show ?thesis
    proof cases
      case 2
      from reset_effect [OF this ok] have "ms_data st' = \<lparr>sessions = [], grants = [], locators = [], receipts = [], ns_record = ns_record (ms_data st')\<rparr>"
        by auto
      then have "sessions (ms_data st') = []" "grants (ms_data st') = []" "locators (ms_data st') = []" "receipts (ms_data st') = []"
        by (metis records.select_convs)+
      then show ?thesis
        using Pair pos by (simp add: store_inv_def records_ok_def sessions_ok_def grants_ok_def locators_ok_def receipts_ok_def within_def)
    qed (use inv Pair in simp)
  qed
qed

lemma store_inv_run:
  assumes "store_inv m i r (ms_data st)" and "\<And>x. x \<in> set H \<Longrightarrow> capacities m i r (fst x)" and "0 \<le> m" "0 \<le> i" "0 \<le> r"
  shows "store_inv m i r (ms_data (run_requests env H st))"
  using assms
proof (induction H arbitrary: st)
  case (Cons x H)
  obtain s ctx now req where x: "x = (s, ctx, now, req)" by (cases x)
  have "capacities m i r s" using Cons.prems(2) [of x] x by simp
  then show ?case using Cons x by (simp add: store_inv_serve)
qed simp

text \<open>The largest limit the services of a history are configured with.\<close>

definition largest :: "(Config \<Rightarrow> int) \<Rightarrow> served_request list \<Rightarrow> int" where
  "largest f H = foldr (\<lambda>x m. max (f (svc_config (fst x))) m) H 0"

lemma largest_bound: "0 \<le> largest f H \<and> (x \<in> set H \<longrightarrow> f (svc_config (fst x)) \<le> largest f H)"
  by (induction H) (auto simp: largest_def)

text \<open>C3. Every history of requests on a fresh store, whatever service instances, clocks, cancellations and random draws it
  mixes, leaves consistent records: sessions, grants and receipts sit under their own keys, every grant and
  receipt belongs to a stored session, the locators are exactly the join codes and aliases of the stored grants;
  and the three tables never exceed the largest configured capacity.\<close>

theorem access_store_consistent:
  "store_inv (largest MaxSessions H) (largest MaxInvitations H) (largest MaxReceipts H)
     (ms_data (run_requests env H NewWithClock))"
proof (rule store_inv_run)
  show "store_inv (largest MaxSessions H) (largest MaxInvitations H) (largest MaxReceipts H) (ms_data NewWithClock)"
    using largest_bound [of MaxSessions H] largest_bound [of MaxInvitations H] largest_bound [of MaxReceipts H]
    by (simp add: NewWithClock_def store_inv_def records_ok_def sessions_ok_def grants_ok_def locators_ok_def receipts_ok_def within_def)
  show "capacities (largest MaxSessions H) (largest MaxInvitations H) (largest MaxReceipts H) (fst x)" if "x \<in> set H" for x
    using largest_bound [of _ H] that by (simp add: capacities_def)
qed (simp_all add: largest_bound)

end
