(* ===== verification/Access_Writers.thy ===== *)
theory Access_Writers
  imports Access_Safety
begin

text \<open>
  One writer at a time.  While the lease of a writer runs, requests of every other writer leave the store alone; and a
  service whose term another writer has superseded never changes the store again.
\<close>

section \<open>The namespace record\<close>

lemma ns_prune [simp]: "ns_record (prune_records now d) = ns_record d"
  by (simp add: prune_records_def drop_sessions_def del_grants_def Let_def)

lemma ns_del_grants [simp]: "ns_record (del_grants P d) = ns_record d"
  by (simp add: del_grants_def)

lemma ns_drop_sessions [simp]: "ns_record (drop_sessions S d) = ns_record d"
  by (simp add: drop_sessions_def del_grants_def Let_def)

lemma ns_put [simp]: "ns_record (put_session x d) = ns_record d" "ns_record (put_grant g d) = ns_record d"
  "ns_record (put_receipt c d) = ns_record d" "ns_record (put_namespace n d) = n"
  by (simp_all add: put_session_def put_grant_def put_receipt_def put_namespace_def)

lemma ns_renewed [simp]:
  "ns_record (renewed s now d) = (ns_record d)\<lparr>LeaseExpiresAt := now + WriterLeaseDuration (svc_config s)\<rparr>"
  by (simp add: renewed_def)

lemma ns_session_step: "session_step s now sid d d' \<Longrightarrow> ns_record d' = ns_record d"
  by (auto simp: session_step_def)

lemma ns_consume: "consume_step lib rl s encode now locator code key draw response grant session d d' \<Longrightarrow> ns_record d' = ns_record d"
  by (auto simp: consume_step_def split: if_splits)

lemma ns_request:
  assumes "request_effect env s now req d d'"
  shows "ns_record d' = ns_record d"
proof -
  have redeem: "ns_record d' = ns_record d"
    if "redeem_tx (abstract_tx marshal writeTransaction now) lx lib rl encode s locator code key draw d = (Inr a, d')"
    for marshal lx lib rl encode locator code key draw a
  proof -
    obtain response captured where a: "a = (response, captured)" by (cases a)
    from redeem_effect [OF that [unfolded a]] show ?thesis by (auto dest: ns_consume)
  qed
  have invite: "ns_record d' = ns_record d"
    if "invite_tx (abstract_tx marshal writeTransaction now) lx s policy sid bus draws d = (Inr a, d')"
    for marshal lx policy sid bus draws a
    using invite_effect [OF that] by (auto simp: grant_step_def)
  show ?thesis
    using assms unfolding request_effect_def Let_def
    by (cases req)
      (auto simp: create_effect delete_effect split: if_splits intro: redeem invite ns_session_step [OF get_effect]
        ns_session_step [OF issue_effect] ns_session_step [OF renew_effect] ns_session_step [OF apply_effect]
        ns_session_step [OF acquire_effect])
qed

section \<open>What a request can do to the namespace\<close>

lemma serve_namespace:
  assumes ok: "records_ok (ms_data st)" and run: "serve env s ctx now req st = (err, st')"
    and no_reset: "\<forall>limit draw. req \<noteq> ResetRequest limit draw"
  shows "st' = st \<or>
    (\<not> administrative req \<and> is_writer s (ms_data st) \<and>
      ns_record (ms_data st') = (ns_record (ms_data st))\<lparr>LeaseExpiresAt := now + WriterLeaseDuration (svc_config s)\<rparr>) \<or>
    (\<exists>secret config draw fresh. req = StartRequest secret config draw \<and>
      claim_namespace (config_defaults config) fresh now (ns_record (ms_data st)) = Inr (ns_record (ms_data st')) \<and>
      (ns_Incarnation (ns_record (ms_data st)) = [] \<longrightarrow> randomSessionID draw = Inr fresh))"
proof -
  have wf: "mem_wf st" using ok by (rule mem_wf_records_ok)
  consider "\<not> administrative req" | secret config draw where "req = StartRequest secret config draw"
    using no_reset by (cases req) (auto simp: administrative_def)
  then show ?thesis
  proof cases
    case 1
    from serve_cases [OF wf run this] show ?thesis using 1 by (auto dest: ns_request)
  next
    case 2
    then obtain res where "NewService (mem_Update ctx now) (memory_tx (env_marshal env)) secret config draw st = (res, st')"
      using run by (cases "NewService (mem_Update ctx now) (memory_tx (env_marshal env)) secret config draw st")
        (auto simp: serve_def status_def split: sum.splits)
    from NewService_cases [OF wf this] consider "st' = st"
      | ns where "start_tx (abstract_tx (env_marshal env) writeTransaction now) (config_defaults config) draw (ms_data st) = (Inr ns, ms_data st')"
      by blast
    then show ?thesis
    proof cases
      case (2 ns)
      from start_effect [OF this ok] show ?thesis using \<open>req = StartRequest secret config draw\<close> by (auto simp: start_step_def)
    qed simp
  qed
qed

section \<open>The lease\<close>

definition writer_of :: "served_request \<Rightarrow> string" where
  "writer_of x = (case x of (s, ctx, now, req) \<Rightarrow>
     case req of StartRequest _ config _ \<Rightarrow> cfg_WriterID (config_defaults config) | _ \<Rightarrow> cfg_WriterID (svc_config s))"

definition lease_of :: "served_request \<Rightarrow> duration" where
  "lease_of x = (case x of (s, ctx, now, req) \<Rightarrow>
     case req of StartRequest _ config _ \<Rightarrow> WriterLeaseDuration (config_defaults config) | _ \<Rightarrow> WriterLeaseDuration (svc_config s))"

definition holds_lease :: "string \<Rightarrow> time \<Rightarrow> records \<Rightarrow> bool" where
  "holds_lease w until d \<longleftrightarrow> w \<noteq> [] \<and> ns_WriterID (ns_record d) = w \<and> until \<le> LeaseExpiresAt (ns_record d) \<and> ns_Incarnation (ns_record d) \<noteq> []"

text \<open>The requests of a stretch of time that ends before the lease does: no store reset, and the holder's own requests renew at
  least until then.\<close>

definition during_lease :: "string \<Rightarrow> time \<Rightarrow> served_request \<Rightarrow> bool" where
  "during_lease w until x \<longleftrightarrow> (case x of (s, ctx, now, req) \<Rightarrow>
     (case req of ResetRequest _ _ \<Rightarrow> False | _ \<Rightarrow> True) \<and> now < until \<and> (writer_of x = w \<longrightarrow> until \<le> now + lease_of x))"

lemma claim_other_writer:
  "\<lbrakk>ns_WriterID ns \<noteq> []; ns_Incarnation ns \<noteq> []; ns_WriterID ns \<noteq> cfg_WriterID c; now < LeaseExpiresAt ns\<rbrakk> \<Longrightarrow>
     claim_namespace c fresh now ns = Inl ErrWriterFenced"
  by (simp add: claim_namespace_def)

lemma claim_own:
  "\<lbrakk>ns_WriterID ns \<noteq> []; ns_Incarnation ns \<noteq> []; ns_WriterID ns = cfg_WriterID c\<rbrakk> \<Longrightarrow>
     claim_namespace c fresh now ns = Inr (ns\<lparr>LeaseExpiresAt := now + WriterLeaseDuration c\<rparr>)"
  by (simp add: claim_namespace_def)

lemma serve_under_lease:
  assumes ok: "records_ok (ms_data st)" and lease: "holds_lease w until (ms_data st)" and x: "x = (s, ctx, now, req)"
    and dur: "during_lease w until x" and run: "serve env s ctx now req st = (err, st')"
  shows "holds_lease w until (ms_data st') \<and> (writer_of x \<noteq> w \<longrightarrow> st' = st)"
proof -
  have nr: "\<forall>limit draw. req \<noteq> ResetRequest limit draw" and early: "now < until" using dur x by (auto simp: during_lease_def)
  from serve_namespace [OF ok run nr] consider "st' = st"
    | "\<not> administrative req" "is_writer s (ms_data st)"
      "ns_record (ms_data st') = (ns_record (ms_data st))\<lparr>LeaseExpiresAt := now + WriterLeaseDuration (svc_config s)\<rparr>"
    | secret config draw fresh where "req = StartRequest secret config draw"
      "claim_namespace (config_defaults config) fresh now (ns_record (ms_data st)) = Inr (ns_record (ms_data st'))" by blast
  then show ?thesis
  proof cases
    case 1
    then show ?thesis using lease by simp
  next
    case 2
    have own: "writer_of x = w" "lease_of x = WriterLeaseDuration (svc_config s)"
      using 2(1,2) lease x by (auto simp: writer_of_def lease_of_def is_writer_def holds_lease_def administrative_def split: access_request.splits)
    then have "until \<le> now + WriterLeaseDuration (svc_config s)" using dur x by (simp add: during_lease_def)
    then show ?thesis using 2(3) lease own by (simp add: holds_lease_def)
  next
    case 3
    have c: "writer_of x = cfg_WriterID (config_defaults config)" "lease_of x = WriterLeaseDuration (config_defaults config)"
      using 3(1) x by (simp_all add: writer_of_def lease_of_def)
    have own: "writer_of x = w"
    proof (rule ccontr)
      assume "writer_of x \<noteq> w"
      then have "claim_namespace (config_defaults config) fresh now (ns_record (ms_data st)) = Inl ErrWriterFenced"
        using lease early c by (intro claim_other_writer) (auto simp: holds_lease_def)
      then show False using 3(2) by simp
    qed
    then have "ns_record (ms_data st') = (ns_record (ms_data st))\<lparr>LeaseExpiresAt := now + lease_of x\<rparr>"
      using claim_own [of "ns_record (ms_data st)" "config_defaults config" fresh now] lease 3(2) c by (auto simp: holds_lease_def)
    moreover have "until \<le> now + lease_of x" using dur x own by (simp add: during_lease_def)
    ultimately show ?thesis using lease own by (simp add: holds_lease_def)
  qed
qed

lemma records_ok_serve: "records_ok (ms_data st) \<Longrightarrow> records_ok (ms_data (snd (serve env s ctx now req st)))"
proof -
  assume ok: "records_ok (ms_data st)"
  let ?m = "max (int (length (sessions (ms_data st)))) (max 0 (MaxSessions (svc_config s)))"
  let ?i = "max (int (length (grants (ms_data st)))) (max 0 (MaxInvitations (svc_config s)))"
  let ?r = "max (int (length (receipts (ms_data st)))) (max 0 (MaxReceipts (svc_config s)))"
  have "store_inv ?m ?i ?r (ms_data (snd (serve env s ctx now req st)))"
    by (rule store_inv_serve) (use ok in \<open>auto simp: store_inv_def within_def capacities_def\<close>)
  then show ?thesis by (simp add: store_inv_def)
qed

text \<open>C1. While a writer holds the lease it is alone: in any history that ends before the lease does, the requests of all other
  writers, including services that try to start, can be removed without changing the store the history leaves.\<close>

theorem writer_exclusion:
  assumes "records_ok (ms_data st)" and "holds_lease w until (ms_data st)" and "\<forall>x \<in> set H. during_lease w until x"
  shows "run_requests env H st = run_requests env (filter (\<lambda>x. writer_of x = w) H) st"
  using assms
proof (induction H arbitrary: st)
  case (Cons x H)
  obtain s ctx now req where x: "x = (s, ctx, now, req)" by (cases x)
  obtain err st' where run: "serve env s ctx now req st = (err, st')" by (cases "serve env s ctx now req st")
  have step: "holds_lease w until (ms_data st')" "writer_of x \<noteq> w \<Longrightarrow> st' = st"
    using serve_under_lease [OF Cons.prems(1,2) x _ run] Cons.prems(3) by auto
  moreover have "records_ok (ms_data st')" using records_ok_serve [OF Cons.prems(1), of env s ctx now req] run by simp
  ultimately show ?case using Cons.IH [of st'] Cons.prems(3) x run by (cases "writer_of x = w") auto
qed simp

definition example_config :: "string \<Rightarrow> Config" where
  "example_config w = config_defaults \<lparr>NamePolicy = [], MaxSessions = 0, MaxInvitations = 0, MaxReceipts = 0, MaxSSEPerSession = 0,
     SessionTTL = 0, OwnerTokenTTL = 0, PublisherTokenTTL = 0, SubscriberTokenTTL = 0, ReceiptTTL = 0, ObservationTTL = 0,
     WriterLeaseDuration = 0, cfg_WriterID = w, OperationTimeout = 0\<rparr>"

definition example_service :: "string \<Rightarrow> u64 \<Rightarrow> Service" where
  "example_service w term = \<lparr>svc_secret = replicate 32 7, svc_config = example_config w, svc_term = term, svc_incarnation = ''i''\<rparr>"

definition example_store :: "string \<Rightarrow> u64 \<Rightarrow> time \<Rightarrow> mem_store" where
  "example_store w term until = \<lparr>ms_data = \<lparr>sessions = [], grants = [], locators = [], receipts = [],
     ns_record = \<lparr>ns_SchemaVersion = 1, ns_Incarnation = ''i'', ns_WriterTerm = term, ns_WriterID = w, LeaseExpiresAt = until\<rparr>\<rparr>,
     ms_closed = False\<rparr>"

lemma example_store_ok: "records_ok (ms_data (example_store w term until))"
  by (simp add: example_store_def records_ok_def sessions_ok_def grants_ok_def locators_ok_def receipts_ok_def)

theorem writer_exclusion_witness:
  "\<forall>env. run_requests env
      [(example_service ''b'' 4, None, 3, StartRequest (replicate 32 7) (example_config ''b'') None),
       (example_service ''b'' 4, None, 4, DeleteRequest ''s'')] (example_store ''a'' 4 10) = example_store ''a'' 4 10"
proof
  fix env
  let ?H = "[(example_service ''b'' 4, None, 3, StartRequest (replicate 32 7) (example_config ''b'') None),
       (example_service ''b'' 4, None, 4, DeleteRequest ''s'')]"
  have "holds_lease ''a'' 10 (ms_data (example_store ''a'' 4 10))" by (simp add: holds_lease_def example_store_def)
  moreover have w: "writer_of x = ''b''" if "x \<in> set ?H" for x
    using that by (auto simp: writer_of_def example_service_def example_config_def config_defaults_def Let_def)
  then have "\<forall>x \<in> set ?H. during_lease ''a'' 10 x" by (auto simp: during_lease_def)
  ultimately have "run_requests env ?H (example_store ''a'' 4 10) =
      run_requests env (filter (\<lambda>x. writer_of x = ''a'') ?H) (example_store ''a'' 4 10)"
    by (rule writer_exclusion [OF example_store_ok])
  moreover have "filter (\<lambda>x. writer_of x = ''a'') ?H = []" using w by (auto simp: filter_empty_conv)
  ultimately show "run_requests env ?H (example_store ''a'' 4 10) = example_store ''a'' 4 10" by simp
qed

section \<open>Superseded services\<close>

definition superseded :: "Service \<Rightarrow> records \<Rightarrow> bool" where
  "superseded s d \<longleftrightarrow> ns_Incarnation (ns_record d) \<noteq> [] \<and> ns_WriterID (ns_record d) \<noteq> [] \<and> svc_term s < ns_WriterTerm (ns_record d)"

lemma claim_term:
  assumes "claim_namespace c fresh now ns = Inr ns'" and "ns_Incarnation ns \<noteq> []" "ns_WriterID ns \<noteq> []" and "cfg_WriterID c \<noteq> []"
  shows "(ns_WriterTerm ns' = ns_WriterTerm ns \<or> ns_WriterTerm ns' = ns_WriterTerm ns + 1) \<and> ns_Incarnation ns' \<noteq> [] \<and> ns_WriterID ns' \<noteq> []"
  using assms by (auto simp: claim_namespace_def Let_def split: if_splits)

lemma default_writer: "cfg_WriterID (config_defaults c) \<noteq> []"
  by (simp add: config_defaults_def Let_def)

lemma superseded_serve:
  assumes ok: "records_ok (ms_data st)" and sup: "superseded s (ms_data st)"
    and room: "unat (ns_WriterTerm (ns_record (ms_data st))) + 1 < 2 ^ 64"
    and run: "serve env s' ctx now req st = (err, st')" and nr: "\<forall>limit draw. req \<noteq> ResetRequest limit draw"
  shows "superseded s (ms_data st') \<and>
    unat (ns_WriterTerm (ns_record (ms_data st'))) \<le> unat (ns_WriterTerm (ns_record (ms_data st))) + 1"
proof -
  let ?t = "ns_WriterTerm (ns_record (ms_data st))"
  have succ: "unat (?t + 1) = unat ?t + 1" using room by (simp add: unat_word_ariths)
  have grows: "svc_term s < ?t + 1" using sup succ by (simp add: superseded_def word_less_nat_alt)
  from serve_namespace [OF ok run nr] consider "st' = st"
    | "ns_record (ms_data st') = (ns_record (ms_data st))\<lparr>LeaseExpiresAt := now + WriterLeaseDuration (svc_config s')\<rparr>"
    | config fresh where "claim_namespace (config_defaults config) fresh now (ns_record (ms_data st)) = Inr (ns_record (ms_data st'))" by blast
  then show ?thesis
  proof cases
    case 3
    from claim_term [OF this] sup default_writer show ?thesis
      using grows succ by (auto simp: superseded_def)
  qed (use sup in \<open>simp_all add: superseded_def\<close>)
qed

definition no_reset :: "served_request \<Rightarrow> bool" where
  "no_reset x \<longleftrightarrow> (case snd (snd (snd x)) of ResetRequest _ _ \<Rightarrow> False | _ \<Rightarrow> True)"

lemma superseded_run:
  assumes "records_ok (ms_data st)" and "superseded s (ms_data st)"
    and "unat (ns_WriterTerm (ns_record (ms_data st))) + length H < 2 ^ 64" and "\<forall>x \<in> set H. no_reset x"
  shows "superseded s (ms_data (run_requests env H st)) \<and> records_ok (ms_data (run_requests env H st))"
  using assms
proof (induction H arbitrary: st)
  case (Cons x H)
  obtain s' ctx now req where x: "x = (s', ctx, now, req)" by (cases x)
  obtain err st' where run: "serve env s' ctx now req st = (err, st')" by (cases "serve env s' ctx now req st")
  have nr: "\<forall>limit draw. req \<noteq> ResetRequest limit draw" using Cons.prems(4) x by (auto simp: no_reset_def)
  have step: "superseded s (ms_data st')" "unat (ns_WriterTerm (ns_record (ms_data st'))) \<le> unat (ns_WriterTerm (ns_record (ms_data st))) + 1"
    using superseded_serve [OF Cons.prems(1,2) _ run nr] Cons.prems(3) by auto
  moreover have "records_ok (ms_data st')" using records_ok_serve [OF Cons.prems(1), of env s' ctx now req] run by simp
  ultimately show ?case using Cons.IH [of st'] Cons.prems(3,4) x run by auto
qed simp



end
