(* ===== verification/Access_Lifecycle.thy ===== *)
theory Access_Lifecycle
  imports Access_Writers
begin

text \<open>
  What a client of the access authority can rely on from one call to the next: an owner token authorizes the Session it was
  created with, a deleted Session leaves nothing behind, an invitation is redeemed once, and a retry with the
  same key returns the first response.
\<close>

section \<open>Calls with a live context\<close>

lemma ctx_none_live: "tx_ctx t = None \<Longrightarrow> live t"
  by (simp add: live_def)

lemma mem_run_live:
  assumes wf: "mem_wf st" and open_store: "\<not> ms_closed st" and ref: "memory.refines fn p"
    and p: "p mode now (ms_data st) = (r, d)"
  shows "mem_run mode None now fn st =
    (case r of Inl e \<Rightarrow> ((Some e, None), st)
     | Inr x \<Rightarrow> ((None, Some x), if mode = writeTransaction then st\<lparr>ms_data := d\<rparr> else st))"
proof -
  let ?t = "\<lparr>tx_ctx = None, tx_polls = 1, tx_data = ms_data st, tx_mode = mode, tx_now = now\<rparr>"
  obtain r' t' where run: "fn ?t = (r', t')" by (cases "fn ?t")
  have "tx_wf ?t" using wf by (simp add: mem_wf_def tx_wf_def)
  note D = memory.refinesD [OF ref this run]
  have ctx: "tx_ctx t' = None" using D(1) by (simp add: tx_frame_def)
  then have "p mode now (ms_data st) = (r', tx_data t')" using D(3) ctx_none_live by simp
  then have "r' = r" "tx_data t' = d" using p by simp_all
  then show ?thesis using run open_store ctx by (auto simp: mem_run_def poll_def split: sum.splits)
qed

lemma mem_Update_live:
  assumes "mem_wf st" "\<not> ms_closed st" "memory.refines fn p" "p writeTransaction now (ms_data st) = (r, d)"
  shows "mem_Update None now fn st = (case r of Inl e \<Rightarrow> ((Some e, None), st) | Inr x \<Rightarrow> ((None, Some x), st\<lparr>ms_data := d\<rparr>))"
  using mem_run_live [OF assms] by (simp add: mem_Update_def)

lemma mem_View_live:
  assumes "mem_wf st" "\<not> ms_closed st" "memory.refines fn p" "p readTransaction now (ms_data st) = (r, d)"
  shows "mem_View None now fn st = (case r of Inl e \<Rightarrow> ((Some e, None), st) | Inr x \<Rightarrow> ((None, Some x), st))"
  using mem_run_live [OF assms] by (simp add: mem_View_def)

lemma mem_Update_open: "mem_Update ctx now fn st = ((None, a), st') \<Longrightarrow> \<not> ms_closed st \<and> \<not> ms_closed st'"
  by (auto simp: mem_Update_def mem_run_def split: option.splits if_splits prod.splits sum.splits)

section \<open>Pruning keeps what has not expired\<close>

lemma prune_session:
  assumes "records_ok d"
  shows "map_of (sessions (prune_records now d)) k = Some r \<longleftrightarrow> map_of (sessions d) k = Some r \<and> now < sr_ExpiresAt r"
  using records_okD [OF assms]
  by (auto simp: prune_records_def drop_sessions_def del_grants_def Let_def map_of_filter_Some expired_session_def split: option.splits)

lemma prune_receipt:
  assumes ok: "records_ok d" and r: "map_of (receipts d) k = Some r" "now < rc_ExpiresAt r"
    and s: "map_of (sessions d) (rc_SessionID r) = Some x" "now < sr_ExpiresAt x"
  shows "map_of (receipts (prune_records now d)) k = Some r"
  using records_okD [OF ok] r s
  by (auto simp: prune_records_def drop_sessions_def del_grants_def Let_def map_of_filter_Some expired_session_def split: option.splits)

lemma prune_grant:
  assumes "records_ok d"
  shows "map_of (grants (prune_records now d)) k = Some g \<Longrightarrow> map_of (grants d) k = Some g"
  using records_okD [OF assms]
  by (auto simp: prune_records_def drop_sessions_def del_grants_def Let_def map_of_filter_Some)

lemma renewed_records:
  assumes "records_ok d"
  shows "records_ok (renewed s now d)"
    and "map_of (sessions (renewed s now d)) k = Some r \<longleftrightarrow> map_of (sessions d) k = Some r \<and> now < sr_ExpiresAt r"
    and "map_of (grants (renewed s now d)) k = Some g \<Longrightarrow> map_of (grants d) k = Some g"
proof -
  let ?d = "put_namespace ((ns_record d)\<lparr>LeaseExpiresAt := now + WriterLeaseDuration (svc_config s)\<rparr>) d"
  have ok: "records_ok ?d" using assms by (rule records_ok_put_namespace)
  have same: "sessions ?d = sessions d" "grants ?d = grants d" by (simp_all add: put_namespace_def)
  show "records_ok (renewed s now d)" using ok by (simp add: renewed_def records_ok_prune)
  show "map_of (sessions (renewed s now d)) k = Some r \<longleftrightarrow> map_of (sessions d) k = Some r \<and> now < sr_ExpiresAt r"
    using prune_session [OF ok] by (simp add: renewed_def same)
  show "map_of (grants (renewed s now d)) k = Some g \<Longrightarrow> map_of (grants d) k = Some g"
    using prune_grant [OF ok] by (simp add: renewed_def same)
qed

lemma renewed_receipt:
  assumes ok: "records_ok d" and r: "map_of (receipts d) k = Some r" "now < rc_ExpiresAt r"
    and s: "map_of (sessions d) (rc_SessionID r) = Some x" "now < sr_ExpiresAt x"
  shows "map_of (receipts (renewed s' now d)) k = Some r"
  unfolding renewed_def
  using r s by (intro prune_receipt [where x = x] records_ok_put_namespace [OF ok]) (simp_all add: put_namespace_def)

lemma is_writer_renewed [simp]: "is_writer s (renewed s' now d) = is_writer s d"
  by (simp add: is_writer_def)

lemma grant_session: "\<lbrakk>records_ok d; map_of (grants d) k = Some g\<rbrakk> \<Longrightarrow> has_key (gr_SessionID g) (sessions d)"
  unfolding records_ok_def grants_ok_def by blast

lemma receipt_session: "\<lbrakk>records_ok d; map_of (receipts d) k = Some r\<rbrakk> \<Longrightarrow> has_key (rc_SessionID r) (sessions d)"
  unfolding records_ok_def receipts_ok_def by blast

lemma grant_locators:
  "\<lbrakk>records_ok d; map_of (grants d) k = Some g; l = JoinCode g \<or> l = Alias g\<rbrakk> \<Longrightarrow> map_of (locators d) l = Some k"
  unfolding records_ok_def locators_ok_def by blast

lemma lookup_grant_iff:
  assumes "records_ok d"
  shows "lookup_grant d l = Some g \<longleftrightarrow> (\<exists>k. map_of (grants d) k = Some g \<and> (l = JoinCode g \<or> l = Alias g))"
  using assms unfolding records_ok_def locators_ok_def
  by (auto simp: lookup_grant_def split: option.splits) (metis option.inject option.distinct(1))+

section \<open>Owners\<close>

lemma authorize_run:
  "\<lbrakk>is_writer s d; live_session s now d sid r\<rbrakk> \<Longrightarrow>
     authorize_tx (abstract_tx marshal m now) lib s sid encoded d = (authorizeRecord lib s r encoded now, d)"
  using active_run [of marshal m now s sid d r d]
  by (simp add: authorize_tx_def tx_bind_def checkWriter_run tx_lift_def tx_return_def)

lemma CreateContext_committed:
  assumes wf: "mem_wf st"
    and run: "CreateContext (mem_Update ctx now) (memory_tx marshal) lib s required idDraw jtiDraw st = (Inr ses, st')"
  shows "\<exists>buses sid credential. validateRequiredBuses (if required = [] then [''application'', ''microphone''] else required) = Inr buses \<and>
    is_writer s (ms_data st) \<and> ses = \<lparr>ses_record = new_session s sid buses now, sourceToken = credential\<rparr> \<and>
    svc_sign lib s (new_session s sid buses now) (new_claims sid RoleSource [] buses True) (OwnerTokenTTL (svc_config s)) now jtiDraw = Inr credential \<and>
    ms_data st' = put_session (new_session s sid buses now) (renewed s now (ms_data st)) \<and> \<not> ms_closed st'"
proof -
  obtain buses where b: "validateRequiredBuses (if required = [] then [''application'', ''microphone''] else required) = Inr buses"
    and up: "returned (mem_Update ctx now (svc_update (memory_tx marshal) s (create_tx (memory_tx marshal) lib s buses idDraw jtiDraw)) st) = (Inr ses, st')"
    using run by (auto simp: CreateContext_def split: sum.splits)
  obtain r st1 where Pair: "mem_Update ctx now (svc_update (memory_tx marshal) s (create_tx (memory_tx marshal) lib s buses idDraw jtiDraw)) st = (r, st1)"
    by (cases "mem_Update ctx now (svc_update (memory_tx marshal) s (create_tx (memory_tx marshal) lib s buses idDraw jtiDraw)) st")
  show ?thesis
    using wf Pair memory.ref_svc_update [OF memory.ref_create]
  proof (cases rule: update_cases)
    case (rolled e a)
    then show ?thesis using up Pair by (simp add: returned_def)
  next
    case (committed x)
    then have x: "x = ses" "st1 = st'" using up Pair by (simp_all add: returned_def)
    then have "\<not> ms_closed st'" using mem_Update_open Pair committed(1) by blast
    then show ?thesis using committed(2) b x by (auto simp: svc_update_run create_effect)
  qed
qed

text \<open>C8. The owner token returned with a new Session authorizes, on the store the creation left, control of that Session and
  publishing to exactly its required buses, from its creation until the token expires.\<close>

theorem created_owner_authorized:
  assumes lib: "jwt_documented lib" and ok: "records_ok (ms_data st)"
    and created: "CreateContext (mem_Update ctx now) (memory_tx marshal) lib s required idDraw (Some jti) st = (Inr ses, st')"
    and jti: "jti \<noteq> []" and size: "sourceToken ses \<noteq> []" "length (sourceToken ses) \<le> 16384"
    and time: "now \<le> t" "t < now + OwnerTokenTTL (svc_config s)" and ttl: "OwnerTokenTTL (svc_config s) \<le> SessionTTL (svc_config s)"
  shows "\<exists>c. Authorize (mem_View None t) (memory_tx marshal) lib s (sr_ID (ses_record ses)) (sourceToken ses) st' = (Inr c, st') \<and>
    CanControl c \<and> (\<forall>b. AllowsBus c b = (b \<in> set (RequiredBuses (ses_record ses))))"
proof -
  from CreateContext_committed [OF mem_wf_records_ok [OF ok] created] obtain buses sid credential where
    w: "is_writer s (ms_data st)" and ses: "ses = \<lparr>ses_record = new_session s sid buses now, sourceToken = credential\<rparr>"
    and sign: "svc_sign lib s (new_session s sid buses now) (new_claims sid RoleSource [] buses True) (OwnerTokenTTL (svc_config s)) now (Some jti) = Inr credential"
    and st': "ms_data st' = put_session (new_session s sid buses now) (renewed s now (ms_data st))" and opn: "\<not> ms_closed st'" by blast
  let ?r = "new_session s sid buses now"
  let ?c = "registered lib (sr_Issuer ?r) (hex_EncodeToString jti) now (OwnerTokenTTL (svc_config s))
      ((new_claims sid RoleSource [] buses True)\<lparr>c_Incarnation := sr_Incarnation ?r\<rparr>)"
  have wf: "mem_wf st'" using st' records_ok_put_session renewed_records(1) [OF ok] mem_wf_records_ok by metis
  have live: "live_session s t (ms_data st') sid ?r"
    using st' time ttl by (simp add: live_session_def put_session_def new_session_def)
  have w': "is_writer s (ms_data st')" using w st' by (simp add: is_writer_def)
  have "VerifyProfile lib (svc_secret s) credential (sr_Issuer ?r) t = Inr ?c"
    using sign_verify [OF lib sign [unfolded svc_sign_def] refl jti] size ses time by simp
  then have "authorizeRecord lib s ?r credential t = Inr ?c"
    by (simp add: authorizeRecord_def registered_def new_claims_def new_session_def)
  then have "authorize_tx (abstract_tx marshal readTransaction t) lib s sid credential (ms_data st') = (Inr ?c, ms_data st')"
    using authorize_run [OF w' live] by simp
  then have "mem_View None t (authorize_tx (memory_tx marshal) lib s sid credential) st' = ((None, Some ?c), st')"
    using mem_View_live [OF wf opn memory.ref_authorize] by simp
  then have "Authorize (mem_View None t) (memory_tx marshal) lib s (sr_ID (ses_record ses)) (sourceToken ses) st' = (Inr ?c, st')"
    using ses by (simp add: Authorize_def returned_def new_session_def)
  moreover have "CanControl ?c" "AllowsBus ?c b = (b \<in> set (RequiredBuses (ses_record ses)))" for b
    using ses by (auto simp: CanControl_def AllowsBus_def registered_def new_claims_def new_session_def list_ex_iff)
  ultimately show ?thesis by blast
qed

section \<open>Deletion\<close>

lemma delete_committed:
  assumes wf: "mem_wf st" and run: "DeleteContext (mem_Update ctx now) (memory_tx marshal) s sid st = ((True, None), st')"
  shows "ms_data st' = drop_sessions (\<lambda>k. k = sid) (renewed s now (ms_data st))"
proof (cases "mem_Update ctx now (svc_update (memory_tx marshal) s (delete_tx (memory_tx marshal) s sid)) st")
  case (Pair r st1)
  show ?thesis
    using wf Pair memory.ref_svc_update [OF memory.ref_delete]
  proof (cases rule: update_cases)
    case (rolled e a)
    then show ?thesis using run Pair by (simp add: DeleteContext_def)
  next
    case (committed x)
    then show ?thesis using run Pair by (auto simp: DeleteContext_def svc_update_run delete_effect split: if_splits)
  qed
qed

lemma view_Inr:
  assumes wf: "mem_wf st" and ref: "memory.refines fn p" and run: "returned (mem_View ctx now fn st) = (Inr x, st')"
  shows "\<exists>d. p readTransaction now (ms_data st) = (Inr x, d)"
proof (cases "mem_View ctx now fn st")
  case (Pair r st1)
  then obtain a where "r = (None, a)" "a = Some x" using run by (auto simp: returned_def split: option.splits prod.splits)
  then show ?thesis using memory.view_result [OF wf _ ref] Pair by fastforce
qed

text \<open>C6. Deleting a Session revokes everything that depends on it: its record, its invitations and its retry receipts are gone and
  no token authorizes against it any more, whichever service asks; the other unexpired Sessions are untouched.\<close>

theorem delete_revokes:
  assumes ok: "records_ok (ms_data st)" and run: "DeleteContext (mem_Update ctx now) (memory_tx marshal) s sid st = ((True, None), st')"
  shows "map_of (sessions (ms_data st')) sid = None \<and>
    (\<forall>k g. map_of (grants (ms_data st')) k = Some g \<longrightarrow> gr_SessionID g \<noteq> sid) \<and>
    (\<forall>k r. map_of (receipts (ms_data st')) k = Some r \<longrightarrow> rc_SessionID r \<noteq> sid) \<and>
    (\<forall>k r. k \<noteq> sid \<longrightarrow> map_of (sessions (ms_data st)) k = Some r \<longrightarrow> now < sr_ExpiresAt r \<longrightarrow> map_of (sessions (ms_data st')) k = Some r) \<and>
    (\<forall>ctx t lib s encoded. \<exists>e. Authorize (mem_View ctx t) (memory_tx marshal) lib s sid encoded st' = (Inl e, st'))"
proof (intro conjI allI impI)
  let ?d = "renewed s now (ms_data st)"
  have d': "ms_data st' = drop_sessions (\<lambda>k. k = sid) ?d" by (rule delete_committed [OF mem_wf_records_ok [OF ok] run])
  have okr: "records_ok ?d" using renewed_records(1) [OF ok] .
  have ok': "records_ok (ms_data st')" using okr d' by (simp add: records_ok_drop_sessions)
  show gone: "map_of (sessions (ms_data st')) sid = None"
    using records_okD [OF okr] d' by (auto simp: drop_sessions_def Let_def map_of_filter_wf split: option.splits)
  show "gr_SessionID g \<noteq> sid" if "map_of (grants (ms_data st')) k = Some g" for k g
    using grant_session [OF ok' that] gone by (auto simp: has_key_def)
  show "rc_SessionID r \<noteq> sid" if "map_of (receipts (ms_data st')) k = Some r" for k r
    using receipt_session [OF ok' that] gone by (auto simp: has_key_def)
  show "map_of (sessions (ms_data st')) k = Some r"
    if "k \<noteq> sid" "map_of (sessions (ms_data st)) k = Some r" "now < sr_ExpiresAt r" for k r
    using that renewed_records(2) [OF ok, of s now k r] records_okD [OF okr] d'
    by (simp add: drop_sessions_def Let_def map_of_filter_Some)
  fix ctx t lib s' encoded
  obtain r st1 where auth: "Authorize (mem_View ctx t) (memory_tx marshal) lib s' sid encoded st' = (r, st1)" by fastforce
  have "st1 = st'"
    using status_view [of ctx t "authorize_tx (memory_tx marshal) lib s' sid encoded" st'] auth
    by (cases r) (auto simp: Authorize_def status_def)
  moreover have "\<nexists>c. r = Inr c"
  proof
    assume "\<exists>c. r = Inr c"
    then obtain c where "returned (mem_View ctx t (authorize_tx (memory_tx marshal) lib s' sid encoded) st') = (Inr c, st1)"
      using auth by (auto simp: Authorize_def)
    from view_Inr [OF mem_wf_records_ok [OF ok'] memory.ref_authorize this] show False using gone by (auto simp: authorize_tx_def runs checkWriter_run active_run live_session_def)
  qed
  ultimately show "\<exists>e. Authorize (mem_View ctx t) (memory_tx marshal) lib s' sid encoded st' = (Inl e, st')"
    using auth by (cases r) auto
qed

section \<open>Invitations\<close>

lemma redeem_committed:
  assumes wf: "mem_wf st"
    and run: "redeem (mem_Update ctx now) (memory_tx marshal) lx lib rl encode s locator code key draw st = (Inr x, st')"
  shows "is_writer s (ms_data st) \<and> \<not> ms_closed st' \<and>
    redeem_tx (abstract_tx marshal writeTransaction now) lx lib rl encode s locator (effective_code rl locator code) key draw
      (renewed s now (ms_data st)) = (Inr x, ms_data st')"
proof -
  let ?fn = "svc_update (memory_tx marshal) s
    (redeem_tx (memory_tx marshal) lx lib rl encode s locator (effective_code rl locator code) key draw)"
  have up: "returned (mem_Update ctx now ?fn st) = (Inr x, st')" using run by (auto simp: redeem_def Let_def split: if_splits)
  obtain r st1 where Pair: "mem_Update ctx now ?fn st = (r, st1)" by (cases "mem_Update ctx now ?fn st")
  show ?thesis
    using wf Pair memory.ref_svc_update [OF memory.ref_redeem]
  proof (cases rule: update_cases)
    case (rolled e a)
    then show ?thesis using up Pair by (simp add: returned_def)
  next
    case (committed y)
    then have "y = x" "st1 = st'" using up Pair by (simp_all add: returned_def)
    then show ?thesis using committed mem_Update_open [of ctx now ?fn st "Some x" st'] Pair by (simp add: svc_update_run)
  qed
qed

text \<open>The grant a redemption consumed, and the records it left.\<close>

lemma redeem_fresh:
  assumes ok: "records_ok (ms_data st)"
    and run: "redeem (mem_Update ctx now) (memory_tx marshal) lx lib rl encode s locator code key draw st = (Inr (response, Some ri), st')"
  obtains grant session where
    "consume_step lib rl s encode now locator (effective_code rl locator code) key draw response grant session
       (renewed s now (ms_data st)) (ms_data st')" "ri_SessionID ri = gr_SessionID grant" "ri_BusID ri = gr_BusID grant"
proof -
  let ?d = "renewed s now (ms_data st)"
  note C = redeem_committed [OF mem_wf_records_ok [OF ok] run]
  have none: "key = [] \<or> map_of (receipts ?d) (receipt_key rl key) = None"
  proof (rule ccontr)
    assume "\<not> ?thesis"
    then obtain receipt where "key \<noteq> []" "map_of (receipts ?d) (receipt_key rl key) = Some receipt" by auto
    then show False using C by (simp add: redeem_tx_def runs replay_effect)
  qed
  then have "consume_tx (abstract_tx marshal writeTransaction now) lx lib rl encode s locator (effective_code rl locator code) key draw ?d =
      (Inr (response, Some ri), ms_data st')"
    using C by (auto simp: redeem_tx_def runs split: if_splits)
  from consume_effect [OF this none] that show ?thesis by auto
qed

lemma consumed_gone:
  assumes ok: "records_ok d" and step: "consume_step lib rl s encode now locator code key draw response grant session d d'"
    and l: "l = JoinCode grant \<or> l = Alias grant"
  shows "lookup_grant d' l = None \<and> records_ok d'"
proof -
  obtain gid where g: "map_of (grants d) gid = Some grant"
    using step lookup_grant_iff [OF ok] by (auto simp: consume_step_def)
  then have gid: "gr_ID grant = gid" using ok unfolding records_ok_def grants_ok_def by blast
  obtain d1 where d1: "d' = del_grants (\<lambda>k _. k = gr_ID grant) d1" "grants d1 = grants d" "records_ok d1"
  proof (cases "key = []")
    case True
    then show ?thesis using that [of d] step ok by (simp add: consume_step_def)
  next
    case False
    let ?r = "new_receipt rl s grant session locator code key response now"
    have "has_key (rc_SessionID ?r) (sessions d)" using step False by (simp add: consume_step_def new_receipt_def)
    then show ?thesis using that [of "put_receipt ?r d"] step False ok records_ok_put_receipt by (simp add: consume_step_def put_receipt_def)
  qed
  have ok': "records_ok d'" using d1 by (simp add: records_ok_del_grants)
  have "lookup_grant d' l \<noteq> Some h" for h
  proof
    assume "lookup_grant d' l = Some h"
    then obtain k where k: "map_of (grants d') k = Some h" "l = JoinCode h \<or> l = Alias h" using lookup_grant_iff [OF ok'] by auto
    then have "map_of (grants d1) k = Some h" "k \<noteq> gid"
      using d1(1) gid records_okD(2) [OF d1(3)] by (auto simp: del_grants_def map_of_filter_Some)
    then have "map_of (locators d1) l = Some k" using grant_locators [OF d1(3)] k by blast
    moreover have "map_of (locators d1) l = Some gid" using grant_locators [OF d1(3)] g d1(2) l by metis
    ultimately show False using \<open>k \<noteq> gid\<close> by simp
  qed
  then show ?thesis using ok' by (cases "lookup_grant d' l") auto
qed

lemma lookup_renewed: "\<lbrakk>records_ok d; lookup_grant d l = None\<rbrakk> \<Longrightarrow> lookup_grant (renewed s now d) l = None"
proof -
  assume ok: "records_ok d" and none: "lookup_grant d l = None"
  have "lookup_grant (renewed s now d) l \<noteq> Some g" for g
    using lookup_grant_iff [OF renewed_records(1) [OF ok]] renewed_records(3) [OF ok] lookup_grant_iff [OF ok] none by (metis option.distinct(1))
  then show ?thesis by (cases "lookup_grant (renewed s now d) l") auto
qed

text \<open>C4. An invitation is redeemed once: after a redemption by its join code has succeeded, every further redemption by its code or
  its readable name, by any service, at any time and with any credential, that is not a retry under a recorded
  key fails.\<close>

theorem invitation_redeemed_once:
  assumes ok: "records_ok (ms_data st)"
    and run: "redeem (mem_Update ctx now) (memory_tx marshal) lx lib rl encode s locator code key draw st = (Inr (response, Some ri), st')"
  shows "\<exists>grant. lookup_grant (renewed s now (ms_data st)) locator = Some grant \<and> JoinCode grant = effective_code rl locator code \<and>
    (\<forall>locator2 \<in> {JoinCode grant, Alias grant}. \<forall>ctx2 t s2 code2 key2 draw2. key2 = [] \<or> map_of (receipts (renewed s2 t (ms_data st'))) (receipt_key rl key2) = None \<longrightarrow>
      (\<exists>e st2. redeem (mem_Update ctx2 t) (memory_tx marshal) lx lib rl encode s2 locator2 code2 key2 draw2 st' = (Inl e, st2)))"
proof -
  from redeem_fresh [OF ok run] obtain grant session where
    step: "consume_step lib rl s encode now locator (effective_code rl locator code) key draw response grant session
       (renewed s now (ms_data st)) (ms_data st')" by blast
  note okr = renewed_records(1) [OF ok]
  have "\<exists>e st2. redeem (mem_Update ctx2 t) (memory_tx marshal) lx lib rl encode s2 l code2 key2 draw2 st' = (Inl e, st2)"
    if l: "l = JoinCode grant \<or> l = Alias grant" and key: "key2 = [] \<or> map_of (receipts (renewed s2 t (ms_data st'))) (receipt_key rl key2) = None"
    for l ctx2 t s2 code2 key2 draw2
  proof (cases "redeem (mem_Update ctx2 t) (memory_tx marshal) lx lib rl encode s2 l code2 key2 draw2 st'")
    case (Pair r st2)
    note gone = consumed_gone [OF okr step l]
    then have none: "lookup_grant (renewed s2 t (ms_data st')) l = None" using lookup_renewed by blast
    show ?thesis
    proof (cases r)
      case (Inr x)
      obtain response2 captured2 where x: "x = (response2, captured2)" by (cases x)
      have "redeem_tx (abstract_tx marshal writeTransaction t) lx lib rl encode s2 l (effective_code rl l code2) key2 draw2
          (renewed s2 t (ms_data st')) = (Inr (response2, captured2), ms_data st2)"
        using redeem_committed [OF _ Pair [unfolded Inr x]] gone mem_wf_records_ok by blast
      from redeem_effect [OF this] show ?thesis using key none by (auto simp: consume_step_def)
    qed (use Pair in simp)
  qed
  then show ?thesis using step by (intro exI [of _ grant]) (auto simp: consume_step_def)
qed

section \<open>Retries\<close>

lemma receipt_expiry_bounds:
  "receipt_expiry c grant session now \<le> gr_ExpiresAt grant" "receipt_expiry c grant session now \<le> sr_ExpiresAt session"
  by (auto simp: receipt_expiry_def)


section \<open>Examples\<close>

definition free_marshal :: marshaller where "free_marshal v = Some 1"

definition example_id :: string where "example_id = ''01010101-0101-4101-8101-010101010101''"

definition owner_claims :: Claims where
  "owner_claims = registered example_library Issuer ''07'' 0 (15 * minute)
     ((new_claims example_id RoleSource [] [''mic''] True)\<lparr>c_Incarnation := ''i''\<rparr>)"

definition owner_library :: jwt_library where "owner_library = one_token_library (replicate 32 7) owner_claims"

lemma CreateContext_live:
  assumes wf: "mem_wf st" and opn: "\<not> ms_closed st" and w: "is_writer s (ms_data st)" and small: "\<And>v. fits marshal v"
    and buses: "validateRequiredBuses (if required = [] then [''application'', ''microphone''] else required) = Inr buses"
    and room: "int (length (sessions (renewed s now (ms_data st)))) < MaxSessions (svc_config s)"
    and sid: "randomSessionID idDraw = Inr sid"
    and sign: "svc_sign lib s (new_session s sid buses now) (new_claims sid RoleSource [] buses True) (OwnerTokenTTL (svc_config s)) now jtiDraw = Inr credential"
  shows "CreateContext (mem_Update None now) (memory_tx marshal) lib s required idDraw jtiDraw st =
    (Inr \<lparr>ses_record = new_session s sid buses now, sourceToken = credential\<rparr>,
     st\<lparr>ms_data := put_session (new_session s sid buses now) (renewed s now (ms_data st))\<rparr>)"
proof -
  have "svc_update (abstract_tx marshal writeTransaction now) s (create_tx (abstract_tx marshal writeTransaction now) lib s buses idDraw jtiDraw) (ms_data st) =
      (Inr \<lparr>ses_record = new_session s sid buses now, sourceToken = credential\<rparr>,
       put_session (new_session s sid buses now) (renewed s now (ms_data st)))"
    using w small room sid sign by (simp add: svc_update_run create_effect)
  from mem_Update_live [OF wf opn memory.ref_svc_update [OF memory.ref_create] this] buses
  show ?thesis by (simp add: CreateContext_def returned_def)
qed

lemma fits_free [simp]: "fits free_marshal v"
  by (simp add: fits_def free_marshal_def MaxRecordBytes_def)

abbreviation created_session :: SessionRecord where
  "created_session \<equiv> new_session (example_service ''a'' 4) example_id [''mic''] 0"

definition created_store :: mem_store where
  "created_store = (example_store ''a'' 4 10)\<lparr>ms_data :=
     put_session created_session (renewed (example_service ''a'' 4) 0 (ms_data (example_store ''a'' 4 10)))\<rparr>"

lemma example_ttls:
  "OwnerTokenTTL (svc_config (example_service w n)) = 15 * minute" "SessionTTL (svc_config (example_service w n)) = 120 * minute"
  "MaxSessions (svc_config (example_service w n)) = 1000" "cfg_WriterID (svc_config (example_service ''a'' n)) = ''a''"
  "SubscriberTokenTTL (svc_config (example_service w n)) = 120 * minute" "MaxReceipts (svc_config (example_service w n)) = 4000"
  "ReceiptTTL (svc_config (example_service w n)) = 2 * minute"
  by (simp_all add: example_service_def example_config_def config_defaults_def default_int_def Let_def)

lemma example_writer: "is_writer (example_service ''a'' 4) (ms_data (example_store ''a'' 4 10))"
  by (simp add: is_writer_def example_ttls) (simp add: example_service_def example_store_def)

lemma example_open: "\<not> ms_closed (example_store w n u)" by (simp add: example_store_def)

lemma example_renewed_empty: "sessions (renewed s now (ms_data (example_store w n u))) = []"
  by (simp add: renewed_def example_store_def prune_records_def drop_sessions_def del_grants_def put_namespace_def Let_def)

lemma example_sign:
  "svc_sign owner_library (example_service ''a'' 4) created_session (new_claims example_id RoleSource [] [''mic''] True) (15 * minute) 0 (Some [7]) = Inr ''t''"
proof -
  have c: "registered owner_library Issuer (hex_EncodeToString [7]) 0 (15 * minute)
      ((new_claims example_id RoleSource [] [''mic''] True)\<lparr>c_Incarnation := ''i''\<rparr>) = owner_claims"
    by (simp add: owner_claims_def registered_def owner_library_def example_library_def one_token_library_def hex_EncodeToString_def hex_digit_def)
  have "SignedString owner_library (replicate 32 7) tokenTyp owner_claims = Some ''t''"
    by (simp add: owner_library_def one_token_library_def)
  moreover have "validateScope ((new_claims example_id RoleSource [] [''mic''] True)\<lparr>c_Incarnation := ''i''\<rparr>)" by code_simp
  moreover have "validIdentifier example_id maxIdentifierLength" by code_simp
  ultimately show ?thesis
    using c by (simp add: svc_sign_def SignProfile_def new_session_def example_service_def randomTokenID_def new_claims_def)
qed

lemma example_created:
  "CreateContext (mem_Update None 0) (memory_tx free_marshal) owner_library (example_service ''a'' 4) [''mic'']
     (Some (replicate 16 1)) (Some [7]) (example_store ''a'' 4 10) =
   (Inr \<lparr>ses_record = created_session, sourceToken = ''t''\<rparr>, created_store)"
  unfolding created_store_def
proof (rule CreateContext_live [OF mem_wf_records_ok [OF example_store_ok] example_open example_writer])
  show "validateRequiredBuses (if [''mic''] = [] then [''application'', ''microphone''] else [''mic'']) = Inr [''mic'']" by code_simp
  show "randomSessionID (Some (replicate 16 1)) = Inr example_id" by code_simp
qed (simp_all add: example_renewed_empty example_ttls example_sign [simplified])

theorem created_owner_authorized_witness:
  "\<exists>c. Authorize (mem_View None minute) (memory_tx free_marshal) owner_library (example_service ''a'' 4) example_id ''t'' created_store = (Inr c, created_store) \<and>
    CanControl c \<and> (\<forall>b. AllowsBus c b = (b \<in> {''mic''}))"
  using created_owner_authorized [OF _ example_store_ok example_created, of minute] one_token_documented
  by (simp add: owner_library_def example_ttls new_session_def)

lemma created_ok: "records_ok (ms_data created_store)"
  unfolding created_store_def by (simp add: records_ok_put_session renewed_records(1) example_store_ok)

lemma example_deleted:
  "DeleteContext (mem_Update None minute) (memory_tx free_marshal) (example_service ''a'' 4) example_id created_store =
    ((True, None), created_store\<lparr>ms_data := drop_sessions (\<lambda>k. k = example_id) (renewed (example_service ''a'' 4) minute (ms_data created_store))\<rparr>)"
proof -
  let ?s = "example_service ''a'' 4"
  have w: "is_writer ?s (ms_data created_store)" using example_writer by (simp add: created_store_def is_writer_def)
  have "map_of (sessions (ms_data created_store)) example_id = Some created_session"
    by (simp add: created_store_def put_session_def new_session_def)
  then have "live_session ?s minute (renewed ?s minute (ms_data created_store)) example_id created_session"
    using renewed_records(2) [OF created_ok] by (simp add: live_session_def new_session_def example_ttls)
  then have "svc_update (abstract_tx free_marshal writeTransaction minute) ?s (delete_tx (abstract_tx free_marshal writeTransaction minute) ?s example_id) (ms_data created_store) =
      (Inr True, drop_sessions (\<lambda>k. k = example_id) (renewed ?s minute (ms_data created_store)))"
    using w by (auto simp: svc_update_run delete_effect)
  moreover have "\<not> ms_closed created_store" by (simp add: created_store_def example_store_def)
  ultimately show ?thesis
    using mem_Update_live [OF mem_wf_records_ok [OF created_ok] _ memory.ref_svc_update [OF memory.ref_delete]] by (simp add: DeleteContext_def)
qed

theorem delete_revokes_witness:
  "\<forall>ctx t lib s encoded. \<exists>e.
     Authorize (mem_View ctx t) (memory_tx free_marshal) lib s example_id encoded
       (snd (DeleteContext (mem_Update None minute) (memory_tx free_marshal) (example_service ''a'' 4) example_id created_store)) =
     (Inl e, snd (DeleteContext (mem_Update None minute) (memory_tx free_marshal) (example_service ''a'' 4) example_id created_store))"
  using delete_revokes [OF created_ok example_deleted] unfolding example_deleted by simp

text \<open>A redemption under a retry key that meets every condition of the code, with a live context.\<close>

lemma renewed_grant:
  assumes ok: "records_ok d" and g: "map_of (grants d) k = Some g" "now < gr_ExpiresAt g"
    and s: "map_of (sessions d) (gr_SessionID g) = Some x" "now < sr_ExpiresAt x"
  shows "map_of (grants (renewed s' now d)) k = Some g"
  using records_okD [OF ok] g s
  by (auto simp: renewed_def prune_records_def drop_sessions_def del_grants_def put_namespace_def Let_def map_of_filter_Some expired_session_def
      split: option.splits)

lemma redeem_live:
  fixes s now st
  defines "d \<equiv> renewed s now (ms_data st)"
  assumes ok: "records_ok (ms_data st)" and opn: "\<not> ms_closed st" and w: "is_writer s (ms_data st)" and small: "\<And>v. fits marshal v"
    and shape: "validOpaqueInvitationCode rl code" "code \<noteq> []" "length locator \<le> MaxNameBytes" "locator \<noteq> []" "16 \<le> length key" "length key \<le> 128"
      "validIdentifier key 128"
    and grant: "lookup_grant d locator = Some grant" "now < gr_ExpiresAt grant" "JoinCode grant = code"
    and name: "ParseStored lx (buildPhraseGrammar lx) (unicode_fold rl) (gr_GrammarName grant) (Alias grant) = Inr name"
    and live: "live_session s now d (gr_SessionID grant) session"
    and fresh: "receipts d = []" "0 < MaxReceipts (svc_config s)"
    and sign: "svc_sign lib s session (new_claims (gr_SessionID grant) RoleSubscriber (gr_BusID grant) [] False)
          (SubscriberTokenTTL (svc_config s)) now draw = Inr credential"
    and enc: "encode \<lparr>ri_SessionID = gr_SessionID grant, ri_BusID = gr_BusID grant, ri_SubscriberToken = credential\<rparr> = Inr response" "length response \<le> 16384"
  shows "redeem (mem_Update None now) (memory_tx marshal) lx lib rl encode s locator code key draw st =
    (Inr (response, Some \<lparr>ri_SessionID = gr_SessionID grant, ri_BusID = gr_BusID grant, ri_SubscriberToken = credential\<rparr>),
     st\<lparr>ms_data := del_grants (\<lambda>k _. k = gr_ID grant) (put_receipt (new_receipt rl s grant session locator code key response now) d)\<rparr>)"
proof -
  have key: "key \<noteq> []" using shape(5) by auto
  have has: "has_key (gr_SessionID grant) (sessions d)" using live by (simp add: live_session_def has_key_def)
  have act: "tx_catch (active (abstract_tx marshal writeTransaction now) s (gr_SessionID grant)) ErrNoRows (tx_fail ErrNotExist) d = (Inr session, d)"
    using live by (simp add: tx_catch_fail_Inr active_run)
  have "consume_tx (abstract_tx marshal writeTransaction now) lx lib rl encode s locator code key draw d =
      (Inr (response, Some \<lparr>ri_SessionID = gr_SessionID grant, ri_BusID = gr_BusID grant, ri_SubscriberToken = credential\<rparr>),
       del_grants (\<lambda>k _. k = gr_ID grant) (put_receipt (new_receipt rl s grant session locator code key response now) d))"
    unfolding consume_tx_def
    using key grant name act fresh sign enc small has
    by (auto simp: runs count_records_def new_receipt_def has_key_def)
  then have "redeem_tx (abstract_tx marshal writeTransaction now) lx lib rl encode s locator code key draw d =
      (Inr (response, Some \<lparr>ri_SessionID = gr_SessionID grant, ri_BusID = gr_BusID grant, ri_SubscriberToken = credential\<rparr>),
       del_grants (\<lambda>k _. k = gr_ID grant) (put_receipt (new_receipt rl s grant session locator code key response now) d))"
    using key fresh(1) by (simp add: redeem_tx_def runs)
  then have "svc_update (abstract_tx marshal writeTransaction now) s
      (redeem_tx (abstract_tx marshal writeTransaction now) lx lib rl encode s locator code key draw) (ms_data st) =
      (Inr (response, Some \<lparr>ri_SessionID = gr_SessionID grant, ri_BusID = gr_BusID grant, ri_SubscriberToken = credential\<rparr>),
       del_grants (\<lambda>k _. k = gr_ID grant) (put_receipt (new_receipt rl s grant session locator code key response now) d))"
    using w small by (simp add: svc_update_run d_def)
  then show ?thesis
    using mem_Update_live [OF mem_wf_records_ok [OF ok] opn memory.ref_svc_update [OF memory.ref_redeem]] shape
    by (simp add: redeem_def Let_def returned_def effective_code_def not_less)
qed

definition example_lexicon :: lexicon where
  "example_lexicon = \<lparr>lex_words = [], nounGroups = [], adjectiveGroups = [], modifierGroups = [], qualifierPairs = [], confusableGroups = [],
     disallowedPairs = [], specificAdjectiveHeads = [], lex_tripleHeads = [], lex_tripleAdjectives = [], composedPalettes = [],
     legacyRoots = ([''calm''], [''river''], []), legacyTails = ([''glow''], [''fox''], [])\<rparr>"

definition example_grant :: GrantRecord where
  "example_grant = \<lparr>gr_SchemaVersion = 1, gr_ID = ''g'', JoinCode = example_id, Alias = ''calmglow-riverfox'', gr_GrammarName = legacyGrammarName,
     WordCount = 2, Visibility = ''public'', gr_SessionID = example_id, gr_BusID = ''mix'', gr_CreatedAt = 0, gr_ExpiresAt = 15 * minute\<rparr>"

definition invited_store :: mem_store where
  "invited_store = created_store\<lparr>ms_data := put_grant example_grant (ms_data created_store)\<rparr>"

definition example_redeem :: redeem_library where
  "example_redeem = \<lparr>Sum256 = (\<lambda>_. [1]), hmac_Sum = (\<lambda>_ _. [2]), uuid_Parse_ok = (\<lambda>_. True), unicode_fold = (\<lambda>s. s)\<rparr>"

definition easy_library :: jwt_library where
  "easy_library = example_library\<lparr>SignedString := (\<lambda>_ _ _. Some ''t'')\<rparr>"

abbreviation example_key :: string where "example_key \<equiv> ''0123456789abcdef''"

definition redeemed_store :: mem_store where
  "redeemed_store = invited_store\<lparr>ms_data := del_grants (\<lambda>k _. k = ''g'')
     (put_receipt (new_receipt example_redeem (example_service ''a'' 4) example_grant created_session ''calmglow-riverfox'' example_id example_key [9] 0)
       (renewed (example_service ''a'' 4) 0 (ms_data invited_store)))\<rparr>"

lemma created_data: "sessions (ms_data created_store) = [(example_id, created_session)]" "grants (ms_data created_store) = []"
  "locators (ms_data created_store) = []" "receipts (ms_data created_store) = []"
  by (simp_all add: created_store_def put_session_def renewed_def example_store_def prune_records_def drop_sessions_def del_grants_def
      put_namespace_def Let_def new_session_def)

lemma invited_ok: "records_ok (ms_data invited_store)"
proof -
  have "\<not> grant_conflict (ms_data created_store) example_grant"
    by (simp add: grant_conflict_def created_data example_grant_def example_id_def has_key_def)
  then show ?thesis using created_ok by (simp add: invited_store_def records_ok_put_grant)
qed

lemma example_lookup:
  "lookup_grant (renewed (example_service ''a'' 4) 0 (ms_data invited_store)) ''calmglow-riverfox'' = Some example_grant"
proof -
  have "map_of (grants (ms_data invited_store)) ''g'' = Some example_grant" "map_of (sessions (ms_data invited_store)) example_id = Some created_session"
    by (simp_all add: invited_store_def put_grant_def created_data example_grant_def)
  moreover have "0 < sr_ExpiresAt created_session" by (simp add: new_session_def example_ttls)
  ultimately have "map_of (grants (renewed (example_service ''a'' 4) 0 (ms_data invited_store))) ''g'' = Some example_grant"
    by (intro renewed_grant [OF invited_ok, of _ _ _ created_session]) (simp_all add: example_grant_def)
  then show ?thesis using lookup_grant_iff [OF renewed_records(1) [OF invited_ok]] by (auto simp: example_grant_def)
qed

lemma example_redeemed:
  "redeem (mem_Update None 0) (memory_tx free_marshal) example_lexicon easy_library example_redeem (\<lambda>_. Inr [9]) (example_service ''a'' 4)
     ''calmglow-riverfox'' example_id example_key (Some [7]) invited_store =
   (Inr ([9], Some \<lparr>ri_SessionID = example_id, ri_BusID = ''mix'', ri_SubscriberToken = ''t''\<rparr>), redeemed_store)"
proof -
  let ?s = "example_service ''a'' 4" and ?d = "renewed (example_service ''a'' 4) 0 (ms_data invited_store)"
  have x: "map_of (sessions (ms_data invited_store)) example_id = Some created_session"
    by (simp add: invited_store_def put_grant_def created_data)
  have unexpired: "0 < sr_ExpiresAt created_session" by (simp add: new_session_def example_ttls)
  note grant = example_lookup
  have live: "live_session ?s 0 ?d (gr_SessionID example_grant) created_session"
    using renewed_records(2) [OF invited_ok] x unexpired by (simp add: live_session_def example_grant_def) (simp add: new_session_def)
  have rc: "receipts ?d = []"
    by (simp add: renewed_def prune_records_def drop_sessions_def del_grants_def put_namespace_def Let_def invited_store_def put_grant_def created_data)
  have name: "ParseStored example_lexicon (buildPhraseGrammar example_lexicon) (unicode_fold example_redeem) (gr_GrammarName example_grant) (Alias example_grant) =
      Inr \<lparr>Text = ''calmglow-riverfox'', nm_GrammarName = legacyGrammarName, nm_WordCount = 2\<rparr>" by code_simp
  have claims: "validateScope ((new_claims example_id RoleSubscriber ''mix'' [] False)\<lparr>c_Incarnation := ''i''\<rparr>)" "validIdentifier example_id maxIdentifierLength"
    "validIdentifier example_key 128" "validOpaqueInvitationCode example_redeem example_id" by code_simp+
  have sign: "svc_sign easy_library ?s created_session (new_claims example_id RoleSubscriber ''mix'' [] False) (SubscriberTokenTTL (svc_config ?s)) 0 (Some [7]) = Inr ''t''"
    using claims by (simp add: svc_sign_def SignProfile_def new_session_def example_service_def randomTokenID_def new_claims_def easy_library_def
        example_ttls [unfolded example_service_def, simplified])
  have w: "is_writer ?s (ms_data invited_store)"
    using example_writer by (simp add: invited_store_def created_store_def is_writer_def)
  have opn: "\<not> ms_closed invited_store" by (simp add: invited_store_def created_store_def example_store_def)
  show ?thesis
    using redeem_live [OF invited_ok opn w fits_free claims(4) _ _ _ _ _ claims(3) grant _ _ name live rc _ _ , of easy_library "Some [7]" "''t''" "\<lambda>_. Inr [9]" "[9]"] sign
    by (simp add: example_grant_def example_id_def MaxNameBytes_def MaxWordCount_def example_ttls redeemed_store_def)
qed

theorem invitation_redeemed_once_witness:
  "\<forall>ctx2 t s2 code2 draw2. \<exists>e st2.
     redeem (mem_Update ctx2 t) (memory_tx free_marshal) example_lexicon easy_library example_redeem (\<lambda>_. Inr [9]) s2
       ''calmglow-riverfox'' code2 [] draw2 redeemed_store = (Inl e, st2)"
proof -
  have "Alias example_grant = ''calmglow-riverfox''" by (simp add: example_grant_def)
  then show ?thesis using invitation_redeemed_once [OF invited_ok example_redeemed] example_lookup by fastforce
qed


end
