(* ===== verification/Event_Bus.thy ===== *)
theory Event_Bus
  imports Token
begin

text \<open>
  The conflating event bus of \<^verbatim>\<open>access/event_bus.go\<close>.  A subscriber's channel has room for one event; publishing replaces
  an unread one.  Channels are objects of their own, because a consumer keeps reading its channel after it has been
  unsubscribed or the bus closed; a subscription names its channel by position.  The consumer of a channel may
  receive at any moment, also between the steps of \<^verbatim>\<open>Publish\<close>.
\<close>

section \<open>State\<close>

record Event =
  ev_Revision :: u64
  ev_Payload :: string

record event_channel =
  ch_buffer :: "Event list"
  ch_closed :: bool

record eventSubscription =
  sub_channel :: nat
  sub_revision :: u64

record EventBus =
  subscribers :: "(string, eventSubscription) gomap"
  channels :: "event_channel list"
  latest :: Event
  bus_closed :: bool
  bus_done :: bool

definition newEventBus :: EventBus where
  "newEventBus = \<lparr>subscribers = [], channels = [], latest = \<lparr>ev_Revision = 0, ev_Payload = []\<rparr>, bus_closed = False, bus_done = False\<rparr>"

section \<open>Operations\<close>

definition randomSubscriptionID :: "bytes option \<Rightarrow> access_error + string" where
  "randomSubscriptionID rnd = (case rnd of None \<Rightarrow> Inl ErrRandom | Some v \<Rightarrow> Inr (hex_EncodeToString v))"

definition subscribeAfter :: "int \<Rightarrow> u64 \<Rightarrow> bytes option \<Rightarrow> EventBus \<Rightarrow> (access_error + string \<times> nat) \<times> EventBus" where
  "subscribeAfter limit revision rnd bus =
     (if bus_closed bus \<or> int (length (subscribers bus)) \<ge> limit then (Inl ErrSSECapacity, bus)
      else
        case randomSubscriptionID rnd of
          Inl e \<Rightarrow> (Inl e, bus)
        | Inr sid \<Rightarrow>
            let newer = ev_Revision (latest bus) > revision;
                ch = \<lparr>ch_buffer = (if newer then [latest bus] else []), ch_closed = False\<rparr>;
                sub = \<lparr>sub_channel = length (channels bus), sub_revision = (if newer then ev_Revision (latest bus) else revision)\<rparr>
            in (Inr (sid, length (channels bus)),
                bus\<lparr>channels := channels bus @ [ch], subscribers := AList.update sid sub (subscribers bus)\<rparr>))"

definition bus_Subscribe :: "int \<Rightarrow> bytes option \<Rightarrow> EventBus \<Rightarrow> (access_error + string \<times> nat) \<times> EventBus" where
  "bus_Subscribe limit = subscribeAfter limit 0"

definition close_channel :: "nat \<Rightarrow> EventBus \<Rightarrow> EventBus" where
  "close_channel a bus = bus\<lparr>channels := (channels bus)[a := (channels bus ! a)\<lparr>ch_closed := True\<rparr>]\<rparr>"

definition Unsubscribe :: "string \<Rightarrow> EventBus \<Rightarrow> EventBus" where
  "Unsubscribe sid bus =
     (case map_of (subscribers bus) sid of
        None \<Rightarrow> bus
      | Some sub \<Rightarrow> close_channel (sub_channel sub) (bus\<lparr>subscribers := AList.delete sid (subscribers bus)\<rparr>))"

definition HasSubscriber :: "string \<Rightarrow> EventBus \<Rightarrow> bool" where
  "HasSubscriber sid bus = has_key sid (subscribers bus)"

definition subscriberCount :: "EventBus \<Rightarrow> nat" where
  "subscriberCount bus = length (subscribers bus)"

text \<open>
  The send of \<^verbatim>\<open>Publish\<close> to one channel.  When the buffer is full the consumer may empty it before the second
  \<^verbatim>\<open>select\<close> does (\<open>stolen\<close>); it then has received the old event.  The result holds the events the consumer took
  and the buffer once the unconditional send is possible, nothing when it would block.
\<close>

definition conflate :: "bool \<Rightarrow> Event \<Rightarrow> Event list \<Rightarrow> (Event list \<times> Event list) option" where
  "conflate stolen event buf =
     (if length buf < 1 then Some ([], buf @ [event])
      else
        let (taken, buf1) = (if stolen then (take 1 buf, drop 1 buf) else ([], buf));
            buf2 = drop 1 buf1
        in if length buf2 < 1 then Some (taken, buf2 @ [event]) else None)"

text \<open>\<^verbatim>\<open>Publish\<close> to the subscribers in iteration order; it also reports what consumers took on the way.\<close>

fun publish_all ::
  "(string \<Rightarrow> bool) \<Rightarrow> Event \<Rightarrow> (string \<times> eventSubscription) list \<Rightarrow> EventBus \<Rightarrow> (EventBus \<times> (nat \<times> Event) list) option" where
  "publish_all stolen event [] bus = Some (bus, [])"
| "publish_all stolen event ((sid, sub) # subs) bus =
     (if ev_Revision event \<le> sub_revision sub then publish_all stolen event subs bus
      else
        case conflate (stolen sid) event (ch_buffer (channels bus ! sub_channel sub)) of
          None \<Rightarrow> None
        | Some (taken, buf) \<Rightarrow>
            (case publish_all stolen event subs
                (bus\<lparr>subscribers := AList.update sid (sub\<lparr>sub_revision := ev_Revision event\<rparr>) (subscribers bus),
                     channels := (channels bus)[sub_channel sub := (channels bus ! sub_channel sub)\<lparr>ch_buffer := buf\<rparr>]\<rparr>) of
               None \<Rightarrow> None
             | Some (bus', later) \<Rightarrow> Some (bus', map (Pair (sub_channel sub)) taken @ later)))"

definition Publish :: "(string \<Rightarrow> bool) \<Rightarrow> Event \<Rightarrow> EventBus \<Rightarrow> (EventBus \<times> (nat \<times> Event) list) option" where
  "Publish stolen event bus =
     (if bus_closed bus \<or> ev_Revision event \<le> ev_Revision (latest bus) then Some (bus, [])
      else publish_all stolen event (subscribers bus) (bus\<lparr>latest := event\<rparr>))"

definition bus_Close :: "EventBus \<Rightarrow> EventBus" where
  "bus_Close bus =
     (if bus_closed bus then bus
      else
        let bus1 = bus\<lparr>bus_closed := True, bus_done := True\<rparr>
        in (fold (\<lambda>(sid, sub). close_channel (sub_channel sub)) (subscribers bus) bus1)\<lparr>subscribers := []\<rparr>)"

text \<open>A consumer receives from its channel.\<close>

definition receive_event :: "nat \<Rightarrow> EventBus \<Rightarrow> (Event \<times> EventBus) option" where
  "receive_event a bus =
     (if a < length (channels bus)
      then case ch_buffer (channels bus ! a) of
             [] \<Rightarrow> None
           | e # rest \<Rightarrow> Some (e, bus\<lparr>channels := (channels bus)[a := (channels bus ! a)\<lparr>ch_buffer := rest\<rparr>]\<rparr>)
      else None)"

section \<open>Executions\<close>

text \<open>A history records, for each channel, the revision its consumer started from and the events it has received.\<close>

record bus_history =
  h_bus :: EventBus
  h_start :: "nat \<Rightarrow> u64"
  h_got :: "nat \<Rightarrow> Event list"

definition taken_by :: "nat \<Rightarrow> (nat \<times> Event) list \<Rightarrow> Event list" where
  "taken_by a taken = map snd (filter (\<lambda>(b, _). b = a) taken)"

definition deliver :: "(nat \<times> Event) list \<Rightarrow> (nat \<Rightarrow> Event list) \<Rightarrow> nat \<Rightarrow> Event list" where
  "deliver taken got a = got a @ taken_by a taken"

inductive bus_step :: "bus_history \<Rightarrow> bus_history \<Rightarrow> bool" where
  subscribe: "subscribeAfter limit revision rnd (h_bus h) = (Inr (sid, a), bus') \<Longrightarrow>
    bus_step h (h\<lparr>h_bus := bus', h_start := (h_start h)(a := revision), h_got := (h_got h)(a := [])\<rparr>)"
| unsubscribe: "bus_step h (h\<lparr>h_bus := Unsubscribe sid (h_bus h)\<rparr>)"
| publish: "Publish stolen event (h_bus h) = Some (bus', taken) \<Longrightarrow>
    bus_step h (h\<lparr>h_bus := bus', h_got := deliver taken (h_got h)\<rparr>)"
| close: "bus_step h (h\<lparr>h_bus := bus_Close (h_bus h)\<rparr>)"
| receive: "receive_event a (h_bus h) = Some (e, bus') \<Longrightarrow>
    bus_step h (h\<lparr>h_bus := bus', h_got := (h_got h)(a := h_got h a @ [e])\<rparr>)"

inductive bus_reachable :: "bus_history \<Rightarrow> bool" where
  start: "bus_reachable \<lparr>h_bus = newEventBus, h_start = st, h_got = got\<rparr>"
| step: "\<lbrakk>bus_reachable h; bus_step h h'\<rbrakk> \<Longrightarrow> bus_reachable h'"

section \<open>The invariant\<close>

text \<open>The events of one consumer: those received followed by the unread one.\<close>

definition seen :: "bus_history \<Rightarrow> nat \<Rightarrow> Event list" where
  "seen h a = h_got h a @ ch_buffer (channels (h_bus h) ! a)"

definition rising :: "u64 \<Rightarrow> Event list \<Rightarrow> bool" where
  "rising r es \<longleftrightarrow> sorted_wrt (<) (r # map ev_Revision es)"

definition sub_ok :: "bus_history \<Rightarrow> eventSubscription \<Rightarrow> bool" where
  "sub_ok h sub \<longleftrightarrow>
     (let a = sub_channel sub in
      a < length (channels (h_bus h)) \<and> length (ch_buffer (channels (h_bus h) ! a)) \<le> 1 \<and>
      rising (h_start h a) (seen h a) \<and> sub_revision sub = (if seen h a = [] then h_start h a else ev_Revision (last (seen h a))) \<and>
      ev_Revision (latest (h_bus h)) \<le> sub_revision sub \<and> (seen h a \<noteq> [] \<longrightarrow> last (seen h a) = latest (h_bus h)))"

definition bus_inv :: "bus_history \<Rightarrow> bool" where
  "bus_inv h \<longleftrightarrow> map_wf (subscribers (h_bus h)) \<and> distinct (map (sub_channel \<circ> snd) (subscribers (h_bus h))) \<and>
     (\<forall>(sid, sub) \<in> set (subscribers (h_bus h)). sub_ok h sub)"

lemma conflate_result: "length buf \<le> 1 \<Longrightarrow> \<exists>taken. conflate stolen event buf = Some (taken, [event]) \<and> (taken = [] \<or> taken = buf)"
  by (cases buf) (auto simp: conflate_def)

lemma taken_by_append [simp]: "taken_by a (xs @ ys) = taken_by a xs @ taken_by a ys"
  by (simp add: taken_by_def)

lemma taken_by_pairs [simp]: "taken_by a (map (Pair b) es) = (if a = b then es else [])"
  by (induction es) (auto simp: taken_by_def)

lemma taken_by_Nil [simp]: "taken_by a [] = []" by (simp add: taken_by_def)

definition bumped :: "Event \<Rightarrow> eventSubscription \<Rightarrow> eventSubscription" where
  "bumped event sub = (if ev_Revision event \<le> sub_revision sub then sub else sub\<lparr>sub_revision := ev_Revision event\<rparr>)"

lemma update_middle: "k \<notin> fst ` set pre \<Longrightarrow> AList.update k v (pre @ (k, w) # post) = pre @ (k, v) # post"
  by (induction pre) auto

lemma publish_all_spec:
  assumes "subscribers bus = pre @ subs" and "distinct (map fst (pre @ subs))" and "distinct (map (sub_channel \<circ> snd) subs)"
    and "\<forall>(sid, sub) \<in> set subs. sub_channel sub < length (channels bus) \<and> length (ch_buffer (channels bus ! sub_channel sub)) \<le> 1"
  shows "\<exists>bus' taken. publish_all stolen event subs bus = Some (bus', taken) \<and>
    bus'\<lparr>subscribers := [], channels := []\<rparr> = bus\<lparr>subscribers := [], channels := []\<rparr> \<and>
    subscribers bus' = pre @ map (\<lambda>(sid, sub). (sid, bumped event sub)) subs \<and> length (channels bus') = length (channels bus) \<and>
    (\<forall>a. (\<forall>(sid, sub) \<in> set subs. sub_channel sub = a \<longrightarrow> ev_Revision event \<le> sub_revision sub) \<longrightarrow>
       channels bus' ! a = channels bus ! a \<and> taken_by a taken = []) \<and>
    (\<forall>(sid, sub) \<in> set subs. sub_revision sub < ev_Revision event \<longrightarrow>
       channels bus' ! sub_channel sub = (channels bus ! sub_channel sub)\<lparr>ch_buffer := [event]\<rparr> \<and>
       taken_by (sub_channel sub) taken \<in> {[], ch_buffer (channels bus ! sub_channel sub)})"
  using assms
proof (induction subs arbitrary: bus pre)
  case Nil
  then show ?case by simp
next
  case (Cons x subs)
  obtain sid sub where x: "x = (sid, sub)" by (cases x)
  let ?a = "sub_channel sub"
  have a: "?a < length (channels bus)" "length (ch_buffer (channels bus ! ?a)) \<le> 1" using Cons.prems(4) x by auto
  have notin: "sub_channel sub' \<noteq> ?a" if "(sid', sub') \<in> set subs" for sid' sub'
    using Cons.prems(3) x that by force
  show ?case
  proof (cases "ev_Revision event \<le> sub_revision sub")
    case True
    have "\<exists>bus' taken. publish_all stolen event subs bus = Some (bus', taken) \<and>
      bus'\<lparr>subscribers := [], channels := []\<rparr> = bus\<lparr>subscribers := [], channels := []\<rparr> \<and>
      subscribers bus' = (pre @ [(sid, sub)]) @ map (\<lambda>(sid, sub). (sid, bumped event sub)) subs \<and> length (channels bus') = length (channels bus) \<and>
      (\<forall>a. (\<forall>(sid, sub) \<in> set subs. sub_channel sub = a \<longrightarrow> ev_Revision event \<le> sub_revision sub) \<longrightarrow>
         channels bus' ! a = channels bus ! a \<and> taken_by a taken = []) \<and>
      (\<forall>(sid, sub) \<in> set subs. sub_revision sub < ev_Revision event \<longrightarrow>
         channels bus' ! sub_channel sub = (channels bus ! sub_channel sub)\<lparr>ch_buffer := [event]\<rparr> \<and>
         taken_by (sub_channel sub) taken \<in> {[], ch_buffer (channels bus ! sub_channel sub)})"
      using Cons.prems x by (intro Cons.IH) auto
    then show ?thesis using True x by (auto simp: bumped_def)
  next
    case False
    obtain t where c: "conflate (stolen sid) event (ch_buffer (channels bus ! ?a)) = Some (t, [event])"
      "t = [] \<or> t = ch_buffer (channels bus ! ?a)" using conflate_result [OF a(2)] by blast
    let ?bus = "bus\<lparr>subscribers := AList.update sid (sub\<lparr>sub_revision := ev_Revision event\<rparr>) (subscribers bus),
      channels := (channels bus)[?a := (channels bus ! ?a)\<lparr>ch_buffer := [event]\<rparr>]\<rparr>"
    have subs: "subscribers ?bus = (pre @ [(sid, bumped event sub)]) @ subs"
      using Cons.prems(1,2) x False by (simp add: update_middle bumped_def)
    have same: "channels ?bus ! sub_channel sub' = channels bus ! sub_channel sub'" if "(sid', sub') \<in> set subs" for sid' sub'
      using notin [OF that] by (simp add: nth_list_update_neq)
    have "\<exists>bus' taken. publish_all stolen event subs ?bus = Some (bus', taken) \<and>
      bus'\<lparr>subscribers := [], channels := []\<rparr> = ?bus\<lparr>subscribers := [], channels := []\<rparr> \<and>
      subscribers bus' = (pre @ [(sid, bumped event sub)]) @ map (\<lambda>(sid, sub). (sid, bumped event sub)) subs \<and> length (channels bus') = length (channels ?bus) \<and>
      (\<forall>a. (\<forall>(sid, sub) \<in> set subs. sub_channel sub = a \<longrightarrow> ev_Revision event \<le> sub_revision sub) \<longrightarrow>
         channels bus' ! a = channels ?bus ! a \<and> taken_by a taken = []) \<and>
      (\<forall>(sid, sub) \<in> set subs. sub_revision sub < ev_Revision event \<longrightarrow>
         channels bus' ! sub_channel sub = (channels ?bus ! sub_channel sub)\<lparr>ch_buffer := [event]\<rparr> \<and>
         taken_by (sub_channel sub) taken \<in> {[], ch_buffer (channels ?bus ! sub_channel sub)})"
      using Cons.prems x subs same by (intro Cons.IH) (auto simp: nth_list_update)
    then obtain bus' taken where IH: "publish_all stolen event subs ?bus = Some (bus', taken)"
      "bus'\<lparr>subscribers := [], channels := []\<rparr> = ?bus\<lparr>subscribers := [], channels := []\<rparr>"
      "subscribers bus' = (pre @ [(sid, bumped event sub)]) @ map (\<lambda>(sid, sub). (sid, bumped event sub)) subs"
      "length (channels bus') = length (channels ?bus)"
      "\<And>a. (\<forall>(sid, sub) \<in> set subs. sub_channel sub = a \<longrightarrow> ev_Revision event \<le> sub_revision sub) \<Longrightarrow>
         channels bus' ! a = channels ?bus ! a \<and> taken_by a taken = []"
      "\<And>sid sub. \<lbrakk>(sid, sub) \<in> set subs; sub_revision sub < ev_Revision event\<rbrakk> \<Longrightarrow>
         channels bus' ! sub_channel sub = (channels ?bus ! sub_channel sub)\<lparr>ch_buffer := [event]\<rparr> \<and>
         taken_by (sub_channel sub) taken \<in> {[], ch_buffer (channels ?bus ! sub_channel sub)}" by blast
    have pub: "publish_all stolen event (x # subs) bus = Some (bus', map (Pair ?a) t @ taken)" using False c(1) IH(1) x by simp
    have own: "channels bus' ! ?a = (channels bus ! ?a)\<lparr>ch_buffer := [event]\<rparr>" "taken_by ?a taken = []"
      using IH(5) [of ?a] notin a(1) by auto
    have others: "channels bus' ! b = channels bus ! b \<and> taken_by b (map (Pair ?a) t @ taken) = []"
      if "\<forall>(sid, sub) \<in> set (x # subs). sub_channel sub = b \<longrightarrow> ev_Revision event \<le> sub_revision sub" for b
    proof -
      have "b \<noteq> ?a" using that x False by auto
      then show ?thesis using IH(5) [of b] that by (auto simp: nth_list_update_neq)
    qed
    have served: "channels bus' ! sub_channel sub' = (channels bus ! sub_channel sub')\<lparr>ch_buffer := [event]\<rparr> \<and>
        taken_by (sub_channel sub') (map (Pair ?a) t @ taken) \<in> {[], ch_buffer (channels bus ! sub_channel sub')}"
      if "(sid', sub') \<in> set (x # subs)" "sub_revision sub' < ev_Revision event" for sid' sub'
    proof (cases "(sid', sub') = x")
      case True
      then show ?thesis using own c(2) x by auto
    next
      case False
      then have m: "(sid', sub') \<in> set subs" using that(1) by auto
      then show ?thesis using IH(6) [OF m that(2)] same [OF m] notin [OF m] by auto
    qed
    show ?thesis
    proof (intro exI conjI)
      show "publish_all stolen event (x # subs) bus = Some (bus', map (Pair ?a) t @ taken)" by (rule pub)
      show "bus'\<lparr>subscribers := [], channels := []\<rparr> = bus\<lparr>subscribers := [], channels := []\<rparr>" using IH(2) by simp
      show "subscribers bus' = pre @ map (\<lambda>(sid, sub). (sid, bumped event sub)) (x # subs)" using IH(3) x by simp
      show "length (channels bus') = length (channels bus)" using IH(4) by simp
    qed (use others served in blast)+
  qed
qed

section \<open>Preservation\<close>

lemma distinct_map_update:
  "\<lbrakk>distinct (map f m); \<And>x. x \<in> set m \<Longrightarrow> f x \<noteq> f (k, v)\<rbrakk> \<Longrightarrow> distinct (map f (AList.update k v m))"
proof (induction m)
  case (Cons y m)
  have sub: "set (AList.update k v m) \<subseteq> insert (k, v) (set m)" by (induction m) auto
  have new: "f (k, v) \<notin> f ` set (y # m)" using Cons.prems(2) by force
  have IH: "distinct (map f (AList.update k v m))" using Cons by simp
  show ?case
  proof (cases "fst y = k")
    case True
    then show ?thesis using new Cons.prems(1) by (cases y) auto
  next
    case False
    have "f y \<notin> f ` set (AList.update k v m)" using sub new Cons.prems(1) by auto
    then show ?thesis using False IH by (cases y) auto
  qed
qed simp

lemma set_update_wf: "set (AList.update k v m) \<subseteq> insert (k, v) (set m)"
  by (induction m) auto

lemma seen_cong: "\<lbrakk>h_got h' a = h_got h a; ch_buffer (channels (h_bus h') ! a) = ch_buffer (channels (h_bus h) ! a)\<rbrakk> \<Longrightarrow> seen h' a = seen h a"
  by (simp add: seen_def)

lemma sub_ok_cong:
  assumes "sub_ok h sub" and "length (channels (h_bus h)) \<le> length (channels (h_bus h'))" and "latest (h_bus h') = latest (h_bus h)"
    and "h_start h' (sub_channel sub) = h_start h (sub_channel sub)" and "h_got h' (sub_channel sub) = h_got h (sub_channel sub)"
    and "ch_buffer (channels (h_bus h') ! sub_channel sub) = ch_buffer (channels (h_bus h) ! sub_channel sub)"
  shows "sub_ok h' sub"
proof -
  have "seen h' (sub_channel sub) = seen h (sub_channel sub)" using assms(5,6) by (rule seen_cong)
  then show ?thesis using assms by (auto simp: sub_ok_def Let_def)
qed

lemma inv_subscribe:
  assumes inv: "bus_inv h" and run: "subscribeAfter limit revision rnd (h_bus h) = (Inr (sid, a), bus')"
  shows "bus_inv (h\<lparr>h_bus := bus', h_start := (h_start h)(a := revision), h_got := (h_got h)(a := [])\<rparr>)"
proof -
  let ?bus = "h_bus h" and ?h = "h\<lparr>h_bus := bus', h_start := (h_start h)(a := revision), h_got := (h_got h)(a := [])\<rparr>"
  let ?newer = "ev_Revision (latest ?bus) > revision"
  let ?ch = "\<lparr>ch_buffer = (if ?newer then [latest ?bus] else []), ch_closed = False\<rparr>"
  let ?sub = "\<lparr>sub_channel = length (channels ?bus), sub_revision = (if ?newer then ev_Revision (latest ?bus) else revision)\<rparr>"
  have a: "a = length (channels ?bus)" and bus': "bus' = ?bus\<lparr>channels := channels ?bus @ [?ch], subscribers := AList.update sid ?sub (subscribers ?bus)\<rparr>"
    using run by (auto simp: subscribeAfter_def Let_def split: if_splits sum.splits)
  have old: "sub_channel sub < length (channels ?bus)" "sub_ok h sub" if "(sid', sub) \<in> set (subscribers ?bus)" for sid' sub
    using inv that by (auto simp: bus_inv_def sub_ok_def Let_def)
  have "sub_ok ?h ?sub" using a bus' by (auto simp: sub_ok_def seen_def rising_def)
  moreover have "sub_ok ?h sub" if "(sid', sub) \<in> set (subscribers ?bus)" for sid' sub
    using old [OF that] a bus' by (intro sub_ok_cong [OF old(2) [OF that]]) (auto simp: nth_append)
  ultimately have "\<forall>(sid', sub) \<in> set (subscribers bus'). sub_ok ?h sub"
    using set_update_wf [of sid ?sub "subscribers ?bus"] bus' by auto
  moreover have "distinct (map (sub_channel \<circ> snd) (subscribers bus'))"
  proof -
    have "(sub_channel \<circ> snd) x \<noteq> (sub_channel \<circ> snd) (sid, ?sub)" if "x \<in> set (subscribers ?bus)" for x
      using old(1) [of "fst x" "snd x"] that by simp
    then show ?thesis using inv bus' distinct_map_update [of "sub_channel \<circ> snd" "subscribers ?bus" sid ?sub] by (simp add: bus_inv_def)
  qed
  ultimately show ?thesis using inv bus' by (simp add: bus_inv_def)
qed

lemma inv_unsubscribe:
  assumes inv: "bus_inv h"
  shows "bus_inv (h\<lparr>h_bus := Unsubscribe sid (h_bus h)\<rparr>)"
proof (cases "map_of (subscribers (h_bus h)) sid")
  case None
  then show ?thesis using inv by (simp add: Unsubscribe_def)
next
  case (Some sub)
  let ?h = "h\<lparr>h_bus := Unsubscribe sid (h_bus h)\<rparr>"
  have subs: "subscribers (h_bus ?h) = AList.delete sid (subscribers (h_bus h))" using Some by (simp add: Unsubscribe_def close_channel_def)
  have sub: "set (AList.delete sid (subscribers (h_bus h))) \<subseteq> set (subscribers (h_bus h))" by (auto simp: AList.delete_eq)
  have buf: "ch_buffer (channels (h_bus ?h) ! b) = ch_buffer (channels (h_bus h) ! b)" for b
    using Some by (cases "b = sub_channel sub"; cases "sub_channel sub < length (channels (h_bus h))")
      (auto simp: Unsubscribe_def close_channel_def nth_list_update list_update_beyond)
  have "sub_ok ?h x" if "(k, x) \<in> set (subscribers (h_bus h))" for k x
  proof -
    have ok: "sub_ok h x" using that inv by (auto simp: bus_inv_def)
    have "length (channels (h_bus ?h)) = length (channels (h_bus h))" "latest (h_bus ?h) = latest (h_bus h)"
      using Some by (simp_all add: Unsubscribe_def close_channel_def)
    then show ?thesis by (intro sub_ok_cong [OF ok _ _ _ _ buf]) simp_all
  qed
  moreover have "distinct (map (sub_channel \<circ> snd) (AList.delete sid (subscribers (h_bus h))))"
    using inv by (simp add: bus_inv_def AList.delete_eq distinct_map_filter)
  ultimately show ?thesis using inv sub unfolding bus_inv_def subs by auto
qed

lemma bus_inv_receive:
  assumes inv: "bus_inv h" and run: "receive_event a (h_bus h) = Some (e, bus')"
  shows "bus_inv (h\<lparr>h_bus := bus', h_got := (h_got h)(a := h_got h a @ [e])\<rparr>)"
proof -
  let ?h = "h\<lparr>h_bus := bus', h_got := (h_got h)(a := h_got h a @ [e])\<rparr>"
  obtain rest where a: "a < length (channels (h_bus h))" "ch_buffer (channels (h_bus h) ! a) = e # rest"
    and bus': "bus' = (h_bus h)\<lparr>channels := (channels (h_bus h))[a := (channels (h_bus h) ! a)\<lparr>ch_buffer := rest\<rparr>]\<rparr>"
    using run by (auto simp: receive_event_def split: if_splits list.splits)
  have seen: "seen ?h b = seen h b" for b using a bus' by (cases "b = a") (auto simp: seen_def nth_list_update)
  have buf: "length (ch_buffer (channels bus' ! b)) \<le> length (ch_buffer (channels (h_bus h) ! b))" for b
    using a bus' by (cases "b = a") (auto simp: nth_list_update)
  have "sub_ok ?h x" if "(k, x) \<in> set (subscribers (h_bus h))" for k x
  proof -
    have "sub_ok h x" using that inv by (auto simp: bus_inv_def)
    then show ?thesis using buf [of "sub_channel x"] bus' unfolding sub_ok_def Let_def seen by auto
  qed
  then show ?thesis using inv bus' by (auto simp: bus_inv_def)
qed

lemma le_last: "\<lbrakk>sorted_wrt (<) (l :: 'a :: linorder list); v \<in> set l\<rbrakk> \<Longrightarrow> v \<le> last l"
proof (induction l)
  case (Cons a l)
  show ?case
  proof (cases "l = []")
    case False
    then have "last l \<in> set l" by simp
    then have "a < last l" using Cons.prems(1) by simp
    then show ?thesis using Cons False by (auto intro: less_imp_le)
  qed (use Cons in simp)
qed simp

lemma rising_extend:
  assumes r: "rising r (xs @ ys)" and e: "(if xs @ ys = [] then r else ev_Revision (last (xs @ ys))) < ev_Revision e"
  shows "rising r (xs @ [e]) \<and> rising r (xs @ ys @ [e])"
proof -
  let ?l = "r # map ev_Revision (xs @ ys)"
  have "last (r # map ev_Revision zs) = (if zs = [] then r else ev_Revision (last zs))" for zs by (simp add: last_map)
  from this [of "xs @ ys"] have last: "last ?l < ev_Revision e" using e by simp
  have all: "v < ev_Revision e" if "v \<in> set ?l" for v
    using le_last [OF r [unfolded rising_def] that] last by (rule le_less_trans)
  show ?thesis using r all by (auto simp: rising_def sorted_wrt_append)
qed

lemma bus_inv_publish:
  assumes inv: "bus_inv h" and run: "Publish stolen event (h_bus h) = Some (bus', taken)"
  shows "bus_inv (h\<lparr>h_bus := bus', h_got := deliver taken (h_got h)\<rparr>)"
proof (cases "bus_closed (h_bus h) \<or> ev_Revision event \<le> ev_Revision (latest (h_bus h))")
  case True
  then have "bus' = h_bus h" "taken = []" using run by (simp_all add: Publish_def)
  moreover have "deliver [] (h_got h) = h_got h" by (rule ext) (simp add: deliver_def)
  ultimately show ?thesis using inv by simp
next
  case False
  let ?b = "(h_bus h)\<lparr>latest := event\<rparr>" and ?h = "h\<lparr>h_bus := bus', h_got := deliver taken (h_got h)\<rparr>"
  have all: "publish_all stolen event (subscribers (h_bus h)) ?b = Some (bus', taken)" using run False by (simp add: Publish_def)
  have ok: "sub_ok h sub" if "(sid, sub) \<in> set (subscribers (h_bus h))" for sid sub using inv that by (auto simp: bus_inv_def)
  have pre: "\<forall>(sid, sub) \<in> set (subscribers (h_bus h)). sub_channel sub < length (channels ?b) \<and> length (ch_buffer (channels ?b ! sub_channel sub)) \<le> 1"
    using ok by (auto simp: sub_ok_def Let_def)
  from publish_all_spec [of ?b "[]" "subscribers (h_bus h)" stolen event] inv pre all
  have spec: "bus'\<lparr>subscribers := [], channels := []\<rparr> = ?b\<lparr>subscribers := [], channels := []\<rparr>"
    "subscribers bus' = map (\<lambda>(sid, sub). (sid, bumped event sub)) (subscribers (h_bus h))" "length (channels bus') = length (channels (h_bus h))"
    "\<And>a. (\<forall>(sid, sub) \<in> set (subscribers (h_bus h)). sub_channel sub = a \<longrightarrow> ev_Revision event \<le> sub_revision sub) \<Longrightarrow>
       channels bus' ! a = channels (h_bus h) ! a \<and> taken_by a taken = []"
    "\<And>sid sub. \<lbrakk>(sid, sub) \<in> set (subscribers (h_bus h)); sub_revision sub < ev_Revision event\<rbrakk> \<Longrightarrow>
       channels bus' ! sub_channel sub = (channels (h_bus h) ! sub_channel sub)\<lparr>ch_buffer := [event]\<rparr> \<and>
       taken_by (sub_channel sub) taken \<in> {[], ch_buffer (channels (h_bus h) ! sub_channel sub)}"
    by (auto simp: bus_inv_def)
  have late: "latest bus' = event" using spec(1) by (metis EventBus.select_convs(3) EventBus.surjective EventBus.update_convs(1,2,3))
  have "sub_ok ?h (bumped event sub)" if sub: "(sid, sub) \<in> set (subscribers (h_bus h))" for sid sub
  proof -
    let ?a = "sub_channel sub"
    have o: "?a < length (channels (h_bus h))" "length (ch_buffer (channels (h_bus h) ! ?a)) \<le> 1" "rising (h_start h ?a) (seen h ?a)"
      "sub_revision sub = (if seen h ?a = [] then h_start h ?a else ev_Revision (last (seen h ?a)))"
      "ev_Revision (latest (h_bus h)) \<le> sub_revision sub" "seen h ?a \<noteq> [] \<longrightarrow> last (seen h ?a) = latest (h_bus h)"
      using ok [OF sub] unfolding sub_ok_def Let_def by blast+
    show ?thesis
    proof (cases "ev_Revision event \<le> sub_revision sub")
      case True
      have "\<forall>(sid', sub') \<in> set (subscribers (h_bus h)). sub_channel sub' = ?a \<longrightarrow> ev_Revision event \<le> sub_revision sub'"
      proof (clarify)
        fix sid' sub' assume m: "(sid', sub') \<in> set (subscribers (h_bus h))" "sub_channel sub' = ?a"
        have "inj_on (sub_channel \<circ> snd) (set (subscribers (h_bus h)))" using inv by (simp add: bus_inv_def distinct_map)
        from inj_onD [OF this, of "(sid', sub')" "(sid, sub)"] m sub have "sub' = sub" by simp
        then show "ev_Revision event \<le> sub_revision sub'" using True by simp
      qed
      from spec(4) [OF this] have same: "seen ?h ?a = seen h ?a" "channels bus' ! ?a = channels (h_bus h) ! ?a"
        by (simp_all add: seen_def deliver_def)
      have "seen h ?a = []" using o(4,6) False True by (cases "seen h ?a = []") auto
      then show ?thesis using o True late spec(3) same by (simp add: sub_ok_def bumped_def Let_def)
    next
      case stale: False
      then have less: "sub_revision sub < ev_Revision event" by simp
      note s = spec(5) [OF sub less]
      have e: "(if seen h ?a = [] then h_start h ?a else ev_Revision (last (seen h ?a))) < ev_Revision event" using less o(4) by simp
      have "seen ?h ?a = h_got h ?a @ taken_by ?a taken @ [event]" using s by (simp add: seen_def deliver_def)
      moreover have "rising (h_start h ?a) (h_got h ?a @ taken_by ?a taken @ [event])"
        using rising_extend [OF o(3) [unfolded seen_def] e [unfolded seen_def]] s by auto
      ultimately show ?thesis using o(1) s spec(3) late stale by (simp add: sub_ok_def bumped_def Let_def)
    qed
  qed
  then have "\<forall>(sid, sub) \<in> set (subscribers bus'). sub_ok ?h sub" using spec(2) by auto
  moreover have "map fst (subscribers bus') = map fst (subscribers (h_bus h))"
    "map (sub_channel \<circ> snd) (subscribers bus') = map (sub_channel \<circ> snd) (subscribers (h_bus h))"
    using spec(2) by (auto simp: bumped_def split: if_splits)
  ultimately show ?thesis using inv by (simp add: bus_inv_def)
qed

lemma bus_inv_step: "\<lbrakk>bus_step h h'; bus_inv h\<rbrakk> \<Longrightarrow> bus_inv h'"
proof (induction rule: bus_step.induct)
  case (close h)
  then show ?case by (cases "bus_closed (h_bus h)") (simp_all add: bus_inv_def bus_Close_def Let_def)
qed (auto intro: inv_subscribe inv_unsubscribe bus_inv_publish bus_inv_receive)

lemma bus_inv_reachable: "bus_reachable h \<Longrightarrow> bus_inv h"
proof (induction rule: bus_reachable.induct)
  case (start st got)
  show ?case by (simp add: bus_inv_def newEventBus_def)
qed (rule bus_inv_step)

lemma publish_never_blocks:
  assumes "bus_inv h"
  shows "Publish stolen event (h_bus h) \<noteq> None"
proof -
  have "\<forall>(sid, sub) \<in> set (subscribers (h_bus h)). sub_channel sub < length (channels ((h_bus h)\<lparr>latest := event\<rparr>)) \<and>
      length (ch_buffer (channels ((h_bus h)\<lparr>latest := event\<rparr>) ! sub_channel sub)) \<le> 1"
    using assms by (auto simp: bus_inv_def sub_ok_def Let_def)
  then show ?thesis
    using publish_all_spec [of "(h_bus h)\<lparr>latest := event\<rparr>" "[]" "subscribers (h_bus h)" stolen event] assms
    by (auto simp: Publish_def bus_inv_def)
qed

text \<open>C10. A consumer of the event bus is never more than one receive behind.  Under every interleaving of publishers, subscribers and
  consumers, publishing never blocks; each consumer sees revisions strictly increasing from the snapshot it
  started with; and unless nothing newer than that snapshot was published, the latest state is either the last
  one it received or the one its next receive returns.\<close>

theorem event_bus_fresh:
  assumes reach: "bus_reachable h" and sub: "(sid, sub) \<in> set (subscribers (h_bus h))"
  shows "rising (h_start h (sub_channel sub)) (seen h (sub_channel sub)) \<and>
    (ev_Revision (latest (h_bus h)) \<le> h_start h (sub_channel sub) \<or>
     (if ch_buffer (channels (h_bus h) ! sub_channel sub) = []
      then h_got h (sub_channel sub) \<noteq> [] \<and> last (h_got h (sub_channel sub)) = latest (h_bus h)
      else \<exists>bus'. receive_event (sub_channel sub) (h_bus h) = Some (latest (h_bus h), bus'))) \<and>
    Publish stolen event (h_bus h) \<noteq> None"
proof -
  let ?a = "sub_channel sub"
  have inv: "bus_inv h" using bus_inv_reachable [OF reach] .
  then have o: "?a < length (channels (h_bus h))" "length (ch_buffer (channels (h_bus h) ! ?a)) \<le> 1" "rising (h_start h ?a) (seen h ?a)"
    "sub_revision sub = (if seen h ?a = [] then h_start h ?a else ev_Revision (last (seen h ?a)))"
    "ev_Revision (latest (h_bus h)) \<le> sub_revision sub" "seen h ?a \<noteq> [] \<longrightarrow> last (seen h ?a) = latest (h_bus h)"
    using sub by (auto simp: bus_inv_def sub_ok_def Let_def)
  have "ev_Revision (latest (h_bus h)) \<le> h_start h ?a \<or> last (seen h ?a) = latest (h_bus h) \<and> seen h ?a \<noteq> []"
    using o(4,5,6) by (cases "seen h ?a = []") auto
  moreover have "\<exists>bus'. receive_event ?a (h_bus h) = Some (latest (h_bus h), bus')"
    if "ch_buffer (channels (h_bus h) ! ?a) \<noteq> []" "last (seen h ?a) = latest (h_bus h)"
    using that o(1,2) by (cases "ch_buffer (channels (h_bus h) ! ?a)") (auto simp: receive_event_def seen_def)
  ultimately show ?thesis using o(3) publish_never_blocks [OF inv] by (auto simp: seen_def)
qed

definition example_bus :: bus_history where
  "example_bus = \<lparr>h_bus = \<lparr>subscribers = [(''01'', \<lparr>sub_channel = 0, sub_revision = 4\<rparr>)],
       channels = [\<lparr>ch_buffer = [\<lparr>ev_Revision = 4, ev_Payload = ''x''\<rparr>], ch_closed = False\<rparr>],
       latest = \<lparr>ev_Revision = 4, ev_Payload = ''x''\<rparr>, bus_closed = False, bus_done = False\<rparr>,
     h_start = (\<lambda>_. 3), h_got = (\<lambda>_. [])\<rparr>"

lemma example_bus_reachable: "bus_reachable example_bus"
proof -
  let ?h0 = "\<lparr>h_bus = newEventBus, h_start = (\<lambda>_. 3), h_got = (\<lambda>_. [])\<rparr>"
  let ?b1 = "\<lparr>subscribers = [(''01'', \<lparr>sub_channel = 0, sub_revision = 3\<rparr>)], channels = [\<lparr>ch_buffer = [], ch_closed = False\<rparr>],
       latest = \<lparr>ev_Revision = 0, ev_Payload = []\<rparr>, bus_closed = False, bus_done = False\<rparr>"
  let ?h1 = "?h0\<lparr>h_bus := ?b1, h_start := (\<lambda>_. 3)(0 := 3), h_got := (\<lambda>_. [])(0 := [])\<rparr>"
  have "bus_reachable ?h0" by (rule bus_reachable.start)
  moreover have "subscribeAfter 2 3 (Some [1]) newEventBus = (Inr (''01'', 0), ?b1)" by code_simp
  then have "bus_step ?h0 ?h1" using bus_step.subscribe [of 2 3 "Some [1]" ?h0 "''01''" 0 ?b1] by simp
  ultimately have "bus_reachable ?h1" by (rule bus_reachable.step)
  moreover have "Publish (\<lambda>_. False) \<lparr>ev_Revision = 4, ev_Payload = ''x''\<rparr> ?b1 = Some (h_bus example_bus, [])" by code_simp
  then have "bus_step ?h1 example_bus"
    using bus_step.publish [of "\<lambda>_. False" "\<lparr>ev_Revision = 4, ev_Payload = ''x''\<rparr>" ?h1 "h_bus example_bus" "[]"]
    by (simp add: example_bus_def deliver_def [abs_def] fun_upd_def)
  ultimately show ?thesis by (rule bus_reachable.step)
qed

theorem event_bus_fresh_witness:
  "rising 3 (seen example_bus 0) \<and> (\<exists>bus'. receive_event 0 (h_bus example_bus) = Some (\<lparr>ev_Revision = 4, ev_Payload = ''x''\<rparr>, bus'))"
proof -
  have "(''01'', \<lparr>sub_channel = 0, sub_revision = 4\<rparr>) \<in> set (subscribers (h_bus example_bus))" by (simp add: example_bus_def)
  from event_bus_fresh [OF example_bus_reachable this] show ?thesis by (auto simp: example_bus_def)
qed

end
