(* ===== verification/Session_Events.thy ===== *)
theory Session_Events
  imports Event_Bus Access_Service
begin

text \<open>
  The event pollers of \<^verbatim>\<open>access/events.go\<close>.  The service keeps one event bus per locally observed Session under its lock;
  the consumer that creates a bus starts the goroutine that polls for it.  Every critical section is one step, and
  the goroutines, consumers, deletions and the maintenance loop interleave between the steps.
\<close>

section \<open>State\<close>

definition eventPollInterval :: duration where "eventPollInterval = 250 * millisecond"

text \<open>Where a poller stands: at the check under the lock, in the storage query, about to publish, waiting, about to close the
  bus after an error, or returned.\<close>

datatype poll_pc = PollCheck | PollQuery | PollPublish Event | PollWait | PollClose | PollDone

record poller =
  po_id :: string
  po_bus :: nat
  po_pc :: poll_pc

record event_hub =
  hub_buses :: "EventBus list"
  sessionBuses :: "(string, nat) gomap"
  pollers :: "poller list"

definition new_hub :: event_hub where
  "new_hub = \<lparr>hub_buses = [], sessionBuses = [], pollers = []\<rparr>"

definition on_bus :: "nat \<Rightarrow> (EventBus \<Rightarrow> EventBus) \<Rightarrow> event_hub \<Rightarrow> event_hub" where
  "on_bus b f hub = hub\<lparr>hub_buses := (hub_buses hub)[b := f (hub_buses hub ! b)]\<rparr>"

section \<open>Operations\<close>

text \<open>The critical section of \<^verbatim>\<open>SubscribeEventsContext\<close>, given the revision of the state \<^verbatim>\<open>GetContext\<close> returned.  The poller of a
  new bus starts right after.\<close>

definition subscribe_events ::
  "int \<Rightarrow> string \<Rightarrow> u64 \<Rightarrow> bytes option \<Rightarrow> event_hub \<Rightarrow> (access_error + nat \<times> string \<times> nat) \<times> event_hub" where
  "subscribe_events limit sid revision rnd hub =
     (let (b, created, hub1) =
            (case map_of (sessionBuses hub) sid of
               Some b \<Rightarrow> (b, False, hub)
             | None \<Rightarrow> (length (hub_buses hub), True,
                 hub\<lparr>hub_buses := hub_buses hub @ [newEventBus], sessionBuses := AList.update sid (length (hub_buses hub)) (sessionBuses hub)\<rparr>));
          (res, bus') = subscribeAfter limit revision rnd (hub_buses hub1 ! b);
          hub2 = on_bus b (\<lambda>_. bus') hub1
      in case res of
           Inl e \<Rightarrow> (Inl e, if created then on_bus b bus_Close (hub2\<lparr>sessionBuses := AList.delete sid (sessionBuses hub2)\<rparr>) else hub2)
         | Inr (subscription, channel) \<Rightarrow>
             (Inr (b, subscription, channel),
              if created then hub2\<lparr>pollers := pollers hub2 @ [\<lparr>po_id = sid, po_bus = b, po_pc = PollCheck\<rparr>]\<rparr> else hub2))"

definition SubscribeEventsContext ::
  "Service \<Rightarrow> string \<Rightarrow> access_error + Session \<Rightarrow> bytes option \<Rightarrow> event_hub \<Rightarrow> (access_error + State \<times> nat \<times> string \<times> nat) \<times> event_hub" where
  "SubscribeEventsContext s sid initial rnd hub =
     (case initial of
        Inl e \<Rightarrow> (Inl e, hub)
      | Inr session \<Rightarrow>
          (case subscribe_events (MaxSSEPerSession (svc_config s)) sid (State_StateRevision (session_State (ses_record session))) rnd hub of
             (Inl e, hub') \<Rightarrow> (Inl e, hub')
           | (Inr (b, subscription, channel), hub') \<Rightarrow> (Inr (session_State (ses_record session), b, subscription, channel), hub')))"

definition set_pc :: "nat \<Rightarrow> poll_pc \<Rightarrow> event_hub \<Rightarrow> event_hub" where
  "set_pc k pc hub = hub\<lparr>pollers := (pollers hub)[k := (pollers hub ! k)\<lparr>po_pc := pc\<rparr>]\<rparr>"

definition poll_check :: "nat \<Rightarrow> event_hub \<Rightarrow> event_hub" where
  "poll_check k hub =
     (let p = pollers hub ! k in
      if map_of (sessionBuses hub) (po_id p) \<noteq> Some (po_bus p) then set_pc k PollDone hub
      else if subscriberCount (hub_buses hub ! po_bus p) = 0
      then set_pc k PollDone (on_bus (po_bus p) bus_Close (hub\<lparr>sessionBuses := AList.delete (po_id p) (sessionBuses hub)\<rparr>))
      else set_pc k PollQuery hub)"

text \<open>The query and the encoding of its result; either may fail.\<close>

definition poll_query :: "nat \<Rightarrow> access_error + Session \<Rightarrow> (State \<Rightarrow> string option) \<Rightarrow> event_hub \<Rightarrow> event_hub" where
  "poll_query k current encode hub =
     (case current of
        Inl _ \<Rightarrow> set_pc k PollClose hub
      | Inr session \<Rightarrow>
          (case encode (session_State (ses_record session)) of
             None \<Rightarrow> set_pc k PollClose hub
           | Some payload \<Rightarrow>
               set_pc k (PollPublish \<lparr>ev_Revision = State_StateRevision (session_State (ses_record session)), ev_Payload = payload\<rparr>) hub))"

definition closeEventBus :: "string \<Rightarrow> nat \<Rightarrow> event_hub \<Rightarrow> event_hub" where
  "closeEventBus sid expected hub =
     (if map_of (sessionBuses hub) sid = Some expected
      then on_bus expected bus_Close (hub\<lparr>sessionBuses := AList.delete sid (sessionBuses hub)\<rparr>) else hub)"

definition closeLocalEventBus :: "string \<Rightarrow> event_hub \<Rightarrow> event_hub" where
  "closeLocalEventBus sid hub =
     (case map_of (sessionBuses hub) sid of
        None \<Rightarrow> hub
      | Some b \<Rightarrow> on_bus b bus_Close (hub\<lparr>sessionBuses := AList.delete sid (sessionBuses hub)\<rparr>))"

text \<open>The deferred cleanup of \<^verbatim>\<open>StartMaintenance\<close>.\<close>

definition maintenance_stop :: "event_hub \<Rightarrow> event_hub" where
  "maintenance_stop hub = (fold (\<lambda>(sid, b). on_bus b bus_Close) (sessionBuses hub) hub)\<lparr>sessionBuses := []\<rparr>"

text \<open>One renewal of \<^verbatim>\<open>StartMaintenance\<close>: an empty update; a fenced writer stops.\<close>

definition maintenance_tx :: "'t Tx \<Rightarrow> Service \<Rightarrow> ('t, unit) txm" where
  "maintenance_tx tx s = svc_update tx s (tx_return ())"

definition maintenance_stops :: "access_error + unit \<Rightarrow> bool" where
  "maintenance_stops r \<longleftrightarrow> r = Inl ErrWriterFenced"

section \<open>Executions\<close>

definition at_pc :: "event_hub \<Rightarrow> nat \<Rightarrow> poll_pc \<Rightarrow> bool" where
  "at_pc hub k pc \<longleftrightarrow> k < length (pollers hub) \<and> po_pc (pollers hub ! k) = pc"

inductive hub_step :: "event_hub \<Rightarrow> event_hub \<Rightarrow> bool" where
  subscribe: "hub_step hub (snd (subscribe_events limit sid revision rnd hub))"
| unsubscribe: "b < length (hub_buses hub) \<Longrightarrow> hub_step hub (on_bus b (Unsubscribe subscription) hub)"
| check: "at_pc hub k PollCheck \<Longrightarrow> hub_step hub (poll_check k hub)"
| query: "at_pc hub k PollQuery \<Longrightarrow> hub_step hub (poll_query k current encode hub)"
| publish: "\<lbrakk>at_pc hub k (PollPublish event); Publish stolen event (hub_buses hub ! po_bus (pollers hub ! k)) = Some (bus', taken)\<rbrakk> \<Longrightarrow>
    hub_step hub (set_pc k PollWait (on_bus (po_bus (pollers hub ! k)) (\<lambda>_. bus') hub))"
| wake: "at_pc hub k PollWait \<Longrightarrow> hub_step hub (set_pc k PollCheck hub)"
| stop: "\<lbrakk>at_pc hub k PollWait; bus_done (hub_buses hub ! po_bus (pollers hub ! k))\<rbrakk> \<Longrightarrow> hub_step hub (set_pc k PollDone hub)"
| fail: "at_pc hub k PollClose \<Longrightarrow>
    hub_step hub (set_pc k PollDone (closeEventBus (po_id (pollers hub ! k)) (po_bus (pollers hub ! k)) hub))"
| delete: "hub_step hub (closeLocalEventBus sid hub)"
| shutdown: "hub_step hub (maintenance_stop hub)"

inductive hub_reachable :: "event_hub \<Rightarrow> bool" where
  start: "hub_reachable new_hub"
| step: "\<lbrakk>hub_reachable hub; hub_step hub hub'\<rbrakk> \<Longrightarrow> hub_reachable hub'"

section \<open>One poller per observed Session\<close>

definition served :: "event_hub \<Rightarrow> string \<Rightarrow> nat \<Rightarrow> bool" where
  "served hub sid b \<longleftrightarrow> (\<exists>k < length (pollers hub). po_id (pollers hub ! k) = sid \<and> po_bus (pollers hub ! k) = b \<and> po_pc (pollers hub ! k) \<noteq> PollDone)"

definition hub_inv :: "event_hub \<Rightarrow> bool" where
  "hub_inv hub \<longleftrightarrow>
     (\<forall>sid b. map_of (sessionBuses hub) sid = Some b \<longrightarrow> b < length (hub_buses hub) \<and> \<not> bus_closed (hub_buses hub ! b) \<and> served hub sid b) \<and>
     (\<forall>sid sid' b. map_of (sessionBuses hub) sid = Some b \<longrightarrow> map_of (sessionBuses hub) sid' = Some b \<longrightarrow> sid' = sid) \<and>
     map_wf (sessionBuses hub) \<and>
     (\<forall>b < length (hub_buses hub). bus_closed (hub_buses hub ! b) \<or> (\<exists>sid. map_of (sessionBuses hub) sid = Some b)) \<and>
     (\<forall>b < length (hub_buses hub). bus_closed (hub_buses hub ! b) = bus_done (hub_buses hub ! b)) \<and>
     distinct (map po_bus (pollers hub)) \<and> (\<forall>p \<in> set (pollers hub). po_bus p < length (hub_buses hub))"

lemma hub_invD:
  assumes "hub_inv hub"
  shows "map_of (sessionBuses hub) sid = Some b \<Longrightarrow> b < length (hub_buses hub)"
    "map_of (sessionBuses hub) sid = Some b \<Longrightarrow> \<not> bus_closed (hub_buses hub ! b)"
    "map_of (sessionBuses hub) sid = Some b \<Longrightarrow> served hub sid b"
    "\<lbrakk>map_of (sessionBuses hub) sid = Some b; map_of (sessionBuses hub) sid' = Some b\<rbrakk> \<Longrightarrow> sid' = sid"
    "map_wf (sessionBuses hub)"
    "\<lbrakk>b < length (hub_buses hub); \<not> bus_closed (hub_buses hub ! b)\<rbrakk> \<Longrightarrow> \<exists>sid. map_of (sessionBuses hub) sid = Some b"
    "b < length (hub_buses hub) \<Longrightarrow> bus_closed (hub_buses hub ! b) = bus_done (hub_buses hub ! b)"
    "distinct (map po_bus (pollers hub))"
    "p \<in> set (pollers hub) \<Longrightarrow> po_bus p < length (hub_buses hub)"
  using assms unfolding hub_inv_def by blast+

lemma hub_invI:
  assumes "\<And>sid b. map_of (sessionBuses hub) sid = Some b \<Longrightarrow> b < length (hub_buses hub) \<and> \<not> bus_closed (hub_buses hub ! b) \<and> served hub sid b"
    and "\<And>sid sid' b. \<lbrakk>map_of (sessionBuses hub) sid = Some b; map_of (sessionBuses hub) sid' = Some b\<rbrakk> \<Longrightarrow> sid' = sid"
    and "map_wf (sessionBuses hub)"
    and "\<And>b. \<lbrakk>b < length (hub_buses hub); \<not> bus_closed (hub_buses hub ! b)\<rbrakk> \<Longrightarrow> \<exists>sid. map_of (sessionBuses hub) sid = Some b"
    and "\<And>b. b < length (hub_buses hub) \<Longrightarrow> bus_closed (hub_buses hub ! b) = bus_done (hub_buses hub ! b)"
    and "distinct (map po_bus (pollers hub))" and "\<And>p. p \<in> set (pollers hub) \<Longrightarrow> po_bus p < length (hub_buses hub)"
  shows "hub_inv hub"
  using assms unfolding hub_inv_def by blast

lemma close_channel_flags [simp]: "bus_closed (close_channel a bus) = bus_closed bus" "bus_done (close_channel a bus) = bus_done bus"
  by (simp_all add: close_channel_def)

lemma Close_flags [simp]: "bus_closed (bus_Close bus)" "bus_closed bus = bus_done bus \<Longrightarrow> bus_done (bus_Close bus)"
proof -
  have flags: "bus_closed (fold (\<lambda>(sid, sub). close_channel (sub_channel sub)) subs x) = bus_closed x \<and>
      bus_done (fold (\<lambda>(sid, sub). close_channel (sub_channel sub)) subs x) = bus_done x" for subs x
    by (induction subs arbitrary: x) (simp_all add: split_beta)
  note flag = flags [of "subscribers bus" "bus\<lparr>bus_closed := True, bus_done := True\<rparr>"]
  show "bus_closed (bus_Close bus)"
    unfolding bus_Close_def Let_def using flag by (cases "bus_closed bus") simp_all
  show "bus_done (bus_Close bus)" if "bus_closed bus = bus_done bus"
    unfolding bus_Close_def Let_def using that flag by (cases "bus_closed bus") simp_all
qed

definition keeps_flags :: "(EventBus \<Rightarrow> EventBus) \<Rightarrow> EventBus \<Rightarrow> bool" where
  "keeps_flags f bus \<longleftrightarrow> bus_closed (f bus) = bus_closed bus \<and> bus_done (f bus) = bus_done bus"

lemma Unsubscribe_flags: "keeps_flags (Unsubscribe sid) bus"
  by (auto simp: keeps_flags_def Unsubscribe_def close_channel_def split: option.splits)

lemma publish_all_flags:
  "publish_all stolen event subs bus = Some (bus', taken) \<Longrightarrow> bus_closed bus' = bus_closed bus \<and> bus_done bus' = bus_done bus"
proof (induction subs arbitrary: bus taken)
  case (Cons x subs)
  obtain sid sub where x: "x = (sid, sub)" by (cases x)
  show ?case
  proof (cases "ev_Revision event \<le> sub_revision sub")
    case True
    then show ?thesis using Cons x by simp
  next
    case False
    then obtain b1 taken1 where "publish_all stolen event subs b1 = Some (bus', taken1)" "bus_closed b1 = bus_closed bus" "bus_done b1 = bus_done bus"
      using Cons.prems x by (auto split: option.splits prod.splits)
    then show ?thesis using Cons.IH by simp
  qed
qed simp

lemma Publish_flags: "Publish stolen event bus = Some (bus', taken) \<Longrightarrow> keeps_flags (\<lambda>_. bus') bus"
  by (auto simp: keeps_flags_def Publish_def dest: publish_all_flags split: if_splits)

lemma subscribe_flags: "subscribeAfter limit revision rnd bus = (r, bus') \<Longrightarrow> keeps_flags (\<lambda>_. bus') bus"
  by (auto simp: keeps_flags_def subscribeAfter_def Let_def split: if_splits sum.splits)

lemma inv_on_bus:
  assumes inv: "hub_inv hub" and flags: "b < length (hub_buses hub) \<Longrightarrow> keeps_flags f (hub_buses hub ! b)"
  shows "hub_inv (on_bus b f hub)"
proof -
  let ?h = "on_bus b f hub"
  have same: "bus_closed (hub_buses ?h ! c) = bus_closed (hub_buses hub ! c)" "bus_done (hub_buses ?h ! c) = bus_done (hub_buses hub ! c)"
    if "c < length (hub_buses hub)" for c
    using flags that by (cases "c = b"; simp add: on_bus_def keeps_flags_def)+
  have rest: "length (hub_buses ?h) = length (hub_buses hub)" "sessionBuses ?h = sessionBuses hub" "pollers ?h = pollers hub" by (simp_all add: on_bus_def)
  note D = hub_invD [OF inv]
  show ?thesis
  proof (rule hub_invI; unfold rest)
    fix sid c assume m: "map_of (sessionBuses hub) sid = Some c"
    show "c < length (hub_buses hub) \<and> \<not> bus_closed (hub_buses ?h ! c) \<and> served ?h sid c"
      using D(1,2,3) [OF m] same(1) by (simp add: served_def rest)
  next
    fix c assume "c < length (hub_buses hub)" "\<not> bus_closed (hub_buses ?h ! c)"
    then show "\<exists>sid. map_of (sessionBuses hub) sid = Some c" using D(6) same(1) by simp
  next
    fix c assume "c < length (hub_buses hub)"
    then show "bus_closed (hub_buses ?h ! c) = bus_done (hub_buses ?h ! c)" using D(7) same by simp
  qed (use D(4,5,8,9) in blast)+
qed

lemma inv_remove:
  assumes inv: "hub_inv hub" and m: "map_of (sessionBuses hub) sid = Some b"
  shows "hub_inv (on_bus b bus_Close (hub\<lparr>sessionBuses := AList.delete sid (sessionBuses hub)\<rparr>))"
proof -
  let ?h = "on_bus b bus_Close (hub\<lparr>sessionBuses := AList.delete sid (sessionBuses hub)\<rparr>)"
  have rest: "length (hub_buses ?h) = length (hub_buses hub)" "sessionBuses ?h = AList.delete sid (sessionBuses hub)" "pollers ?h = pollers hub"
    by (simp_all add: on_bus_def)
  have b: "b < length (hub_buses hub)" using inv m unfolding hub_inv_def by blast
  have other: "c \<noteq> b" if "sid' \<noteq> sid" "map_of (sessionBuses hub) sid' = Some c" for sid' c using inv m that unfolding hub_inv_def by blast
  have bus: "hub_buses ?h ! c = (if c = b then bus_Close (hub_buses hub ! b) else hub_buses hub ! c)" if "c < length (hub_buses hub)" for c
    using b that by (simp add: on_bus_def)
  have flag: "bus_closed (hub_buses hub ! c) = bus_done (hub_buses hub ! c)" if "c < length (hub_buses hub)" for c
    using inv that unfolding hub_inv_def by blast
  have "c < length (hub_buses hub) \<and> \<not> bus_closed (hub_buses ?h ! c) \<and> served ?h sid' c" if "map_of (sessionBuses ?h) sid' = Some c" for sid' c
  proof -
    have m': "sid' \<noteq> sid" "map_of (sessionBuses hub) sid' = Some c" using that by (auto simp: rest split: if_splits)
    then have "c < length (hub_buses hub)" "\<not> bus_closed (hub_buses hub ! c)" "served hub sid' c" using inv unfolding hub_inv_def by blast+
    then show ?thesis using bus other [OF m'] by (simp add: served_def rest)
  qed
  note mapped = this
  note D = hub_invD [OF inv]
  show ?thesis
  proof (rule hub_invI; unfold rest)
    fix sid' c assume "map_of (AList.delete sid (sessionBuses hub)) sid' = Some c"
    then show "c < length (hub_buses hub) \<and> \<not> bus_closed (hub_buses ?h ! c) \<and> served ?h sid' c" using mapped by (simp add: rest)
  next
    fix sid1 sid2 c assume "map_of (AList.delete sid (sessionBuses hub)) sid1 = Some c" "map_of (AList.delete sid (sessionBuses hub)) sid2 = Some c"
    then show "sid2 = sid1" using D(4) by (auto split: if_splits)
  next
    fix c assume c: "c < length (hub_buses hub)" "\<not> bus_closed (hub_buses ?h ! c)"
    then have "c \<noteq> b" "\<not> bus_closed (hub_buses hub ! c)" using bus [OF c(1)] by (auto split: if_splits)
    then obtain sid' where "map_of (sessionBuses hub) sid' = Some c" using D(6) c(1) by blast
    then show "\<exists>sid'. map_of (AList.delete sid (sessionBuses hub)) sid' = Some c" using \<open>c \<noteq> b\<close> m by (intro exI [of _ sid']) auto
  next
    fix c assume "c < length (hub_buses hub)"
    then show "bus_closed (hub_buses ?h ! c) = bus_done (hub_buses ?h ! c)" using bus flag by simp
  qed (use D(5,8,9) in auto)
qed

lemma set_pc_fields [simp]: "hub_buses (set_pc k pc hub) = hub_buses hub" "sessionBuses (set_pc k pc hub) = sessionBuses hub"
  by (simp_all add: set_pc_def)

lemma inv_set_pc:
  assumes inv: "hub_inv hub" and stop: "pc = PollDone \<Longrightarrow> map_of (sessionBuses hub) (po_id (pollers hub ! k)) \<noteq> Some (po_bus (pollers hub ! k))"
  shows "hub_inv (set_pc k pc hub)"
proof -
  let ?h = "set_pc k pc hub"
  have len: "length (pollers ?h) = length (pollers hub)" by (simp add: set_pc_def)
  have keep: "po_id (pollers ?h ! j) = po_id (pollers hub ! j)" "po_bus (pollers ?h ! j) = po_bus (pollers hub ! j)" if "j < length (pollers hub)" for j
    using that by (cases "j = k"; simp add: set_pc_def)+
  have busses: "map po_bus (pollers ?h) = map po_bus (pollers hub)" using len keep(2) by (intro nth_equalityI) simp_all
  have "served ?h sid b" if m: "map_of (sessionBuses hub) sid = Some b" for sid b
  proof -
    obtain j where j: "j < length (pollers hub)" "po_id (pollers hub ! j) = sid" "po_bus (pollers hub ! j) = b" "po_pc (pollers hub ! j) \<noteq> PollDone"
      using inv m unfolding hub_inv_def served_def by blast
    have "po_pc (pollers ?h ! j) \<noteq> PollDone" using j m stop by (cases "j = k") (auto simp: set_pc_def)
    then show ?thesis using j keep len unfolding served_def by (intro exI [of _ j]) simp
  qed
  moreover have "\<forall>p \<in> set (pollers ?h). po_bus p < length (hub_buses hub)"
    using inv busses unfolding hub_inv_def by (metis (no_types, lifting) image_iff image_set)
  ultimately show ?thesis using hub_invD [OF inv] busses by (intro hub_invI) auto
qed

lemma one_poller:
  assumes inv: "hub_inv hub" and k: "k < length (pollers hub)" and m: "map_of (sessionBuses hub) sid = Some (po_bus (pollers hub ! k))"
  shows "po_id (pollers hub ! k) = sid \<and> po_pc (pollers hub ! k) \<noteq> PollDone"
proof -
  obtain j where j: "j < length (pollers hub)" "po_id (pollers hub ! j) = sid" "po_bus (pollers hub ! j) = po_bus (pollers hub ! k)"
    "po_pc (pollers hub ! j) \<noteq> PollDone" using inv m unfolding hub_inv_def served_def by blast
  have "distinct (map po_bus (pollers hub))" using inv unfolding hub_inv_def by blast
  then have "j = k" using j(1,3) k by (simp add: distinct_conv_nth) metis
  then show ?thesis using j by simp
qed

lemma delete_update: "map_of m k = None \<Longrightarrow> AList.delete k (AList.update k v m) = m"
  by (induction m) auto

lemma inv_append_closed:
  assumes inv: "hub_inv hub" and c: "bus_closed bus" "bus_done bus"
  shows "hub_inv (hub\<lparr>hub_buses := hub_buses hub @ [bus]\<rparr>)"
proof -
  have "b < Suc (length (hub_buses hub)) \<and> \<not> bus_closed ((hub_buses hub @ [bus]) ! b) \<and> served (hub\<lparr>hub_buses := hub_buses hub @ [bus]\<rparr>) sid b"
    if "map_of (sessionBuses hub) sid = Some b" for sid b
  proof -
    have "b < length (hub_buses hub)" "\<not> bus_closed (hub_buses hub ! b)" "served hub sid b" using inv that unfolding hub_inv_def by blast+
    then show ?thesis by (simp add: nth_append served_def)
  qed
  then show ?thesis
    using hub_invD [OF inv] c by (intro hub_invI) (auto simp: nth_append less_Suc_eq split: if_splits intro: less_SucI)
qed

lemma inv_subscribe_events:
  assumes inv: "hub_inv hub"
  shows "hub_inv (snd (subscribe_events limit sid revision rnd hub))"
proof (cases "map_of (sessionBuses hub) sid")
  case (Some b)
  obtain res bus' where run: "subscribeAfter limit revision rnd (hub_buses hub ! b) = (res, bus')" by fastforce
  have "hub_inv (on_bus b (\<lambda>_. bus') hub)" using inv subscribe_flags [OF run] by (intro inv_on_bus) (simp_all add: keeps_flags_def)
  then show ?thesis using Some run by (auto simp: subscribe_events_def Let_def split: sum.splits prod.splits)
next
  case None
  let ?n = "length (hub_buses hub)"
  let ?h1 = "hub\<lparr>hub_buses := hub_buses hub @ [newEventBus], sessionBuses := AList.update sid ?n (sessionBuses hub)\<rparr>"
  let ?h2 = "?h1\<lparr>pollers := pollers hub @ [\<lparr>po_id = sid, po_bus = ?n, po_pc = PollCheck\<rparr>]\<rparr>"
  obtain res bus' where run: "subscribeAfter limit revision rnd newEventBus = (res, bus')" by fastforce
  have old: "b < ?n \<and> \<not> bus_closed (hub_buses hub ! b) \<and> served hub sid' b" if "map_of (sessionBuses hub) sid' = Some b" for sid' b
    using inv that unfolding hub_inv_def by blast
  have "served ?h2 sid' b" if "map_of (sessionBuses ?h2) sid' = Some b" for sid' b
  proof (cases "sid' = sid")
    case True
    then show ?thesis using that unfolding served_def by (intro exI [of _ "length (pollers hub)"]) (simp add: nth_append)
  next
    case False
    then have "served hub sid' b" using that old by simp
    then obtain j where "j < length (pollers hub)" "po_id (pollers hub ! j) = sid'" "po_bus (pollers hub ! j) = b" "po_pc (pollers hub ! j) \<noteq> PollDone"
      unfolding served_def by blast
    then show ?thesis unfolding served_def by (intro exI [of _ j]) (simp add: nth_append)
  qed
  note served2 = this
  have h2: "hub_inv ?h2"
    unfolding hub_inv_def
  proof (intro conjI allI impI ballI)
    fix sid' b assume m: "map_of (sessionBuses ?h2) sid' = Some b"
    show "served ?h2 sid' b" using served2 m .
    show "b < length (hub_buses ?h2)" "\<not> bus_closed (hub_buses ?h2 ! b)"
      using m old [of sid' b] by (auto simp: nth_append newEventBus_def split: if_splits)
    show "sid'' = sid'" if "map_of (sessionBuses ?h2) sid'' = Some b" for sid''
    proof -
      have "map_of (sessionBuses hub) sid1 \<noteq> Some ?n" for sid1 using old [of sid1 ?n] by auto
      moreover have "sid'' = sid'" if "map_of (sessionBuses hub) sid' = Some b" "map_of (sessionBuses hub) sid'' = Some b"
        using inv that unfolding hub_inv_def by blast
      ultimately show ?thesis using m that by (auto split: if_splits)
    qed
  next
    show "map_wf (sessionBuses ?h2)" using inv by (simp add: hub_inv_def)
  next
    fix b assume b: "b < length (hub_buses ?h2)"
    show "bus_closed (hub_buses ?h2 ! b) \<or> (\<exists>sid. map_of (sessionBuses ?h2) sid = Some b)"
    proof (cases "b = ?n")
      case False
      then have "b < ?n" using b by simp
      then have "bus_closed (hub_buses hub ! b) \<or> (\<exists>sid. map_of (sessionBuses hub) sid = Some b)" using inv unfolding hub_inv_def by blast
      then show ?thesis
      proof
        assume "\<exists>sid. map_of (sessionBuses hub) sid = Some b"
        then obtain sid' where "map_of (sessionBuses hub) sid' = Some b" ..
        then have "map_of (sessionBuses ?h2) sid' = Some b" using None by auto
        then show ?thesis by blast
      qed (use \<open>b < ?n\<close> in \<open>simp add: nth_append\<close>)
    qed auto
    show "bus_closed (hub_buses ?h2 ! b) = bus_done (hub_buses ?h2 ! b)"
      using b inv by (cases "b < ?n") (auto simp: nth_append newEventBus_def hub_inv_def)
  next
    have lt: "po_bus p < ?n" if "p \<in> set (pollers hub)" for p using inv that unfolding hub_inv_def by blast
    then have "?n \<notin> po_bus ` set (pollers hub)" by fastforce
    then show "distinct (map po_bus (pollers ?h2))" using hub_invD(8) [OF inv] by simp
    show "po_bus p < length (hub_buses ?h2)" if "p \<in> set (pollers ?h2)" for p using lt that by force
  qed
  show ?thesis
  proof (cases res)
    case (Inl e)
    then have "snd (subscribe_events limit sid revision rnd hub) = hub\<lparr>hub_buses := hub_buses hub @ [bus_Close bus']\<rparr>"
      using None run by (simp add: subscribe_events_def Let_def nth_append on_bus_def delete_update)
    moreover have "bus_closed bus' = bus_done bus'" using subscribe_flags [OF run] by (simp add: keeps_flags_def newEventBus_def)
    ultimately show ?thesis using inv_append_closed [OF inv, of "bus_Close bus'"] by simp
  next
    case (Inr x)
    then have "snd (subscribe_events limit sid revision rnd hub) = on_bus ?n (\<lambda>_. bus') ?h2"
      using None run by (cases x) (simp add: subscribe_events_def Let_def on_bus_def)
    then show ?thesis using h2 subscribe_flags [OF run] by (simp add: inv_on_bus keeps_flags_def)
  qed
qed

lemma inv_poll_check:
  assumes inv: "hub_inv hub"
  shows "hub_inv (poll_check k hub)"
proof (cases "map_of (sessionBuses hub) (po_id (pollers hub ! k)) = Some (po_bus (pollers hub ! k))")
  case False
  then show ?thesis using inv_set_pc [OF inv] by (simp add: poll_check_def Let_def)
next
  case True
  have "hub_inv (set_pc k pc (on_bus (po_bus (pollers hub ! k)) bus_Close (hub\<lparr>sessionBuses := AList.delete (po_id (pollers hub ! k)) (sessionBuses hub)\<rparr>)))" for pc
    using inv_remove [OF inv True] by (rule inv_set_pc) (simp add: on_bus_def)
  moreover have "hub_inv (set_pc k PollQuery hub)" using inv by (rule inv_set_pc) simp
  ultimately show ?thesis using True by (simp add: poll_check_def Let_def)
qed

lemma inv_closeEventBus: "hub_inv hub \<Longrightarrow> hub_inv (closeEventBus sid b hub)"
  by (simp add: closeEventBus_def inv_remove)

lemma inv_fail:
  assumes inv: "hub_inv hub"
  shows "hub_inv (set_pc k PollDone (closeEventBus (po_id (pollers hub ! k)) (po_bus (pollers hub ! k)) hub))"
  using inv_closeEventBus [OF inv] by (rule inv_set_pc) (simp add: closeEventBus_def on_bus_def)

lemma inv_poll_query: "hub_inv hub \<Longrightarrow> hub_inv (poll_query k current encode hub)"
  unfolding poll_query_def by (auto intro!: inv_set_pc split: sum.split option.split)

lemma inv_closeLocalEventBus: "hub_inv hub \<Longrightarrow> hub_inv (closeLocalEventBus sid hub)"
  by (auto simp: closeLocalEventBus_def inv_remove split: option.split)

text \<open>Closing every mapped bus and emptying the map closes the buses one after the other.\<close>

definition close_listed :: "(string, nat) gomap \<Rightarrow> event_hub \<Rightarrow> event_hub" where
  "close_listed m hub = fold (\<lambda>(sid, b) h. on_bus b bus_Close (h\<lparr>sessionBuses := AList.delete sid (sessionBuses h)\<rparr>)) m hub"

lemma inv_close_listed:
  "\<lbrakk>hub_inv hub; sessionBuses hub = m\<rbrakk> \<Longrightarrow> hub_inv (close_listed m hub) \<and> sessionBuses (close_listed m hub) = []"
proof (induction m arbitrary: hub)
  case (Cons x m)
  obtain sid b where x: "x = (sid, b)" by (cases x)
  let ?h = "on_bus b bus_Close (hub\<lparr>sessionBuses := AList.delete sid (sessionBuses hub)\<rparr>)"
  have "map_wf (sessionBuses hub)" using hub_invD(5) [OF Cons.prems(1)] .
  then have "AList.delete sid (sessionBuses hub) = m" using Cons.prems(2) x by (simp add: delete_id)
  then have "sessionBuses ?h = m" by (simp add: on_bus_def)
  moreover have "hub_inv ?h" using Cons.prems x by (intro inv_remove) simp_all
  ultimately show ?case using Cons.IH [of ?h] x by (simp add: close_listed_def)
qed (simp add: close_listed_def)

lemma on_bus_sessions: "on_bus b f (hub\<lparr>sessionBuses := x\<rparr>) = (on_bus b f hub)\<lparr>sessionBuses := x\<rparr>"
  by (simp add: on_bus_def)

lemma close_fold_sessions:
  "fold (\<lambda>(sid, b). on_bus b bus_Close) m (hub\<lparr>sessionBuses := x\<rparr>) = (fold (\<lambda>(sid, b). on_bus b bus_Close) m hub)\<lparr>sessionBuses := x\<rparr>"
  by (induction m arbitrary: hub) (auto simp: on_bus_sessions)

lemma inv_maintenance_stop: "hub_inv hub \<Longrightarrow> hub_inv (maintenance_stop hub)"
proof -
  assume inv: "hub_inv hub"
  have same: "(close_listed m h)\<lparr>sessionBuses := []\<rparr> = (fold (\<lambda>(sid, b). on_bus b bus_Close) m h)\<lparr>sessionBuses := []\<rparr>" for m h
  proof (induction m arbitrary: h)
    case (Cons x m)
    then show ?case
      by (cases x) (simp add: close_listed_def on_bus_sessions close_fold_sessions)
  qed (simp add: close_listed_def)
  have "hub_inv ((close_listed (sessionBuses hub) hub)\<lparr>sessionBuses := []\<rparr>)"
    using inv_close_listed [OF inv refl] by (metis event_hub.surjective event_hub.update_convs(2))
  then show ?thesis using same by (simp add: maintenance_stop_def)
qed

lemma hub_inv_publish:
  assumes inv: "hub_inv hub" and run: "Publish stolen event (hub_buses hub ! po_bus (pollers hub ! k)) = Some (bus', taken)"
  shows "hub_inv (set_pc k PollWait (on_bus (po_bus (pollers hub ! k)) (\<lambda>_. bus') hub))"
proof -
  have "hub_inv (on_bus (po_bus (pollers hub ! k)) (\<lambda>_. bus') hub)"
    using inv Publish_flags [OF run] by (intro inv_on_bus) (simp_all add: keeps_flags_def)
  then show ?thesis by (rule inv_set_pc) simp
qed

lemma inv_stop:
  assumes inv: "hub_inv hub" and k: "k < length (pollers hub)" and fin: "bus_done (hub_buses hub ! po_bus (pollers hub ! k))"
  shows "hub_inv (set_pc k PollDone hub)"
proof (rule inv_set_pc [OF inv])
  have "po_bus (pollers hub ! k) < length (hub_buses hub)" using hub_invD(9) [OF inv] k by simp
  then have "bus_closed (hub_buses hub ! po_bus (pollers hub ! k))" using hub_invD(7) [OF inv] fin by blast
  then show "map_of (sessionBuses hub) (po_id (pollers hub ! k)) \<noteq> Some (po_bus (pollers hub ! k))" using hub_invD(2) [OF inv] by blast
qed

lemma hub_inv_step: "\<lbrakk>hub_step hub hub'; hub_inv hub\<rbrakk> \<Longrightarrow> hub_inv hub'"
proof (induction rule: hub_step.induct)
  case (wake hub k)
  then show ?case by (intro inv_set_pc) simp_all
qed (auto simp: at_pc_def inv_subscribe_events inv_on_bus Unsubscribe_flags inv_poll_check inv_poll_query hub_inv_publish inv_stop inv_fail
      inv_closeLocalEventBus inv_maintenance_stop)

lemma hub_inv_reachable: "hub_reachable hub \<Longrightarrow> hub_inv hub"
  by (induction rule: hub_reachable.induct) (simp_all add: hub_inv_step, simp add: hub_inv_def new_hub_def)

section \<open>Property\<close>

text \<open>C11. Exactly one poller observes each locally subscribed Session: in every reachable state a bus in the service's map is open and
  has exactly one goroutine that polls for it and has not returned, and a bus that left the map is closed, with its consumers' channels
  and the channel its poller waits on.\<close>

theorem one_poller_per_session:
  assumes "hub_reachable hub"
  shows "(\<forall>sid b. map_of (sessionBuses hub) sid = Some b \<longrightarrow>
      \<not> bus_closed (hub_buses hub ! b) \<and>
      (\<exists>!k. k < length (pollers hub) \<and> po_bus (pollers hub ! k) = b) \<and>
      (\<forall>k < length (pollers hub). po_bus (pollers hub ! k) = b \<longrightarrow> po_id (pollers hub ! k) = sid \<and> po_pc (pollers hub ! k) \<noteq> PollDone)) \<and>
    (\<forall>b < length (hub_buses hub). (\<forall>sid. map_of (sessionBuses hub) sid \<noteq> Some b) \<longrightarrow>
      bus_closed (hub_buses hub ! b) \<and> bus_done (hub_buses hub ! b))"
proof -
  have inv: "hub_inv hub" using hub_inv_reachable [OF assms] .
  have "\<not> bus_closed (hub_buses hub ! b) \<and> (\<exists>!k. k < length (pollers hub) \<and> po_bus (pollers hub ! k) = b) \<and>
      (\<forall>k < length (pollers hub). po_bus (pollers hub ! k) = b \<longrightarrow> po_id (pollers hub ! k) = sid \<and> po_pc (pollers hub ! k) \<noteq> PollDone)"
    if m: "map_of (sessionBuses hub) sid = Some b" for sid b
  proof (intro conjI allI impI)
    obtain k where k: "k < length (pollers hub)" "po_bus (pollers hub ! k) = b" using hub_invD(3) [OF inv m] unfolding served_def by blast
    show "\<exists>!k. k < length (pollers hub) \<and> po_bus (pollers hub ! k) = b"
      using k hub_invD(8) [OF inv] by (intro ex1I [of _ k]) (auto simp: distinct_conv_nth)
  qed (use hub_invD(2) [OF inv m] one_poller [OF inv] m in auto)
  moreover have "bus_closed (hub_buses hub ! b) \<and> bus_done (hub_buses hub ! b)"
    if "b < length (hub_buses hub)" "\<forall>sid. map_of (sessionBuses hub) sid \<noteq> Some b" for b
    using that hub_invD(6,7) [OF inv] by blast
  ultimately show ?thesis by blast
qed

definition watched_hub :: event_hub where
  "watched_hub = snd (subscribe_events 4 ''s'' 1 (Some (replicate 16 7)) new_hub)"

lemma watched_hub_eval: "sessionBuses watched_hub = [(''s'', 0)] \<and> length (pollers watched_hub) = 1 \<and> po_bus (pollers watched_hub ! 0) = 0"
  by code_simp

theorem one_poller_per_session_witness:
  "hub_reachable watched_hub \<and> map_of (sessionBuses watched_hub) ''s'' = Some 0 \<and> \<not> bus_closed (hub_buses watched_hub ! 0) \<and>
   po_id (pollers watched_hub ! 0) = ''s'' \<and> po_pc (pollers watched_hub ! 0) \<noteq> PollDone"
proof -
  have r: "hub_reachable watched_hub"
    unfolding watched_hub_def by (rule hub_reachable.step [OF hub_reachable.start hub_step.subscribe])
  show ?thesis using one_poller_per_session [OF r, THEN conjunct1, rule_format, of "''s''" 0] watched_hub_eval r by simp
qed

end
