(* ===== verification/Names_Enumeration.thy ===== *)
theory Names_Enumeration
  imports Names
begin

unbundle bit_operations_syntax

text \<open>
  The names of a lexicon, counted and enumerated: every rank below the capacity gives a name, different ranks give different
  names, and the parser recognizes each of them under its grammar.
\<close>

section \<open>Splitting and joining\<close>

lemma split_dash_nonempty [simp]: "split_dash s \<noteq> []"
  by (cases s) (auto split: list.split)

lemma split_dash_free: "CHR ''-'' \<notin> set p \<Longrightarrow> split_dash p = [p]"
  by (induction p) auto

lemma split_dash_append: "CHR ''-'' \<notin> set p \<Longrightarrow> split_dash (p @ CHR ''-'' # rest) = p # split_dash rest"
  by (induction p) auto

lemma split_join:
  "\<lbrakk>ps \<noteq> []; \<And>p. p \<in> set ps \<Longrightarrow> CHR ''-'' \<notin> set p\<rbrakk> \<Longrightarrow> split_dash (join_dash ps) = ps"
  by (induction ps rule: join_dash.induct) (simp_all add: split_dash_free split_dash_append)

lemma split_dash_parts_free: "\<forall>p \<in> set (split_dash s). CHR ''-'' \<notin> set p"
  by (induction s) (auto split: list.split)

lemma join_split: "join_dash (split_dash s) = s"
proof (induction s)
  case (Cons c s)
  obtain p ps where "split_dash s = p # ps" by (cases "split_dash s") auto
  then show ?case using Cons.IH by (cases ps) auto
qed simp

lemma join_dash_append: "\<lbrakk>ps \<noteq> []; qs \<noteq> []\<rbrakk> \<Longrightarrow> join_dash (ps @ qs) = join_dash ps @ ''-'' @ join_dash qs"
proof (induction ps rule: join_dash.induct)
  case (2 p)
  then show ?case by (cases qs) simp_all
qed simp_all

lemma length_join_dash:
  "\<lbrakk>ps \<noteq> []; \<And>p. p \<in> set ps \<Longrightarrow> length p \<le> k\<rbrakk> \<Longrightarrow> length (join_dash ps) + 1 \<le> length ps * (k + 1)"
  by (induction ps rule: join_dash.induct) (auto simp: algebra_simps, fastforce)

lemma set_join_dash: "set (join_dash ps) \<subseteq> insert (CHR ''-'') (\<Union> (set ` set ps))"
  by (induction ps rule: join_dash.induct) auto

section \<open>Word sets of the grammar\<close>

lemma ws_collect_from:
  assumes "\<forall>i \<in> set js. i < 1024" and "length s = 16" and "j < 1024"
  shows "length (fold (\<lambda>b s. if P b then ws_add s b else s) js s) = 16 \<and>
    (ws_has (fold (\<lambda>b s. if P b then ws_add s b else s) js s) j \<longleftrightarrow> ws_has s j \<or> (j \<in> set js \<and> P j))"
  using assms
proof (induction js arbitrary: s)
  case (Cons i js)
  have "ws_has (ws_add s i) j \<longleftrightarrow> j = i \<or> ws_has s j" using Cons.prems by (intro ws_has_add) simp_all
  then show ?case using Cons.IH [of "if P i then ws_add s i else s"] Cons.prems by auto
qed simp

lemma ws_collect:
  assumes "length (lex_words lx) \<le> 1024" and "j < 1024"
  shows "length (collect_words lx P) = 16" and "ws_has (collect_words lx P) j \<longleftrightarrow> j < length (lex_words lx) \<and> P j"
  using ws_collect_from [of "[0..<length (lex_words lx)]" empty_set j P] assms ws_has_empty [of j]
  by (auto simp: collect_words_def empty_set_def bitsetWords_def)

lemma ws_has_and:
  "j < 1024 \<Longrightarrow> ws_has (map (\<lambda>i. s ! i AND t ! i) [0..<bitsetWords]) j \<longleftrightarrow> ws_has s j \<and> ws_has t j"
  by (simp add: ws_has_bit bitsetWords_def bit_simps less_mult_imp_div_less)

lemma length_phrase_heads: "length (phrase_heads lx g a b) = 16"
  by (simp add: phrase_heads_def Let_def empty_set_def bitsetWords_def)

lemma phrase_heads_bound:
  assumes "length (lex_words lx) \<le> 1024" and "h \<in> set (ws_elems (phrase_heads lx (buildPhraseGrammar lx) a b))"
  shows "h < length (lex_words lx)"
proof -
  let ?g = "buildPhraseGrammar lx"
  let ?p = "phrase_prefix lx a b"
  have h: "h < 1024" "ws_has (phrase_heads lx ?g a b) h"
    using assms(2) by (simp_all add: ws_elems_props length_phrase_heads)
  then have le: "?p \<le> MaxPhraseBytes"
    using ws_has_empty [of h] by (auto simp: phrase_heads_def Let_def split: if_splits)
  have "g_lengthMasks ?g ! (MaxPhraseBytes - ?p) =
      collect_words lx (\<lambda>i. length (lex_words lx ! i) \<le> MaxPhraseBytes - ?p)"
    by (simp add: buildPhraseGrammar_def Let_def del: upt_Suc)
  then have "ws_has (collect_words lx (\<lambda>i. length (lex_words lx ! i) \<le> MaxPhraseBytes - ?p)) h"
    using h le by (simp add: phrase_heads_def Let_def ws_has_and)
  then show ?thesis using ws_collect [OF assms(1) h(1)] by simp
qed

section \<open>Blocks\<close>

type_synonym phrase = "nat \<times> nat option \<times> nat"

definition phrases_of :: "(nat \<times> nat option \<times> wordSet) list \<Rightarrow> phrase list" where
  "phrases_of S = concat (map (\<lambda>(a, b, heads). map (\<lambda>h. (a, b, h)) (ws_elems heads)) S)"

lemma phrases_of_Cons: "phrases_of ((a, b, heads) # S) = map (\<lambda>h. (a, b, h)) (ws_elems heads) @ phrases_of S"
  by (simp add: phrases_of_def)

lemma phrases_of_iff: "(a, b, h) \<in> set (phrases_of S) \<longleftrightarrow> (\<exists>heads. (a, b, heads) \<in> set S \<and> h \<in> set (ws_elems heads))"
proof (induction S)
  case (Cons x S)
  obtain a' b' heads where "x = (a', b', heads)" by (cases x)
  then show ?case using Cons.IH by (auto simp: phrases_of_Cons)
qed (simp add: phrases_of_def)

definition block_phrase :: "phraseBlock list \<Rightarrow> nat \<Rightarrow> nat \<Rightarrow> nat \<Rightarrow> phrase" where
  "block_phrase blocks acc i index =
     (let block = blocks ! i; prior = (if i > 0 then blk_end (blocks ! (i - 1)) else acc)
      in (blk_first block, blk_second block, nat (ws_at (blk_heads block) (index - prior))))"

lemma blk_end_ge: "i < length (build_blocks acc S) \<Longrightarrow> acc < blk_end (build_blocks acc S ! i)"
proof (induction acc S arbitrary: i rule: build_blocks.induct)
  case (2 acc a b heads rest)
  show ?case
  proof (cases "ws_count heads > 0")
    case True
    then show ?thesis using 2(1) [OF True, of "i - 1"] 2(3) by (cases i) auto
  next
    case False
    then show ?thesis using 2(2) [OF False] 2(3) by simp
  qed
qed simp

text \<open>The block that a rank falls into, and the phrase it selects there.\<close>

lemma block_phrase_correct:
  assumes "i < length (build_blocks acc S)" and "index < blk_end (build_blocks acc S ! i)"
    and "\<And>k. k < i \<Longrightarrow> blk_end (build_blocks acc S ! k) \<le> index" and "acc \<le> index"
  shows "index - acc < length (phrases_of S) \<and> block_phrase (build_blocks acc S) acc i index = phrases_of S ! (index - acc)"
  using assms
proof (induction acc S arbitrary: i rule: build_blocks.induct)
  case (1 acc)
  then show ?case by simp
next
  case (2 acc a b heads rest)
  show ?case
  proof (cases "ws_count heads > 0")
    case False
    then have "ws_elems heads = []" by (simp add: ws_count_elems)
    then show ?thesis using False 2(2) [OF False] 2(3-6) by (simp add: phrases_of_Cons)
  next
    case True
    let ?n = "ws_count heads"
    show ?thesis
    proof (cases i)
      case 0
      then have lt: "index - acc < ?n" using 2(4,6) True by simp
      then have "nat (ws_at heads (index - acc)) = ws_elems heads ! (index - acc)" by (simp add: ws_at_elems)
      then show ?thesis using 0 True lt by (simp add: block_phrase_def phrases_of_Cons nth_append ws_count_elems)
    next
      case (Suc j)
      have first: "acc + ?n \<le> index" using 2(5) [of 0] Suc True by simp
      have "blk_end (build_blocks (acc + ?n) rest ! k) \<le> index" if "k < j" for k
        using 2(5) [of "Suc k"] Suc True that by simp
      from 2(1) [OF True _ _ this first, of j] have IH: "index - (acc + ?n) < length (phrases_of rest)"
        "block_phrase (build_blocks (acc + ?n) rest) (acc + ?n) j index = phrases_of rest ! (index - (acc + ?n))"
        using 2(3,4) Suc True by simp_all
      have "block_phrase (build_blocks acc ((a, b, heads) # rest)) acc i index =
          block_phrase (build_blocks (acc + ?n) rest) (acc + ?n) j index"
        using Suc True by (cases j) (simp_all add: block_phrase_def)
      moreover have "index - acc = ?n + (index - (acc + ?n))" using first by simp
      ultimately show ?thesis using IH by (simp add: phrases_of_Cons nth_append ws_count_elems)
    qed
  qed
qed

lemma last_block_end:
  "build_blocks acc S \<noteq> [] \<Longrightarrow> blk_end (last (build_blocks acc S)) = acc + length (phrases_of S)"
proof (induction acc S rule: build_blocks.induct)
  case (2 acc a b heads rest)
  show ?case
  proof (cases "ws_count heads > 0")
    case True
    have "build_blocks (acc + ws_count heads) rest = [] \<Longrightarrow> phrases_of rest = []"
    proof (induction "acc + ws_count heads" rest rule: build_blocks.induct)
      case (2 a' b' heads' rest')
      then show ?case by (cases "ws_count heads' > 0") (simp_all add: phrases_of_Cons ws_count_elems)
    qed (simp add: phrases_of_def)
    then show ?thesis using True 2(1) [OF True] by (cases "build_blocks (acc + ws_count heads) rest = []") (simp_all add: phrases_of_Cons ws_count_elems)
  next
    case False
    then show ?thesis using 2(2) [OF False] 2(3) by (simp add: phrases_of_Cons ws_count_elems)
  qed
qed simp

lemma build_blocks_empty: "build_blocks acc S = [] \<Longrightarrow> phrases_of S = []"
proof (induction acc S rule: build_blocks.induct)
  case (2 acc a b heads rest)
  then show ?case by (cases "ws_count heads > 0") (simp_all add: phrases_of_Cons ws_count_elems)
qed (simp add: phrases_of_def)

lemma blk_end_mono:
  "\<lbrakk>i \<le> j; j < length (build_blocks acc S)\<rbrakk> \<Longrightarrow> blk_end (build_blocks acc S ! i) \<le> blk_end (build_blocks acc S ! j)"
proof (induction acc S arbitrary: i j rule: build_blocks.induct)
  case (2 acc a b heads rest)
  show ?case
  proof (cases "ws_count heads > 0")
    case True
    show ?thesis
    proof (cases j)
      case 0
      then show ?thesis using 2(3) by simp
    next
      case (Suc j')
      then have j': "j' < length (build_blocks (acc + ws_count heads) rest)" using 2(4) True by simp
      show ?thesis
      proof (cases i)
        case 0
        then show ?thesis using True Suc blk_end_ge [OF j'] by simp
      next
        case (Suc i')
        then show ?thesis using True \<open>j = Suc j'\<close> 2(1) [OF True, of i' j'] 2(3) j' by simp
      qed
    qed
  next
    case False
    then show ?thesis using 2(2) [OF False] 2(3,4) by simp
  qed
qed simp

section \<open>Binary search\<close>

lemma search_from_spec:
  assumes "i \<le> j" and "j \<le> n" and "\<And>k k'. \<lbrakk>k \<le> k'; k' < n; f k\<rbrakk> \<Longrightarrow> f k'"
    and "\<And>k. k < i \<Longrightarrow> \<not> f k" and "j < n \<Longrightarrow> f j"
  shows "search_from f i j \<le> j \<and> (\<forall>k < search_from f i j. \<not> f k) \<and> (search_from f i j < n \<longrightarrow> f (search_from f i j))"
  using assms
proof (induction f i j rule: search_from.induct)
  case (1 f i j)
  show ?case
  proof (cases "i < j")
    case False
    then have "search_from f i j = i" by (simp add: search_from.simps)
    then show ?thesis using False 1(3-7) by simp
  next
    case True
    define h where "h = (i + j) div 2"
    have h: "i \<le> h" "h < j" using True by (auto simp: h_def)
    show ?thesis
    proof (cases "f h")
      case fh: True
      have "search_from f i j = search_from f i h" using True fh by (subst search_from.simps) (simp add: h_def Let_def)
      moreover have "search_from f i h \<le> h \<and> (\<forall>k < search_from f i h. \<not> f k) \<and> (search_from f i h < n \<longrightarrow> f (search_from f i h))"
        using 1(4-6) h fh by (intro 1(2) [OF True h_def]) auto
      ultimately show ?thesis using h by simp
    next
      case fh: False
      have "search_from f i j = search_from f (h + 1) j" using True fh by (subst search_from.simps) (simp add: h_def Let_def)
      moreover have "\<not> f k" if "k < h + 1" for k
      proof -
        have "k \<le> h" "h < n" using that h 1(4) by simp_all
        then show ?thesis using 1(5) fh by blast
      qed
      then have "search_from f (h + 1) j \<le> j \<and> (\<forall>k < search_from f (h + 1) j. \<not> f k) \<and>
          (search_from f (h + 1) j < n \<longrightarrow> f (search_from f (h + 1) j))"
        using 1(4,5,7) h fh by (intro 1(1) [OF True h_def]) auto
      ultimately show ?thesis by simp
    qed
  qed
qed

lemma sort_Search_spec:
  assumes "\<And>k k'. \<lbrakk>k \<le> k'; k' < n; f k\<rbrakk> \<Longrightarrow> f k'"
  shows "sort_Search n f \<le> n" and "\<And>k. k < sort_Search n f \<Longrightarrow> \<not> f k" and "sort_Search n f < n \<Longrightarrow> f (sort_Search n f)"
  using search_from_spec [of 0 n n f] assms by (auto simp: sort_Search_def)

section \<open>Two- and three-word phrases\<close>

definition lexicon_ok :: "lexicon \<Rightarrow> bool" where
  "lexicon_ok lx \<longleftrightarrow> distinct (lex_words lx) \<and> length (lex_words lx) \<le> 1024 \<and>
     (\<forall>w \<in> set (lex_words lx). 3 \<le> length w \<and> length w \<le> 8 \<and> (\<forall>c \<in> set w. lower_letter c)) \<and>
     7 \<le> length (composedPalettes lx) \<and> (\<forall>(ms, ss) \<in> set (composedPalettes lx). distinct ms \<and> distinct ss)"

lemma lower_letter_not_dash: "lower_letter c \<Longrightarrow> c \<noteq> CHR ''-''"
  by (auto simp: lower_letter_def less_eq_char_def)

lemma lexicon_word:
  assumes "lexicon_ok lx" and "w \<in> set (lex_words lx)"
  shows "3 \<le> length w" "length w \<le> 8" "\<forall>c \<in> set w. lower_letter c" "CHR ''-'' \<notin> set w"
  using assms lower_letter_not_dash unfolding lexicon_ok_def by blast+

lemma wordIndex_iff:
  assumes "distinct (lex_words lx)"
  shows "wordIndex lx w = Some i \<longleftrightarrow> i < length (lex_words lx) \<and> lex_words lx ! i = w"
proof -
  let ?z = "zip (lex_words lx) [0..<length (lex_words lx)]"
  have "distinct (map fst (rev ?z))" using assms by (simp flip: rev_map)
  then have "wordIndex lx w = Some i \<longleftrightarrow> (w, i) \<in> set ?z"
    by (simp add: wordIndex_def map_of_eq_Some_iff)
  then show ?thesis by (auto simp: in_set_zip)
qed

lemma word_pos_nth: "\<lbrakk>distinct (lex_words lx); i < length (lex_words lx)\<rbrakk> \<Longrightarrow> word_pos lx (lex_words lx ! i) = i"
  using wordIndex_iff [of lx "lex_words lx ! i" i] by (simp add: word_pos_def)

definition phrase_parts :: "lexicon \<Rightarrow> phrase \<Rightarrow> string list" where
  "phrase_parts lx p =
     (case p of (a, b, h) \<Rightarrow> [lex_words lx ! a] @ (case b of Some b \<Rightarrow> [lex_words lx ! b] | None \<Rightarrow> []) @ [lex_words lx ! h])"

definition phrase_list :: "lexicon \<Rightarrow> nat \<Rightarrow> phrase list" where
  "phrase_list lx n =
     (let g = buildPhraseGrammar lx
      in if n = 2 then phrases_of (pair_sets lx g) else if n = 3 then phrases_of (triple_sets lx g) else [])"

lemma phraseCapacity_eq: "phraseCapacity lx (buildPhraseGrammar lx) n = length (phrase_list lx n)"
  using last_block_end [of 0 "pair_sets lx (buildPhraseGrammar lx)"] last_block_end [of 0 "triple_sets lx (buildPhraseGrammar lx)"]
    build_blocks_empty [of 0 "pair_sets lx (buildPhraseGrammar lx)"] build_blocks_empty [of 0 "triple_sets lx (buildPhraseGrammar lx)"]
  by (auto simp: phraseCapacity_def phrase_blocks_def phrase_list_def Let_def last_conv_nth)

text \<open>Selection by rank walks through the list of admitted phrases.\<close>

lemma phraseAt_eq:
  assumes n: "n = 2 \<or> n = 3" and index: "index < length (phrase_list lx n)"
  shows "phraseAt lx (buildPhraseGrammar lx) index n =
    Inr \<lparr>Text = join_dash (phrase_parts lx (phrase_list lx n ! index)), nm_GrammarName = GrammarName, nm_WordCount = n\<rparr>"
proof -
  let ?g = "buildPhraseGrammar lx"
  obtain S where S: "phrase_blocks lx ?g n = build_blocks 0 S" "phrase_list lx n = phrases_of S"
    using n by (auto simp: phrase_blocks_def phrase_list_def)
  let ?B = "build_blocks 0 S"
  define i where "i = sort_Search (length ?B) (\<lambda>i. blk_end (?B ! i) > index)"
  have mono: "\<lbrakk>k \<le> k'; k' < length ?B; blk_end (?B ! k) > index\<rbrakk> \<Longrightarrow> blk_end (?B ! k') > index" for k k'
    using blk_end_mono [of k k' 0 S] by simp
  note search = sort_Search_spec [of "length ?B" "\<lambda>i. blk_end (?B ! i) > index", folded i_def]
  have ne: "?B \<noteq> []" using index S build_blocks_empty by fastforce
  have lastend: "blk_end (last ?B) > index" using last_block_end [OF ne] index S by simp
  have i: "i < length ?B"
  proof (rule ccontr)
    assume "\<not> i < length ?B"
    then have "i = length ?B" using search(1) mono by simp
    then have "\<not> blk_end (?B ! (length ?B - 1)) > index" using search(2) mono ne by simp
    then show False using lastend ne by (simp add: last_conv_nth)
  qed
  have "index - 0 < length (phrases_of S) \<and> block_phrase ?B 0 i index = phrases_of S ! (index - 0)"
    using i search(2,3) mono by (intro block_phrase_correct) (auto simp: not_less)
  then have bp: "block_phrase ?B 0 i index = phrase_list lx n ! index" using S by simp
  have cap: "phraseCapacity lx ?g n = length (phrase_list lx n)" by (rule phraseCapacity_eq)
  have "phraseAt lx ?g index n =
      (case block_phrase ?B 0 i index of (a, b, h) \<Rightarrow>
        Inr \<lparr>Text = lex_words lx ! a @ ''-'' @ (case b of Some b \<Rightarrow> lex_words lx ! b @ ''-'' | None \<Rightarrow> []) @ lex_words lx ! h,
             nm_GrammarName = GrammarName, nm_WordCount = n\<rparr>)"
    using index by (simp add: phraseAt_def cap S(1) block_phrase_def Let_def i_def) auto
  also have "\<dots> = Inr \<lparr>Text = join_dash (phrase_parts lx (phrase_list lx n ! index)), nm_GrammarName = GrammarName, nm_WordCount = n\<rparr>"
    unfolding bp by (simp add: phrase_parts_def split: prod.split option.split)
  finally show ?thesis .
qed

lemma distinct_phrases_of:
  assumes "distinct (map (\<lambda>(a, b, heads). (a, b)) S)"
  shows "distinct (phrases_of S)"
  using assms
proof (induction S)
  case (Cons x S)
  obtain a b heads where x: "x = (a, b, heads)" by (cases x)
  have "(a, b, h) \<notin> set (phrases_of S)" for h
    using Cons.prems by (force simp: x phrases_of_iff)
  then show ?case
    using Cons by (auto simp: x phrases_of_Cons distinct_map ws_elems_props inj_on_def)
qed (simp add: phrases_of_def)

lemma distinct_phrase_list: "distinct (phrase_list lx n)"
proof -
  let ?g = "buildPhraseGrammar lx"
  have "distinct (phrases_of (pair_sets lx ?g))"
    by (rule distinct_phrases_of) (simp add: pair_sets_def comp_def distinct_map inj_on_def)
  moreover have "distinct (phrases_of (triple_sets lx ?g))"
  proof (rule distinct_phrases_of)
    have "map (\<lambda>(a, b, heads). (a, b)) (triple_sets lx ?g) =
        concat (map (\<lambda>a. map (\<lambda>b. (a, Some b)) [0..<length (lex_words lx)])
          (filter (\<lambda>a. adjective (g_roles ?g ! a) \<noteq> 0) [0..<length (lex_words lx)]))"
    proof -
      have "map (\<lambda>(a, b, heads). (a, b)) (concat (map (\<lambda>a. if adjective (g_roles ?g ! a) = 0 then []
           else map (\<lambda>b. (a, Some b, phrase_heads lx ?g a (Some b))) bs) as)) =
          concat (map (\<lambda>a. map (\<lambda>b. (a, Some b)) bs) (filter (\<lambda>a. adjective (g_roles ?g ! a) \<noteq> 0) as))" for as bs
        by (induction as) (simp_all add: comp_def)
      then show ?thesis by (simp add: triple_sets_def)
    qed
    moreover have "distinct (concat (map (\<lambda>a. map (\<lambda>b. (a, Some b)) bs) as))" if "distinct as" "distinct bs" for as bs :: "nat list"
      using that by (induction as) (auto simp: distinct_map inj_on_def)
    ultimately show "distinct (map (\<lambda>(a, b, heads). (a, b)) (triple_sets lx ?g))" by simp
  qed
  ultimately show ?thesis by (simp add: phrase_list_def Let_def)
qed

text \<open>Membership in the list is the admissibility rule the parser checks.\<close>

lemma phrase_list_iff:
  assumes ok: "lexicon_ok lx"
  shows "(a, b, h) \<in> set (phrase_list lx n) \<longleftrightarrow>
    a < length (lex_words lx) \<and> h < length (lex_words lx) \<and>
    ws_has (phrase_heads lx (buildPhraseGrammar lx) a b) h \<and>
    (n = 2 \<and> b = None \<or> n = 3 \<and> (\<exists>b'. b = Some b' \<and> b' < length (lex_words lx)))"
proof -
  let ?g = "buildPhraseGrammar lx"
  have len: "length (lex_words lx) \<le> 1024" using ok by (simp add: lexicon_ok_def)
  have elems: "h \<in> set (ws_elems (phrase_heads lx ?g a b)) \<longleftrightarrow> h < length (lex_words lx) \<and> ws_has (phrase_heads lx ?g a b) h" for a b
    using phrase_heads_bound [OF len] len by (auto simp: ws_elems_props length_phrase_heads)
  have role: "adjective (g_roles ?g ! a) \<noteq> 0" if "ws_has (phrase_heads lx ?g a (Some b')) h" "h < length (lex_words lx)" for b'
  proof
    assume "adjective (g_roles ?g ! a) = 0"
    then have "pattern_heads ?g a (Some b') = empty_set" by (simp add: pattern_heads_def)
    moreover have "h < 1024" using that(2) len by simp
    ultimately show False
      using that(1) ws_has_empty [of h] by (auto simp: phrase_heads_def Let_def ws_has_and split: if_splits)
  qed
  have pairs: "(a, b, heads) \<in> set (pair_sets lx ?g) \<longleftrightarrow> a < length (lex_words lx) \<and> b = None \<and> heads = phrase_heads lx ?g a b" for heads
    by (auto simp: pair_sets_def)
  have triples: "(a, b, heads) \<in> set (triple_sets lx ?g) \<longleftrightarrow> a < length (lex_words lx) \<and> adjective (g_roles ?g ! a) \<noteq> 0 \<and>
      (\<exists>b'. b = Some b' \<and> b' < length (lex_words lx)) \<and> heads = phrase_heads lx ?g a b" for heads
    by (auto simp: triple_sets_def split: if_splits intro!: bexI [of _ a])
  show ?thesis
    using elems [of a b] role by (auto simp: phrase_list_def Let_def phrases_of_iff pairs triples)
qed

lemma phrase_parts_words:
  assumes ok: "lexicon_ok lx" and p: "p \<in> set (phrase_list lx n)"
  shows "set (phrase_parts lx p) \<subseteq> set (lex_words lx)" and "length (phrase_parts lx p) = n" and "n = 2 \<or> n = 3"
proof -
  obtain a b h where abh: "p = (a, b, h)" by (cases p)
  note i = p [unfolded abh phrase_list_iff [OF ok]]
  show "set (phrase_parts lx p) \<subseteq> set (lex_words lx)" "length (phrase_parts lx p) = n" "n = 2 \<or> n = 3"
    using i by (auto simp: abh phrase_parts_def)
qed

lemma phrase_parts_inj:
  assumes ok: "lexicon_ok lx" and p: "p \<in> set (phrase_list lx n)" and q: "q \<in> set (phrase_list lx n)"
    and eq: "phrase_parts lx p = phrase_parts lx q"
  shows "p = q"
proof -
  have d: "distinct (lex_words lx)" using ok by (simp add: lexicon_ok_def)
  obtain a b h a' b' h' where abh: "p = (a, b, h)" "q = (a', b', h')" by (cases p; cases q)
  show ?thesis
    using p q eq d unfolding abh phrase_list_iff [OF ok]
    by (auto simp: phrase_parts_def nth_eq_iff_index_eq)
qed

lemma phrase_parts_admitted:
  assumes ok: "lexicon_ok lx" and p: "p \<in> set (phrase_list lx n)"
  shows "admits lx (buildPhraseGrammar lx) (phrase_parts lx p)"
proof -
  have d: "distinct (lex_words lx)" using ok by (simp add: lexicon_ok_def)
  obtain a b h where abh: "p = (a, b, h)" by (cases p)
  note i = p [unfolded abh phrase_list_iff [OF ok]]
  have known: "wordIndex lx (lex_words lx ! j) = Some j" if "j < length (lex_words lx)" for j
    using wordIndex_iff [OF d] that by blast
  show ?thesis
    using i known by (auto simp: abh phrase_parts_def admits_def word_pos_nth [OF d])
qed

lemma admitted_phrase:
  assumes ok: "lexicon_ok lx" and adm: "admits lx (buildPhraseGrammar lx) parts" and n: "length parts = n" "n = 2 \<or> n = 3"
  shows "\<exists>p \<in> set (phrase_list lx n). parts = phrase_parts lx p"
proof -
  have d: "distinct (lex_words lx)" using ok by (simp add: lexicon_ok_def)
  have pos: "word_pos lx w < length (lex_words lx) \<and> lex_words lx ! word_pos lx w = w" if "w \<in> set parts" for w
  proof -
    have "wordIndex lx w \<noteq> None" using adm that by (auto simp: admits_def list_ex_iff split: if_splits)
    then obtain i where "wordIndex lx w = Some i" by auto
    moreover have "i < length (lex_words lx) \<and> lex_words lx ! i = w" using calculation wordIndex_iff [OF d] by blast
    ultimately show ?thesis by (simp add: word_pos_def)
  qed
  have heads: "ws_has (phrase_heads lx (buildPhraseGrammar lx) (word_pos lx (parts ! 0))
      (if length parts = 3 then Some (word_pos lx (parts ! 1)) else None)) (word_pos lx (parts ! (length parts - 1)))"
    using adm n by (auto simp: admits_def Let_def nth_map split: if_splits)
  from n(2) show ?thesis
  proof
    assume 2: "n = 2"
    then obtain x y where xy: "parts = [x, y]" using n(1) by (auto simp: numeral_2_eq_2 length_Suc_conv)
    then have "(word_pos lx x, None, word_pos lx y) \<in> set (phrase_list lx n)"
      using heads pos 2 unfolding phrase_list_iff [OF ok] by simp
    then show ?thesis using pos xy by (intro bexI) (simp_all add: phrase_parts_def)
  next
    assume 3: "n = 3"
    then obtain x y z where xyz: "parts = [x, y, z]" using n(1) by (auto simp: numeral_3_eq_3 length_Suc_conv)
    then have "(word_pos lx x, Some (word_pos lx y), word_pos lx z) \<in> set (phrase_list lx n)"
      using heads pos 3 unfolding phrase_list_iff [OF ok] by simp
    then show ?thesis using pos xyz by (intro bexI) (simp_all add: phrase_parts_def)
  qed
qed

section \<open>Normal form\<close>

lemma lower_letter_code: "lower_letter c \<longleftrightarrow> 97 \<le> (of_char c :: nat) \<and> (of_char c :: nat) \<le> 122"
  by (simp add: lower_letter_def less_eq_char_def)

lemma name_char:
  assumes "lower_letter c \<or> c = CHR ''-''"
  shows "(of_char c :: nat) < 128" "\<not> ascii_space c" "ascii_lower c = c"
  using assms by (auto simp: lower_letter_code ascii_space_def ascii_lower_def)

lemma Normalize_words:
  assumes ok: "lexicon_ok lx" and words: "set parts \<subseteq> set (lex_words lx)" and n: "2 \<le> length parts" "length parts \<le> 15"
  shows "Normalize u (join_dash parts) = Inr (join_dash parts)" and "split_dash (join_dash parts) = parts"
proof -
  have ne: "parts \<noteq> []" using n by auto
  have w: "3 \<le> length p" "length p \<le> 8" "\<forall>c \<in> set p. lower_letter c" "CHR ''-'' \<notin> set p" if "p \<in> set parts" for p
    using lexicon_word [OF ok] words that by blast+
  show split: "split_dash (join_dash parts) = parts" by (rule split_join [OF ne]) (rule w)
  have chars: "lower_letter c \<or> c = CHR ''-''" if "c \<in> set (join_dash parts)" for c
    using set_join_dash [of parts] w(3) that by blast
  have "length (join_dash parts) + 1 \<le> length parts * (8 + 1)" using ne w(2) by (intro length_join_dash) auto
  then have len: "length (join_dash parts) \<le> MaxNameBytes" using n by (simp add: MaxNameBytes_def MaxWordCount_def)
  have nospace: "dropWhile ascii_space xs = xs" if "set xs \<subseteq> set (join_dash parts)" for xs
    using that name_char(2) chars by (cases xs) auto
  have "map ascii_lower (join_dash parts) = join_dash parts"
    using name_char(3) chars by (intro map_idI) auto
  moreover have "list_all (\<lambda>c. (of_char c :: nat) < 128) (join_dash parts)"
    using name_char(1) chars by (auto simp: list_all_iff)
  ultimately have lt: "lower_trim u (join_dash parts) = join_dash parts"
    using nospace [of "join_dash parts"] nospace [of "rev (join_dash parts)"] by (simp add: lower_trim_def)
  have "\<not> list_ex (\<lambda>w. length w < 3 \<or> length w > 24 \<or> list_ex (\<lambda>c. \<not> lower_letter c) w) parts"
    using w by (fastforce simp: list_ex_iff)
  then show "Normalize u (join_dash parts) = Inr (join_dash parts)"
    using len n lt split by (simp add: Normalize_def MinWordCount_def MaxWordCount_def)
qed

section \<open>Composed names\<close>

lemma admits_words: "\<lbrakk>lexicon_ok lx; admits lx g parts\<rbrakk> \<Longrightarrow> set parts \<subseteq> set (lex_words lx)"
proof
  fix w assume ok: "lexicon_ok lx" and "admits lx g parts" "w \<in> set parts"
  then have "wordIndex lx w \<noteq> None" by (auto simp: admits_def list_ex_iff split: if_splits)
  then obtain i where "wordIndex lx w = Some i" by auto
  then show "w \<in> set (lex_words lx)" using ok wordIndex_iff [of lx w i] by (auto simp: lexicon_ok_def)
qed

definition pool_parts :: "lexicon \<Rightarrow> nat \<Rightarrow> nat \<Rightarrow> string list list" where
  "pool_parts lx n i =
     (let g = buildPhraseGrammar lx; (ms, ss) = composedPalettes lx ! i
      in if i = 0 \<and> n mod 2 = 1 then filter (admits lx g) [[a, b, c]. a \<leftarrow> ms, b \<leftarrow> ms, c \<leftarrow> ss]
         else filter (admits lx g) [[a, b]. a \<leftarrow> ms, b \<leftarrow> ss])"

lemma filter_concat_map: "filter P (concat (map f xs)) = concat (map (\<lambda>x. filter P (f x)) xs)"
  by (induction xs) simp_all

lemma group_pool_parts: "group_pool lx (buildPhraseGrammar lx) n i = map join_dash (pool_parts lx n i)"
proof -
  have c: "map h (concat (map f xs)) = concat (map (\<lambda>x. map h (f x)) xs)" for h f and xs :: "'x list"
    by (induction xs) simp_all
  have s: "concat (map (\<lambda>x. if P x then [f x] else []) xs) = map f (filter P xs)" for P f and xs :: "'x list"
    by (induction xs) simp_all
  obtain ms ss where p: "composedPalettes lx ! i = (ms, ss)" by (cases "composedPalettes lx ! i")
  show ?thesis
    unfolding group_pool_def pool_parts_def group_triples_def group_pairs_def p
    by (simp add: c s filter_concat_map filter_map comp_def Let_def)
qed

lemma pool_parts_props:
  assumes ok: "lexicon_ok lx" and i: "i < 7"
  shows "distinct (pool_parts lx n i)" and "ws \<in> set (pool_parts lx n i) \<Longrightarrow> length ws = group_width n i"
    and "ws \<in> set (pool_parts lx n i) \<Longrightarrow> set ws \<subseteq> set (lex_words lx)"
proof -
  obtain ms ss where p: "composedPalettes lx ! i = (ms, ss)" by (cases "composedPalettes lx ! i")
  have "(ms, ss) \<in> set (composedPalettes lx)" using ok i p by (metis lexicon_ok_def less_le_trans nth_mem)
  then have d: "distinct ms" "distinct ss" using ok by (auto simp: lexicon_ok_def)
  have d2: "distinct (concat (map (\<lambda>a. map (\<lambda>b. [a, b]) ss) xs))" if "distinct xs" for xs
    using that d(2) by (induction xs) (auto simp: distinct_map inj_on_def)
  have d3': "distinct (concat (map (\<lambda>b. map (\<lambda>c. [a, b, c]) ss) xs))" if "distinct xs" for a xs
    using that d(2) by (induction xs) (auto simp: distinct_map inj_on_def)
  have d3: "distinct (concat (map (\<lambda>a. concat (map (\<lambda>b. map (\<lambda>c. [a, b, c]) ss) ms)) xs))" if "distinct xs" for xs
    using that d3' [OF d(1)] by (induction xs) auto
  show "distinct (pool_parts lx n i)"
    using d2 [OF d(1)] d3 [OF d(1)] by (simp add: pool_parts_def p Let_def)
  show "ws \<in> set (pool_parts lx n i) \<Longrightarrow> length ws = group_width n i"
    by (auto simp: pool_parts_def p Let_def group_width_def split: if_splits)
  show "ws \<in> set (pool_parts lx n i) \<Longrightarrow> set ws \<subseteq> set (lex_words lx)"
    using admits_words [OF ok] by (auto simp: pool_parts_def p Let_def split: if_splits)
qed

text \<open>The rank of a composed name is a number in mixed radix, one digit per group.\<close>

fun rank_digits :: "(nat \<Rightarrow> 'a list) \<Rightarrow> nat \<Rightarrow> nat \<Rightarrow> 'a list" where
  "rank_digits pool 0 rank = []"
| "rank_digits pool (Suc i) rank = rank_digits pool i (rank div length (pool i)) @ [pool i ! (rank mod length (pool i))]"

fun radix :: "(nat \<Rightarrow> 'a list) \<Rightarrow> nat \<Rightarrow> nat" where
  "radix pool 0 = 1"
| "radix pool (Suc i) = radix pool i * length (pool i)"

lemma capacity_radix: "fold (\<lambda>i c. c * length (pool i)) [0..<m] 1 = radix pool m"
  by (induction m) simp_all

lemma div_radix: "rank < radix pool i * length (pool i) \<Longrightarrow> rank div length (pool i) < radix pool i \<and> rank mod length (pool i) < length (pool i)"
  by (metis less_mult_imp_div_less mod_less_divisor mult_0_right not_less0 neq0_conv)

lemma rank_digits_mem:
  "rank < radix pool m \<Longrightarrow> length (rank_digits pool m rank) = m \<and> (\<forall>i < m. rank_digits pool m rank ! i \<in> set (pool i))"
proof (induction m arbitrary: rank)
  case (Suc m)
  note d = div_radix [OF Suc.prems [simplified]]
  show ?case using Suc.IH [of "rank div length (pool m)"] d by (auto simp: nth_append less_Suc_eq)
qed simp

lemma rank_digits_inj:
  assumes "\<And>i. i < m \<Longrightarrow> distinct (pool i)" and "rank < radix pool m" and "rank' < radix pool m"
    and "rank_digits pool m rank = rank_digits pool m rank'"
  shows "rank = rank'"
  using assms
proof (induction m arbitrary: rank rank')
  case (Suc m)
  note d = div_radix [OF Suc.prems(2) [simplified]] div_radix [OF Suc.prems(3) [simplified]]
  have "rank div length (pool m) = rank' div length (pool m)"
    using Suc.IH [of "rank div length (pool m)" "rank' div length (pool m)"] Suc.prems(1,4) d by simp
  moreover have "rank mod length (pool m) = rank' mod length (pool m)"
    using Suc.prems(1) [of m] Suc.prems(4) d by (simp add: nth_eq_iff_index_eq)
  ultimately show ?case by (metis div_mult_mod_eq)
qed simp

lemma rank_digits_surj:
  "\<lbrakk>length ds = m; \<And>i. i < m \<Longrightarrow> ds ! i \<in> set (pool i)\<rbrakk> \<Longrightarrow> \<exists>rank < radix pool m. rank_digits pool m rank = ds"
proof (induction m arbitrary: ds)
  case (Suc m)
  obtain ds' x where ds: "ds = ds' @ [x]" using Suc.prems(1) by (metis length_Suc_conv_rev)
  have "\<exists>rank < radix pool m. rank_digits pool m rank = ds'"
  proof (rule Suc.IH)
    show "length ds' = m" using Suc.prems(1) ds by simp
    show "ds' ! i \<in> set (pool i)" if "i < m" for i
      using Suc.prems(2) [of i] Suc.prems(1) that by (simp add: ds nth_append)
  qed
  then obtain r where r: "r < radix pool m" "rank_digits pool m r = ds'" by blast
  obtain k where k: "k < length (pool m)" "pool m ! k = x"
    using Suc.prems(2) [of m] Suc.prems(1) by (auto simp: ds in_set_conv_nth)
  have "r * length (pool m) + k < radix pool (Suc m)"
  proof -
    have "r * length (pool m) + k < Suc r * length (pool m)" using k(1) by simp
    also have "\<dots> \<le> radix pool m * length (pool m)" using r(1) by (intro mult_right_mono) simp_all
    finally show ?thesis by simp
  qed
  moreover have "(r * length (pool m) + k) div length (pool m) = r" using k(1) by (subst div_mult_self3) auto
  then have "rank_digits pool (Suc m) (r * length (pool m) + k) = ds" using k r by (simp add: ds)
  ultimately show ?case by blast
qed simp

lemma rank_texts_digits:
  "rank < radix pool m \<Longrightarrow> rank_texts (\<lambda>i. map f (pool i)) m rank = map f (rank_digits pool m rank)"
proof (induction m arbitrary: rank)
  case (Suc m)
  note d = div_radix [OF Suc.prems [simplified]]
  then show ?case using Suc.IH [of "rank div length (pool m)"] by simp
qed simp

lemma join_join:
  "\<lbrakk>wss \<noteq> []; \<And>ws. ws \<in> set wss \<Longrightarrow> ws \<noteq> []\<rbrakk> \<Longrightarrow> join_dash (map join_dash wss) = join_dash (concat wss)"
proof (induction wss)
  case (Cons ws wss)
  show ?case
  proof (cases wss)
    case (Cons q ps)
    then have "concat wss \<noteq> []" using Cons.prems(2) by simp
    then show ?thesis
      using Cons Cons.IH Cons.prems(2) join_dash_append [of ws "concat wss"] by simp
  qed simp
qed simp

text \<open>The parser walks through the groups of a composed name.\<close>

lemma compose_loop_groups:
  assumes "drop off parts = concat wss" and "\<And>j. j < length wss \<Longrightarrow> length (wss ! j) = group_width (length parts) (k + j)"
    and "\<And>j. j < length wss \<Longrightarrow> join_dash (wss ! j) \<in> set (group_pool lx g (length parts) (k + j))"
  shows "compose_loop lx g parts [k..<k + length wss] off = Some (off + length (concat wss))"
  using assms
proof (induction wss arbitrary: off k)
  case (Cons ws wss)
  have upt: "[k..<k + length (ws # wss)] = k # [Suc k..<Suc k + length wss]" by (subst upt_conv_Cons) simp_all
  have ws: "length ws = group_width (length parts) k" "join_dash ws \<in> set (group_pool lx g (length parts) k)"
    using Cons.prems(2,3) [of 0] by simp_all
  have "drop (off + length ws) parts = concat wss" using Cons.prems(1) by (metis append_eq_conv_conj concat.simps(2) drop_drop add.commute)
  moreover have "take (length ws) (drop off parts) = ws" using Cons.prems(1) by simp
  moreover have "compose_loop lx g parts [Suc k..<Suc k + length wss] (off + length ws) = Some (off + length ws + length (concat wss))"
    using calculation(1) Cons.prems(2,3) [of "Suc j" for j] by (intro Cons.IH) auto
  ultimately show ?case using ws upt by (simp add: Let_def)
qed simp

lemma compose_loop_parts:
  assumes "compose_loop lx g parts [k..<k + m] off = Some e"
  shows "\<exists>wss. length wss = m \<and> take (e - off) (drop off parts) = concat wss \<and> off \<le> e \<and>
    (\<forall>j < m. wss ! j = take (group_width (length parts) (k + j)) (wss ! j) \<and>
       join_dash (wss ! j) \<in> set (group_pool lx g (length parts) (k + j)))"
  using assms
proof (induction m arbitrary: k off)
  case 0
  then show ?case by simp
next
  case (Suc m)
  let ?w = "group_width (length parts) k"
  have upt: "[k..<k + Suc m] = k # [Suc k..<Suc k + m]" by (simp add: upt_conv_Cons)
  have pool: "join_dash (take ?w (drop off parts)) \<in> set (group_pool lx g (length parts) k)"
    and rest: "compose_loop lx g parts [Suc k..<Suc k + m] (off + ?w) = Some e"
    using Suc.prems unfolding upt by (simp_all add: Let_def split: if_splits)
  from Suc.IH [OF rest] obtain wss where wss: "length wss = m" "take (e - (off + ?w)) (drop (off + ?w) parts) = concat wss"
    "off + ?w \<le> e" "\<forall>j < m. wss ! j = take (group_width (length parts) (Suc k + j)) (wss ! j) \<and>
       join_dash (wss ! j) \<in> set (group_pool lx g (length parts) (Suc k + j))" by blast
  have "take (e - off) (drop off parts) = take ?w (drop off parts) @ take (e - off - ?w) (drop ?w (drop off parts))"
    using take_add [of ?w "e - off - ?w" "drop off parts"] wss(3) by simp
  also have "\<dots> = concat (take ?w (drop off parts) # wss)"
    using wss(2) by (simp add: add.commute)
  finally show ?case
    using wss pool
    by (intro exI [of _ "take ?w (drop off parts) # wss"]) (auto simp: nth_Cons split: nat.split)
qed

lemma group_widths: "2 \<le> n \<Longrightarrow> (\<Sum>i < n div 2. group_width n i) = n"
proof -
  assume n: "2 \<le> n"
  then obtain m where m: "n div 2 = Suc m" by (cases "n div 2") auto
  have "(\<Sum>i < Suc m. group_width n i) = group_width n 0 + (\<Sum>i < m. group_width n (Suc i))"
    by (rule sum.lessThan_Suc_shift)
  also have "\<dots> = group_width n 0 + 2 * m" by (simp add: group_width_def)
  also have "\<dots> = n" using m n by (auto simp: group_width_def) presburger+
  finally show ?thesis using m by simp
qed

lemma length_concat_widths:
  "(\<And>i. i < length wss \<Longrightarrow> length (wss ! i) = w i) \<Longrightarrow> length (concat wss) = (\<Sum>i < length wss. w i)"
proof -
  assume w: "\<And>i. i < length wss \<Longrightarrow> length (wss ! i) = w i"
  have "length (concat wss) = (\<Sum>i < length wss. length (wss ! i))"
    by (simp add: length_concat sum_list_sum_nth atLeast0LessThan)
  then show ?thesis using w by simp
qed

text \<open>The word lists of the composed names of a length, by rank.\<close>

definition composed_parts :: "lexicon \<Rightarrow> nat \<Rightarrow> nat \<Rightarrow> string list list" where
  "composed_parts lx n rank = rank_digits (pool_parts lx n) (n div 2) rank"

lemma composed_rank:
  assumes ok: "lexicon_ok lx" and n: "4 \<le> n" "n \<le> 15" and rank: "rank < radix (pool_parts lx n) (n div 2)"
  defines "wss \<equiv> composed_parts lx n rank"
  shows "length wss = n div 2" and "\<And>i. i < n div 2 \<Longrightarrow> wss ! i \<in> set (pool_parts lx n i)"
    and "set (concat wss) \<subseteq> set (lex_words lx)" and "length (concat wss) = n"
    and "rank_texts (group_pool lx (buildPhraseGrammar lx) n) (n div 2) rank = map join_dash wss"
    and "join_dash (map join_dash wss) = join_dash (concat wss)"
proof -
  have m: "n div 2 \<le> 7" "0 < n div 2" using n by auto
  note R = rank_digits_mem [OF rank]
  show len: "length wss = n div 2" and mem: "\<And>i. i < n div 2 \<Longrightarrow> wss ! i \<in> set (pool_parts lx n i)"
    using R by (simp_all add: wss_def composed_parts_def)
  have width: "length (wss ! i) = group_width n i" "set (wss ! i) \<subseteq> set (lex_words lx)" if "i < length wss" for i
    using pool_parts_props(2,3) [OF ok _ mem] that m len by auto
  then show "set (concat wss) \<subseteq> set (lex_words lx)"
    by (auto simp: in_set_conv_nth subset_iff) blast
  show "length (concat wss) = n"
    using length_concat_widths [of wss "group_width n"] width(1) len group_widths [of n] n by simp
  show "rank_texts (group_pool lx (buildPhraseGrammar lx) n) (n div 2) rank = map join_dash wss"
    using rank_texts_digits [OF rank, of join_dash]
    by (simp add: group_pool_parts [abs_def] wss_def composed_parts_def)
  have "ws \<noteq> []" if mem: "ws \<in> set wss" for ws
  proof -
    obtain i where i: "i < length wss" "ws = wss ! i" using mem by (auto simp: in_set_conv_nth)
    then show ?thesis using width(1) [OF i(1)] by (auto simp: group_width_def split: if_splits)
  qed
  then show "join_dash (map join_dash wss) = join_dash (concat wss)"
    using len m by (intro join_join) auto
qed

lemma radix_map: "radix (\<lambda>i. map f (pool i)) m = radix pool m"
  by (induction m) simp_all

lemma composed_capacity: "\<lbrakk>4 \<le> n; n \<le> 15\<rbrakk> \<Longrightarrow> CapacityBig lx (buildPhraseGrammar lx) n = radix (pool_parts lx n) (n div 2)"
  using capacity_radix [of "\<lambda>i. map join_dash (pool_parts lx n i)" "n div 2"]
  by (simp add: CapacityBig_def MinWordCount_def MaxWordCount_def group_pool_parts radix_map)

section \<open>The enumeration\<close>

definition name_parts :: "lexicon \<Rightarrow> nat \<Rightarrow> nat \<Rightarrow> string list" where
  "name_parts lx n rank =
     (if n \<le> 3 then phrase_parts lx (phrase_list lx n ! rank) else concat (composed_parts lx n rank))"

definition grammar_of :: "nat \<Rightarrow> string" where
  "grammar_of n = (if n \<le> 3 then GrammarName else ComposedGrammarName)"

lemma grammars_distinct [simp]: "GrammarName \<noteq> ComposedGrammarName" "ComposedGrammarName \<noteq> GrammarName"
  by (simp_all add: GrammarName_def ComposedGrammarName_def)

lemma short_capacity: "n = 2 \<or> n = 3 \<Longrightarrow> CapacityBig lx (buildPhraseGrammar lx) n = length (phrase_list lx n)"
  by (auto simp: CapacityBig_def MinWordCount_def MaxWordCount_def phraseCapacity_eq)

lemma name_parts_props:
  assumes ok: "lexicon_ok lx" and n: "2 \<le> n" "n \<le> 15" and rank: "rank < CapacityBig lx (buildPhraseGrammar lx) n"
  shows "AtBig lx (buildPhraseGrammar lx) (int rank) n =
      Inr \<lparr>Text = join_dash (name_parts lx n rank), nm_GrammarName = grammar_of n, nm_WordCount = n\<rparr>"
    and "set (name_parts lx n rank) \<subseteq> set (lex_words lx)" and "length (name_parts lx n rank) = n"
proof -
  let ?g = "buildPhraseGrammar lx"
  have "AtBig lx ?g (int rank) n = Inr \<lparr>Text = join_dash (name_parts lx n rank), nm_GrammarName = grammar_of n, nm_WordCount = n\<rparr> \<and>
      set (name_parts lx n rank) \<subseteq> set (lex_words lx) \<and> length (name_parts lx n rank) = n"
  proof (cases "n \<le> 3")
    case True
    then have n': "n = 2 \<or> n = 3" using n by auto
    have r: "rank < length (phrase_list lx n)" using rank short_capacity [OF n'] by simp
    then have "phrase_list lx n ! rank \<in> set (phrase_list lx n)" by simp
    note p = phrase_parts_words [OF ok this]
    show ?thesis
      using True r p(1,2) rank phraseAt_eq [OF n' r] short_capacity [OF n', of lx]
      by (cases "phrase_list lx n") (simp_all add: AtBig_def name_parts_def grammar_of_def)
  next
    case False
    then have n': "4 \<le> n" by simp
    have r: "rank < radix (pool_parts lx n) (n div 2)" using rank composed_capacity [OF n' n(2)] by simp
    note c = composed_rank [OF ok n' n(2) r]
    show ?thesis
      using False rank c(3-6) by (simp add: AtBig_def name_parts_def grammar_of_def)
  qed
  then show "AtBig lx ?g (int rank) n = Inr \<lparr>Text = join_dash (name_parts lx n rank), nm_GrammarName = grammar_of n, nm_WordCount = n\<rparr>"
    "set (name_parts lx n rank) \<subseteq> set (lex_words lx)" "length (name_parts lx n rank) = n" by simp_all
qed

lemma concat_widths_inj:
  "\<lbrakk>length xss = length yss; \<And>i. i < length xss \<Longrightarrow> length (xss ! i) = length (yss ! i); concat xss = concat yss\<rbrakk> \<Longrightarrow> xss = yss"
proof (induction xss yss rule: list_induct2')
  case (4 x xs y ys)
  have "length x = length y" using 4(3) [of 0] by simp
  then have "x = y" "concat xs = concat ys" using 4(4) by auto
  moreover have "length (xs ! i) = length (ys ! i)" if "i < length xs" for i using 4(3) [of "Suc i"] that by simp
  ultimately show ?case using 4(1,2) by simp
qed auto

lemma name_parts_inj:
  assumes ok: "lexicon_ok lx" and n: "2 \<le> n" "n \<le> 15" and rank: "rank < CapacityBig lx (buildPhraseGrammar lx) n"
    "rank' < CapacityBig lx (buildPhraseGrammar lx) n" and eq: "name_parts lx n rank = name_parts lx n rank'"
  shows "rank = rank'"
proof (cases "n \<le> 3")
  case True
  then have n': "n = 2 \<or> n = 3" using n by auto
  then have r: "rank < length (phrase_list lx n)" "rank' < length (phrase_list lx n)" using rank short_capacity by simp_all
  then have "phrase_list lx n ! rank = phrase_list lx n ! rank'"
    using eq True by (intro phrase_parts_inj [OF ok, of _ n]) (simp_all add: name_parts_def)
  then show ?thesis using r distinct_phrase_list by (simp add: nth_eq_iff_index_eq)
next
  case False
  then have n': "4 \<le> n" by simp
  have r: "rank < radix (pool_parts lx n) (n div 2)" "rank' < radix (pool_parts lx n) (n div 2)"
    using rank composed_capacity [OF n' n(2)] by simp_all
  note c = composed_rank [OF ok n' n(2) r(1)] and c' = composed_rank [OF ok n' n(2) r(2)]
  have m: "i < n div 2 \<Longrightarrow> i < 7" for i using n by auto
  have "composed_parts lx n rank = composed_parts lx n rank'"
  proof (rule concat_widths_inj)
    show "concat (composed_parts lx n rank) = concat (composed_parts lx n rank')" using eq False by (simp add: name_parts_def)
    show "length (composed_parts lx n rank) = length (composed_parts lx n rank')" using c(1) c'(1) by simp
    show "length (composed_parts lx n rank ! i) = length (composed_parts lx n rank' ! i)" if "i < length (composed_parts lx n rank)" for i
      using pool_parts_props(2) [OF ok m c(2)] pool_parts_props(2) [OF ok m c'(2)] c(1) that by simp
  qed
  then show ?thesis
    using pool_parts_props(1) [OF ok m] r unfolding composed_parts_def by (intro rank_digits_inj) auto
qed

lemma name_parts_parsed:
  assumes ok: "lexicon_ok lx" and n: "2 \<le> n" "n \<le> 15" and rank: "rank < CapacityBig lx (buildPhraseGrammar lx) n"
  shows "if n \<le> 3 then admits lx (buildPhraseGrammar lx) (name_parts lx n rank)
         else parseComposed lx (buildPhraseGrammar lx) (name_parts lx n rank)"
proof (cases "n \<le> 3")
  case True
  then have n': "n = 2 \<or> n = 3" using n by auto
  have "phrase_list lx n ! rank \<in> set (phrase_list lx n)" using rank short_capacity [OF n'] by simp
  then show ?thesis using True phrase_parts_admitted [OF ok] by (simp add: name_parts_def)
next
  case False
  then have n': "4 \<le> n" by simp
  have r: "rank < radix (pool_parts lx n) (n div 2)" using rank composed_capacity [OF n' n(2)] by simp
  note c = composed_rank [OF ok n' n(2) r]
  have m: "i < n div 2 \<Longrightarrow> i < 7" for i using n by auto
  have "compose_loop lx (buildPhraseGrammar lx) (concat (composed_parts lx n rank)) [0..<0 + length (composed_parts lx n rank)] 0 =
      Some (0 + length (concat (composed_parts lx n rank)))"
    using c(1,2,4) pool_parts_props(2) [OF ok m] by (intro compose_loop_groups) (auto simp: group_pool_parts)
  then show ?thesis using False n c(1,4) by (simp add: name_parts_def parseComposed_def MaxWordCount_def)
qed

lemma parsed_name_parts:
  assumes ok: "lexicon_ok lx" and n: "2 \<le> n" "n \<le> 15" and len: "length parts = n" and free: "\<forall>p \<in> set parts. CHR ''-'' \<notin> set p"
    and parsed: "if n \<le> 3 then admits lx (buildPhraseGrammar lx) parts else parseComposed lx (buildPhraseGrammar lx) parts"
  shows "\<exists>rank < CapacityBig lx (buildPhraseGrammar lx) n. name_parts lx n rank = parts"
proof (cases "n \<le> 3")
  case True
  then have n': "n = 2 \<or> n = 3" using n by auto
  from parsed True obtain p where "p \<in> set (phrase_list lx n)" "parts = phrase_parts lx p"
    using admitted_phrase [OF ok _ len n'] by auto
  then show ?thesis using True n' by (auto simp: in_set_conv_nth name_parts_def short_capacity)
next
  case False
  then have n': "4 \<le> n" by simp
  let ?g = "buildPhraseGrammar lx"
  have "compose_loop lx ?g parts [0..<0 + n div 2] 0 = Some n"
    using parsed False n by (simp add: parseComposed_def len split: if_splits)
  from compose_loop_parts [OF this] obtain wss where wss: "length wss = n div 2" "parts = concat wss"
    "\<forall>j < n div 2. join_dash (wss ! j) \<in> set (group_pool lx ?g n j) \<and> wss ! j = take (group_width n j) (wss ! j)"
    by (auto simp: len)
  have mem: "wss ! i \<in> set (pool_parts lx n i)" if i: "i < n div 2" for i
  proof -
    obtain ws where ws: "ws \<in> set (pool_parts lx n i)" "join_dash (wss ! i) = join_dash ws"
      using wss(3) i by (auto simp: group_pool_parts)
    have i7: "i < 7" using i n by auto
    have "length ws = group_width n i" "set ws \<subseteq> set (lex_words lx)" using pool_parts_props [OF ok i7] ws(1) by blast+
    then have ne: "ws \<noteq> []" and wsfree: "\<And>p. p \<in> set ws \<Longrightarrow> CHR ''-'' \<notin> set p"
      using lexicon_word(4) [OF ok] by (auto simp: group_width_def split: if_splits)
    then have "split_dash (join_dash (wss ! i)) = ws" using ws(2) split_join by simp
    moreover have "wss ! i \<noteq> []"
    proof
      assume "wss ! i = []"
      then have "ws = [[]]" using calculation by simp
      then show False using lexicon_word(1) [OF ok, of "[]"] \<open>set ws \<subseteq> set (lex_words lx)\<close> by simp
    qed
    moreover have "CHR ''-'' \<notin> set p" if "p \<in> set (wss ! i)" for p
      using free wss(1,2) i that by (metis nth_mem concat.simps set_concat UN_I)
    ultimately have "wss ! i = ws" using split_join by metis
    then show ?thesis using ws(1) by simp
  qed
  obtain rank where "rank < radix (pool_parts lx n) (n div 2)" "rank_digits (pool_parts lx n) (n div 2) rank = wss"
    using rank_digits_surj [OF wss(1) mem] by blast
  then show ?thesis
    using False composed_capacity [OF n' n(2)] wss(2) by (auto simp: name_parts_def composed_parts_def)
qed

lemma enumeration:
  assumes ok: "lexicon_ok lx" and n: "2 \<le> n" "n \<le> 15"
  shows "bij_betw (\<lambda>rank. projr (AtBig lx (buildPhraseGrammar lx) (int rank) n)) {..<CapacityBig lx (buildPhraseGrammar lx) n}
    {name. (nm_GrammarName name = GrammarName \<or> nm_GrammarName name = ComposedGrammarName) \<and> nm_WordCount name = n \<and>
       ParseStored lx (buildPhraseGrammar lx) u (nm_GrammarName name) (Text name) = Inr name}"
    (is "bij_betw ?at {..<?C} ?N")
proof (rule bij_betw_imageI)
  let ?g = "buildPhraseGrammar lx"
  have at: "?at rank = \<lparr>Text = join_dash (name_parts lx n rank), nm_GrammarName = grammar_of n, nm_WordCount = n\<rparr>" if "rank < ?C" for rank
    using name_parts_props(1) [OF ok n that] by simp
  have split: "split_dash (join_dash (name_parts lx n rank)) = name_parts lx n rank" if "rank < ?C" for rank
    using Normalize_words(2) [OF ok name_parts_props(2) [OF ok n that]] name_parts_props(3) [OF ok n that] n by simp
  show "inj_on ?at {..<?C}"
  proof (rule inj_onI)
    fix r r' assume r: "r \<in> {..<?C}" "r' \<in> {..<?C}" and "?at r = ?at r'"
    then have "join_dash (name_parts lx n r) = join_dash (name_parts lx n r')" using at by simp
    then have "name_parts lx n r = name_parts lx n r'" using split r by (metis lessThan_iff)
    then show "r = r'" using name_parts_inj [OF ok n] r by simp
  qed
  show "?at ` {..<?C} = ?N"
  proof (intro equalityI subsetI)
    fix name assume "name \<in> ?at ` {..<?C}"
    then obtain rank where r: "rank < ?C" "name = ?at rank" by auto
    have "Normalize u (join_dash (name_parts lx n rank)) = Inr (join_dash (name_parts lx n rank))"
      using Normalize_words(1) [OF ok name_parts_props(2) [OF ok n r(1)]] name_parts_props(3) [OF ok n r(1)] n by simp
    then show "name \<in> ?N"
      using at [OF r(1)] r(2) split [OF r(1)] name_parts_parsed [OF ok n r(1)] name_parts_props(3) [OF ok n r(1)] n
      by (auto simp: ParseStored_def grammar_of_def Let_def split: if_splits)
  next
    fix name assume "name \<in> ?N"
    then have gram: "nm_GrammarName name = GrammarName \<or> nm_GrammarName name = ComposedGrammarName" "nm_WordCount name = n"
      and parse: "ParseStored lx ?g u (nm_GrammarName name) (Text name) = Inr name" by auto
    obtain result where norm: "Normalize u (Text name) = Inr result"
      using parse by (auto simp: ParseStored_def split: sum.splits)
    let ?parts = "split_dash result"
    have name: "name = \<lparr>Text = result, nm_GrammarName = nm_GrammarName name, nm_WordCount = length ?parts\<rparr>"
      and valid: "if nm_GrammarName name = GrammarName then (length ?parts = 2 \<or> length ?parts = 3) \<and> admits lx ?g ?parts
        else parseComposed lx ?g ?parts"
      using parse gram(1) norm by (auto simp: ParseStored_def Let_def split: if_splits)
    have len: "length ?parts = n" using name gram(2) by (metis Name.select_convs(3))
    have g: "nm_GrammarName name = grammar_of n"
      using valid len gram(1) by (auto simp: grammar_of_def parseComposed_def split: if_splits)
    have "if n \<le> 3 then admits lx ?g ?parts else parseComposed lx ?g ?parts"
      using valid g by (auto simp: grammar_of_def split: if_splits)
    then obtain rank where "rank < ?C" "name_parts lx n rank = ?parts"
      using parsed_name_parts [OF ok n len] by (metis split_dash_parts_free)
    moreover have "join_dash ?parts = result" by (rule join_split)
    ultimately show "name \<in> ?at ` {..<?C}" using at name g len by (intro image_eqI [of _ _ rank]) auto
  qed
qed

end
