(* ===== verification/Lexicon.thy ===== *)
theory Lexicon
  imports Names_Enumeration
begin

unbundle bit_operations_syntax

text \<open>
  The editorial tables of \<^verbatim>\<open>access/names\<close> (\<^verbatim>\<open>words.go\<close>, \<^verbatim>\<open>lexicon.go\<close>, \<^verbatim>\<open>legacy.go\<close>, the palettes of
  \<^verbatim>\<open>composed.go\<close>), transcribed word for word, and the check that they meet \<^verbatim>\<open>lexicon_ok\<close>; the enumeration theorem
  then holds of the shipped name space.  A multi-line raw string is a list of its lines, which
  \<^verbatim>\<open>strings.Fields\<close> splits the same way.
\<close>

section \<open>Tables\<close>

text \<open>\<^verbatim>\<open>strings.Fields\<close> on the blank-separated lower-case text of the tables.\<close>

fun fields_from :: "string \<Rightarrow> string \<Rightarrow> string list" where
  "fields_from w [] = (if w = [] then [] else [rev w])"
| "fields_from w (c # cs) =
     (if c = CHR '' '' then (if w = [] then fields_from [] cs else rev w # fields_from [] cs)
      else fields_from (c # w) cs)"

definition fields :: "string \<Rightarrow> string list" where "fields s = fields_from [] s"

definition text_fields :: "string list \<Rightarrow> string list" where "text_fields ls = concat (map fields ls)"

definition vocabulary_text :: "string list" where
  "vocabulary_text = [
     ''acorn agate alder aloe amber anise apple arch aspen aster azure bamboo'',
     ''bank basalt basin bay beach beech bend berry birch bloom blue bluff'',
     ''bold bough briar bridge bright brisk brook bud cacao calm canyon cape'',
     ''cavern cedar cherry chime cinder circle clay clean clear cliff clover coast'',
     ''comet cool coral corpus cosmos court crane creek crest crisp daisy dawn'',
     ''deep dell delta dove dune dusky eagle elm ember even faint fair'',
     ''falcon falls fawn field finch fine fir firm fjord flint flora flower'',
     ''flute forest fox fresh frost garden gentle geode glad glade glass glen'',
     ''golden gorge grain grass green grove gull harbor haven hazel heath heron'',
     ''hidden high hill hollow holly honey inlet iris isle ivory jade jasper'',
     ''junco kelp kind knoll lagoon lake lane larch lark laurel leaf ledge'',
     ''lemon light lilac linen little lively loch lotus lucid lunar maple marble'',
     ''marsh meadow mellow mesa mica mild mint misty moon moor mossy moth'',
     ''mound mountain muted myrtle navy neat nectar nest noble oak oasis oats'',
     ''ocean ochre olive onyx opal open orchid otter owl pale palm panda'',
     ''park pass pastel path peak pearl pearly pebble petal pine plain plum'',
     ''pond pool poppy port quartz quiet quill rain rare raven ravine reed'',
     ''reef rice ridge river road robin rose rosy round royal rue rush'',
     ''rustic sage sand sandy seal serene sheer shell shore silent silk silly'',
     ''silver slate sleek slope slow small smooth snow snowy soft solar spring'',
     ''spruce square star steady steel still stork stream summit sun sunny swan'',
     ''swift tawny tender thyme tidal tiger trail true tulip vale valley velvet'',
     ''vine violet vista vivid warm wharf wide wild willow windy winter wise'',
     ''wisp wood wren yard yarn yarrow yew young zinnia'',
     ''able accent agile'',
     ''air alley alloy almond alto amble ample anchor angle anthem apricot apron'',
     ''arcade ardent aria aroma arrow art atlas autumn avenue awning azalea badger'',
     ''bagel balance ballad ballet balm banana band banjo bard barley barn basil'',
     ''basket bass bath baton bayou beacon bead bean beat beaver beet bell'',
     ''belt bench bike bison blanket bliss block blues board boat bobcat bongo'',
     ''bonsai book bottle bounce bowl box brass brave bread breeze brief brine'',
     ''broad bronze broom brush bucket buckle bugle bulb bun bunny butter button'',
     ''cabin cable cactus camel camp candid candle canoe canto canvas card care'',
     ''cargo carol carpet carrot carry cashew castle cat cave celery cello chair'',
     ''chalet chalk chant chapel charm chart cheese chick chili chive choice choir'',
     ''chord chorus cider citrus city clef clever click climb clock cloth cloud'',
     ''clove clue coat cobra cocoa code coffee coil color comb comic cone'',
     ''cookie copper cork corn corner cotton cougar cove cozy cradle craft crate'',
     ''cream crepe cricket crocus crow cruise cube cumin cup curry curve cycle'',
     ''cymbal daffodil dahlia dance dash date debut deck deer depot depth design'',
     ''desk dew dial diary dish dock dog dome donkey door dot dough'',
     ''drama draw drawer dream dress drift drizzle drum duck duet dust duvet'',
     ''eager early earth ease easel easy echo edge egg egret elegant elk'',
     ''emu epic essay estate fable fall fancy farm feast felt fence fennel'',
     ''fern ferret ferry fiddle fig figure film finale fish flag flannel flask'',
     ''flax float floor flour flow fog foil folder font form fort forum'',
     ''foyer frame fresco fringe frog frond fruit fudge fugue future gala gale'',
     ''game garage garlic garnet gate gecko gem genre gift ginger glide globe'',
     ''glove glyph goat gold gong goose grace grand granite grape gravel gravy'',
     ''grid groove guava guide guitar gust hail hall halo hamlet hammer handle'',
     ''hangar happy hare harp hawk haze heart hedge herb hexagon hike hinge'',
     ''hook hoop hope horse hotel hound house hover hum humor hymn ice'',
     ''icing icon idea ideal image indigo ink island ivy jaguar jar jasmine'',
     ''jazz jelly jetty jingle jog jug juice jump kale kettle key kit'',
     ''kiwi koala lace lamb lamp large latch laugh leap leather legacy lemur'',
     ''lens lentil lesson letter lichen lid lift lily lime line lion llama'',
     ''loaf locket lodge loft logic loom loop luck lynx lyric macaw magic'',
     ''magnet magpie mallet mango map march market mask mat melody melon merry'',
     ''metal milk mill millet mink mirror mist mitten mocha model mole moose'',
     ''mosaic motif mouse move movie mural muse museum music napkin needle net'',
     ''newt nimble noodle note number nut oar office onion opera orange orbit'',
     ''orca osprey oval oven pace paddle page paint pair palace pan panel'',
     ''papaya paper parade parrot patio peace peach peanut pear pecan pedal pencil'',
     ''penguin peony pepper pet photo phrase piano pickle piece pier pigeon pillow'',
     ''pin pita pitch pivot pizza plank plate plaza plush pocket poem poetry'',
     ''poise polar polka pollen pony porch poster pot pouch prime prism propel'',
     ''prose prune pulp pulse puma puzzle quail quilt quince rabbit race rack'',
     ''radio radish raisin ramen ranch range ready recipe relish rhino rhyme rhythm'',
     ''ribbon ride riff ring rink ripe rise roam roast robe rock roll'',
     ''rondo roof room root rope route ruby rug ruler rumba sable saddle'',
     ''saffron sail salad salmon salsa satin sauce saucer scarf school scoot score'',
     ''screen script seat seed sesame shape sheep sheet shelf shift shoe shoot'',
     ''shop shovel shower sieve simple skate sketch skill sleet sleeve slide sloth'',
     ''smile snail snare snug soap soar solo sonata song sonnet soup space'',
     ''spark sphere spice spin spiral spirit spool spoon squash stage stamp stanza'',
     ''starch steer stem step stew stitch stone store storm story strap straw'',
     ''street stride string stroll studio style sugar summer sunset sushi sway sweep'',
     ''sweet swim swing switch symbol syntax syrup table taco tale tango tap'',
     ''teapot tempo tenor tent tern thaw theme thorn thread thunder tidy tile'',
     ''tilt timber tin toad toast toffee tomato tone topaz towel tower town'',
     ''train travel tray trek trifle trio trout trunk trust tube tumble tune'',
     ''tunnel turn turnip turtle twist unity vanilla vapor vase vault vector veil'',
     ''verse vessel vest view villa village vinyl viola violin visual voice volume'',
     ''waffle wagon wake walk wall walnut waltz wander water wave wax weave'',
     ''wedge whale wheat wheel whim whirl whisk white window wing wire witty'',
     ''wolf wonder wool word wrap yeast yogurt zeal zebra zero zest zip'',
     ''zipper zoo zoom'']"

definition fam_nature :: word_family where "fam_nature = 1"

definition fam_place :: word_family where "fam_place = 2"

definition fam_animal :: word_family where "fam_animal = 4"

definition fam_plant :: word_family where "fam_plant = 8"

definition fam_food :: word_family where "fam_food = 16"

definition fam_material :: word_family where "fam_material = 32"

definition fam_object :: word_family where "fam_object = 64"

definition fam_music :: word_family where "fam_music = 128"

definition fam_idea :: word_family where "fam_idea = 256"

definition noun_table :: "(word_family \<times> string list) list" where
  "noun_table = [
     (fam_nature, text_fields [
       ''air arch autumn cinder crest stream wisp breeze circle cloud comet cosmos dawn delta dew drizzle dust earth echo ember'',
       ''fall fog frost gale globe gust hail halo haze hill ice island light line mist moon mountain ocean orbit rain ridge river'',
       ''rock sleet slope snow space spark sphere spring star stone storm summer sun sunset thunder vapor water wave winter'']),
     (fam_place, text_fields [
       ''alley arcade avenue bank barn basin bath bay bayou beach bend bluff bridge brook cabin camp canyon cape castle cave'',
       ''cavern chalet chapel city cliff coast corner court cove creek deck dell depot dock dome dune edge estate farm fence'',
       ''ferry field fjord floor forest fort forum foyer garage garden gate glade glen gorge grove hall hamlet hangar harbor'',
       ''haven heath hedge hollow hotel house inlet isle jetty knoll lagoon lake lane ledge loch lodge loft market marsh meadow'',
       ''mesa mill moor mound museum nest oasis office palace park pass path patio peak pier plain plaza pond pool porch port'',
       ''ranch range ravine reef rink road roof room route school seat shelf shore shop stage store street studio summit town'',
       ''trail tunnel vale valley vault view villa village vista wall wharf window yard zoo'']),
     (fam_animal, text_fields [
       ''badger beaver bison bobcat bunny camel cat chick cobra cougar crane cricket crow deer dog donkey dove duck eagle egret'',
       ''elk emu falcon fawn ferret finch fish fox frog gecko goat goose gull hare hawk heron horse hound jaguar junco kiwi koala'',
       ''lamb lark lemur lion llama lynx macaw magpie mink mole moose moth mouse newt orca osprey otter owl panda parrot penguin'',
       ''pet pigeon pony puma quail rabbit raven rhino robin salmon seal sheep sloth snail stork swan tern tiger toad trout'',
       ''turtle whale wolf wren zebra'']),
     (fam_plant, text_fields [
       ''acorn alder aloe aspen aster azalea bamboo beech birch bloom bonsai bough briar bud bulb cactus cedar cherry clover'',
       ''crocus daffodil dahlia daisy elm fennel fern fir flax flora flower frond fruit grass grove hazel holly iris ivy jasmine'',
       ''kelp larch laurel leaf lichen lilac lily lotus maple myrtle oak orchid palm peony petal pine pollen poppy reed root rose'',
       ''rue sage seed spruce stem straw thorn thyme timber tulip vine violet walnut wheat willow wood yarrow yew zinnia'']),
     (fam_food, text_fields [
       ''almond anise apple apricot aroma bagel balm banana barley basil bean beet berry brine bread bun butter cacao carrot'',
       ''cashew celery cheese chili chive cider citrus clove cocoa coffee cookie corn cream crepe cumin cup curry date dough egg'',
       ''feast fig flour fudge garlic ginger grain grape gravy guava herb honey icing jelly juice kale lemon lentil lime loaf'',
       ''mango melon milk millet mint mocha nectar noodle nut oats olive onion orange papaya peach peanut pear pecan pepper'',
       ''pickle pita pizza plum prune pulp quince radish raisin ramen recipe relish rice roast saffron salad salsa sauce sesame'',
       ''soup spice squash starch stew sugar sushi syrup taco toast toffee tomato trifle turnip vanilla waffle yeast yogurt zest'']),
     (fam_material, text_fields [
       ''agate alloy amber azure basalt brass bronze chalk clay cloth copper coral cork cotton felt flannel flint foil garnet gem'',
       ''geode glass gold granite gravel indigo ink ivory jade jasper lace leather linen marble metal mica navy ochre onyx opal'',
       ''paper pearl pebble quartz ruby sable sand satin shell silk silver slate steel tin topaz velvet vinyl wax white wool yarn'']),
     (fam_object, text_fields [
       ''anchor quill angle apron arrow atlas awning basket baton beacon bead bell belt bench bike blanket block board boat book'',
       ''bottle bowl box broom brush bucket buckle button cable candle canoe canvas card cargo carpet chair chart clef clock coat'',
       ''coil comb cone cradle craft crate cube cymbal desk dial diary dish door dot drawer dress drum duvet easel fiddle figure'',
       ''film flag flask float folder font form frame fresco fringe game gift glove glyph gong grid guitar guide hammer handle'',
       ''harp hexagon hinge hook hoop icon image jar jug kettle key kit lamp latch lens letter lid lift locket loom loop magnet'',
       ''mallet map mask mat mirror mitten model mosaic mural napkin needle net note number oar oven paddle page paint pair pan'',
       ''panel parade pencil photo piano piece pillow pin plank plate pocket poster pot pouch prism puzzle quilt rack radio'',
       ''ribbon ring robe rope rug ruler saddle sail saucer scarf score screen script sheet shoe shovel sieve skate sketch sleeve'',
       ''slide soap snare spool spoon stamp stitch strap string switch symbol table teapot tent thread tile towel tower train'',
       ''tray trunk tube vase vector veil vessel vest viola violin wagon weave wedge wheel whisk wing wire word wrap zipper'']),
     (fam_music, text_fields [
       ''accent chime flute alto anthem aria art ballad ballet band banjo bard bass beat bliss blues bongo bugle canto carol'',
       ''chant charm choir chord chorus code color comic corpus dance debut design drama dream duet epic essay fable fancy finale'',
       ''fugue gala genre groove hum humor hymn idea jazz jingle lesson lyric magic melody motif movie muse music opera pace'',
       ''phrase pitch poem poetry polka prose pulse rhyme rhythm riff rondo rumba solo sonata song sonnet stanza story style'',
       ''syntax tale tango tempo tenor theme tone trio tune verse visual voice volume waltz'']),
     (fam_idea, text_fields [
       ''amble balance bounce care choice climb clue cruise curve cycle dash depth draw drift ease flow future glide grace heart'',
       ''hike hope hover ideal jog jump laugh leap legacy logic luck march move peace pedal pivot poise race ride rise roll shape'',
       ''shift shoot skill smile soar spin spiral spirit step stride stroll sway sweep swim swing tap thaw tilt travel trek trust'',
       ''tumble turn twist unity wake walk wander whim whirl wonder zeal zero zip zoom''])]"

definition adjective_table :: "(word_family \<times> string list) list" where
  "adjective_table = [
     (allFamilies, text_fields [
       ''blue bright clear cool deep faint fine golden green high light little mellow mild muted pale plain quiet round serene'',
       ''silent small smooth soft steady still warm white wide'']),
     (fam_nature OR fam_place OR fam_material OR fam_object OR fam_music OR fam_idea, text_fields [
       ''amber azure bold calm clean crisp dusky even fresh hidden lunar misty navy noble ochre open pastel pearly polar rosy'',
       ''royal rustic sandy sheer sleek snowy solar sunny tidal vivid windy'']),
     (fam_nature OR fam_place OR fam_plant OR fam_food OR fam_material OR fam_object OR fam_music OR fam_idea, fields ''brisk elegant gentle ivory lively lucid neat rare simple sweet tawny tender tidy velvet''),
     (fam_animal, fields ''agile brave clever eager glad happy kind nimble swift wise young''),
     (fam_place OR fam_object OR fam_music OR fam_idea, fields ''ample broad cozy firm grand large noble snug''),
     (fam_nature OR fam_place OR fam_animal OR fam_music, fields ''silly wild merry fair'')]"

definition modifier_table :: "(word_family \<times> string list) list" where
  "modifier_table = [
     (fam_nature OR fam_place OR fam_animal OR fam_object OR fam_music, text_fields [
       ''agate alloy amber basalt brass bronze chalk clay copper coral cork cotton felt flannel flint glass gold granite ivory'',
       ''jade jasper lace leather linen marble metal mica onyx opal paper pearl quartz ruby sable sand satin shell silk silver'',
       ''slate steel tin topaz velvet wax wool yarn'']),
     (fam_nature OR fam_place OR fam_object OR fam_music, text_fields [
       ''almond anise apple apricot barley basil berry cacao cherry cider cocoa coffee cumin fig ginger grape guava hazel honey'',
       ''jasmine lemon lilac lime lotus mango melon mint olive orange peach pear pepper plum rice rose saffron sage sesame sugar'',
       ''thyme vanilla violet walnut'']),
     (fam_place OR fam_animal OR fam_plant OR fam_object OR fam_music, text_fields [
       ''autumn breeze cloud dawn dew drizzle earth ember fog frost gale hail haze ice mist moon ocean rain river snow spring'',
       ''star storm summer sun sunset thunder vapor water wave winter'']),
     (fam_nature OR fam_place OR fam_object OR fam_music, text_fields [
       ''acorn alder aloe aspen aster bamboo beech birch cedar clover daisy elm fern fir flax iris ivy kelp larch laurel leaf'',
       ''lily maple myrtle oak orchid palm peony petal pine poppy reed spruce straw tulip vine willow wood yarrow yew''])]"

definition qualifier_table :: "(string \<times> string) list" where
  "qualifier_table = [
     (''quiet'', ''little''), (''bright'', ''little''), (''soft'', ''golden''), (''pale'', ''blue''), (''deep'', ''blue''),
     (''clear'', ''blue''), (''warm'', ''golden''), (''soft'', ''green''), (''quiet'', ''green''), (''small'', ''golden''),
     (''mellow'', ''little''), (''gentle'', ''little''), (''cozy'', ''little''), (''crisp'', ''white''), (''pale'', ''green''),
     (''soft'', ''white''), (''warm'', ''little''), (''still'', ''blue''), (''wild'', ''little'')]"

definition confusable_table :: "string list list" where
  "confusable_table = [
     fields ''pear pearly'', fields ''sun sunny'', fields ''snow snowy'', fields ''sand sandy'', fields ''rose rosy'',
     fields ''gold golden'', fields ''mist misty'', fields ''beach beech'', fields ''flour flower'', fields ''rice rise'',
     fields ''pear pair'', fields ''mist mint'']"

definition disallowed_table :: "(string \<times> string) list" where
  "disallowed_table = [(''silly'', ''goose''), (''wild'', ''goose'')]"

definition specific_table :: "(string \<times> string list) list" where
  "specific_table = [
     (''candid'', fields ''essay story verse''), (''witty'', fields ''comic essay poem story verse''),
     (''brief'', fields ''echo note poem tale verse''), (''early'', fields ''dawn spring summer winter''),
     (''easy'', fields ''flow pace rhythm tune''), (''ready'', fields ''kit'')]"

definition triple_head_table :: "string list" where
  "triple_head_table = text_fields [
     ''arch bay beach bell bloom boat book breeze bridge brook cabin canyon cape castle cave cedar chime choir cliff cloud'',
     ''coast comet corpus cove crane creek dawn delta dove dream drum dune earth echo elm ember fern field finch fjord flute'',
     ''forest fox garden glade glen globe grove gull harbor haven heron hill hollow island isle lake lark leaf lily lotus maple'',
     ''meadow moon mountain nest oak ocean orbit owl palm path peak pine poem pond pool quill rain raven reef ridge river robin'',
     ''rose shore song spring star stone stream summit sun swan tale trail tulip vale valley verse vine vista wave willow wood'',
     ''wren'']"

definition triple_adjective_table :: "string list" where
  "triple_adjective_table = text_fields [
     ''amber azure blue bright calm clear cool cozy crisp deep dusky faint fresh gentle golden green hidden ivory light little'',
     ''lively lucid lunar mellow mild misty muted navy ochre pale pastel pearly plain polar quiet rosy round royal sandy serene'',
     ''silent silver sleek small smooth snowy soft solar still sunny sweet tawny tender tidal velvet vivid warm white windy'']"

definition palette_table :: "(string list \<times> string list) list" where
  "palette_table = [
     (text_fields [
       ''quiet soft bright calm blue green warm gentle lunar amber rice lemon velvet silver cedar maple willow pine oak birch'',
       ''aspen fir elm acorn''],
      text_fields [
       ''arch bay bell bloom boat book breeze bridge brook cabin canyon cape castle cave chime choir cliff cloud coast comet'',
       ''corpus cove crane creek dawn delta dove dream drum dune earth echo ember fern field finch fjord flute forest fox garden'',
       ''glade glen globe grove gull harbor haven heron hill hollow island isle lake lark leaf lily lotus meadow moon mountain'',
       ''nest ocean orbit owl palm path peak poem pond pool quill rain raven reef ridge river robin rose shore song spring star'',
       ''stone stream summit swan tale trail tulip vale valley verse vine vista wave wood wren'']),
     (text_fields [
       ''clear cool deep faint light little mellow mild muted pale plain round serene silent small smooth steady still wide'',
       ''golden coral shell silk linen''],
      text_fields [
       ''alley arcade avenue barn basin bath bayou bend bluff camp cavern chalet chapel city corner court deck dell depot dock'',
       ''dome edge estate farm fence ferry floor fort forum foyer garage gate hall hamlet hangar heath hedge hotel house inlet'',
       ''jetty knoll lagoon lane ledge loch lodge loft market marsh mesa mill moor mound museum oasis office palace park pass'',
       ''patio pier plaza porch port ranch range ravine rink road roof room route school seat shelf shop stage store street'',
       ''studio town tunnel vault view villa village wharf window yard zoo'']),
     (text_fields [
       ''fresh crisp dusky even hidden navy noble ochre open pastel polar royal rustic sandy sheer sleek snowy solar sunny tidal'',
       ''vivid windy azure ivory''],
      text_fields [
       ''anchor angle apron arrow atlas awning basket baton beacon bead belt bench bike blanket block board bottle bowl box broom'',
       ''brush bucket buckle button cable candle canoe canvas card cargo carpet chair chart clef clock coat coil comb cone cradle'',
       ''craft crate cube cymbal desk dial diary dish door dot drawer dress duvet easel figure film flag flask float folder font'',
       ''form frame fresco fringe game gift glove glyph gong grid guitar guide hammer handle'']),
     (text_fields [
       ''elegant lively lucid neat rare simple sweet tawny tender tidy ample broad cozy firm grand large snug agate alloy basalt'',
       ''brass bronze chalk clay''],
      text_fields [
       ''accent alto anthem aria art ballad ballet band banjo bard bass beat bliss blues bongo bugle canto carol chant charm'',
       ''chord chorus code color comic dance debut design drama duet epic essay fable fancy finale fugue gala genre groove hum'',
       ''humor hymn idea jazz jingle lesson lyric magic melody motif movie muse music opera pace phrase pitch poetry polka prose'']),
     (text_fields [
       ''copper cork cotton felt flannel flint glass granite jade jasper lace leather marble metal mica onyx opal paper pearl'',
       ''quartz ruby sable satin slate''],
      text_fields [
       ''badger beaver bison bobcat bunny camel cat chick cobra cougar cricket crow deer dog donkey duck eagle egret elk emu'',
       ''falcon fawn ferret fish frog gecko goat goose hare hawk horse hound jaguar junco kiwi koala lamb lemur lion llama lynx'',
       ''macaw magpie mink mole moose moth mouse newt orca osprey otter panda parrot penguin pet pigeon pony puma quail rabbit'',
       ''rhino salmon seal sheep sloth snail stork tern tiger toad trout turtle whale wolf zebra'']),
     (text_fields [
       ''steel tin topaz wax wool yarn almond anise apple apricot barley basil berry cacao cherry cider cocoa coffee cumin fig'',
       ''ginger grape guava hazel''],
      text_fields [
       ''harp hexagon hinge hook hoop icon image jar jug kettle key kit lamp latch lens letter lid lift locket loom loop magnet'',
       ''mallet map mask mat mirror mitten model mosaic mural napkin needle net note number oar oven paddle page paint pan panel'',
       ''parade pencil photo piano piece pillow pin plank plate pocket poster pot pouch prism puzzle quilt rack radio ribbon ring'',
       ''robe rope rug ruler saddle sail saucer'']),
     (text_fields [
       ''honey lime mango melon olive orange peach pear pepper plum saffron sesame sugar vanilla autumn dew drizzle fog frost'',
       ''gale hail haze ice mist''],
      text_fields [
       ''scarf score screen script sheet shoe shovel sieve skate sketch sleeve slide soap snare spool spoon stamp stitch strap'',
       ''string switch symbol table teapot tent thread tile towel tower train tray trunk tube vase vector veil vessel vest viola'',
       ''violin wagon weave wedge wheel whisk wing wire word wrap zipper pulse rhyme rhythm riff rondo rumba solo sonata sonnet'',
       ''stanza story style syntax tango tempo tenor theme tone trio tune visual voice volume waltz''])]"

definition legacyModifierRoots_table :: "string list" where
  "legacyModifierRoots_table = text_fields [
     ''amber ancient autumn bright calm clear cool crystal dawn deep evening gentle golden green happy hidden kind light little'',
     ''lively lucky lunar misty morning mossy noble open peaceful quiet radiant rapid rare rising round royal silver small soft'',
     ''solar spring still summer sunny swift tender tranquil true velvet warm wild winter wise young brisk cloudy coral glowing'',
     ''graceful lucid natural serene vivid wandering zen'']"

definition legacyModifierTails_table :: "string list" where
  "legacyModifierTails_table = text_fields [
     ''aura bloom breath cadence charm chorus dream ember gleam glow grace hush light lore melody mist murmur pulse quiet'',
     ''radiance rhythm shimmer song spark spirit touch verse whisper wonder warmth wisp zen'']"

definition legacySubjectRoots_table :: "string list" where
  "legacySubjectRoots_table = text_fields [
     ''amber apple autumn bamboo blue bright cedar cloud coral crystal dawn deep dove dream ember evening fern forest gentle'',
     ''golden green harbor hidden jade kind lake lantern light little lotus lucky lunar maple meadow misty moon moss morning'',
     ''ocean orchard pearl quiet rain river sage silver sky soft solar spring star stone summer sun tender tranquil valley'',
     ''velvet violet warm wild willow winter zen'']"

definition legacySubjectTails_table :: "string list" where
  "legacySubjectTails_table = text_fields [
     ''badger beacon birch crane dahlia dove eagle finch fox heron lark lotus maple otter owl pine reed robin sparrow swan wren'',
     ''clover fern orchid willow lantern comet moon pebble shell star tide'']"

definition legacyPlaceRoots_table :: "string list" where
  "legacyPlaceRoots_table = text_fields [
     ''amber ancient apple autumn bamboo bright cedar cloud coral crystal dawn deep dream ember evening fern forest gentle'',
     ''golden green harbor hidden jade kind lake lantern light little lotus lucky lunar maple meadow mist moon morning moss'',
     ''ocean orchard pearl quiet rain river sage silver sky soft solar spring star stone summer sun tranquil valley velvet'',
     ''violet warm wild willow winter wise young zen'']"

definition legacyPlaceTails_table :: "string list" where
  "legacyPlaceTails_table = text_fields [
     ''arch bay bridge cape cave circle coast cove dell falls gate glade glen haven hollow isle lagoon lane mesa nest pass path'',
     ''peak pond prairie ridge road shore stream summit vale vista'']"

definition vocabulary :: "string list" where "vocabulary = text_fields vocabulary_text"

definition relay_lexicon :: lexicon where
  "relay_lexicon = \<lparr>
     lex_words = vocabulary, nounGroups = noun_table, adjectiveGroups = adjective_table, modifierGroups = modifier_table,
     qualifierPairs = qualifier_table, confusableGroups = confusable_table, disallowedPairs = disallowed_table,
     specificAdjectiveHeads = specific_table, lex_tripleHeads = triple_head_table, lex_tripleAdjectives = triple_adjective_table,
     composedPalettes = palette_table,
     legacyRoots = (legacyModifierRoots_table, legacySubjectRoots_table, legacyPlaceRoots_table),
     legacyTails = (legacyModifierTails_table, legacySubjectTails_table, legacyPlaceTails_table)\<rparr>"

section \<open>The tables are well formed\<close>

text \<open>
  The checks run inside the logic, so they avoid arithmetic on characters: a word is compared by its bits, and the
  vocabulary, which is two sorted runs, is distinct because merging the runs gives a strictly ascending list.
\<close>

primrec char_bits :: "char \<Rightarrow> bool list" where
  "char_bits (Char b0 b1 b2 b3 b4 b5 b6 b7) = [b7, b6, b5, b4, b3, b2, b1, b0]"

definition word_bits :: "string \<Rightarrow> bool list" where "word_bits w = concat (map char_bits w)"

fun bits_less :: "bool list \<Rightarrow> bool list \<Rightarrow> bool" where
  "bits_less _ [] = False"
| "bits_less [] (_ # _) = True"
| "bits_less (True # cs) (d # ds) = (d \<and> bits_less cs ds)"
| "bits_less (False # cs) (d # ds) = (d \<or> bits_less cs ds)"

lemma bits_less_trans: "\<lbrakk>bits_less a b; bits_less b c\<rbrakk> \<Longrightarrow> bits_less a c"
proof (induction a c arbitrary: b rule: bits_less.induct)
  case (3 cs d ds) then show ?case by (cases b rule: list.exhaust; cases "hd b") auto
next
  case (4 cs d ds) then show ?case by (cases b rule: list.exhaust; cases "hd b") auto
qed auto

lemma bits_less_irrefl [simp]: "\<not> bits_less a a"
proof (induction a)
  case (Cons b a) then show ?case by (cases b) auto
qed simp

text \<open>Two sorted texts are compared line by line.\<close>

fun ascending :: "bool list list \<Rightarrow> bool" where
  "ascending (a # b # r) = (bits_less a b \<and> ascending (b # r))"
| "ascending _ = True"

fun lines_ascending :: "bool list list list \<Rightarrow> bool" where
  "lines_ascending (a # b # r) = (a \<noteq> [] \<and> ascending a \<and> b \<noteq> [] \<and> bits_less (last a) (hd b) \<and> lines_ascending (b # r))"
| "lines_ascending [a] = (a \<noteq> [] \<and> ascending a)"
| "lines_ascending [] = True"

function lines_disjoint :: "bool list list list \<Rightarrow> bool list list list \<Rightarrow> bool" where
  "lines_disjoint [] bs = True"
| "lines_disjoint (a # as) [] = True"
| "lines_disjoint (a # as) (b # bs) =
     ((bits_less (last a) (hd b) \<or> bits_less (last b) (hd a) \<or> list_all (\<lambda>w. \<not> List.member b w) a) \<and>
      (if bits_less (last a) (last b) then lines_disjoint as (b # bs) else lines_disjoint (a # as) bs))"
  by pat_completeness auto

termination by (relation "measure (\<lambda>(as, bs). length as + length bs)") auto

lemma ascending_sorted: "ascending ws \<longleftrightarrow> sorted_wrt bits_less ws"
proof (induction ws rule: ascending.induct)
  case (1 a b r) then show ?case using bits_less_trans by auto
qed auto

lemma sorted_distinct: "sorted_wrt bits_less ws \<Longrightarrow> distinct ws"
  by (induction ws) auto

lemma sorted_hd_last:
  "\<lbrakk>sorted_wrt bits_less ws; w \<in> set ws\<rbrakk> \<Longrightarrow> (hd ws = w \<or> bits_less (hd ws) w) \<and> (w = last ws \<or> bits_less w (last ws))"
  by (induction ws) auto

lemma lines_ascending_sorted: "lines_ascending ls \<longleftrightarrow> sorted_wrt bits_less (concat ls) \<and> [] \<notin> set ls"
proof (induction ls rule: lines_ascending.induct)
  case (1 a b r)
  have "bits_less x y" if "bits_less (last a) (hd b)" "sorted_wrt bits_less a" "sorted_wrt bits_less (b @ concat r)" "b \<noteq> []"
    "x \<in> set a" "y \<in> set b \<union> set (concat r)" for x y
  proof -
    have "x = last a \<or> bits_less x (last a)" using sorted_hd_last that by blast
    moreover have "hd b = y \<or> bits_less (hd b) y" using sorted_hd_last [of "b @ concat r" y] that by auto
    ultimately show ?thesis using that(1) bits_less_trans by blast
  qed
  then show ?case using 1 by (auto simp: ascending_sorted sorted_wrt_append)
qed (auto simp: ascending_sorted)

lemma lines_disjoint_sound:
  "\<lbrakk>lines_disjoint as bs; sorted_wrt bits_less (concat as); sorted_wrt bits_less (concat bs); [] \<notin> set as; [] \<notin> set bs\<rbrakk>
   \<Longrightarrow> set (concat as) \<inter> set (concat bs) = {}"
proof (induction as bs rule: lines_disjoint.induct)
  case (3 a as b bs)
  have ab: "set a \<inter> set b = {}"
  proof -
    have "bits_less (last a) (hd b) \<or> bits_less (last b) (hd a) \<or> (\<forall>w \<in> set a. w \<notin> set b)"
      using 3(3) by (auto simp: list_all_iff List.member_iff)
    moreover have "\<not> bits_less (last a) (hd b) \<and> \<not> bits_less (last b) (hd a)" if w: "w \<in> set a" "w \<in> set b" for w
    proof -
      have s: "sorted_wrt bits_less a" "sorted_wrt bits_less b" using 3(4,5) by (simp_all add: sorted_wrt_append)
      note ends = sorted_hd_last [OF s(1) w(1)] sorted_hd_last [OF s(2) w(2)]
      have chain: False if "w = x \<or> bits_less w x" "bits_less x y" "y = w \<or> bits_less y w" for x y
        using that bits_less_trans [of w x y] bits_less_trans [of w y w] by auto
      show ?thesis using chain [of "last a" "hd b"] chain [of "last b" "hd a"] ends by auto
    qed
    ultimately show ?thesis by blast
  qed
  have last_in: "last a \<in> set a" "last b \<in> set b" using 3(6,7) by auto
  show ?case
  proof (cases "bits_less (last a) (last b)")
    case True
    then have "set (concat as) \<inter> set (concat (b # bs)) = {}" using 3 by (auto simp: sorted_wrt_append)
    moreover have "bits_less x y" if "x \<in> set a" "y \<in> set (concat bs)" for x y
    proof -
      have "bits_less (last b) y" using that(2) last_in(2) 3(5) by (auto simp: sorted_wrt_append)
      moreover have "x = last a \<or> bits_less x (last a)" using sorted_hd_last that(1) 3(4) by (simp add: sorted_wrt_append)
      ultimately show ?thesis using True bits_less_trans by blast
    qed
    ultimately show ?thesis using ab bits_less_irrefl by fastforce
  next
    case False
    then have "set (concat (a # as)) \<inter> set (concat bs) = {}" using 3 by (auto simp: sorted_wrt_append)
    moreover have "x \<notin> set b" if "x \<in> set (concat as)" for x
    proof
      assume "x \<in> set b"
      then have "x = last b \<or> bits_less x (last b)" using sorted_hd_last [of b] 3(5) by (auto simp: sorted_wrt_append)
      moreover have "bits_less (last a) x" using that 3(4) last_in by (auto simp: sorted_wrt_append)
      ultimately show False using False bits_less_trans by blast
    qed
    ultimately show ?thesis using ab by fastforce
  qed
qed auto

definition text_bits :: "string list \<Rightarrow> bool list list list" where "text_bits ls = map (\<lambda>l. map word_bits (fields l)) ls"

lemma distinct_runs:
  assumes "lines_ascending (text_bits as)" "lines_ascending (text_bits bs)" "lines_disjoint (text_bits as) (text_bits bs)"
  shows "distinct (text_fields (as @ bs))"
proof -
  have "concat (text_bits ls) = map word_bits (text_fields ls)" for ls by (simp add: text_bits_def text_fields_def map_concat comp_def)
  moreover have "distinct (concat (text_bits as) @ concat (text_bits bs))"
    using assms lines_disjoint_sound [OF assms(3)] by (simp add: lines_ascending_sorted sorted_distinct)
  ultimately have "distinct (map word_bits (text_fields (as @ bs)))" by (simp add: text_fields_def)
  then show ?thesis by (simp add: distinct_map)
qed

primrec small_letter :: "char \<Rightarrow> bool" where
  "small_letter (Char b0 b1 b2 b3 b4 b5 b6 b7) =
     (\<not> b7 \<and> b6 \<and> b5 \<and> (if b4 then \<not> b3 \<or> (\<not> b2 \<and> (\<not> b1 \<or> \<not> b0)) else b3 \<or> b2 \<or> b1 \<or> b0))"

lemma lower_letter_bits: "lower_letter c = small_letter c"
proof (cases c)
  case (Char b0 b1 b2 b3 b4 b5 b6 b7)
  then show ?thesis
    by (cases b0; cases b1; cases b2; cases b3; cases b4; cases b5; cases b6; cases b7) (simp_all add: lower_letter_def less_eq_char_def)
qed

lemma vocabulary_distinct: "distinct vocabulary"
proof -
  have "lines_ascending (text_bits (take 24 vocabulary_text))" by code_simp
  moreover have "lines_ascending (text_bits (drop 24 vocabulary_text))" by code_simp
  moreover have "lines_disjoint (text_bits (take 24 vocabulary_text)) (text_bits (drop 24 vocabulary_text))" by code_simp
  ultimately have "distinct (text_fields (take 24 vocabulary_text @ drop 24 vocabulary_text))" by (rule distinct_runs)
  then show ?thesis by (simp add: vocabulary_def)
qed

lemma vocabulary_size: "length vocabulary = 1023"
  by code_simp

lemma vocabulary_words: "list_all (\<lambda>w. 3 \<le> length w \<and> length w \<le> 8 \<and> list_all small_letter w) vocabulary"
proof -
  have "list_all (\<lambda>l. list_all (\<lambda>w. 3 \<le> length w \<and> length w \<le> 8 \<and> list_all small_letter w) (fields l)) vocabulary_text" by code_simp
  then show ?thesis by (simp add: vocabulary_def text_fields_def list_all_iff)
qed

lemma palettes_distinct: "7 \<le> length palette_table \<and> list_all (\<lambda>(ms, ss). distinct ms \<and> distinct ss) palette_table"
  by code_simp

lemma relay_lexicon_ok: "lexicon_ok relay_lexicon"
  using vocabulary_distinct vocabulary_size vocabulary_words palettes_distinct
  by (simp add: lexicon_ok_def relay_lexicon_def list_all_iff split_beta lower_letter_bits)

section \<open>The shipped name space\<close>

text \<open>C40. The readable names of a length are exactly enumerated by rank.  For the shipped word tables and each length from two to
  fifteen words: every rank below the reported capacity selects a name that the parser accepts under its recorded
  grammar, no two ranks select the same name, and every name of that length the current grammars accept is selected by
  some rank.\<close>

theorem names_enumerated:
  fixes u :: "string \<Rightarrow> string"
  assumes "2 \<le> n" and "n \<le> 15"
  shows "bij_betw (\<lambda>rank. projr (AtBig relay_lexicon (buildPhraseGrammar relay_lexicon) (int rank) n))
    {..<CapacityBig relay_lexicon (buildPhraseGrammar relay_lexicon) n}
    {name. (nm_GrammarName name = GrammarName \<or> nm_GrammarName name = ComposedGrammarName) \<and> nm_WordCount name = n \<and>
       ParseStored relay_lexicon (buildPhraseGrammar relay_lexicon) u (nm_GrammarName name) (Text name) = Inr name}"
  using enumeration [OF relay_lexicon_ok assms] .

theorem names_enumerated_witness:
  "bij_betw (\<lambda>rank. projr (AtBig relay_lexicon (buildPhraseGrammar relay_lexicon) (int rank) 15))
    {..<CapacityBig relay_lexicon (buildPhraseGrammar relay_lexicon) 15}
    {name. (nm_GrammarName name = GrammarName \<or> nm_GrammarName name = ComposedGrammarName) \<and> nm_WordCount name = 15 \<and>
       ParseStored relay_lexicon (buildPhraseGrammar relay_lexicon) (\<lambda>s. s) (nm_GrammarName name) (Text name) = Inr name}"
  by (rule names_enumerated) simp_all

end
