(* ===== verification/Decimal.thy ===== *)
theory Decimal
  imports Relay_Prelude
begin

text \<open>
  Decimal numbers of package \<^verbatim>\<open>strconv\<close>, as the sources use them in identifiers, headers, ports and credentials: printing with
  \<^verbatim>\<open>Itoa\<close>, \<^verbatim>\<open>FormatInt\<close> or \<^verbatim>\<open>%d\<close>, and parsing with \<^verbatim>\<open>ParseUint(s, 10, 64)\<close> and \<^verbatim>\<open>ParseInt(s, 10, 64)\<close>.
\<close>

definition digit :: "nat \<Rightarrow> char" where
  "digit n = char_of (48 + n)"

definition digit_value :: "char \<Rightarrow> nat option" where
  "digit_value c = (let n = of_char c :: nat in if 48 \<le> n \<and> n \<le> 57 then Some (n - 48) else None)"

fun decimal :: "nat \<Rightarrow> string" where
  "decimal n = (if n < 10 then [digit n] else decimal (n div 10) @ [digit (n mod 10)])"

declare decimal.simps [simp del]

definition decimal_int :: "int \<Rightarrow> string" where
  "decimal_int i = (if i < 0 then CHR ''-'' # decimal (nat (- i)) else decimal (nat i))"

text \<open>The digits read so far make \<open>n\<close>; any other character is a syntax error.\<close>

fun digits :: "nat \<Rightarrow> string \<Rightarrow> nat option" where
  "digits n [] = Some n"
| "digits n (c # cs) = (case digit_value c of None \<Rightarrow> None | Some d \<Rightarrow> digits (10 * n + d) cs)"

definition ParseUint :: "string \<Rightarrow> nat option" where
  "ParseUint s =
     (if s = [] then None
      else case digits 0 s of None \<Rightarrow> None | Some n \<Rightarrow> if n < 2 ^ 64 then Some n else None)"

definition ParseInt :: "string \<Rightarrow> int option" where
  "ParseInt s =
     (let negative = (s \<noteq> [] \<and> hd s = CHR ''-'');
          body = (if s \<noteq> [] \<and> (hd s = CHR ''-'' \<or> hd s = CHR ''+'') then tl s else s)
      in case ParseUint body of
           None \<Rightarrow> None
         | Some n \<Rightarrow>
             if \<not> negative \<and> n \<ge> 2 ^ 63 \<or> negative \<and> n > 2 ^ 63 then None
             else Some (if negative then - int n else int n))"

lemma digit_value_digit [simp]: "d < 10 \<Longrightarrow> digit_value (digit d) = Some d"
  by (simp add: digit_def digit_value_def Let_def)

lemma digits_append: "digits n (s @ t) = (case digits n s of None \<Rightarrow> None | Some m \<Rightarrow> digits m t)"
  by (induction s arbitrary: n) (auto split: option.split)

lemma digits_decimal: "digits 0 (decimal n) = Some n"
  by (induction n rule: decimal.induct) (subst decimal.simps, simp add: digits_append)

lemma decimal_not_Nil [simp]: "decimal n \<noteq> []"
  by (subst decimal.simps) simp

lemma decimal_digits: "c \<in> set (decimal n) \<Longrightarrow> \<exists>d < 10. c = digit d"
proof (induction n rule: decimal.induct)
  case (1 n)
  show ?case
  proof (cases "n < 10")
    case True
    then show ?thesis using 1(2) by (subst (asm) decimal.simps) auto
  next
    case False
    then have "c \<in> set (decimal (n div 10)) \<or> c = digit (n mod 10)" using 1(2) by (subst (asm) decimal.simps) auto
    then show ?thesis using 1(1) [OF False] by (auto intro: exI [of _ "n mod 10"])
  qed
qed

lemma decimal_avoids: "digit_value c = None \<Longrightarrow> c \<notin> set (decimal n)"
  using decimal_digits by fastforce

lemma ParseUint_decimal: "n < 2 ^ 64 \<Longrightarrow> ParseUint (decimal n) = Some n"
  by (simp add: ParseUint_def digits_decimal)

lemma decimal_hd: "digit_value c = None \<Longrightarrow> hd (decimal n) \<noteq> c"
  using decimal_avoids [of c n] hd_in_set [of "decimal n"] by auto

lemma ParseInt_decimal: "\<lbrakk>min_int64 \<le> i; i \<le> max_int64\<rbrakk> \<Longrightarrow> ParseInt (decimal_int i) = Some i"
proof (cases "i < 0")
  case True
  assume "min_int64 \<le> i"
  then have "nat (- i) \<le> 2 ^ 63" by (simp add: min_int64_def)
  then show ?thesis using True by (simp add: ParseInt_def decimal_int_def ParseUint_decimal Let_def)
next
  case False
  assume "i \<le> max_int64"
  then have "nat i < 2 ^ 63" using False by (simp add: max_int64_def nat_less_iff)
  moreover have "hd (decimal (nat i)) \<noteq> CHR ''-''" "hd (decimal (nat i)) \<noteq> CHR ''+''"
    by (rule decimal_hd; simp add: digit_value_def)+
  ultimately show ?thesis using False by (simp add: ParseInt_def decimal_int_def ParseUint_decimal Let_def)
qed

end
