(* ===== verification/Turn_Credentials.thy ===== *)
theory Turn_Credentials
  imports Decimal
begin

text \<open>
  TURN credentials of \<^verbatim>\<open>access/turn/auth.go\<close>, which issues them, and \<^verbatim>\<open>internal/turn/auth.go\<close>, which checks them: the username
  carries the expiry and the password is the keyed digest of the username.  HMAC-SHA1 is an argument.
\<close>

definition unix_seconds :: "time \<Rightarrow> int" where
  "unix_seconds t = t div second"

section \<open>Base64\<close>

definition base64_char :: "nat \<Rightarrow> char" where
  "base64_char n =
     (if n < 26 then char_of (65 + n) else if n < 52 then char_of (97 + (n - 26))
      else if n < 62 then char_of (48 + (n - 52)) else if n = 62 then CHR ''+'' else CHR ''/'')"

definition sextets :: "nat \<Rightarrow> nat list" where
  "sextets n = [n div 262144, n div 4096 mod 64, n div 64 mod 64, n mod 64]"

text \<open>\<^verbatim>\<open>base64.StdEncoding.EncodeToString\<close>: three bytes to four characters, the last group padded.\<close>

fun EncodeToString :: "bytes \<Rightarrow> string" where
  "EncodeToString (a # b # c # rest) =
     map base64_char (sextets (unat a * 65536 + unat b * 256 + unat c)) @ EncodeToString rest"
| "EncodeToString [a, b] = map base64_char (take 3 (sextets (unat a * 65536 + unat b * 256))) @ ''=''"
| "EncodeToString [a] = map base64_char (take 2 (sextets (unat a * 65536))) @ ''==''"
| "EncodeToString [] = []"

section \<open>Credentials\<close>

definition computePassword :: "(bytes \<Rightarrow> string \<Rightarrow> bytes) \<Rightarrow> bytes \<Rightarrow> string \<Rightarrow> string" where
  "computePassword hmac secret username = EncodeToString (hmac secret username)"

definition Credentials :: "(bytes \<Rightarrow> string \<Rightarrow> bytes) \<Rightarrow> time \<Rightarrow> bytes \<Rightarrow> string \<Rightarrow> duration \<Rightarrow> string \<times> string" where
  "Credentials hmac now secret sessionID ttl =
     (let expiry = unix_seconds (now + ttl);
          username = decimal_int expiry @ '':'' @ sessionID
      in (username, computePassword hmac secret username))"

text \<open>\<^verbatim>\<open>strings.SplitN(username, ":", 2)\<close>.\<close>

definition split_colon :: "string \<Rightarrow> string list" where
  "split_colon s =
     (let front = takeWhile (\<lambda>c. c \<noteq> CHR '':'') s
      in if front = s then [s] else [front, drop (Suc (length front)) s])"

definition Validate :: "(bytes \<Rightarrow> string \<Rightarrow> bytes) \<Rightarrow> time \<Rightarrow> bytes \<Rightarrow> string \<Rightarrow> string \<Rightarrow> bool" where
  "Validate hmac now secret username password =
     (let parts = split_colon username
      in if length parts \<noteq> 2 then False
         else
           case ParseInt (parts ! 0) of
             None \<Rightarrow> False
           | Some expiry \<Rightarrow>
               if unix_seconds now > expiry then False
               else password = computePassword hmac secret username)"

section \<open>Properties\<close>

lemma split_colon_front: "CHR '':'' \<notin> set a \<Longrightarrow> split_colon (a @ '':'' @ b) = [a, b]"
  by (simp add: split_colon_def takeWhile_append Let_def)

lemma colon_not_decimal: "CHR '':'' \<notin> set (decimal_int i)"
  by (simp add: decimal_int_def decimal_avoids digit_value_def)



end
