(* ===== verification/Json_Body.thy ===== *)
theory Json_Body
  imports Decimal
begin

text \<open>
  Request bodies as the handlers read them with \<^verbatim>\<open>encoding/json\<close>: a decoder with unknown fields disallowed binds the first JSON
  value of the body to a struct, and \<^verbatim>\<open>requireJSONEOF\<close> demands that nothing follows.  A body is the sequence of
  JSON values its text holds; a repeated key overrides the earlier one.
\<close>

section \<open>Values\<close>

datatype json =
    JNull | JBool bool | JNumber string | JString string | JArray "json list" | JObject "(string \<times> json) list"

text \<open>The size of the body, the values in it, and whether it ends after them.\<close>

record json_body =
  body_size :: nat
  body_values :: "json list"
  body_ends :: bool

section \<open>Binding a value to a struct\<close>

type_synonym 'a decoder = "json \<Rightarrow> 'a \<Rightarrow> 'a option"

text \<open>Field names match exactly or up to simple case folding; two letters outside ASCII fold to ASCII letters.\<close>

definition upper_char :: "char \<Rightarrow> char" where
  "upper_char c = (if CHR ''a'' \<le> c \<and> c \<le> CHR ''z'' then char_of (of_char c - 32 :: nat) else c)"

fun fold_name :: "string \<Rightarrow> string" where
  "fold_name [] = []"
| "fold_name (a # s) =
     (if a = CHR 0xC5 \<and> s \<noteq> [] \<and> hd s = CHR 0xBF then CHR ''S'' # fold_name (drop 1 s)
      else if a = CHR 0xE2 \<and> take 2 s = [CHR 0x84, CHR 0xAA] then CHR ''K'' # fold_name (drop 2 s)
      else upper_char a # fold_name s)"

definition field_decoder :: "(string \<times> 'a decoder) list \<Rightarrow> string \<Rightarrow> 'a decoder option" where
  "field_decoder fs key =
     (case map_of fs key of
        Some b \<Rightarrow> Some b
      | None \<Rightarrow> map_option snd (find (\<lambda>(name, b). fold_name name = fold_name key) fs))"

fun bind_fields :: "(string \<times> 'a decoder) list \<Rightarrow> (string \<times> json) list \<Rightarrow> 'a \<Rightarrow> 'a option" where
  "bind_fields fs [] a = Some a"
| "bind_fields fs ((key, v) # rest) a =
     (case field_decoder fs key of
        None \<Rightarrow> None
      | Some b \<Rightarrow> (case b v a of None \<Rightarrow> None | Some a' \<Rightarrow> bind_fields fs rest a'))"

definition bind_struct :: "(string \<times> 'a decoder) list \<Rightarrow> 'a decoder" where
  "bind_struct fs v a =
     (case v of JObject entries \<Rightarrow> bind_fields fs entries a | JNull \<Rightarrow> Some a | _ \<Rightarrow> None)"

type_synonym ('b, 'a) setter = "('b \<Rightarrow> 'b) \<Rightarrow> 'a \<Rightarrow> 'a"

definition bind_string :: "(string, 'a) setter \<Rightarrow> 'a decoder" where
  "bind_string upd v a = (case v of JString s \<Rightarrow> Some (upd (\<lambda>_. s) a) | JNull \<Rightarrow> Some a | _ \<Rightarrow> None)"

definition bind_bool :: "(bool, 'a) setter \<Rightarrow> 'a decoder" where
  "bind_bool upd v a = (case v of JBool b \<Rightarrow> Some (upd (\<lambda>_. b) a) | JNull \<Rightarrow> Some a | _ \<Rightarrow> None)"

definition bind_int :: "(int, 'a) setter \<Rightarrow> 'a decoder" where
  "bind_int upd v a =
     (case v of JNumber s \<Rightarrow> map_option (\<lambda>i. upd (\<lambda>_. i) a) (ParseInt s) | JNull \<Rightarrow> Some a | _ \<Rightarrow> None)"

definition bind_u64 :: "(u64, 'a) setter \<Rightarrow> 'a decoder" where
  "bind_u64 upd v a =
     (case v of JNumber s \<Rightarrow> map_option (\<lambda>n. upd (\<lambda>_. of_nat n) a) (ParseUint s) | JNull \<Rightarrow> Some a | _ \<Rightarrow> None)"

text \<open>A \<^verbatim>\<open>json.RawMessage\<close> keeps the value as it stands.\<close>

definition bind_raw :: "(json option, 'a) setter \<Rightarrow> 'a decoder" where
  "bind_raw upd v a = Some (upd (\<lambda>_. Some v) a)"

text \<open>A \<^verbatim>\<open>time.Time\<close> reads a string with the given parser of RFC 3339.\<close>

definition bind_time :: "(string \<Rightarrow> time option) \<Rightarrow> (time, 'a) setter \<Rightarrow> 'a decoder" where
  "bind_time parse upd v a =
     (case v of JString s \<Rightarrow> map_option (\<lambda>t. upd (\<lambda>_. t) a) (parse s) | JNull \<Rightarrow> Some a | _ \<Rightarrow> None)"

fun bind_elements :: "'b decoder \<Rightarrow> 'b \<Rightarrow> json list \<Rightarrow> 'b list option" where
  "bind_elements b zero [] = Some []"
| "bind_elements b zero (v # vs) =
     (case b v zero of
        None \<Rightarrow> None
      | Some x \<Rightarrow> (case bind_elements b zero vs of None \<Rightarrow> None | Some xs \<Rightarrow> Some (x # xs)))"

definition bind_slice :: "'b decoder \<Rightarrow> 'b \<Rightarrow> ('b list, 'a) setter \<Rightarrow> 'a decoder" where
  "bind_slice b zero upd v a =
     (case v of
        JArray vs \<Rightarrow> map_option (\<lambda>xs. upd (\<lambda>_. xs) a) (bind_elements b zero vs)
      | JNull \<Rightarrow> Some (upd (\<lambda>_. []) a)
      | _ \<Rightarrow> None)"

section \<open>Reading a body\<close>

text \<open>The limited body, one \<^verbatim>\<open>Decode\<close> and \<^verbatim>\<open>requireJSONEOF\<close>: a body over the limit never ends, so the second read fails.\<close>

definition requireJSONEOF :: "json list \<Rightarrow> bool \<Rightarrow> bool" where
  "requireJSONEOF rest ends \<longleftrightarrow> rest = [] \<and> ends"

definition decode_body :: "nat \<Rightarrow> 'a decoder \<Rightarrow> 'a \<Rightarrow> json_body \<Rightarrow> 'a option" where
  "decode_body limit b zero body =
     (if body_size body > limit then None
      else
        case body_values body of
          [] \<Rightarrow> None
        | v # rest \<Rightarrow>
            (case b v zero of
               None \<Rightarrow> None
             | Some input \<Rightarrow> if requireJSONEOF rest (body_ends body) then Some input else None))"

text \<open>Handlers with an optional body skip the decoder when the content length is zero.\<close>

definition optional_body :: "nat \<Rightarrow> 'a decoder \<Rightarrow> 'a \<Rightarrow> int \<Rightarrow> json_body \<Rightarrow> 'a option" where
  "optional_body limit b zero contentLength body =
     (if contentLength \<noteq> 0 then decode_body limit b zero body else Some zero)"

end
