(* ===== verification/Access_Http.thy ===== *)
theory Access_Http
  imports Access_Lifecycle Session_Events Rate_Limit Turn_Credentials Json_Body
begin

text \<open>
  The HTTP interface of the access service: \<^verbatim>\<open>access/handler.go\<close>, \<^verbatim>\<open>access/invitation_handler.go\<close>, \<^verbatim>\<open>access/internal_handler.go\<close>
  and \<^verbatim>\<open>renewOwner\<close>.  A handler is a function from the request and the state of the process to the response and
  the new state.  Authorization and operation are two transactions; other requests may change the store in between.
\<close>

section \<open>Configuration\<close>

definition sseKeepaliveIntervalDuration :: duration where "sseKeepaliveIntervalDuration = 20 * second"
definition maxPublicRequestBodyBytes :: nat where "maxPublicRequestBodyBytes = 4096"
definition maxRelayStateBodyBytes :: nat where "maxRelayStateBodyBytes = 256 * 1024"

record ICEServer =
  URLs :: "string list"
  Username :: string
  Credential :: string

record TURNConfig =
  PublicIP :: string
  turn_Secret :: bytes
  UDPPort :: int
  TLSPort :: int
  CredentialTTLDuration :: duration

record HandlerConfig =
  RelayWHIPBaseURL :: string
  RelaySignalURL :: string
  PublicControlURL :: string
  PublicReceiverURL :: string
  STUNURLs :: "string list"
  ICEServers :: "ICEServer list"
  TURN :: "TURNConfig option"
  CreateAdmission :: "accessLimiter option"
  ResolveAdmission :: "accessLimiter option"
  TrustedClientIPHeader :: string

record Handler =
  relayWHIPBaseURL :: string
  relaySignalURL :: string
  publicControlURL :: string
  publicReceiverURL :: string
  stunURLs :: "string list"
  iceServers :: "ICEServer list"
  turn :: "TURNConfig option"
  trustedClientIPHeader :: string

text \<open>\<^verbatim>\<open>strings.TrimRight(s, "/")\<close> and \<^verbatim>\<open>strings.TrimSpace\<close> on ASCII text.\<close>

definition trim_right_slash :: "string \<Rightarrow> string" where
  "trim_right_slash s = rev (dropWhile (\<lambda>c. c = CHR ''/'') (rev s))"

definition is_space :: "char \<Rightarrow> bool" where
  "is_space c \<longleftrightarrow> c \<in> {CHR 0x09, CHR 0x0A, CHR 0x0B, CHR 0x0C, CHR 0x0D, CHR '' ''}"

definition trim_space :: "string \<Rightarrow> string" where
  "trim_space s = rev (dropWhile is_space (rev (dropWhile is_space s)))"

text \<open>The admission limiters and the counters are shared state; the rest of the handler is fixed.\<close>

record access_metrics =
  SessionsCreated :: u64
  SessionsDeleted :: u64
  SubscriptionRequests :: u64

record http_state =
  hs_store :: mem_store
  createAdmission :: "accessLimiter option"
  resolveAdmission :: "accessLimiter option"
  hs_metrics :: access_metrics
  hs_hub :: event_hub

definition turn_defaults :: "TURNConfig \<Rightarrow> TURNConfig" where
  "turn_defaults c =
     (if CredentialTTLDuration c \<le> 0 then c\<lparr>CredentialTTLDuration := 24 * 60 * minute\<rparr> else c)"

definition cloneICEServers :: "ICEServer list \<Rightarrow> ICEServer list" where
  "cloneICEServers input = input"

definition NewHandlerWithConfig :: "HandlerConfig \<Rightarrow> Handler" where
  "NewHandlerWithConfig config =
     \<lparr>relayWHIPBaseURL = trim_right_slash (RelayWHIPBaseURL config),
      relaySignalURL = trim_right_slash (RelaySignalURL config),
      publicControlURL = trim_right_slash (PublicControlURL config),
      publicReceiverURL = trim_right_slash (PublicReceiverURL config),
      stunURLs = STUNURLs config, iceServers = cloneICEServers (ICEServers config),
      turn = map_option turn_defaults (TURN config),
      trustedClientIPHeader = trim_space (TrustedClientIPHeader config)\<rparr>"

definition empty_config :: HandlerConfig where
  "empty_config =
     \<lparr>RelayWHIPBaseURL = [], RelaySignalURL = [], PublicControlURL = [], PublicReceiverURL = [], STUNURLs = [], ICEServers = [],
      TURN = None, CreateAdmission = None, ResolveAdmission = None, TrustedClientIPHeader = []\<rparr>"

definition NewHandler :: Handler where "NewHandler = NewHandlerWithConfig empty_config"

definition NewHandlerWithTURN :: "TURNConfig option \<Rightarrow> Handler" where
  "NewHandlerWithTURN config = NewHandlerWithConfig (empty_config\<lparr>TURN := config\<rparr>)"

text \<open>The mutable part of a new process: the store, the limiters of the configuration, counters at zero, no event bus.\<close>

definition new_http_state :: "HandlerConfig \<Rightarrow> mem_store \<Rightarrow> http_state" where
  "new_http_state config st =
     \<lparr>hs_store = st, createAdmission = CreateAdmission config, resolveAdmission = ResolveAdmission config,
      hs_metrics = \<lparr>SessionsCreated = 0, SessionsDeleted = 0, SubscriptionRequests = 0\<rparr>, hs_hub = new_hub\<rparr>"

section \<open>Requests and responses\<close>

record http_request =
  rq_Method :: string
  rq_ID :: string
  rq_Locator :: string
  rq_Header :: "string \<Rightarrow> string"
  rq_ContentLength :: int
  rq_Body :: json_body
  rq_RemoteAddr :: string

record createSessionResponse =
  cr_SessionID :: string
  cr_RequiredBuses :: "string list"
  cr_SourceToken :: string
  cr_WHIPURL :: string
  cr_WHEPURL :: string
  cr_ICEServers :: "ICEServer list"

record publishSessionResponse =
  pr_SessionID :: string
  pr_BusID :: string
  pr_PublisherToken :: string
  pr_SignalURL :: string
  pr_ICEServers :: "ICEServer list"

record subscribeSessionResponse =
  sr_SessionID :: string
  sr_BusID :: string
  sr_SubscriberToken :: string

record sessionResponse =
  sv_State :: State
  sv_SourceActive :: bool

record createInvitationResponse =
  ci_WordCount :: nat
  ci_JoinCode :: string
  ci_JoinURL :: string
  ci_ShareAlias :: string
  ci_ShareURL :: string
  ci_Visibility :: string
  ci_ExpiresAt :: time

record inspectInvitationResponse =
  ii_WordCount :: int
  ii_ShareAlias :: string
  ii_Visibility :: string
  ii_ExpiresAt :: time

record resolveInvitationResponse =
  ir_SessionID :: string
  ir_BusID :: string
  ir_SubscriberToken :: string
  ir_SignalURL :: string
  ir_WHEPURL :: string
  ir_ICEServers :: "ICEServer list"

datatype payload =
    ProblemBody string
  | NoBody
  | CreatedBody createSessionResponse
  | StateBody sessionResponse
  | PublisherBody publishSessionResponse
  | SubscriberBody subscribeSessionResponse
  | RenewedBody string time
  | InvitationBody createInvitationResponse
  | MetadataBody inspectInvitationResponse
  | RawBody bytes
  | AppliedBody State bool
  | WriterBody u64
  | AuthorityBody AuthorityMetadata
  | StreamBody string

record http_response =
  hr_Status :: int
  hr_RetryAfter :: "int option"
  hr_Payload :: payload

definition writeJSON :: "int \<Rightarrow> payload \<Rightarrow> http_response" where
  "writeJSON st value = \<lparr>hr_Status = st, hr_RetryAfter = None, hr_Payload = value\<rparr>"

definition writeProblem :: "int \<Rightarrow> string \<Rightarrow> http_response" where
  "writeProblem st code = writeJSON st (ProblemBody code)"

text \<open>\<^verbatim>\<open>int(retryAfter.Round(time.Second).Seconds())\<close>.\<close>

definition round_seconds :: "duration \<Rightarrow> int" where
  "round_seconds d = (if d < 0 then - ((- d + 500 * millisecond) div second) else (d + 500 * millisecond) div second)"

section \<open>Inputs of the process\<close>

text \<open>What a request meets outside the access service: libraries, draws of random bytes, clock readings in the order of the calls,
  the contexts of its two transactions, and what other requests did to the store between them.\<close>

record http_env =
  he_access :: access_env
  he_split :: "string \<Rightarrow> string option"
  he_ip :: "string \<Rightarrow> string option"
  he_hmac :: "bytes \<Rightarrow> string \<Rightarrow> bytes"
  he_resolved :: "resolveInvitationResponse \<Rightarrow> access_error + bytes"
  he_parse_time :: "string \<Rightarrow> time option"
  he_draw1 :: "bytes option"
  he_draw2 :: "bytes option"
  he_names :: "nat \<Rightarrow> allocation_draw"
  he_t0 :: time
  he_t1 :: time
  he_t2 :: time
  he_t3 :: time
  he_ctx1 :: go_context
  he_ctx2 :: go_context
  he_between :: "mem_store \<Rightarrow> mem_store"

abbreviation he_tx :: "http_env \<Rightarrow> transaction Tx" where
  "he_tx env \<equiv> memory_tx (env_marshal (he_access env))"

abbreviation he_lib :: "http_env \<Rightarrow> jwt_library" where
  "he_lib env \<equiv> env_lib (he_access env)"

end
