(* ===== verification/Access_Handlers.thy ===== *)
theory Access_Handlers
  imports Access_Http
begin

text \<open>
  The handlers of the access service's HTTP interface.  Responses carry the values the code encodes as JSON.
\<close>

section \<open>ICE servers\<close>

text \<open>\<^verbatim>\<open>net.JoinHostPort\<close>: a host with a colon, an IPv6 address, is bracketed.\<close>

definition JoinHostPort :: "string \<Rightarrow> string \<Rightarrow> string" where
  "JoinHostPort host port = (if CHR '':'' \<in> set host then ''['' @ host @ '']:'' @ port else host @ '':'' @ port)"

definition buildTURNICEServers :: "http_env \<Rightarrow> time \<Rightarrow> TURNConfig \<Rightarrow> string \<Rightarrow> ICEServer list" where
  "buildTURNICEServers env now config sessionID =
     (let host = PublicIP config;
          udpPort = decimal_int (UDPPort config);
          (username, password) = Credentials (he_hmac env) now (turn_Secret config) sessionID (CredentialTTLDuration config);
          urls = [''turn:'' @ JoinHostPort host udpPort @ ''?transport=udp'', ''turn:'' @ JoinHostPort host udpPort @ ''?transport=tcp''];
          urls = (if TLSPort config > 0 then urls @ [''turns:'' @ JoinHostPort host (decimal_int (TLSPort config)) @ ''?transport=tcp''] else urls)
      in [\<lparr>URLs = [''stun:'' @ JoinHostPort host udpPort], Username = [], Credential = []\<rparr>,
          \<lparr>URLs = urls, Username = username, Credential = password\<rparr>])"

definition buildICEServers :: "http_env \<Rightarrow> Handler \<Rightarrow> time \<Rightarrow> string \<Rightarrow> ICEServer list" where
  "buildICEServers env h now sessionID =
     (let servers = cloneICEServers (iceServers h);
          servers = (if stunURLs h \<noteq> [] then servers @ [\<lparr>URLs = stunURLs h, Username = [], Credential = []\<rparr>] else servers)
      in case turn h of None \<Rightarrow> servers | Some config \<Rightarrow> servers @ buildTURNICEServers env now config sessionID)"

section \<open>Admission and authorization\<close>

definition admissionIdentity :: "http_env \<Rightarrow> Handler \<Rightarrow> http_request \<Rightarrow> string" where
  "admissionIdentity env h rq =
     (case (if trustedClientIPHeader h \<noteq> [] then he_ip env (trim_space (rq_Header rq (trustedClientIPHeader h))) else None) of
        Some ip \<Rightarrow> ip
      | None \<Rightarrow> rq_RemoteAddr rq)"

definition admit :: "http_env \<Rightarrow> accessLimiter option \<Rightarrow> string \<Rightarrow> (bool \<times> duration) \<times> accessLimiter option" where
  "admit env limiter identity =
     (case limiter of
        None \<Rightarrow> ((True, 0), None)
      | Some l \<Rightarrow> (case accessLimiter_Allow (he_split env) l identity (he_t0 env) of (r, l') \<Rightarrow> (r, Some l')))"

text \<open>\<^verbatim>\<open>strings.TrimPrefix(header, "Bearer ")\<close>.\<close>

definition bearer :: "http_request \<Rightarrow> string" where
  "bearer rq =
     (let raw = rq_Header rq ''Authorization''
      in if take 7 raw = ''Bearer '' then drop 7 raw else raw)"

text \<open>The response that refuses the request, or none when the token has one of the roles; a source token must control the Session.\<close>

definition authorizeResponse :: "http_env \<Rightarrow> Service \<Rightarrow> http_request \<Rightarrow> string \<Rightarrow> string list \<Rightarrow> http_state \<Rightarrow> http_response option" where
  "authorizeResponse env s rq sessionID roles st =
     (if bearer rq = [] then Some (writeProblem 404 ''session_not_found'')
      else
        case fst (Authorize (mem_View (he_ctx1 env) (he_t1 env)) (he_tx env) (he_lib env) s sessionID (bearer rq) (hs_store st)) of
          Inl err \<Rightarrow>
            if err \<in> {ErrInvalidCapability, ErrNoRows, ErrNotExist} then Some (writeProblem 404 ''session_not_found'')
            else Some (writeProblem 503 ''session_authority_unavailable'')
        | Inr claims \<Rightarrow>
            if list_ex (\<lambda>role. c_Role claims = role \<and> (role \<noteq> RoleSource \<or> CanControl claims)) roles then None
            else Some (writeProblem 404 ''session_not_found''))"

definition interleaved :: "http_env \<Rightarrow> http_state \<Rightarrow> http_state" where
  "interleaved env st = st\<lparr>hs_store := he_between env (hs_store st)\<rparr>"

section \<open>Sessions\<close>

record createSessionRequest =
  cq_RequiredBuses :: "string list"

definition bind_createSessionRequest :: "createSessionRequest decoder" where
  "bind_createSessionRequest =
     bind_struct [(''required_buses'', bind_slice (\<lambda>v a. case v of JString t \<Rightarrow> Some t | JNull \<Rightarrow> Some a | _ \<Rightarrow> None) [] cq_RequiredBuses_update)]"

definition session_urls :: "Handler \<Rightarrow> string \<Rightarrow> string \<times> string" where
  "session_urls h sid =
     (if relayWHIPBaseURL h \<noteq> []
      then (relayWHIPBaseURL h @ ''/v1/sessions/'' @ sid @ ''/whip'', relayWHIPBaseURL h @ ''/v1/sessions/'' @ sid @ ''/whep'')
      else ([], []))"

definition createSession :: "http_env \<Rightarrow> Handler \<Rightarrow> Service \<Rightarrow> http_request \<Rightarrow> http_state \<Rightarrow> http_response \<times> http_state" where
  "createSession env h s rq st =
     (case admit env (createAdmission st) (admissionIdentity env h rq) of
        ((allowed, retryAfter), limiter) \<Rightarrow>
          let st1 = st\<lparr>createAdmission := limiter\<rparr>
          in if \<not> allowed then ((writeProblem 429 ''session_admission_exceeded'')\<lparr>hr_RetryAfter := Some (round_seconds retryAfter)\<rparr>, st1)
             else
               case optional_body maxPublicRequestBodyBytes bind_createSessionRequest \<lparr>cq_RequiredBuses = []\<rparr> (rq_ContentLength rq) (rq_Body rq) of
                 None \<Rightarrow> (writeProblem 400 ''invalid_session_request'', st1)
               | Some input \<Rightarrow>
                   (case CreateContext (mem_Update (he_ctx2 env) (he_t2 env)) (he_tx env) (he_lib env) s (cq_RequiredBuses input)
                           (he_draw1 env) (he_draw2 env) (hs_store st1) of
                      (Inl err, store) \<Rightarrow>
                        ((if err = ErrSessionCapacity then writeProblem 429 ''session_capacity_reached''
                          else if err \<noteq> ErrInvalidRelayState then writeProblem 503 ''session_authority_unavailable''
                          else writeProblem 400 ''invalid_session_request''), st1\<lparr>hs_store := store\<rparr>)
                    | (Inr created, store) \<Rightarrow>
                        let sid = sr_ID (ses_record created);
                            (whip, whep) = session_urls h sid
                        in (writeJSON 201 (CreatedBody
                              \<lparr>cr_SessionID = sid, cr_RequiredBuses = RequiredBuses (ses_record created), cr_SourceToken = sourceToken created,
                               cr_WHIPURL = whip, cr_WHEPURL = whep, cr_ICEServers = buildICEServers env h (he_t3 env) sid\<rparr>),
                            st1\<lparr>hs_store := store, hs_metrics := (hs_metrics st1)\<lparr>SessionsCreated := SessionsCreated (hs_metrics st1) + 1\<rparr>\<rparr>)))"

definition getSession :: "http_env \<Rightarrow> Handler \<Rightarrow> Service \<Rightarrow> http_request \<Rightarrow> http_state \<Rightarrow> http_response \<times> http_state" where
  "getSession env h s rq st =
     (case authorizeResponse env s rq (rq_ID rq) [RoleSource, RoleSubscriber] st of
        Some refused \<Rightarrow> (refused, st)
      | None \<Rightarrow>
          let st1 = interleaved env st
          in case GetContext (mem_Update (he_ctx2 env) (he_t2 env)) (he_tx env) s (rq_ID rq) (hs_store st1) of
               (Inl err, store) \<Rightarrow>
                 ((if err = ErrNoRows then writeProblem 404 ''session_not_found'' else writeProblem 503 ''session_authority_unavailable''),
                  st1\<lparr>hs_store := store\<rparr>)
             | (Inr value, store) \<Rightarrow>
                 let state = session_State (ses_record value)
                 in (writeJSON 200 (StateBody \<lparr>sv_State = state, sv_SourceActive = Ready state\<rparr>), st1\<lparr>hs_store := store\<rparr>))"

record subscribeSessionRequest =
  sq_BusID :: string

definition bind_subscribeSessionRequest :: "subscribeSessionRequest decoder" where
  "bind_subscribeSessionRequest = bind_struct [(''bus_id'', bind_string sq_BusID_update)]"

definition issue_problem :: "access_error \<Rightarrow> string \<Rightarrow> http_response" where
  "issue_problem err scope =
     (if err = ErrNotExist \<or> err = ErrNoRows then writeProblem 404 ''session_not_found''
      else if err \<noteq> ErrInvalidRelayState then writeProblem 503 ''session_authority_unavailable''
      else writeProblem 400 scope)"

definition publishSession :: "http_env \<Rightarrow> Handler \<Rightarrow> Service \<Rightarrow> http_request \<Rightarrow> http_state \<Rightarrow> http_response \<times> http_state" where
  "publishSession env h s rq st =
     (case authorizeResponse env s rq (rq_ID rq) [RoleSource] st of
        Some refused \<Rightarrow> (refused, st)
      | None \<Rightarrow>
          let st1 = interleaved env st
          in case decode_body maxPublicRequestBodyBytes bind_subscribeSessionRequest \<lparr>sq_BusID = []\<rparr> (rq_Body rq) of
               None \<Rightarrow> (writeProblem 400 ''invalid_publisher_request'', st1)
             | Some input \<Rightarrow>
                 (case IssuePublisherTokenContext (mem_Update (he_ctx2 env) (he_t2 env)) (he_tx env) (he_lib env) s (rq_ID rq) (sq_BusID input)
                         (he_draw1 env) (hs_store st1) of
                    (Inl err, store) \<Rightarrow> (issue_problem err ''invalid_publisher_scope'', st1\<lparr>hs_store := store\<rparr>)
                  | (Inr token, store) \<Rightarrow>
                      (writeJSON 200 (PublisherBody
                         \<lparr>pr_SessionID = rq_ID rq, pr_BusID = sq_BusID input, pr_PublisherToken = token, pr_SignalURL = relaySignalURL h,
                          pr_ICEServers = buildICEServers env h (he_t3 env) (rq_ID rq)\<rparr>), st1\<lparr>hs_store := store\<rparr>)))"

definition subscribeSession :: "http_env \<Rightarrow> Handler \<Rightarrow> Service \<Rightarrow> http_request \<Rightarrow> http_state \<Rightarrow> http_response \<times> http_state" where
  "subscribeSession env h s rq st =
     (case authorizeResponse env s rq (rq_ID rq) [RoleSource] st of
        Some refused \<Rightarrow> (refused, st)
      | None \<Rightarrow>
          let st1 = interleaved env st
          in case optional_body maxPublicRequestBodyBytes bind_subscribeSessionRequest \<lparr>sq_BusID = ''mix''\<rparr> (rq_ContentLength rq) (rq_Body rq) of
               None \<Rightarrow> (writeProblem 400 ''invalid_subscriber_request'', st1)
             | Some input \<Rightarrow>
                 (case IssueSubscriberTokenContext (mem_Update (he_ctx2 env) (he_t2 env)) (he_tx env) (he_lib env) s (rq_ID rq) (sq_BusID input)
                         (he_draw1 env) (hs_store st1) of
                    (Inl err, store) \<Rightarrow> (issue_problem err ''invalid_subscriber_scope'', st1\<lparr>hs_store := store\<rparr>)
                  | (Inr token, store) \<Rightarrow>
                      (writeJSON 200 (SubscriberBody
                         \<lparr>sr_SessionID = rq_ID rq, sr_BusID = sq_BusID input, sr_SubscriberToken = token\<rparr>),
                       st1\<lparr>hs_store := store,
                           hs_metrics := (hs_metrics st1)\<lparr>SubscriptionRequests := SubscriptionRequests (hs_metrics st1) + 1\<rparr>\<rparr>)))"

definition deleteSession :: "http_env \<Rightarrow> Handler \<Rightarrow> Service \<Rightarrow> http_request \<Rightarrow> http_state \<Rightarrow> http_response \<times> http_state" where
  "deleteSession env h s rq st =
     (case authorizeResponse env s rq (rq_ID rq) [RoleSource] st of
        Some refused \<Rightarrow> (refused, st)
      | None \<Rightarrow>
          let st1 = interleaved env st
          in case DeleteContext (mem_Update (he_ctx2 env) (he_t2 env)) (he_tx env) s (rq_ID rq) (hs_store st1) of
               ((deleted, err), store) \<Rightarrow>
                 let st2 = st1\<lparr>hs_store := store, hs_hub := (if err = None \<and> deleted then closeLocalEventBus (rq_ID rq) (hs_hub st1) else hs_hub st1)\<rparr>
                 in if err \<noteq> None then (writeProblem 503 ''session_revocation_failed'', st2)
                    else if \<not> deleted then (writeProblem 404 ''session_not_found'', st2)
                    else (writeJSON 204 NoBody,
                      st2\<lparr>hs_metrics := (hs_metrics st2)\<lparr>SessionsDeleted := SessionsDeleted (hs_metrics st2) + 1\<rparr>\<rparr>))"

definition renewOwner :: "http_env \<Rightarrow> Handler \<Rightarrow> Service \<Rightarrow> http_request \<Rightarrow> http_state \<Rightarrow> http_response \<times> http_state" where
  "renewOwner env h s rq st =
     (case RenewOwner (mem_Update (he_ctx2 env) (he_t2 env)) (he_tx env) (he_lib env) s (rq_ID rq) (bearer rq) (he_draw1 env) (hs_store st) of
        (Inl err, store) \<Rightarrow>
          ((if err = ErrInvalidCapability \<or> err = ErrNoRows then writeProblem 404 ''session_not_found''
            else writeProblem 503 ''session_authority_unavailable''), st\<lparr>hs_store := store\<rparr>)
      | (Inr (value, expires), store) \<Rightarrow> (writeJSON 200 (RenewedBody value expires), st\<lparr>hs_store := store\<rparr>))"

section \<open>Invitations\<close>

record createInvitationRequest =
  iq_WordCount :: "json option"
  iq_BusID :: string
  iq_Visibility :: string

definition bind_createInvitationRequest :: "createInvitationRequest decoder" where
  "bind_createInvitationRequest =
     bind_struct [(''word_count'', bind_raw iq_WordCount_update), (''bus_id'', bind_string iq_BusID_update),
       (''visibility'', bind_string iq_Visibility_update)]"

text \<open>The explicit word count, zero when absent; \<open>None\<close> is the refusal.\<close>

definition requested_count :: "json option \<Rightarrow> int option" where
  "requested_count raw =
     (case raw of
        None \<Rightarrow> Some 0
      | Some v \<Rightarrow>
          (case bind_int (\<lambda>f. f) v 0 of
             None \<Rightarrow> None
           | Some n \<Rightarrow> if n < int MinWordCount \<or> n > int MaxWordCount then None else Some n))"

definition invitation_problem :: "access_error \<Rightarrow> http_response" where
  "invitation_problem err =
     (if err = ErrNotExist then writeProblem 404 ''session_not_found''
      else if err = ErrSessionNotReady then writeProblem 409 ''session_not_ready''
      else if err = ErrInvitationCapacity then writeProblem 503 ''invitation_capacity_reached''
      else if err = ErrInvalidWordCount then writeProblem 400 ''invalid_word_count''
      else if err = ErrInvalidInvitationVisibility then writeProblem 400 ''invalid_invitation_visibility''
      else writeProblem 503 ''invitation_creation_failed'')"

text \<open>What \<^verbatim>\<open>net/url\<close> does: parsing, printing and the two escapes.\<close>

record url =
  Scheme :: string
  Host :: string
  Path :: string
  RawQuery :: string
  Fragment :: string

record url_library =
  url_Parse :: "string \<Rightarrow> url option"
  url_String :: "url \<Rightarrow> string"
  QueryEscape :: "string \<Rightarrow> string"
  PathEscape :: "string \<Rightarrow> string"

definition invitationURLs :: "url_library \<Rightarrow> Handler \<Rightarrow> Invitation \<Rightarrow> string \<times> string" where
  "invitationURLs ul h created =
     (if publicReceiverURL h = [] then ([], [])
      else
        case url_Parse ul (publicReceiverURL h) of
          None \<Rightarrow> ([], [])
        | Some parsed \<Rightarrow>
            if Scheme parsed = [] \<or> Host parsed = [] then ([], [])
            else
              let receiver = parsed\<lparr>RawQuery := [], Fragment := ''join='' @ QueryEscape ul (Code created)\<rparr>
              in (trim_space (url_String ul (receiver\<lparr>Path := ''/join''\<rparr>)),
                  trim_space (url_String ul (receiver\<lparr>Path := ''/'' @ PathEscape ul (inv_Alias created)\<rparr>))))"

definition createInvitation :: "http_env \<Rightarrow> url_library \<Rightarrow> Handler \<Rightarrow> Service \<Rightarrow> http_request \<Rightarrow> http_state \<Rightarrow> http_response \<times> http_state" where
  "createInvitation env ul h s rq st =
     (case authorizeResponse env s rq (rq_ID rq) [RoleSource] st of
        Some refused \<Rightarrow> (refused, st)
      | None \<Rightarrow>
          let st1 = interleaved env st
          in case optional_body maxPublicRequestBodyBytes bind_createInvitationRequest
                    \<lparr>iq_WordCount = None, iq_BusID = ''mix'', iq_Visibility = []\<rparr> (rq_ContentLength rq) (rq_Body rq) of
               None \<Rightarrow> (writeProblem 400 ''invalid_invitation_request'', st1)
             | Some input \<Rightarrow>
                 (case requested_count (iq_WordCount input) of
                    None \<Rightarrow> (writeProblem 400 ''invalid_word_count'', st1)
                  | Some wordCount \<Rightarrow>
                      (case CreateInvitationWithOptionsContext (mem_Update (he_ctx2 env) (he_t2 env)) (he_tx env) (env_lex (he_access env)) s (rq_ID rq)
                              (iq_BusID input) \<lparr>io_Visibility = iq_Visibility input, io_WordCount = wordCount\<rparr> (he_names env) (hs_store st1) of
                         (Inl err, store) \<Rightarrow> (invitation_problem err, st1\<lparr>hs_store := store\<rparr>)
                       | (Inr created, store) \<Rightarrow>
                           let (joinURL, shareURL) = invitationURLs ul h created
                           in (writeJSON 201 (InvitationBody
                                 \<lparr>ci_WordCount = inv_WordCount created, ci_JoinCode = Code created, ci_JoinURL = joinURL,
                                  ci_ShareAlias = inv_Alias created, ci_ShareURL = shareURL, ci_Visibility = inv_Visibility created,
                                  ci_ExpiresAt = inv_ExpiresAt created\<rparr>), st1\<lparr>hs_store := store\<rparr>))))"

definition inspectInvitation :: "http_env \<Rightarrow> Handler \<Rightarrow> Service \<Rightarrow> http_request \<Rightarrow> http_state \<Rightarrow> http_response \<times> http_state" where
  "inspectInvitation env h s rq st =
     (case InspectInvitationContext (mem_View (he_ctx2 env) (he_t2 env)) (he_tx env) (env_lex (he_access env))
             (unicode_fold (env_redeem (he_access env))) s (rq_Locator rq) (hs_store st) of
        (Inl err, store) \<Rightarrow>
          ((if err = ErrNotExist then writeProblem 404 ''invitation_not_found'' else writeProblem 503 ''session_authority_unavailable''),
           st\<lparr>hs_store := store\<rparr>)
      | (Inr metadata, store) \<Rightarrow>
          ((if rq_Method rq = ''HEAD'' then writeJSON 200 NoBody
            else writeJSON 200 (MetadataBody
              \<lparr>ii_WordCount = im_WordCount metadata, ii_ShareAlias = im_Alias metadata, ii_Visibility = im_Visibility metadata,
               ii_ExpiresAt = im_ExpiresAt metadata\<rparr>)), st\<lparr>hs_store := store\<rparr>))"

record redeemInvitationRequest =
  dq_JoinCode :: string
  dq_Secret :: string

definition bind_redeemInvitationRequest :: "redeemInvitationRequest decoder" where
  "bind_redeemInvitationRequest = bind_struct [(''join_code'', bind_string dq_JoinCode_update), (''secret'', bind_string dq_Secret_update)]"

text \<open>The deprecated field stands for the join code; two different credentials are refused.\<close>

definition join_credential :: "redeemInvitationRequest \<Rightarrow> string option" where
  "join_credential input =
     (if dq_Secret input \<noteq> []
      then (if dq_JoinCode input \<noteq> [] \<and> dq_JoinCode input \<noteq> dq_Secret input then None else Some (dq_Secret input))
      else Some (dq_JoinCode input))"

definition resolve_response :: "http_env \<Rightarrow> Handler \<Rightarrow> ResolvedInvitation \<Rightarrow> access_error + bytes" where
  "resolve_response env h resolved =
     he_resolved env
       \<lparr>ir_SessionID = ri_SessionID resolved, ir_BusID = ri_BusID resolved, ir_SubscriberToken = ri_SubscriberToken resolved,
        ir_SignalURL = relaySignalURL h, ir_WHEPURL = snd (session_urls h (ri_SessionID resolved)),
        ir_ICEServers = buildICEServers env h (he_t3 env) (ri_SessionID resolved)\<rparr>"

definition redeemInvitation :: "http_env \<Rightarrow> Handler \<Rightarrow> Service \<Rightarrow> http_request \<Rightarrow> http_state \<Rightarrow> http_response \<times> http_state" where
  "redeemInvitation env h s rq st =
     (case admit env (resolveAdmission st) (admissionIdentity env h rq) of
        ((allowed, retryAfter), limiter) \<Rightarrow>
          let st1 = st\<lparr>resolveAdmission := limiter\<rparr>
          in if \<not> allowed then ((writeProblem 429 ''invitation_admission_exceeded'')\<lparr>hr_RetryAfter := Some (round_seconds retryAfter)\<rparr>, st1)
             else
               case optional_body maxPublicRequestBodyBytes bind_redeemInvitationRequest \<lparr>dq_JoinCode = [], dq_Secret = []\<rparr>
                      (rq_ContentLength rq) (rq_Body rq) of
                 None \<Rightarrow> (writeProblem 400 ''invalid_invitation_request'', st1)
               | Some input \<Rightarrow>
                   (case join_credential input of
                      None \<Rightarrow> (writeProblem 400 ''conflicting_join_credential'', st1)
                    | Some code \<Rightarrow>
                        (case redeem (mem_Update (he_ctx2 env) (he_t2 env)) (he_tx env) (env_lex (he_access env)) (he_lib env)
                                (env_redeem (he_access env)) (resolve_response env h) s
                                (if rq_Locator rq = [] then code else rq_Locator rq) code (rq_Header rq ''Idempotency-Key'')
                                (he_draw1 env) (hs_store st1) of
                           (Inl err, store) \<Rightarrow>
                             ((if err = ErrNotExist then writeProblem 404 ''invitation_not_found''
                               else if err = ErrRetryConflict then writeProblem 409 ''invitation_retry_conflict''
                               else writeProblem 503 ''session_authority_unavailable''), st1\<lparr>hs_store := store\<rparr>)
                         | (Inr (response, _), store) \<Rightarrow> (writeJSON 200 (RawBody response), st1\<lparr>hs_store := store\<rparr>))))"

section \<open>Event streams\<close>

definition event_text :: "Event \<Rightarrow> string" where
  "event_text event =
     ''id: '' @ decimal (unat (ev_Revision event)) @ [CHR 0x0A] @ ''event: session.state'' @ [CHR 0x0A] @
     ''data: '' @ ev_Payload event @ [CHR 0x0A, CHR 0x0A]"

text \<open>One turn of the select loop: the client left, the bus delivered an event or was closed, or the keepalive ticked; and whether
  the write succeeded.\<close>

datatype sse_input = ClientGone | BusEvent Event bool | BusClosed | Keepalive bool

text \<open>The text written, and whether the handler returned.\<close>

fun sse_loop :: "sse_input list \<Rightarrow> string \<times> bool" where
  "sse_loop [] = ([], False)"
| "sse_loop (ClientGone # rest) = ([], True)"
| "sse_loop (BusClosed # rest) = ([], True)"
| "sse_loop (BusEvent event ok # rest) =
     (if ok then (case sse_loop rest of (out, fin) \<Rightarrow> (event_text event @ out, fin)) else ([], True))"
| "sse_loop (Keepalive ok # rest) =
     (if ok then (case sse_loop rest of (out, fin) \<Rightarrow> ('': keepalive'' @ [CHR 0x0A, CHR 0x0A] @ out, fin)) else ([], True))"

text \<open>What the handler does before it streams: the refusal, or the initial state with its subscription.  \<open>encode\<close> is \<^verbatim>\<open>json.Marshal\<close> on
  the response, \<open>flushes\<close> tells whether the writer can stream and \<open>written\<close> whether writing the first event succeeds.\<close>

datatype sse_start = Refused http_response | Streaming nat string nat string

definition writeStateEvent :: "(sessionResponse \<Rightarrow> string option) \<Rightarrow> State \<Rightarrow> string option" where
  "writeStateEvent encode state =
     map_option (\<lambda>payload. event_text \<lparr>ev_Revision = State_StateRevision state, ev_Payload = payload\<rparr>)
       (encode \<lparr>sv_State = state, sv_SourceActive = Ready state\<rparr>)"

definition sse_open ::
  "http_env \<Rightarrow> (sessionResponse \<Rightarrow> string option) \<Rightarrow> bool \<Rightarrow> bool \<Rightarrow> Service \<Rightarrow> http_request \<Rightarrow> http_state \<Rightarrow> sse_start \<times> http_state" where
  "sse_open env encode flushes written s rq st =
     (case authorizeResponse env s rq (rq_ID rq) [RoleSource, RoleSubscriber] st of
        Some refused \<Rightarrow> (Refused refused, st)
      | None \<Rightarrow>
          let st1 = interleaved env st; lastEventID = rq_Header rq ''Last-Event-ID''
          in if lastEventID \<noteq> [] \<and> ParseUint lastEventID = None then (Refused (writeProblem 400 ''invalid_last_event_id''), st1)
             else
               case GetContext (mem_Update (he_ctx2 env) (he_t2 env)) (he_tx env) s (rq_ID rq) (hs_store st1) of
                 (initial, store) \<Rightarrow>
                   (case SubscribeEventsContext s (rq_ID rq) initial (he_draw1 env) (hs_hub st1) of
                      (Inl err, hub) \<Rightarrow>
                        (Refused (if err = ErrSSECapacity then writeProblem 429 ''sse_capacity_reached''
                           else if err = ErrNoRows \<or> err = ErrNotExist then writeProblem 404 ''session_not_found''
                           else writeProblem 503 ''session_authority_unavailable''), st1\<lparr>hs_store := store, hs_hub := hub\<rparr>)
                    | (Inr (state, bus, subscription, channel), hub) \<Rightarrow>
                        let st2 = st1\<lparr>hs_store := store, hs_hub := hub\<rparr>; left = st2\<lparr>hs_hub := on_bus bus (Unsubscribe subscription) hub\<rparr>
                        in if \<not> flushes then (Refused (writeProblem 500 ''streaming_not_supported''), left)
                           else
                             case (if written then writeStateEvent encode state else None) of
                               None \<Rightarrow> (Refused (writeJSON 200 (StreamBody [])), left)
                             | Some text \<Rightarrow> (Streaming bus subscription channel text, st2)))"

text \<open>The stream a client reads, and the deferred unsubscription when the loop returns.\<close>

definition sseEvents ::
  "http_env \<Rightarrow> (sessionResponse \<Rightarrow> string option) \<Rightarrow> bool \<Rightarrow> bool \<Rightarrow> Service \<Rightarrow> http_request \<Rightarrow> sse_input list \<Rightarrow> http_state \<Rightarrow>
     http_response \<times> http_state" where
  "sseEvents env encode flushes written s rq inputs st =
     (case sse_open env encode flushes written s rq st of
        (Refused response, st') \<Rightarrow> (response, st')
      | (Streaming bus subscription channel text, st') \<Rightarrow>
          (case sse_loop inputs of
             (out, fin) \<Rightarrow>
               (writeJSON 200 (StreamBody (text @ out)),
                if fin then st'\<lparr>hs_hub := on_bus bus (Unsubscribe subscription) (hs_hub st')\<rparr> else st')))"

section \<open>The internal interface\<close>

definition getAuthorityState :: "http_env \<Rightarrow> Service \<Rightarrow> http_request \<Rightarrow> http_state \<Rightarrow> http_response \<times> http_state" where
  "getAuthorityState env s rq st =
     (case Metadata (mem_View (he_ctx2 env) (he_t2 env)) (he_tx env) s (rq_ID rq) (hs_store st) of
        (Inl err, store) \<Rightarrow>
          ((if err = ErrNoRows then writeProblem 404 ''session_not_found'' else writeProblem 503 ''session_authority_unavailable''),
           st\<lparr>hs_store := store\<rparr>)
      | (Inr value, store) \<Rightarrow>
          ((if rq_Method rq = ''HEAD'' then writeJSON 200 NoBody else writeJSON 200 (AuthorityBody value)), st\<lparr>hs_store := store\<rparr>))"

definition authenticate ::
  "string \<Rightarrow> (http_request \<Rightarrow> http_state \<Rightarrow> http_response \<times> http_state) \<Rightarrow> http_request \<Rightarrow> http_state \<Rightarrow> http_response \<times> http_state" where
  "authenticate secret next rq st =
     (let provided = rq_Header rq ''X-PocketStation-Internal-Secret''
      in if length secret < 32 \<or> length provided \<noteq> length secret \<or> provided \<noteq> secret
         then (writeProblem 401 ''internal_authentication_failed'', st)
         else next rq st)"

definition zero_bus :: BusState where
  "zero_bus = \<lparr>bs_BusID = [], bs_Role = [], SourceActive = False, SourceGeneration = 0\<rparr>"

definition zero_subscription :: SubscriptionState where
  "zero_subscription = \<lparr>SubscriberID = [], ss_BusID = []\<rparr>"

definition bind_RelayState :: "(string \<Rightarrow> time option) \<Rightarrow> RelayState decoder" where
  "bind_RelayState parse_time =
     bind_struct [
       (''contract_version'', bind_int ContractVersion_update), (''session_id'', bind_string rs_SessionID_update),
       (''relay_epoch'', bind_string RelayEpoch_update), (''revision'', bind_u64 Revision_update),
       (''writer_term'', bind_u64 rs_WriterTerm_update), (''observed_at'', bind_time parse_time ObservedAt_update),
       (''buses'', bind_slice (bind_struct [(''bus_id'', bind_string bs_BusID_update), (''role'', bind_string bs_Role_update),
          (''source_active'', bind_bool SourceActive_update), (''source_generation'', bind_u64 SourceGeneration_update)]) zero_bus Buses_update),
       (''subscriptions'', bind_slice (bind_struct [(''subscriber_id'', bind_string SubscriberID_update),
          (''bus_id'', bind_string ss_BusID_update)]) zero_subscription Subscriptions_update)]"

definition replaceRelayState :: "http_env \<Rightarrow> Service \<Rightarrow> http_request \<Rightarrow> http_state \<Rightarrow> http_response \<times> http_state" where
  "replaceRelayState env s rq st =
     (case decode_body maxRelayStateBodyBytes (bind_RelayState (he_parse_time env)) zero_relay (rq_Body rq) of
        None \<Rightarrow> (writeProblem 400 ''invalid_relay_state'', st)
      | Some snapshot \<Rightarrow>
          (case ApplyRelayStateContext (mem_Update (he_ctx2 env) (he_t2 env)) (he_tx env) s (rq_ID rq) snapshot (hs_store st) of
             (Inl err, store) \<Rightarrow>
               ((if err = ErrNotExist then writeProblem 404 ''session_not_found''
                 else if err = ErrWriterFenced then writeProblem 409 ''relay_writer_fenced''
                 else if err \<noteq> ErrInvalidRelayState then writeProblem 503 ''session_authority_unavailable''
                 else writeProblem 400 ''invalid_relay_state''), st\<lparr>hs_store := store\<rparr>)
           | (Inr (state, changed), store) \<Rightarrow> (writeJSON 200 (AppliedBody state changed), st\<lparr>hs_store := store\<rparr>)))"

record relayWriterRequest =
  wq_RelayEpoch :: string
  wq_ExpectedTerm :: u64

definition bind_relayWriterRequest :: "relayWriterRequest decoder" where
  "bind_relayWriterRequest = bind_struct [(''relay_epoch'', bind_string wq_RelayEpoch_update), (''expected_term'', bind_u64 wq_ExpectedTerm_update)]"

definition acquireRelayWriter :: "http_env \<Rightarrow> Service \<Rightarrow> http_request \<Rightarrow> http_state \<Rightarrow> http_response \<times> http_state" where
  "acquireRelayWriter env s rq st =
     (case decode_body 1024 bind_relayWriterRequest \<lparr>wq_RelayEpoch = [], wq_ExpectedTerm = 0\<rparr> (rq_Body rq) of
        None \<Rightarrow> (writeProblem 400 ''invalid_relay_writer'', st)
      | Some input \<Rightarrow>
          (case AcquireRelayWriter (mem_Update (he_ctx2 env) (he_t2 env)) (he_tx env) s (rq_ID rq) (wq_RelayEpoch input) (wq_ExpectedTerm input)
                  (hs_store st) of
             (Inl err, store) \<Rightarrow>
               ((if err = ErrNoRows then writeProblem 404 ''session_not_found''
                 else if err = ErrWriterFenced then writeProblem 409 ''relay_writer_fenced''
                 else writeProblem 503 ''session_authority_unavailable''), st\<lparr>hs_store := store\<rparr>)
           | (Inr term, store) \<Rightarrow> (writeJSON 200 (WriterBody term), st\<lparr>hs_store := store\<rparr>)))"

end
