(* ===== verification/Access_Routes.thy ===== *)
theory Access_Routes
  imports Access_Handlers
begin

text \<open>
  The routes the access service registers with \<^verbatim>\<open>http.ServeMux\<close>, and what they guarantee as a whole: a request for a Session
  reaches its data only with a capability of that Session, the internal routes only with the shared secret.
\<close>

section \<open>Patterns\<close>

datatype segment = Lit string | Wild string

text \<open>A wildcard matches one non-empty segment.\<close>

fun match_path :: "segment list \<Rightarrow> string list \<Rightarrow> (string \<times> string) list option" where
  "match_path [] [] = Some []"
| "match_path (Lit l # ps) (seg # path) = (if seg = l then match_path ps path else None)"
| "match_path (Wild n # ps) (seg # path) =
     (if seg = [] then None else map_option (\<lambda>b. (n, seg) # b) (match_path ps path))"
| "match_path _ _ = None"

text \<open>A pattern for GET also serves HEAD.\<close>

definition match_method :: "string \<Rightarrow> string \<Rightarrow> bool" where
  "match_method pattern m \<longleftrightarrow> m = pattern \<or> pattern = ''GET'' \<and> m = ''HEAD''"

datatype route =
    RouteCreate | RouteGet | RouteRenew | RoutePublish | RouteSubscribe | RouteInvite | RouteInspect | RouteRedeem | RouteDelete | RouteEvents
  | RouteRelayWriter | RouteRelayState | RouteAuthority

definition session_path :: "string \<Rightarrow> segment list" where
  "session_path tail = [Lit ''v1'', Lit ''sessions'', Wild ''id''] @ (if tail = [] then [] else [Lit tail])"

definition internal_path :: "string \<Rightarrow> segment list" where
  "internal_path tail = [Lit ''v1'', Lit ''internal'', Lit ''sessions'', Wild ''id'', Lit tail]"

definition Handler_Register :: "(string \<times> segment list \<times> route) list" where
  "Handler_Register =
     [(''POST'', [Lit ''v1'', Lit ''sessions''], RouteCreate),
      (''GET'', session_path [], RouteGet),
      (''POST'', session_path ''renew'', RouteRenew),
      (''POST'', session_path ''publish'', RoutePublish),
      (''POST'', session_path ''subscribe'', RouteSubscribe),
      (''POST'', session_path ''invitations'', RouteInvite),
      (''GET'', [Lit ''v1'', Lit ''invitations'', Wild ''locator''], RouteInspect),
      (''HEAD'', [Lit ''v1'', Lit ''invitations'', Wild ''locator''], RouteInspect),
      (''POST'', [Lit ''v1'', Lit ''invitations'', Wild ''locator'', Lit ''redeem''], RouteRedeem),
      (''POST'', [Lit ''v1'', Lit ''join''], RouteRedeem),
      (''POST'', [Lit ''v1'', Lit ''join'', Wild ''locator''], RouteRedeem),
      (''DELETE'', session_path [], RouteDelete),
      (''GET'', session_path ''events'', RouteEvents)]"

definition InternalHandler_Register :: "(string \<times> segment list \<times> route) list" where
  "InternalHandler_Register =
     [(''POST'', internal_path ''relay-writer'', RouteRelayWriter),
      (''PUT'', internal_path ''relay-state'', RouteRelayState),
      (''GET'', internal_path ''authority'', RouteAuthority),
      (''HEAD'', internal_path ''authority'', RouteAuthority)]"

fun find_route :: "(string \<times> segment list \<times> route) list \<Rightarrow> string \<Rightarrow> string list \<Rightarrow> (route \<times> (string \<times> string) list) option" where
  "find_route [] m path = None"
| "find_route ((pm, pattern, r) # rest) m path =
     (case (if match_method pm m then match_path pattern path else None) of
        Some b \<Rightarrow> Some (r, b)
      | None \<Rightarrow> find_route rest m path)"

definition path_value :: "(string \<times> string) list \<Rightarrow> string \<Rightarrow> string" where
  "path_value b name = (case map_of b name of Some v \<Rightarrow> v | None \<Rightarrow> [])"

text \<open>Further inputs of the handlers that need them.\<close>

record route_env =
  re_http :: http_env
  re_url :: url_library
  re_encode :: "sessionResponse \<Rightarrow> string option"
  re_flushes :: bool
  re_written :: bool
  re_inputs :: "sse_input list"
  re_secret :: string

definition handle :: "route_env \<Rightarrow> Handler \<Rightarrow> Service \<Rightarrow> route \<Rightarrow> http_request \<Rightarrow> http_state \<Rightarrow> http_response \<times> http_state" where
  "handle re h s r =
     (let env = re_http re in
      case r of
        RouteCreate \<Rightarrow> createSession env h s
      | RouteGet \<Rightarrow> getSession env h s
      | RouteRenew \<Rightarrow> renewOwner env h s
      | RoutePublish \<Rightarrow> publishSession env h s
      | RouteSubscribe \<Rightarrow> subscribeSession env h s
      | RouteInvite \<Rightarrow> createInvitation env (re_url re) h s
      | RouteInspect \<Rightarrow> inspectInvitation env h s
      | RouteRedeem \<Rightarrow> redeemInvitation env h s
      | RouteDelete \<Rightarrow> deleteSession env h s
      | RouteEvents \<Rightarrow> (\<lambda>rq. sseEvents env (re_encode re) (re_flushes re) (re_written re) s rq (re_inputs re))
      | RouteRelayWriter \<Rightarrow> authenticate (re_secret re) (acquireRelayWriter env s)
      | RouteRelayState \<Rightarrow> authenticate (re_secret re) (replaceRelayState env s)
      | RouteAuthority \<Rightarrow> authenticate (re_secret re) (getAuthorityState env s))"

definition serve_http ::
  "route_env \<Rightarrow> Handler \<Rightarrow> Service \<Rightarrow> string list \<Rightarrow> http_request \<Rightarrow> http_state \<Rightarrow> (http_response \<times> http_state) option" where
  "serve_http re h s path rq st =
     map_option (\<lambda>(r, b). handle re h s r (rq\<lparr>rq_ID := path_value b ''id'', rq_Locator := path_value b ''locator''\<rparr>) st)
       (find_route (Handler_Register @ InternalHandler_Register) (rq_Method rq) path)"

section \<open>Authorization\<close>

text \<open>A token authorizes at a time for a Session when the service is the current writer and the token verifies against the live record.\<close>

definition authorized :: "http_env \<Rightarrow> Service \<Rightarrow> time \<Rightarrow> string \<Rightarrow> string \<Rightarrow> records \<Rightarrow> Claims \<Rightarrow> bool" where
  "authorized env s t sid raw d c \<longleftrightarrow>
     is_writer s d \<and> (\<exists>r. live_session s t d sid r \<and> authorizeRecord (he_lib env) s r raw t = Inr c)"

definition session_route :: "route \<Rightarrow> bool" where
  "session_route r \<longleftrightarrow> r \<in> {RouteGet, RouteRenew, RoutePublish, RouteSubscribe, RouteInvite, RouteDelete, RouteEvents}"

definition reading_route :: "route \<Rightarrow> bool" where
  "reading_route r \<longleftrightarrow> r \<in> {RouteGet, RouteEvents}"

definition internal_route :: "route \<Rightarrow> bool" where
  "internal_route r \<longleftrightarrow> r \<in> {RouteRelayWriter, RouteRelayState, RouteAuthority}"

definition refusals :: "http_response set" where
  "refusals = {writeProblem 404 ''session_not_found'', writeProblem 503 ''session_authority_unavailable''}"

lemma Authorize_committed:
  assumes wf: "mem_wf st" and run: "Authorize (mem_View ctx t) (he_tx env) (he_lib env) s sid raw st = (Inr c, st')"
  shows "authorized env s t sid raw (ms_data st) c"
proof -
  from view_Inr [OF wf memory.ref_authorize run [unfolded Authorize_def]] obtain d where
    "authorize_tx (abstract_tx (env_marshal (he_access env)) readTransaction t) (he_lib env) s sid raw (ms_data st) = (Inr c, d)" by blast
  then show ?thesis by (auto simp: authorized_def authorize_tx_def runs checkWriter_run active_run split: if_splits)
qed

lemma authorizeResponse_None:
  assumes wf: "mem_wf (hs_store st)" and ok: "authorizeResponse env s rq sid roles st = None"
  shows "\<exists>c. authorized env s (he_t1 env) sid (bearer rq) (ms_data (hs_store st)) c \<and> (RoleSubscriber \<notin> set roles \<and> set roles \<subseteq> {RoleSource} \<longrightarrow> CanControl c)"
proof -
  obtain c where c: "fst (Authorize (mem_View (he_ctx1 env) (he_t1 env)) (he_tx env) (he_lib env) s sid (bearer rq) (hs_store st)) = Inr c"
    "list_ex (\<lambda>role. c_Role c = role \<and> (role \<noteq> RoleSource \<or> CanControl c)) roles"
    using ok by (auto simp: authorizeResponse_def split: if_splits sum.splits)
  then have "authorized env s (he_t1 env) sid (bearer rq) (ms_data (hs_store st)) c"
    using Authorize_committed [OF wf] by (metis prod.collapse)
  then show ?thesis using c(2) by (intro exI [of _ c]) (auto simp: list_ex_iff)
qed

lemma authorizeResponse_Some: "authorizeResponse env s rq sid roles st = Some refused \<Longrightarrow> refused \<in> refusals"
  by (auto simp: authorizeResponse_def refusals_def split: if_splits sum.splits)

lemma renewOwner_guard:
  assumes wf: "mem_wf (hs_store st)" and run: "renewOwner env h s rq st = (response, st')"
  shows "(\<exists>c. authorized env s (he_t2 env) (rq_ID rq) (bearer rq) (renewed s (he_t2 env) (ms_data (hs_store st))) c \<and> CanControl c) \<or>
    st' = st \<and> response \<in> refusals"
proof -
  let ?fn = "svc_update (he_tx env) s (renew_tx (he_tx env) (he_lib env) s (rq_ID rq) (bearer rq) (he_draw1 env))"
  obtain r store where up: "mem_Update (he_ctx2 env) (he_t2 env) ?fn (hs_store st) = (r, store)" by fastforce
  show ?thesis
    using wf up memory.ref_svc_update [OF memory.ref_renew]
  proof (cases rule: update_cases)
    case (rolled e a)
    then have "RenewOwner (mem_Update (he_ctx2 env) (he_t2 env)) (he_tx env) (he_lib env) s (rq_ID rq) (bearer rq) (he_draw1 env) (hs_store st) = (Inl e, hs_store st)"
      using up by (simp add: RenewOwner_def returned_def)
    then show ?thesis using run by (auto simp: renewOwner_def refusals_def)
  next
    case (committed x)
    then have w: "is_writer s (ms_data (hs_store st))"
      and "renew_tx (abstract_tx (env_marshal (he_access env)) writeTransaction (he_t2 env)) (he_lib env) s (rq_ID rq) (bearer rq) (he_draw1 env)
         (renewed s (he_t2 env) (ms_data (hs_store st))) = (Inr x, ms_data store)"
      by (simp_all add: svc_update_run)
    then obtain ses c where "live_session s (he_t2 env) (renewed s (he_t2 env) (ms_data (hs_store st))) (rq_ID rq) ses"
      "Inr c = authorizeRecord (he_lib env) s ses (bearer rq) (he_t2 env)" "CanControl c"
      by (auto simp: renew_tx_def runs active_run split: if_splits)
    then have "authorized env s (he_t2 env) (rq_ID rq) (bearer rq) (renewed s (he_t2 env) (ms_data (hs_store st))) c"
      using w unfolding authorized_def by (metis is_writer_renewed)
    then show ?thesis using \<open>CanControl c\<close> by blast
  qed
qed

lemma authorized_renewed:
  "\<lbrakk>records_ok d; authorized env s t sid raw (renewed s t d) c\<rbrakk> \<Longrightarrow> authorized env s t sid raw d c"
  by (auto simp: authorized_def live_session_def renewed_records(2))

text \<open>Each guarded handler either went past \<^verbatim>\<open>authorizeResponse\<close> or returned its refusal with the state untouched.\<close>

lemma guarded_handlers:
  "authorizeResponse env s rq (rq_ID rq) [RoleSource, RoleSubscriber] st = Some e \<Longrightarrow> getSession env h s rq st = (e, st)"
  "authorizeResponse env s rq (rq_ID rq) [RoleSource, RoleSubscriber] st = Some e \<Longrightarrow> sseEvents env encode flushes written s rq inputs st = (e, st)"
  "authorizeResponse env s rq (rq_ID rq) [RoleSource] st = Some e \<Longrightarrow> publishSession env h s rq st = (e, st)"
  "authorizeResponse env s rq (rq_ID rq) [RoleSource] st = Some e \<Longrightarrow> subscribeSession env h s rq st = (e, st)"
  "authorizeResponse env s rq (rq_ID rq) [RoleSource] st = Some e \<Longrightarrow> deleteSession env h s rq st = (e, st)"
  "authorizeResponse env s rq (rq_ID rq) [RoleSource] st = Some e \<Longrightarrow> createInvitation env ul h s rq st = (e, st)"
  by (simp_all add: getSession_def sseEvents_def sse_open_def publishSession_def subscribeSession_def deleteSession_def createInvitation_def)

lemma guard_roles:
  assumes wf: "mem_wf (hs_store st)" and run: "handle re h s r rq st = (response, st')" and r: "session_route r" "r \<noteq> RouteRenew"
  shows "(\<exists>c. authorized (re_http re) s (he_t1 (re_http re)) (rq_ID rq) (bearer rq) (ms_data (hs_store st)) c \<and> (\<not> reading_route r \<longrightarrow> CanControl c)) \<or>
    st' = st \<and> response \<in> refusals"
proof (cases "authorizeResponse (re_http re) s rq (rq_ID rq) (if reading_route r then [RoleSource, RoleSubscriber] else [RoleSource]) st")
  case None
  from authorizeResponse_None [OF wf None] show ?thesis by (auto split: if_splits)
next
  case (Some e)
  then have "handle re h s r rq st = (e, st)"
    using r by (auto simp: session_route_def reading_route_def handle_def guarded_handlers)
  then show ?thesis using run authorizeResponse_Some [OF Some] by simp
qed

text \<open>C2. Nothing about a Session is reached without its capability.  Whatever the method, path, headers and body of a request to the
  access service: on a route of a Session either the bearer token authorizes for exactly that Session, with control
  of it unless the route only reads, or the response is one of two that do not depend on the Session and nothing
  changes; on an internal route, without the configured secret of at least 32 bytes the response is 401 and nothing
  changes.\<close>

theorem http_access_guard:
  assumes ok: "records_ok (ms_data (hs_store st))"
    and route: "find_route (Handler_Register @ InternalHandler_Register) (rq_Method rq) path = Some (r, b)"
    and run: "serve_http re h s path rq st = Some (response, st')"
  shows "(session_route r \<longrightarrow>
      (\<exists>c. \<exists>t \<in> {he_t1 (re_http re), he_t2 (re_http re)}.
         authorized (re_http re) s t (path_value b ''id'') (bearer rq) (ms_data (hs_store st)) c \<and> (\<not> reading_route r \<longrightarrow> CanControl c)) \<or>
      st' = st \<and> response \<in> refusals) \<and>
    (internal_route r \<longrightarrow>
      rq_Header rq ''X-PocketStation-Internal-Secret'' = re_secret re \<and> length (re_secret re) \<ge> 32 \<or>
      st' = st \<and> response = writeProblem 401 ''internal_authentication_failed'')"
proof -
  let ?rq = "rq\<lparr>rq_ID := path_value b ''id'', rq_Locator := path_value b ''locator''\<rparr>"
  have wf: "mem_wf (hs_store st)" using ok by (rule mem_wf_records_ok)
  have run': "handle re h s r ?rq st = (response, st')" using run route by (simp add: serve_http_def)
  have bearer [simp]: "bearer ?rq = bearer rq" by (simp add: bearer_def)
  have "(\<exists>c. \<exists>t \<in> {he_t1 (re_http re), he_t2 (re_http re)}.
      authorized (re_http re) s t (path_value b ''id'') (bearer rq) (ms_data (hs_store st)) c \<and> (\<not> reading_route r \<longrightarrow> CanControl c)) \<or>
    st' = st \<and> response \<in> refusals" if "session_route r"
  proof (cases "r = RouteRenew")
    case True
    then have "renewOwner (re_http re) h s ?rq st = (response, st')" using run' by (simp add: handle_def)
    from renewOwner_guard [OF wf this] show ?thesis using authorized_renewed [OF ok] by fastforce
  next
    case False
    then show ?thesis using guard_roles [OF wf run' that] by auto
  qed
  moreover have "rq_Header rq ''X-PocketStation-Internal-Secret'' = re_secret re \<and> length (re_secret re) \<ge> 32 \<or>
      st' = st \<and> response = writeProblem 401 ''internal_authentication_failed''" if "internal_route r"
    using that run' by (auto simp: internal_route_def handle_def authenticate_def Let_def split: if_splits)
  ultimately show ?thesis by blast
qed

definition anonymous_delete :: http_request where
  "anonymous_delete =
     \<lparr>rq_Method = ''DELETE'', rq_ID = [], rq_Locator = [], rq_Header = (\<lambda>_. []), rq_ContentLength = 0,
      rq_Body = \<lparr>body_size = 0, body_values = [], body_ends = True\<rparr>, rq_RemoteAddr = ''10.0.0.1:80''\<rparr>"

lemma anonymous_delete_route:
  "find_route (Handler_Register @ InternalHandler_Register) (rq_Method anonymous_delete) [''v1'', ''sessions'', example_id] =
     Some (RouteDelete, [(''id'', example_id)])"
  by (simp add: anonymous_delete_def Handler_Register_def session_path_def match_method_def example_id_def)

theorem http_access_guard_witness:
  "\<forall>re h. serve_http re h (example_service ''a'' 4) [''v1'', ''sessions'', example_id] anonymous_delete (new_http_state empty_config created_store) =
       Some (writeProblem 404 ''session_not_found'', new_http_state empty_config created_store) \<and>
     ((\<exists>c. \<exists>t \<in> {he_t1 (re_http re), he_t2 (re_http re)}.
         authorized (re_http re) (example_service ''a'' 4) t example_id (bearer anonymous_delete) (ms_data created_store) c \<and> CanControl c) \<or>
      writeProblem 404 ''session_not_found'' \<in> refusals)"
proof (intro allI)
  fix re h
  let ?st = "new_http_state empty_config created_store"
  have run: "serve_http re h (example_service ''a'' 4) [''v1'', ''sessions'', example_id] anonymous_delete ?st =
      Some (writeProblem 404 ''session_not_found'', ?st)"
    using anonymous_delete_route
    by (simp add: serve_http_def handle_def deleteSession_def authorizeResponse_def bearer_def) (simp add: anonymous_delete_def)
  have "records_ok (ms_data (hs_store ?st))" by (simp add: new_http_state_def created_ok)
  from http_access_guard [OF this anonymous_delete_route run] run
  show "serve_http re h (example_service ''a'' 4) [''v1'', ''sessions'', example_id] anonymous_delete ?st =
       Some (writeProblem 404 ''session_not_found'', ?st) \<and>
     ((\<exists>c. \<exists>t \<in> {he_t1 (re_http re), he_t2 (re_http re)}.
         authorized (re_http re) (example_service ''a'' 4) t example_id (bearer anonymous_delete) (ms_data created_store) c \<and> CanControl c) \<or>
      writeProblem 404 ''session_not_found'' \<in> refusals)"
    by (simp add: session_route_def reading_route_def path_value_def new_http_state_def)
qed

end
