(* ===== verification/Access_Isolation.thy ===== *)
theory Access_Isolation
  imports Access_Routes
begin

text \<open>
  Isolation of Sessions at the HTTP interface: a handler leaves the store as it found it or serves one request of the access
  service about the Session its path names, and such a request never touches the record of another live Session.
\<close>

section \<open>Requests about one Session\<close>

definition concerns :: "string \<Rightarrow> access_request \<Rightarrow> bool" where
  "concerns sid req \<longleftrightarrow>
     (case req of
        GetRequest x \<Rightarrow> x = sid | DeleteRequest x \<Rightarrow> x = sid | PublisherRequest x _ _ \<Rightarrow> x = sid | SubscriberRequest x _ _ \<Rightarrow> x = sid
      | RenewRequest x _ _ \<Rightarrow> x = sid | RelayStateRequest x _ \<Rightarrow> x = sid | RelayWriterRequest x _ _ \<Rightarrow> x = sid
      | InviteRequest x _ _ _ \<Rightarrow> x = sid | RedeemRequest _ _ _ _ \<Rightarrow> True | InspectRequest _ \<Rightarrow> True | MetadataRequest _ \<Rightarrow> True
      | _ \<Rightarrow> False)"

text \<open>Every live Session but one keeps its record.\<close>

definition others_kept :: "string \<Rightarrow> time \<Rightarrow> records \<Rightarrow> records \<Rightarrow> bool" where
  "others_kept sid now d d' \<longleftrightarrow>
     (\<forall>k r. k \<noteq> sid \<longrightarrow> map_of (sessions d) k = Some r \<longrightarrow> now < sr_ExpiresAt r \<longrightarrow> map_of (sessions d') k = Some r)"

lemma others_kept_same: "sessions d' = sessions d \<Longrightarrow> others_kept sid now d d'"
  by (simp add: others_kept_def)

lemma others_kept_step:
  assumes ok: "records_ok d" and step: "session_step s t sid d d'"
  shows "others_kept sid now d d'"
proof -
  from step obtain r where r: "live_session s t d sid r" "d' = d \<or> (\<exists>r'. sr_ID r' = sr_ID r \<and> d' = put_session r' d)"
    by (auto simp: session_step_def)
  have "sr_ID r = sid" using r(1) ok by (auto simp: live_session_def records_ok_def sessions_ok_def)
  then show ?thesis using r(2) by (auto simp: others_kept_def put_session_def)
qed

lemma others_kept_drop: "records_ok d \<Longrightarrow> others_kept sid now d (drop_sessions (\<lambda>k. k = sid) d)"
  using records_okD [of d]
  by (auto simp: others_kept_def drop_sessions_def del_grants_def Let_def map_of_filter_Some)

lemma request_keeps_others:
  assumes ok: "records_ok d" and sid: "concerns sid req" and eff: "request_effect env s now req d d'"
  shows "others_kept sid t d d'"
proof (cases req)
  case (DeleteRequest x)
  then show ?thesis using eff sid others_kept_drop [OF ok]
    by (auto simp: request_effect_def delete_effect concerns_def others_kept_same split: if_splits)
next
  case (InviteRequest x bus options draws)
  then show ?thesis using eff
    by (auto simp: request_effect_def grant_step_def put_grant_def intro!: others_kept_same dest!: invite_effect)
next
  case (RedeemRequest locator code key draw)
  then show ?thesis using eff
    by (auto simp: request_effect_def consume_step_def del_grants_def put_receipt_def intro!: others_kept_same dest!: redeem_effect split: if_splits)
next
  case (GetRequest x)
  then show ?thesis using eff sid by (auto simp: request_effect_def concerns_def intro: others_kept_step [OF ok] dest: get_effect)
next
  case (PublisherRequest x b draw)
  then show ?thesis using eff sid by (auto simp: request_effect_def concerns_def intro: others_kept_step [OF ok] dest: issue_effect)
next
  case (SubscriberRequest x b draw)
  then show ?thesis using eff sid by (auto simp: request_effect_def concerns_def intro: others_kept_step [OF ok] dest: issue_effect)
next
  case (RenewRequest x c draw)
  then show ?thesis using eff sid by (auto simp: request_effect_def concerns_def intro: others_kept_step [OF ok] dest: renew_effect)
next
  case (RelayStateRequest x snapshot)
  then show ?thesis using eff sid by (auto simp: request_effect_def concerns_def intro: others_kept_step [OF ok] dest: apply_effect)
next
  case (RelayWriterRequest x epoch expected)
  then show ?thesis using eff sid by (auto simp: request_effect_def concerns_def intro: others_kept_step [OF ok] dest: acquire_effect)
qed (use eff sid in \<open>simp_all add: request_effect_def concerns_def Let_def\<close>)

lemma serve_keeps_others:
  assumes ok: "records_ok (ms_data st)" and sid: "concerns sid req"
  shows "others_kept sid now (ms_data st) (ms_data (snd (serve env s ctx now req st)))"
proof -
  obtain err st' where run: "serve env s ctx now req st = (err, st')" by fastforce
  have ord: "\<not> administrative req" using sid by (auto simp: concerns_def administrative_def split: access_request.splits)
  from serve_cases [OF mem_wf_records_ok [OF ok] run ord] show ?thesis
  proof
    assume "st' = st"
    then show ?thesis using run by (simp add: others_kept_def)
  next
    assume c: "err = None \<and> is_writer s (ms_data st) \<and> request_effect env s now req (renewed s now (ms_data st)) (ms_data st')"
    then have "others_kept sid now (renewed s now (ms_data st)) (ms_data st')"
      using request_keeps_others [OF renewed_records(1) [OF ok] sid] by blast
    then show ?thesis using run renewed_records(2) [OF ok] by (auto simp: others_kept_def)
  qed
qed

section \<open>Handlers\<close>

text \<open>The store a handler leaves: the one it found, before or after the interleaved requests, or that store after one request.\<close>

definition handler_store :: "http_env \<Rightarrow> Service \<Rightarrow> string \<Rightarrow> mem_store \<Rightarrow> mem_store \<Rightarrow> bool" where
  "handler_store env s sid st st' \<longleftrightarrow>
     (\<exists>found \<in> {st, he_between env st}. st' = found \<or>
        (\<exists>aenv req. concerns sid req \<and> st' = snd (serve aenv s (he_ctx2 env) (he_t2 env) req found)))"

lemma handler_store_found:
  "handler_store env s sid st st" "handler_store env s sid st (he_between env st)"
  by (auto simp: handler_store_def)

lemma handler_store_served:
  "\<lbrakk>concerns sid req; found \<in> {st, he_between env st}; st' = snd (serve aenv s (he_ctx2 env) (he_t2 env) req found)\<rbrakk> \<Longrightarrow>
     handler_store env s sid st st'"
  unfolding handler_store_def by blast

lemma snd_status: "snd (status x) = snd x"
  by (simp add: status_def split: prod.splits sum.splits)

lemma get_store:
  "handler_store env s (rq_ID rq) (hs_store st) (hs_store (snd (getSession env h s rq st)))"
proof (cases "authorizeResponse env s rq (rq_ID rq) [RoleSource, RoleSubscriber] st")
  case None
  have "hs_store (snd (getSession env h s rq st)) =
      snd (serve (he_access env) s (he_ctx2 env) (he_t2 env) (GetRequest (rq_ID rq)) (he_between env (hs_store st)))"
    using None by (simp add: getSession_def serve_def snd_status interleaved_def Let_def split: prod.split sum.split)
  then show ?thesis by (intro handler_store_served [where req = "GetRequest (rq_ID rq)"]) (auto simp: concerns_def)
qed (simp add: guarded_handlers handler_store_found)

lemma delete_store:
  "handler_store env s (rq_ID rq) (hs_store st) (hs_store (snd (deleteSession env h s rq st)))"
proof (cases "authorizeResponse env s rq (rq_ID rq) [RoleSource] st")
  case None
  have "hs_store (snd (deleteSession env h s rq st)) =
      snd (serve (he_access env) s (he_ctx2 env) (he_t2 env) (DeleteRequest (rq_ID rq)) (he_between env (hs_store st)))"
    using None by (simp add: deleteSession_def serve_def interleaved_def Let_def split: prod.split)
  then show ?thesis by (intro handler_store_served [where req = "DeleteRequest (rq_ID rq)"]) (auto simp: concerns_def)
qed (simp add: guarded_handlers handler_store_found)

lemma publish_store:
  "handler_store env s (rq_ID rq) (hs_store st) (hs_store (snd (publishSession env h s rq st)))"
proof (cases "authorizeResponse env s rq (rq_ID rq) [RoleSource] st")
  case None
  show ?thesis
  proof (cases "decode_body maxPublicRequestBodyBytes bind_subscribeSessionRequest \<lparr>sq_BusID = []\<rparr> (rq_Body rq)")
    case (Some input)
    have "hs_store (snd (publishSession env h s rq st)) = snd (serve (he_access env) s (he_ctx2 env) (he_t2 env)
        (PublisherRequest (rq_ID rq) (sq_BusID input) (he_draw1 env)) (he_between env (hs_store st)))"
      using None Some by (simp add: publishSession_def serve_def snd_status interleaved_def Let_def split: prod.split sum.split)
    then show ?thesis by (intro handler_store_served [where req = "PublisherRequest (rq_ID rq) (sq_BusID input) (he_draw1 env)"]) (auto simp: concerns_def)
  qed (use None in \<open>simp add: publishSession_def interleaved_def handler_store_found\<close>)
qed (simp add: guarded_handlers handler_store_found)

lemma subscribe_store:
  "handler_store env s (rq_ID rq) (hs_store st) (hs_store (snd (subscribeSession env h s rq st)))"
proof (cases "authorizeResponse env s rq (rq_ID rq) [RoleSource] st")
  case None
  show ?thesis
  proof (cases "optional_body maxPublicRequestBodyBytes bind_subscribeSessionRequest \<lparr>sq_BusID = ''mix''\<rparr> (rq_ContentLength rq) (rq_Body rq)")
    case (Some input)
    have "hs_store (snd (subscribeSession env h s rq st)) = snd (serve (he_access env) s (he_ctx2 env) (he_t2 env)
        (SubscriberRequest (rq_ID rq) (sq_BusID input) (he_draw1 env)) (he_between env (hs_store st)))"
      using None Some by (simp add: subscribeSession_def serve_def snd_status interleaved_def Let_def split: prod.split sum.split)
    then show ?thesis by (intro handler_store_served [where req = "SubscriberRequest (rq_ID rq) (sq_BusID input) (he_draw1 env)"]) (auto simp: concerns_def)
  qed (use None in \<open>simp add: subscribeSession_def interleaved_def handler_store_found\<close>)
qed (simp add: guarded_handlers handler_store_found)

lemma invite_store:
  "handler_store env s (rq_ID rq) (hs_store st) (hs_store (snd (createInvitation env ul h s rq st)))"
proof (cases "authorizeResponse env s rq (rq_ID rq) [RoleSource] st")
  case None
  show ?thesis
  proof (cases "optional_body maxPublicRequestBodyBytes bind_createInvitationRequest
      \<lparr>iq_WordCount = None, iq_BusID = ''mix'', iq_Visibility = []\<rparr> (rq_ContentLength rq) (rq_Body rq)")
    case (Some input)
    show ?thesis
    proof (cases "requested_count (iq_WordCount input)")
      case (Some n)
      let ?req = "InviteRequest (rq_ID rq) (iq_BusID input) \<lparr>io_Visibility = iq_Visibility input, io_WordCount = n\<rparr> (he_names env)"
      have "hs_store (snd (createInvitation env ul h s rq st)) = snd (serve (he_access env) s (he_ctx2 env) (he_t2 env) ?req (he_between env (hs_store st)))"
        using None \<open>optional_body _ _ _ _ _ = Some input\<close> Some
        by (simp add: createInvitation_def serve_def snd_status interleaved_def Let_def split: prod.split sum.split)
      then show ?thesis by (intro handler_store_served [where req = ?req]) (auto simp: concerns_def)
    qed (use None Some in \<open>simp add: createInvitation_def interleaved_def handler_store_found\<close>)
  qed (use None in \<open>simp add: createInvitation_def interleaved_def handler_store_found\<close>)
qed (simp add: guarded_handlers handler_store_found)

lemma sse_store:
  "handler_store env s (rq_ID rq) (hs_store st) (hs_store (snd (sseEvents env encode flushes written s rq inputs st)))"
proof (cases "authorizeResponse env s rq (rq_ID rq) [RoleSource, RoleSubscriber] st")
  case None
  show ?thesis
  proof (cases "rq_Header rq ''Last-Event-ID'' \<noteq> [] \<and> ParseUint (rq_Header rq ''Last-Event-ID'') = None")
    case True
    then show ?thesis using None by (simp add: sseEvents_def sse_open_def interleaved_def handler_store_found)
  next
    case False
    have "hs_store (snd (sse_open env encode flushes written s rq st)) =
        snd (serve (he_access env) s (he_ctx2 env) (he_t2 env) (GetRequest (rq_ID rq)) (he_between env (hs_store st)))"
      using None False
      by (auto simp: sse_open_def serve_def snd_status interleaved_def Let_def split: prod.split sum.split option.split)
    moreover have "hs_store (snd (sseEvents env encode flushes written s rq inputs st)) = hs_store (snd (sse_open env encode flushes written s rq st))"
      by (auto simp: sseEvents_def split: prod.split sse_start.split)
    ultimately show ?thesis by (intro handler_store_served [where req = "GetRequest (rq_ID rq)"]) (auto simp: concerns_def)
  qed
qed (simp add: guarded_handlers handler_store_found)

lemma renew_store:
  "handler_store env s (rq_ID rq) (hs_store st) (hs_store (snd (renewOwner env h s rq st)))"
proof -
  have "hs_store (snd (renewOwner env h s rq st)) =
      snd (serve (he_access env) s (he_ctx2 env) (he_t2 env) (RenewRequest (rq_ID rq) (bearer rq) (he_draw1 env)) (hs_store st))"
    by (simp add: renewOwner_def serve_def snd_status split: prod.split sum.split)
  then show ?thesis by (intro handler_store_served [where req = "RenewRequest (rq_ID rq) (bearer rq) (he_draw1 env)"]) (auto simp: concerns_def)
qed

lemma inspect_store:
  "handler_store env s sid (hs_store st) (hs_store (snd (inspectInvitation env h s rq st)))"
proof -
  have "hs_store (snd (inspectInvitation env h s rq st)) =
      snd (serve (he_access env) s (he_ctx2 env) (he_t2 env) (InspectRequest (rq_Locator rq)) (hs_store st))"
    by (simp add: inspectInvitation_def serve_def snd_status split: prod.split sum.split)
  then show ?thesis by (intro handler_store_served [where req = "InspectRequest (rq_Locator rq)"]) (auto simp: concerns_def)
qed

lemma redeem_store:
  "handler_store env s sid (hs_store st) (hs_store (snd (redeemInvitation env h s rq st)))"
proof -
  obtain allowed retryAfter limiter where adm: "admit env (resolveAdmission st) (admissionIdentity env h rq) = ((allowed, retryAfter), limiter)"
    by (metis surj_pair)
  show ?thesis
  proof (cases "allowed \<and> (\<exists>input code. optional_body maxPublicRequestBodyBytes bind_redeemInvitationRequest \<lparr>dq_JoinCode = [], dq_Secret = []\<rparr>
      (rq_ContentLength rq) (rq_Body rq) = Some input \<and> join_credential input = Some code)")
    case True
    then obtain input code where i: "allowed" "join_credential input = Some code"
      "optional_body maxPublicRequestBodyBytes bind_redeemInvitationRequest \<lparr>dq_JoinCode = [], dq_Secret = []\<rparr> (rq_ContentLength rq) (rq_Body rq) = Some input"
      by blast
    let ?req = "RedeemRequest (if rq_Locator rq = [] then code else rq_Locator rq) code (rq_Header rq ''Idempotency-Key'') (he_draw1 env)"
    have "hs_store (snd (redeemInvitation env h s rq st)) =
        snd (serve ((he_access env)\<lparr>env_encode := resolve_response env h\<rparr>) s (he_ctx2 env) (he_t2 env) ?req (hs_store st))"
      using i adm by (simp add: redeemInvitation_def serve_def snd_status Let_def split: prod.split sum.split)
    then show ?thesis by (intro handler_store_served [where req = ?req]) (auto simp: concerns_def)
  next
    case False
    then have "hs_store (snd (redeemInvitation env h s rq st)) = hs_store st"
      using adm by (auto simp: redeemInvitation_def Let_def split: option.split)
    then show ?thesis by (simp add: handler_store_found)
  qed
qed

lemma authority_store: "handler_store env s sid (hs_store st) (hs_store (snd (getAuthorityState env s rq st)))"
proof -
  have "hs_store (snd (getAuthorityState env s rq st)) =
      snd (serve (he_access env) s (he_ctx2 env) (he_t2 env) (MetadataRequest (rq_ID rq)) (hs_store st))"
    by (simp add: getAuthorityState_def serve_def snd_status split: prod.split sum.split)
  then show ?thesis by (intro handler_store_served [where req = "MetadataRequest (rq_ID rq)"]) (auto simp: concerns_def)
qed

lemma relay_state_store: "handler_store env s (rq_ID rq) (hs_store st) (hs_store (snd (replaceRelayState env s rq st)))"
proof (cases "decode_body maxRelayStateBodyBytes (bind_RelayState (he_parse_time env)) zero_relay (rq_Body rq)")
  case (Some snapshot)
  have "hs_store (snd (replaceRelayState env s rq st)) =
      snd (serve (he_access env) s (he_ctx2 env) (he_t2 env) (RelayStateRequest (rq_ID rq) snapshot) (hs_store st))"
    using Some by (simp add: replaceRelayState_def serve_def snd_status split: prod.split sum.split)
  then show ?thesis by (intro handler_store_served [where req = "RelayStateRequest (rq_ID rq) snapshot"]) (auto simp: concerns_def)
qed (simp add: replaceRelayState_def handler_store_found)

lemma relay_writer_store: "handler_store env s (rq_ID rq) (hs_store st) (hs_store (snd (acquireRelayWriter env s rq st)))"
proof (cases "decode_body 1024 bind_relayWriterRequest \<lparr>wq_RelayEpoch = [], wq_ExpectedTerm = 0\<rparr> (rq_Body rq)")
  case (Some input)
  have "hs_store (snd (acquireRelayWriter env s rq st)) = snd (serve (he_access env) s (he_ctx2 env) (he_t2 env)
      (RelayWriterRequest (rq_ID rq) (wq_RelayEpoch input) (wq_ExpectedTerm input)) (hs_store st))"
    using Some by (simp add: acquireRelayWriter_def serve_def snd_status split: prod.split sum.split)
  then show ?thesis by (intro handler_store_served [where req = "RelayWriterRequest (rq_ID rq) (wq_RelayEpoch input) (wq_ExpectedTerm input)"]) (auto simp: concerns_def)
qed (simp add: acquireRelayWriter_def handler_store_found)

lemmas handler_stores = get_store delete_store publish_store subscribe_store invite_store sse_store renew_store inspect_store redeem_store
  authority_store relay_state_store relay_writer_store

lemma authenticated_store:
  assumes "\<And>rq st. handler_store env s (rq_ID rq) (hs_store st) (hs_store (snd (next_handler rq st)))"
  shows "handler_store env s (rq_ID rq) (hs_store st) (hs_store (snd (authenticate secret next_handler rq st)))"
  using assms by (simp add: authenticate_def Let_def handler_store_found)

lemma handle_store:
  "r \<noteq> RouteCreate \<Longrightarrow> handler_store (re_http re) s (rq_ID rq) (hs_store st) (hs_store (snd (handle re h s r rq st)))"
  by (cases r) (simp_all add: handle_def handler_stores authenticated_store)

section \<open>Property\<close>

text \<open>C7. Sessions are isolated from each other: whatever request arrives on whatever route, apart from creating a Session, the handler
  leaves the record of every live Session other than the one its path names as it found it, where what it found may
  include the effects of requests served in between its own two transactions.\<close>

theorem http_sessions_isolated:
  assumes ok: "records_ok (ms_data (hs_store st))" "records_ok (ms_data (he_between (re_http re) (hs_store st)))"
    and route: "find_route (Handler_Register @ InternalHandler_Register) (rq_Method rq) path = Some (r, b)" "r \<noteq> RouteCreate"
    and run: "serve_http re h s path rq st = Some (response, st')"
  shows "\<exists>found \<in> {hs_store st, he_between (re_http re) (hs_store st)}.
    \<forall>k x. k \<noteq> path_value b ''id'' \<longrightarrow> map_of (sessions (ms_data found)) k = Some x \<longrightarrow> he_t2 (re_http re) < sr_ExpiresAt x \<longrightarrow>
      map_of (sessions (ms_data (hs_store st'))) k = Some x"
proof -
  let ?rq = "rq\<lparr>rq_ID := path_value b ''id'', rq_Locator := path_value b ''locator''\<rparr>"
  have st': "st' = snd (handle re h s r ?rq st)" using run route by (auto simp: serve_http_def)
  have "handler_store (re_http re) s (rq_ID ?rq) (hs_store st) (hs_store st')" unfolding st' using route(2) by (rule handle_store)
  then obtain found where f: "found \<in> {hs_store st, he_between (re_http re) (hs_store st)}"
    "hs_store st' = found \<or> (\<exists>aenv req. concerns (path_value b ''id'') req \<and>
       hs_store st' = snd (serve aenv s (he_ctx2 (re_http re)) (he_t2 (re_http re)) req found))"
    unfolding handler_store_def by auto
  then have "records_ok (ms_data found)" using ok by auto
  then have "others_kept (path_value b ''id'') (he_t2 (re_http re)) (ms_data found) (ms_data (hs_store st'))"
    using f(2) serve_keeps_others by (auto simp: others_kept_same)
  then show ?thesis using f(1) unfolding others_kept_def by blast
qed

definition example_http_env :: http_env where
  "example_http_env =
     \<lparr>he_access = \<lparr>env_marshal = free_marshal, env_lib = owner_library, env_lex = example_lexicon, env_redeem = example_redeem,
        env_encode = (\<lambda>_. Inr [])\<rparr>,
      he_split = (\<lambda>_. None), he_ip = (\<lambda>_. None), he_hmac = (\<lambda>_ _. []), he_resolved = (\<lambda>_. Inr []), he_parse_time = (\<lambda>_. None),
      he_draw1 = None, he_draw2 = None, he_names = (\<lambda>_. \<lparr>name_draw = (\<lambda>_. None), code_draw = None, grant_draw = None\<rparr>),
      he_t0 = minute, he_t1 = minute, he_t2 = minute, he_t3 = minute, he_ctx1 = None, he_ctx2 = None, he_between = (\<lambda>st. st)\<rparr>"

definition example_route_env :: route_env where
  "example_route_env =
     \<lparr>re_http = example_http_env,
      re_url = \<lparr>url_Parse = (\<lambda>_. None), url_String = (\<lambda>_. []), QueryEscape = (\<lambda>x. x), PathEscape = (\<lambda>x. x)\<rparr>,
      re_encode = (\<lambda>_. None), re_flushes = True, re_written = True, re_inputs = [], re_secret = []\<rparr>"

lemma other_delete_route:
  "find_route (Handler_Register @ InternalHandler_Register) (rq_Method anonymous_delete) [''v1'', ''sessions'', ''other''] =
     Some (RouteDelete, [(''id'', ''other'')])"
  by (simp add: anonymous_delete_def Handler_Register_def session_path_def match_method_def)

theorem http_sessions_isolated_witness:
  "\<exists>response st'. serve_http example_route_env NewHandler (example_service ''a'' 4) [''v1'', ''sessions'', ''other''] anonymous_delete
      (new_http_state empty_config created_store) = Some (response, st') \<and>
     map_of (sessions (ms_data (hs_store st'))) example_id = map_of (sessions (ms_data created_store)) example_id"
proof -
  let ?st = "new_http_state empty_config created_store"
  obtain response st' where run: "serve_http example_route_env NewHandler (example_service ''a'' 4) [''v1'', ''sessions'', ''other''] anonymous_delete ?st =
      Some (response, st')" by (simp add: serve_http_def other_delete_route) (metis surj_pair)
  have ok: "records_ok (ms_data (hs_store ?st))" "records_ok (ms_data (he_between (re_http example_route_env) (hs_store ?st)))"
    by (simp_all add: new_http_state_def created_ok example_route_env_def example_http_env_def)
  have live: "map_of (sessions (ms_data created_store)) example_id = Some created_session" "minute < sr_ExpiresAt created_session"
    using created_data by (simp_all add: new_session_def example_ttls)
  have "example_id \<noteq> ''other''" by (simp add: example_id_def)
  then have "map_of (sessions (ms_data (hs_store st'))) example_id = Some created_session"
    using http_sessions_isolated [OF ok other_delete_route _ run] live
    by (auto simp: path_value_def new_http_state_def example_route_env_def example_http_env_def)
  then show ?thesis using run live by auto
qed

end
