(* ===== verification/Access_Metrics.thy ===== *)
theory Access_Metrics
  imports Access_Http
begin

text \<open>
  The counters of \<^verbatim>\<open>access/metrics/metrics.go\<close> in Prometheus text form, the live Session gauge of \<^verbatim>\<open>access/service_metrics.go\<close> and the
  Session lifetime read from the environment.
\<close>

definition newline :: string where "newline = [CHR 0x0A]"

definition metric_text :: "string \<Rightarrow> string \<Rightarrow> string \<Rightarrow> int \<Rightarrow> string" where
  "metric_text name help typ val =
     ''# HELP '' @ name @ '' '' @ help @ newline @ ''# TYPE '' @ name @ '' '' @ typ @ newline @ name @ '' '' @ decimal_int val @ newline"

definition Registry_WriteMetrics :: "access_metrics \<Rightarrow> int \<Rightarrow> string" where
  "Registry_WriteMetrics r activeSessions =
     metric_text ''pocketstation_control_plane_sessions_created_total'' ''Sessions created by this process.'' ''counter'' (uint (SessionsCreated r)) @
     metric_text ''pocketstation_control_plane_sessions_deleted_total'' ''Sessions deleted by this process.'' ''counter'' (uint (SessionsDeleted r)) @
     metric_text ''pocketstation_control_plane_subscription_requests_total'' ''Subscription requests handled by this process.'' ''counter''
       (uint (SubscriptionRequests r)) @
     metric_text ''pocketstation_control_plane_sessions_active'' ''Currently active sessions.'' ''gauge'' activeSessions"

definition metrics_tx :: "'t Tx \<Rightarrow> Service \<Rightarrow> ('t, int) txm" where
  "metrics_tx tx s =
     tx_bind (checkWriter tx s) (\<lambda>_.
     tx_bind (Tx_Sessions tx (MaxSessions (svc_config s))) (\<lambda>rows.
     tx_bind (Tx_Now tx) (\<lambda>now.
     tx_return (fold (\<lambda>row n. if sr_Incarnation row = svc_incarnation s \<and> sr_ExpiresAt row > now then n + 1 else n) rows 0))))"

definition WriteMetricsContext ::
  "('t, int, 's) storage_call \<Rightarrow> 't Tx \<Rightarrow> Service \<Rightarrow> access_metrics \<Rightarrow> 's \<Rightarrow> (access_error + string) \<times> 's" where
  "WriteMetricsContext view tx s registry st =
     (case returned (view (metrics_tx tx s) st) of
        (Inl e, st') \<Rightarrow> (Inl e, st')
      | (Inr n, st') \<Rightarrow> (Inr (Registry_WriteMetrics registry n), st'))"

definition ParseSessionExpiryDuration :: "(string \<Rightarrow> string) \<Rightarrow> duration option" where
  "ParseSessionExpiryDuration getenv =
     (let raw = getenv ''POCKETSTATION_SESSION_TTL_SECONDS''
      in if raw = [] then Some (120 * minute)
         else
           case ParseInt raw of
             None \<Rightarrow> None
           | Some seconds \<Rightarrow>
               if seconds \<le> 0 \<or> seconds > max_int64 div second then None else Some (int64 (seconds * second)))"

section \<open>What they report\<close>

lemma fold_count: "fold (\<lambda>row n. if P row then n + 1 else n) rows k = k + int (length (filter P rows))"
  by (induction rows arbitrary: k) auto

text \<open>The gauge counts the live Sessions of the store when the limit admits them all.\<close>

lemma mset_sorted_sessions: "map_wf (sessions d) \<Longrightarrow> mset (sorted_sessions d) = mset (map snd (sessions d))"
proof -
  assume wf: "map_wf (sessions d)"
  have "map (\<lambda>k. the (map_of (sessions d) k)) (map fst (sessions d)) = map snd (sessions d)"
    using wf by (auto intro!: map_cong simp: comp_def)
  then show ?thesis unfolding sorted_sessions_def by (metis mset_map mset_sort)
qed

lemma length_filter_mset: "mset xs = mset ys \<Longrightarrow> length (filter P xs) = length (filter P ys)"
proof -
  have size: "size (filter_mset P (mset zs)) = length (filter P zs)" for zs :: "'a list" by (induction zs) auto
  show "mset xs = mset ys \<Longrightarrow> length (filter P xs) = length (filter P ys)" using size [of xs] size [of ys] by simp
qed

lemma metrics_run:
  assumes "is_writer s d" and "map_wf (sessions d)" and "int (length (sessions d)) \<le> MaxSessions (svc_config s)"
    and "metrics_tx (abstract_tx marshal m now) s d = (Inr n, d')"
  shows "n = int (length (filter (\<lambda>row. sr_Incarnation row = svc_incarnation s \<and> now < sr_ExpiresAt row) (map snd (sessions d))))"
proof -
  let ?P = "\<lambda>row. sr_Incarnation row = svc_incarnation s \<and> now < sr_ExpiresAt row"
  have "n = int (length (filter ?P (sorted_sessions d)))" using assms(4) by (auto simp: metrics_tx_def runs checkWriter_run fold_count)
  also have "length (filter ?P (sorted_sessions d)) = length (filter ?P (map snd (sessions d)))"
    using mset_sorted_sessions [OF assms(2)] by (rule length_filter_mset)
  finally show ?thesis .
qed

text \<open>An accepted lifetime is positive and was not truncated to 64 bits.\<close>

lemma session_expiry_positive:
  "ParseSessionExpiryDuration getenv = Some d \<Longrightarrow> 0 < d \<and> d \<le> max_int64 \<and>
     (getenv ''POCKETSTATION_SESSION_TTL_SECONDS'' \<noteq> [] \<longrightarrow>
        (\<exists>n. ParseInt (getenv ''POCKETSTATION_SESSION_TTL_SECONDS'') = Some n \<and> d = n * second))"
proof -
  have fit: "int64 (n * second) = n * second" "n * second \<le> max_int64" if "\<not> n \<le> 0" "\<not> n > max_int64 div second" for n
  proof -
    have "n * second \<le> max_int64 div second * second" using that by (intro mult_right_mono) auto
    also have "\<dots> \<le> max_int64" by (simp add: max_int64_def)
    finally show le: "n * second \<le> max_int64" .
    show "int64 (n * second) = n * second" using that le by (intro int64_id) (simp_all add: min_int64_def)
  qed
  show "ParseSessionExpiryDuration getenv = Some d \<Longrightarrow> 0 < d \<and> d \<le> max_int64 \<and>
     (getenv ''POCKETSTATION_SESSION_TTL_SECONDS'' \<noteq> [] \<longrightarrow>
        (\<exists>n. ParseInt (getenv ''POCKETSTATION_SESSION_TTL_SECONDS'') = Some n \<and> d = n * second))"
    using fit by (auto simp: ParseSessionExpiryDuration_def Let_def max_int64_def split: if_splits option.splits)
qed

end
