(* ===== verification/Seqlock.thy ===== *)
theory Seqlock
  imports Relay_Prelude
begin

text \<open>
  Optimistic reading of several atomic variables guarded by a version, as the packet log and the capture clock use it.  A
  writer makes the version odd, stores the variables one at a time and makes the version even again; a reader keeps what it
  loaded only when it finds the same even version before and after.
\<close>

locale seqlock =
  fixes step :: "'c \<Rightarrow> 'c \<Rightarrow> bool"
    and version :: "'c \<Rightarrow> nat"
    and content :: "'c \<Rightarrow> 'a"
  assumes version_grows: "step c c' \<Longrightarrow> version c \<le> version c'"
    and quiet: "\<lbrakk>step c c'; version c' = version c; even (version c)\<rbrakk> \<Longrightarrow> content c' = content c"
begin

lemma versions_grow: "step\<^sup>*\<^sup>* c c' \<Longrightarrow> version c \<le> version c'"
  by (induction rule: rtranclp_induct) (auto dest: version_grows)

lemma content_stable:
  assumes "step\<^sup>*\<^sup>* c c'" and "version c' = version c" and "even (version c)"
  shows "content c' = content c"
  using assms
proof (induction rule: rtranclp_induct)
  case (step d e)
  then have "version c \<le> version d" "version d \<le> version e" by (auto dest: versions_grow version_grows)
  then have same: "version d = version c" using step.prems by simp
  then have "content e = content d" using step.hyps(2) step.prems by (intro quiet) auto
  then show ?case using step.IH same step.prems by simp
qed simp

text \<open>What a reader loaded at any moment between two readings of the same even version was there at the first reading.\<close>

lemma read_consistent:
  assumes "step\<^sup>*\<^sup>* c c'" and "step\<^sup>*\<^sup>* c' c''" and "version c'' = version c" and "even (version c)"
  shows "content c' = content c"
proof -
  have "version c' = version c" using versions_grow [OF assms(1)] versions_grow [OF assms(2)] assms(3) by simp
  then show ?thesis using content_stable assms(1,4) by blast
qed

end

text \<open>A reader sees the shared state at its successive loads; between two loads others may take any number of steps.\<close>

definition trace :: "('c \<Rightarrow> 'c \<Rightarrow> bool) \<Rightarrow> (nat \<Rightarrow> 'c) \<Rightarrow> bool" where
  "trace step \<sigma> \<longleftrightarrow> (\<forall>k. step\<^sup>*\<^sup>* (\<sigma> k) (\<sigma> (Suc k)))"

lemma trace_le: "\<lbrakk>trace step \<sigma>; i \<le> j\<rbrakk> \<Longrightarrow> step\<^sup>*\<^sup>* (\<sigma> i) (\<sigma> j)"
proof (induction j)
  case (Suc j)
  then show ?case by (cases "i = Suc j") (auto simp: trace_def le_Suc_eq intro: rtranclp_trans)
qed simp

end
