(* ===== verification/Packet_Log.thy ===== *)
theory Packet_Log
  imports Seqlock "HOL-Library.Sublist"
begin

text \<open>
  The packet log of \<^verbatim>\<open>internal/session/packet_log.go\<close>: a ring of slots that one forwarding goroutine fills without locking while
  readers take snapshots.  Every store of \<^verbatim>\<open>record\<close> and every load of \<^verbatim>\<open>last\<close> is one atomic action, in the order of the code.
  The positions count the packets recorded; the 64-bit counters would wrap after 2^63 packets of one bus.
\<close>

section \<open>State\<close>

definition packetLogWindowSize :: nat where "packetLogWindowSize = 1000"

record PacketLogEntry =
  Seq :: u16
  RtpTsSamples :: u32
  le_PayloadType :: u8
  Ssrc :: u32
  PayloadBytes :: u64
  le_Padding :: bool
  PaddingBytes :: u8
  RxTsNs :: int
  TxTsNs :: int

record packetLogSlot =
  generation :: nat
  ps_seq :: u32
  ps_rtpTsSamples :: u32
  ps_payloadType :: u32
  ps_ssrc :: u32
  ps_payloadBytes :: u64
  ps_padding :: bool
  ps_paddingBytes :: u32
  ps_rxTsNs :: int
  ps_txTsNs :: int

record packetLogStore =
  log_entries :: "nat \<Rightarrow> packetLogSlot"
  writeCount :: nat

definition zero_slot :: packetLogSlot where
  "zero_slot = \<lparr>generation = 0, ps_seq = 0, ps_rtpTsSamples = 0, ps_payloadType = 0, ps_ssrc = 0, ps_payloadBytes = 0,
     ps_padding = False, ps_paddingBytes = 0, ps_rxTsNs = 0, ps_txTsNs = 0\<rparr>"

definition newPacketLogStore :: packetLogStore where
  "newPacketLogStore = \<lparr>log_entries = (\<lambda>_. zero_slot), writeCount = 0\<rparr>"

section \<open>Recording\<close>

datatype log_store =
    StoreGeneration nat nat
  | StoreSlot nat "packetLogSlot \<Rightarrow> packetLogSlot"
  | StoreCount nat

text \<open>The atomic stores of \<^verbatim>\<open>record\<close> in order.\<close>

definition field_stores :: "PacketLogEntry \<Rightarrow> (packetLogSlot \<Rightarrow> packetLogSlot) list" where
  "field_stores entry =
     [ps_seq_update (\<lambda>_. ucast (Seq entry)), ps_rtpTsSamples_update (\<lambda>_. RtpTsSamples entry),
      ps_payloadType_update (\<lambda>_. ucast (le_PayloadType entry)), ps_ssrc_update (\<lambda>_. Ssrc entry),
      ps_payloadBytes_update (\<lambda>_. PayloadBytes entry), ps_padding_update (\<lambda>_. le_Padding entry),
      ps_paddingBytes_update (\<lambda>_. ucast (PaddingBytes entry)), ps_rxTsNs_update (\<lambda>_. RxTsNs entry), ps_txTsNs_update (\<lambda>_. TxTsNs entry)]"

definition record_stores :: "nat \<Rightarrow> PacketLogEntry \<Rightarrow> log_store list" where
  "record_stores position entry =
     (let slot = position mod packetLogWindowSize; publishedGeneration = position * 2 + 2
      in StoreGeneration slot (publishedGeneration - 1) # map (StoreSlot slot) (field_stores entry) @
         [StoreGeneration slot publishedGeneration, StoreCount (position + 1)])"

fun apply_store :: "log_store \<Rightarrow> packetLogStore \<Rightarrow> packetLogStore" where
  "apply_store (StoreGeneration slot g) pl = pl\<lparr>log_entries := (log_entries pl)(slot := (log_entries pl slot)\<lparr>generation := g\<rparr>)\<rparr>"
| "apply_store (StoreSlot slot f) pl = pl\<lparr>log_entries := (log_entries pl)(slot := f (log_entries pl slot))\<rparr>"
| "apply_store (StoreCount n) pl = pl\<lparr>writeCount := n\<rparr>"

definition record_entry :: "PacketLogEntry \<Rightarrow> packetLogStore \<Rightarrow> packetLogStore" where
  "record_entry entry pl = fold apply_store (record_stores (writeCount pl) entry) pl"

section \<open>Reading\<close>

text \<open>The loads of one slot, field by field, each from the memory of its moment.\<close>

definition load_entry :: "(nat \<Rightarrow> packetLogSlot) \<Rightarrow> PacketLogEntry" where
  "load_entry at =
     \<lparr>Seq = ucast (ps_seq (at 0)), RtpTsSamples = ps_rtpTsSamples (at 1), le_PayloadType = ucast (ps_payloadType (at 2)),
      Ssrc = ps_ssrc (at 3), PayloadBytes = ps_payloadBytes (at 4), le_Padding = ps_padding (at 5),
      PaddingBytes = ucast (ps_paddingBytes (at 6)), RxTsNs = ps_rxTsNs (at 7), TxTsNs = ps_txTsNs (at 8)\<rparr>"

text \<open>\<open>\<sigma> k\<close> is the log at load number \<open>k\<close>; the result carries the number of the next load.\<close>

definition read_slot :: "(nat \<Rightarrow> packetLogStore) \<Rightarrow> nat \<Rightarrow> nat \<Rightarrow> PacketLogEntry option \<times> nat" where
  "read_slot \<sigma> k position =
     (let slot = (\<lambda>j. log_entries (\<sigma> (k + j)) (position mod packetLogWindowSize)); expectedGeneration = position * 2 + 2
      in if generation (slot 0) \<noteq> expectedGeneration then (None, k + 1)
         else (if generation (slot 10) = expectedGeneration then Some (load_entry (\<lambda>j. slot (j + 1))) else None, k + 11))"

fun read_positions :: "(nat \<Rightarrow> packetLogStore) \<Rightarrow> nat \<Rightarrow> nat list \<Rightarrow> PacketLogEntry list" where
  "read_positions \<sigma> k [] = []"
| "read_positions \<sigma> k (position # rest) =
     (case read_slot \<sigma> k position of
        (None, k') \<Rightarrow> read_positions \<sigma> k' rest
      | (Some entry, k') \<Rightarrow> entry # read_positions \<sigma> k' rest)"

text \<open>A negative limit converts to a huge unsigned one.\<close>

definition read_limit :: "nat \<Rightarrow> int \<Rightarrow> nat" where
  "read_limit n limit = (if limit < 0 \<or> limit > int n then n else nat limit)"

definition last_entries :: "int \<Rightarrow> (nat \<Rightarrow> packetLogStore) \<Rightarrow> PacketLogEntry list" where
  "last_entries limit \<sigma> =
     (let n = writeCount (\<sigma> 0); l = read_limit (min n packetLogWindowSize) limit
      in if l = 0 then [] else read_positions \<sigma> 1 [n - l..<n])"

section \<open>Interleaving\<close>

record log_state =
  ls_mem :: packetLogStore
  ls_pending :: "log_store list"
  ls_history :: "PacketLogEntry list"

definition new_log :: log_state where
  "new_log = \<lparr>ls_mem = newPacketLogStore, ls_pending = [], ls_history = []\<rparr>"

inductive log_step :: "log_state \<Rightarrow> log_state \<Rightarrow> bool" where
  begin_record: "ls_pending s = [] \<Longrightarrow>
    log_step s (s\<lparr>ls_pending := record_stores (writeCount (ls_mem s)) entry, ls_history := ls_history s @ [entry]\<rparr>)"
| store: "ls_pending s = a # rest \<Longrightarrow> log_step s (s\<lparr>ls_mem := apply_store a (ls_mem s), ls_pending := rest\<rparr>)"

section \<open>Invariant\<close>

abbreviation slot_of :: "nat \<Rightarrow> nat" where "slot_of p \<equiv> p mod packetLogWindowSize"

definition slot_ok :: "PacketLogEntry list \<Rightarrow> packetLogStore \<Rightarrow> nat \<Rightarrow> bool" where
  "slot_ok h pl q \<longleftrightarrow>
     (\<forall>p < length h. slot_of p = q \<and> length h \<le> p + packetLogWindowSize \<longrightarrow>
        generation (log_entries pl q) = p * 2 + 2 \<and> load_entry (\<lambda>_. log_entries pl q) = h ! p) \<and>
     (length h \<le> q \<longrightarrow> generation (log_entries pl q) = 0)"

definition filling :: "nat \<Rightarrow> PacketLogEntry \<Rightarrow> packetLogStore \<Rightarrow> nat \<Rightarrow> bool" where
  "filling j entry pl p \<longleftrightarrow>
     (\<exists>old. log_entries pl (slot_of p) = fold (\<lambda>f. f) (take j (field_stores entry)) old \<and> generation old = p * 2 + 1)"

definition writing :: "nat \<Rightarrow> PacketLogEntry list \<Rightarrow> PacketLogEntry \<Rightarrow> log_state \<Rightarrow> bool" where
  "writing i h entry s \<longleftrightarrow>
     ls_history s = h @ [entry] \<and> i \<le> 11 \<and> ls_pending s = drop i (record_stores (length h) entry) \<and> writeCount (ls_mem s) = length h \<and>
     (\<forall>q < packetLogWindowSize. q \<noteq> slot_of (length h) \<longrightarrow> slot_ok h (ls_mem s) q) \<and>
     (if i = 0 then slot_ok h (ls_mem s) (slot_of (length h))
      else if i \<le> 10 then filling (i - 1) entry (ls_mem s) (length h)
      else slot_ok (h @ [entry]) (ls_mem s) (slot_of (length h)))"

definition idle :: "log_state \<Rightarrow> bool" where
  "idle s \<longleftrightarrow>
     ls_pending s = [] \<and> writeCount (ls_mem s) = length (ls_history s) \<and>
     (\<forall>q < packetLogWindowSize. slot_ok (ls_history s) (ls_mem s) q)"

definition log_ok :: "log_state \<Rightarrow> bool" where
  "log_ok s \<longleftrightarrow> idle s \<or> (\<exists>i h entry. writing i h entry s)"

lemma window_pos [simp]: "0 < packetLogWindowSize" "slot_of p < packetLogWindowSize"
  by (simp_all add: packetLogWindowSize_def)

lemma length_field_stores [simp]: "length (field_stores e) = 9"
  by (simp add: field_stores_def)

lemma length_record_stores [simp]: "length (record_stores p e) = 12"
  by (simp add: record_stores_def Let_def)

lemma record_stores_nth:
  "record_stores p e ! 0 = StoreGeneration (slot_of p) (p * 2 + 1)"
  "j < 9 \<Longrightarrow> record_stores p e ! Suc j = StoreSlot (slot_of p) (field_stores e ! j)"
  "record_stores p e ! 10 = StoreGeneration (slot_of p) (p * 2 + 2)"
  "record_stores p e ! 11 = StoreCount (p + 1)"
  by (simp_all add: record_stores_def Let_def nth_append nth_Cons')

lemma drop_record_stores: "i \<le> 11 \<Longrightarrow> drop i (record_stores p e) = record_stores p e ! i # drop (Suc i) (record_stores p e)"
  by (simp add: Cons_nth_drop_Suc)

text \<open>A slot other than the one being written keeps its entry when the history grows.\<close>

lemma slot_ok_append:
  assumes ok: "slot_ok h pl q" and q: "q < packetLogWindowSize" "q \<noteq> slot_of (length h)"
  shows "slot_ok (h @ [e]) pl q"
proof -
  have "generation (log_entries pl q) = p * 2 + 2 \<and> load_entry (\<lambda>_. log_entries pl q) = (h @ [e]) ! p"
    if p: "p < length (h @ [e])" "slot_of p = q" "length (h @ [e]) \<le> p + packetLogWindowSize" for p
  proof -
    have "p \<noteq> length h" using q(2) p(2) by auto
    then show ?thesis using ok p by (auto simp: slot_ok_def nth_append)
  qed
  moreover have "generation (log_entries pl q) = 0" if "length (h @ [e]) \<le> q" using ok that by (simp add: slot_ok_def)
  ultimately show ?thesis by (simp add: slot_ok_def)
qed

lemma slot_ok_other: "q \<noteq> q' \<Longrightarrow> slot_ok h (pl\<lparr>log_entries := (log_entries pl)(q' := x)\<rparr>) q = slot_ok h pl q"
  by (simp add: slot_ok_def)

lemma slot_ok_count [simp]: "slot_ok h (pl\<lparr>writeCount := n\<rparr>) q = slot_ok h pl q"
  by (simp add: slot_ok_def)

lemma load_stored: "load_entry (\<lambda>_. fold (\<lambda>f. f) (field_stores e) old) = e"
  by (simp add: load_entry_def field_stores_def unsigned_ucast_eq take_bit_word_eq_self)

lemma field_store_generation: "f \<in> set (field_stores e) \<Longrightarrow> generation (f slot) = generation slot"
  by (auto simp: field_stores_def)

lemma fold_generation: "set fs \<subseteq> set (field_stores e) \<Longrightarrow> generation (fold (\<lambda>f. f) fs slot) = generation slot"
proof (induction fs arbitrary: slot)
  case (Cons f fs)
  then show ?case using field_store_generation [of f e slot] by simp
qed simp

lemma filling_generation: "filling j e pl p \<Longrightarrow> generation (log_entries pl (slot_of p)) = p * 2 + 1"
  using fold_generation [OF set_take_subset] by (auto simp: filling_def)

lemma latest_position:
  assumes "q < n" and "q < packetLogWindowSize"
  obtains p where "p < n" "slot_of p = q" "n \<le> p + packetLogWindowSize"
proof
  let ?p = "q + packetLogWindowSize * ((n - 1 - q) div packetLogWindowSize)"
  show "?p < n" "slot_of ?p = q" "n \<le> ?p + packetLogWindowSize"
    using assms mult_div_mod_eq [of packetLogWindowSize "n - 1 - q"] mod_less_divisor [of packetLogWindowSize "n - 1 - q"]
    by (auto simp: packetLogWindowSize_def)
qed

lemma same_slot:
  assumes "p \<le> n" and "slot_of p = slot_of n" and "n < p + packetLogWindowSize"
  shows "p = n"
proof -
  have "packetLogWindowSize dvd n - p" using assms(1) assms(2) [symmetric] mod_eq_dvd_iff_nat by blast
  moreover have "n - p < packetLogWindowSize" using assms(1,3) by simp
  ultimately have "n - p = 0" using dvd_imp_le by (metis neq0_conv not_le)
  then show ?thesis using assms(1) by simp
qed

text \<open>The generation of a slot never exceeds what its next writer will store.\<close>

lemma slot_generation_le:
  assumes ok: "slot_ok h pl q" and q: "q < packetLogWindowSize"
  shows "generation (log_entries pl q) \<le> length h * 2"
proof (cases "length h \<le> q")
  case False
  then obtain p where "p < length h" "slot_of p = q" "length h \<le> p + packetLogWindowSize" using latest_position q by (metis not_le)
  then show ?thesis using ok by (auto simp: slot_ok_def)
qed (use ok in \<open>simp add: slot_ok_def\<close>)

lemma slot_entry:
  assumes ok: "slot_ok h pl (slot_of p)" and gen: "generation (log_entries pl (slot_of p)) = p * 2 + 2"
  shows "p < length h \<and> load_entry (\<lambda>_. log_entries pl (slot_of p)) = h ! p"
proof -
  have "slot_of p < length h" using ok gen by (auto simp: slot_ok_def)
  then obtain p' where p': "p' < length h" "slot_of p' = slot_of p" "length h \<le> p' + packetLogWindowSize"
    using latest_position window_pos(2) by metis
  then have "generation (log_entries pl (slot_of p)) = p' * 2 + 2" "load_entry (\<lambda>_. log_entries pl (slot_of p)) = h ! p'"
    using ok unfolding slot_ok_def by blast+
  then show ?thesis using gen p'(1) by simp
qed

section \<open>Preservation\<close>

lemma ok_begin:
  assumes ok: "log_ok s" and idle: "ls_pending s = []"
  shows "writing 0 (ls_history s) e (s\<lparr>ls_pending := record_stores (writeCount (ls_mem s)) e, ls_history := ls_history s @ [e]\<rparr>)"
proof -
  have "idle s"
  proof (rule ccontr)
    assume "\<not> idle s"
    then obtain i h e where "writing i h e s" using ok by (auto simp: log_ok_def)
    then show False using idle by (auto simp: writing_def dest: arg_cong [of _ _ length])
  qed
  then show ?thesis by (simp add: idle_def writing_def)
qed

lemma writing_other:
  assumes "writing i h e s" and "q < packetLogWindowSize" and "q \<noteq> slot_of (length h)"
  shows "slot_ok h (ls_mem s) q" "slot_ok (h @ [e]) (ls_mem s) q"
  using assms slot_ok_append by (auto simp: writing_def)

lemma ok_store_first:
  assumes w: "writing 0 h e s"
  shows "writing 1 h e (s\<lparr>ls_mem := apply_store (StoreGeneration (slot_of (length h)) (length h * 2 + 1)) (ls_mem s), ls_pending := drop 1 (ls_pending s)\<rparr>)"
  using w writing_other [OF w] by (auto simp: writing_def filling_def slot_ok_other)

lemma ok_store_field:
  assumes w: "writing (Suc j) h e s" and j: "j < 9"
  shows "writing (Suc (Suc j)) h e
    (s\<lparr>ls_mem := apply_store (StoreSlot (slot_of (length h)) (field_stores e ! j)) (ls_mem s), ls_pending := drop 1 (ls_pending s)\<rparr>)"
proof -
  obtain old where "log_entries (ls_mem s) (slot_of (length h)) = fold (\<lambda>f. f) (take j (field_stores e)) old" "generation old = length h * 2 + 1"
    using w j by (auto simp: writing_def filling_def)
  then have "filling (Suc j) e (apply_store (StoreSlot (slot_of (length h)) (field_stores e ! j)) (ls_mem s)) (length h)"
    using j by (auto simp: filling_def take_Suc_conv_app_nth)
  then show ?thesis using w writing_other [OF w] j by (auto simp: writing_def slot_ok_other drop_drop)
qed

lemma ok_store_publish:
  assumes w: "writing 10 h e s"
  shows "writing 11 h e (s\<lparr>ls_mem := apply_store (StoreGeneration (slot_of (length h)) (length h * 2 + 2)) (ls_mem s), ls_pending := drop 1 (ls_pending s)\<rparr>)"
proof -
  let ?q = "slot_of (length h)"
  obtain old where "log_entries (ls_mem s) ?q = fold (\<lambda>f. f) (take 9 (field_stores e)) old" using w by (auto simp: writing_def filling_def)
  then have "load_entry (\<lambda>_. log_entries (ls_mem s) ?q) = e" using load_stored [of e old] by simp
  then have e: "load_entry (\<lambda>_. (log_entries (ls_mem s) ?q)\<lparr>generation := g\<rparr>) = e" for g by (simp add: load_entry_def)
  have "p = length h" if "p < length (h @ [e])" "slot_of p = ?q" "length (h @ [e]) \<le> p + packetLogWindowSize" for p
  proof -
    have "p \<le> length h" using that(1) by simp
    moreover have "length h < p + packetLogWindowSize" using that(3) by simp
    ultimately show ?thesis using same_slot that(2) by blast
  qed
  note only = this
  have short: "\<not> length (h @ [e]) \<le> ?q" by (simp add: not_le le_imp_less_Suc mod_less_eq_dividend)
  have "slot_ok (h @ [e]) (apply_store (StoreGeneration ?q (length h * 2 + 2)) (ls_mem s)) ?q"
    unfolding slot_ok_def
  proof (intro conjI allI impI)
    fix p assume "p < length (h @ [e])" "slot_of p = ?q \<and> length (h @ [e]) \<le> p + packetLogWindowSize"
    then have "p = length h" using only by blast
    then show "generation (log_entries (apply_store (StoreGeneration ?q (length h * 2 + 2)) (ls_mem s)) ?q) = p * 2 + 2"
      "load_entry (\<lambda>_. log_entries (apply_store (StoreGeneration ?q (length h * 2 + 2)) (ls_mem s)) ?q) = (h @ [e]) ! p"
      using e by simp_all
  qed (use short in simp)
  then show ?thesis using w writing_other [OF w] by (auto simp: writing_def slot_ok_other drop_drop)
qed

lemma ok_store_count:
  assumes w: "writing 11 h e s"
  shows "idle (s\<lparr>ls_mem := apply_store (StoreCount (length h + 1)) (ls_mem s), ls_pending := drop 1 (ls_pending s)\<rparr>)"
proof -
  have "slot_ok (h @ [e]) (ls_mem s) q" if "q < packetLogWindowSize" for q
    using w writing_other [OF w that] by (cases "q = slot_of (length h)") (auto simp: writing_def)
  then show ?thesis using w by (auto simp: writing_def idle_def)
qed

lemma writing_next:
  assumes w: "writing i h e s" and p: "ls_pending s = a # rest"
  shows "a = record_stores (length h) e ! i \<and> rest = drop 1 (ls_pending s)"
  using w p drop_record_stores [of i "length h" e] by (auto simp: writing_def)

lemma ok_step: "\<lbrakk>log_step s s'; log_ok s\<rbrakk> \<Longrightarrow> log_ok s'"
proof (induction rule: log_step.induct)
  case (begin_record s e)
  then show ?case using ok_begin unfolding log_ok_def by blast
next
  case (store s a rest)
  then obtain i h e where w: "writing i h e s" by (auto simp: log_ok_def idle_def)
  note n = writing_next [OF w store.hyps]
  consider "i = 0" | j where "i = Suc j" "j < 9" | "i = 10" | "i = 11" using w
    by (cases i) (auto simp: writing_def, linarith)
  then show ?case
    unfolding log_ok_def
    using n w ok_store_first ok_store_field ok_store_publish ok_store_count record_stores_nth
    by cases (metis One_nat_def)+
qed

inductive log_reachable :: "log_state \<Rightarrow> bool" where
  start: "log_reachable new_log"
| step: "\<lbrakk>log_reachable s; log_step s s'\<rbrakk> \<Longrightarrow> log_reachable s'"

lemma reachable_ok: "log_reachable s \<Longrightarrow> log_ok s"
proof (induction rule: log_reachable.induct)
  case start
  show ?case by (auto simp: log_ok_def idle_def new_log_def newPacketLogStore_def slot_ok_def zero_slot_def)
qed (rule ok_step)

section \<open>Reading is consistent\<close>

definition live_log_step :: "log_state \<Rightarrow> log_state \<Rightarrow> bool" where
  "live_log_step s s' \<longleftrightarrow> log_ok s \<and> log_step s s'"

lemma writing_store:
  assumes ok: "log_ok s" and p: "ls_pending s = a # rest"
  obtains i h e where "writing i h e s" "a = record_stores (length h) e ! i" "i = 0 \<or> (\<exists>j < 9. i = Suc j) \<or> i = 10 \<or> i = 11"
proof -
  obtain i h e where w: "writing i h e s" using ok p by (auto simp: log_ok_def idle_def)
  moreover have "i = 0 \<or> (\<exists>j < 9. i = Suc j) \<or> i = 10 \<or> i = 11"
  proof (cases i)
    case (Suc j)
    then have "j < 9 \<or> j = 9 \<or> j = 10" using w by (auto simp: writing_def)
    then show ?thesis using Suc by auto
  qed simp
  ultimately show ?thesis using that writing_next [OF w p] by blast
qed

lemma live_log_step_effect:
  assumes "live_log_step s s'"
  shows "generation (log_entries (ls_mem s) q) \<le> generation (log_entries (ls_mem s') q)"
    and "even (generation (log_entries (ls_mem s) q)) \<Longrightarrow>
      (log_entries (ls_mem s') q)\<lparr>generation := 0\<rparr> = (log_entries (ls_mem s) q)\<lparr>generation := 0\<rparr>"
proof -
  have step: "log_step s s'" and ok: "log_ok s" using assms by (auto simp: live_log_step_def)
  have "generation (log_entries (ls_mem s) q) \<le> generation (log_entries (ls_mem s') q) \<and>
    (even (generation (log_entries (ls_mem s) q)) \<longrightarrow>
      (log_entries (ls_mem s') q)\<lparr>generation := 0\<rparr> = (log_entries (ls_mem s) q)\<lparr>generation := 0\<rparr>)"
    using step
  proof cases
    case (store a rest)
    from writing_store [OF ok store(2)] obtain i h e where
      w: "writing i h e s" and a: "a = record_stores (length h) e ! i" and i: "i = 0 \<or> (\<exists>j < 9. i = Suc j) \<or> i = 10 \<or> i = 11" .
    let ?q = "slot_of (length h)"
    consider "i = 0" | j where "i = Suc j" "j < 9" | "i = 10" | "i = 11" using i by auto
    then show ?thesis
    proof cases
      case 1
      then have "generation (log_entries (ls_mem s) ?q) \<le> length h * 2" using w slot_generation_le by (auto simp: writing_def)
      then show ?thesis using 1 a store record_stores_nth by (auto simp: writing_def)
    next
      case 2
      then have "generation (log_entries (ls_mem s) ?q) = length h * 2 + 1" using w by (auto simp: writing_def filling_generation)
      moreover have "generation ((field_stores e ! j) x) = generation x" for x using 2(2) by (intro field_store_generation [of _ e] nth_mem) simp
      ultimately show ?thesis using 2 a store record_stores_nth(2) [of j "length h" e] by auto
    next
      case 3
      then have "generation (log_entries (ls_mem s) ?q) = length h * 2 + 1" using w by (auto simp: writing_def filling_generation)
      then show ?thesis using 3 a store record_stores_nth by auto
    next
      case 4
      then show ?thesis using a store record_stores_nth by auto
    qed
  qed auto
  then show "generation (log_entries (ls_mem s) q) \<le> generation (log_entries (ls_mem s') q)"
    "even (generation (log_entries (ls_mem s) q)) \<Longrightarrow>
      (log_entries (ls_mem s') q)\<lparr>generation := 0\<rparr> = (log_entries (ls_mem s) q)\<lparr>generation := 0\<rparr>" by blast+
qed

interpretation slot_lock: seqlock live_log_step "\<lambda>s. generation (log_entries (ls_mem s) q)"
    "\<lambda>s. (log_entries (ls_mem s) q)\<lparr>generation := 0\<rparr>" for q
  by unfold_locales (use live_log_step_effect in blast)+

lemma live_steps:
  assumes "log_step\<^sup>*\<^sup>* s s'" and "log_ok s"
  shows "live_log_step\<^sup>*\<^sup>* s s' \<and> log_ok s' \<and> prefix (ls_history s) (ls_history s')"
  using assms
proof (induction rule: rtranclp_induct)
  case (step t u)
  then have "live_log_step t u" by (simp add: live_log_step_def)
  moreover have "prefix (ls_history t) (ls_history u)" using step.hyps(2) by cases auto
  ultimately show ?case using step ok_step by (auto intro: rtranclp.rtrancl_into_rtrancl prefix_order.trans)
qed simp

lemma log_ok_count: "log_ok s \<Longrightarrow> writeCount (ls_mem s) \<le> length (ls_history s)"
  by (auto simp: log_ok_def idle_def writing_def)

lemma log_ok_entry:
  assumes ok: "log_ok s" and gen: "generation (log_entries (ls_mem s) (slot_of p)) = p * 2 + 2"
  shows "p < length (ls_history s) \<and> load_entry (\<lambda>_. log_entries (ls_mem s) (slot_of p)) = ls_history s ! p"
proof (cases "idle s")
  case True
  then have "slot_ok (ls_history s) (ls_mem s) (slot_of p)" by (simp add: idle_def)
  then show ?thesis using gen by (rule slot_entry)
next
  case False
  then obtain i h e where w: "writing i h e s" using ok by (auto simp: log_ok_def)
  have "slot_ok h (ls_mem s) (slot_of p) \<or> slot_ok (h @ [e]) (ls_mem s) (slot_of p)"
  proof (cases "slot_of p = slot_of (length h)")
    case True
    have "\<not> filling (i - 1) e (ls_mem s) (length h)"
    proof
      assume "filling (i - 1) e (ls_mem s) (length h)"
      then have "p * 2 + 2 = length h * 2 + 1" using filling_generation gen True by metis
      then show False by presburger
    qed
    then show ?thesis using w True by (auto simp: writing_def split: if_splits)
  qed (use writing_other [OF w] in simp)
  then show ?thesis using slot_entry gen w by (fastforce simp: writing_def nth_append)
qed

lemma same_content:
  assumes "x\<lparr>generation := 0\<rparr> = y\<lparr>generation := 0\<rparr>"
  shows "ps_seq x = ps_seq y" "ps_rtpTsSamples x = ps_rtpTsSamples y" "ps_payloadType x = ps_payloadType y" "ps_ssrc x = ps_ssrc y"
    "ps_payloadBytes x = ps_payloadBytes y" "ps_padding x = ps_padding y" "ps_paddingBytes x = ps_paddingBytes y"
    "ps_rxTsNs x = ps_rxTsNs y" "ps_txTsNs x = ps_txTsNs y"
  using assms by (cases x; cases y; simp)+

lemma load_content:
  assumes "\<And>j. j < 9 \<Longrightarrow> (f j)\<lparr>generation := 0\<rparr> = c\<lparr>generation := 0\<rparr>"
  shows "load_entry f = load_entry (\<lambda>_. c)"
proof -
  have "ps_seq (f 0) = ps_seq c" "ps_rtpTsSamples (f 1) = ps_rtpTsSamples c" "ps_payloadType (f 2) = ps_payloadType c"
    "ps_ssrc (f 3) = ps_ssrc c" "ps_payloadBytes (f 4) = ps_payloadBytes c" "ps_padding (f 5) = ps_padding c"
    "ps_paddingBytes (f 6) = ps_paddingBytes c" "ps_rxTsNs (f 7) = ps_rxTsNs c" "ps_txTsNs (f 8) = ps_txTsNs c"
    by (rule same_content [OF assms]; simp)+
  then show ?thesis by (simp add: load_entry_def)
qed

lemma read_slot_entry:
  assumes ok: "log_ok (\<sigma> 0)" and tr: "trace log_step \<sigma>" and p: "p < length (ls_history (\<sigma> 0))"
    and run: "read_slot (\<lambda>k. ls_mem (\<sigma> k)) k p = (Some e, k')"
  shows "e = ls_history (\<sigma> 0) ! p"
proof -
  let ?slot = "\<lambda>k. log_entries (ls_mem (\<sigma> k)) (slot_of p)"
  have g: "generation (?slot k) = p * 2 + 2" "generation (?slot (k + 10)) = p * 2 + 2" and e: "e = load_entry (\<lambda>j. ?slot (k + (j + 1)))"
    using run by (auto simp: read_slot_def Let_def split: if_splits)
  have from0: "log_ok (\<sigma> i)" "prefix (ls_history (\<sigma> 0)) (ls_history (\<sigma> i))" for i
    using live_steps [OF trace_le [OF tr] ok] by auto
  have steps: "live_log_step\<^sup>*\<^sup>* (\<sigma> i) (\<sigma> j)" if "i \<le> j" for i j using live_steps [OF trace_le [OF tr that] from0(1)] by simp
  have "(?slot (k + (j + 1)))\<lparr>generation := 0\<rparr> = (?slot k)\<lparr>generation := 0\<rparr>" if "j < 9" for j
    using slot_lock.read_consistent [OF steps [of k "k + (j + 1)"] steps [of "k + (j + 1)" "k + 10"]] g that by simp
  then have "e = load_entry (\<lambda>_. ?slot k)" unfolding e by (intro load_content) blast
  then have "e = ls_history (\<sigma> k) ! p" using log_ok_entry [OF from0(1) g(1)] by simp
  then show ?thesis using from0(2) [of k] p by (auto simp: prefix_def nth_append)
qed

lemma read_positions_subseq:
  assumes "log_ok (\<sigma> 0)" and "trace log_step \<sigma>" and "\<forall>p \<in> set ps. p < length (ls_history (\<sigma> 0))"
  shows "subseq (read_positions (\<lambda>k. ls_mem (\<sigma> k)) k ps) (map ((!) (ls_history (\<sigma> 0))) ps)"
  using assms(3)
proof (induction ps arbitrary: k)
  case (Cons p ps)
  obtain r k' where run: "read_slot (\<lambda>k. ls_mem (\<sigma> k)) k p = (r, k')" by fastforce
  have "e = ls_history (\<sigma> 0) ! p" if "r = Some e" for e using read_slot_entry [OF assms(1,2)] Cons.prems run that by simp
  then show ?case using Cons.IH [of k'] Cons.prems run by (cases r) (auto intro: subseq_Cons')
qed simp

lemma map_nth_window: "n \<le> length h \<Longrightarrow> map ((!) h) [m..<n] = drop m (take n h)"
  by (rule nth_equalityI) auto

lemma read_positions_quiet:
  assumes "idle s" and "\<forall>p \<in> set ps. p < length (ls_history s) \<and> length (ls_history s) \<le> p + packetLogWindowSize"
  shows "read_positions (\<lambda>_. ls_mem s) k ps = map ((!) (ls_history s)) ps"
  using assms(2)
proof (induction ps arbitrary: k)
  case (Cons p ps)
  have "generation (log_entries (ls_mem s) (slot_of p)) = p * 2 + 2" "load_entry (\<lambda>_. log_entries (ls_mem s) (slot_of p)) = ls_history s ! p"
    using assms(1) Cons.prems by (auto simp: idle_def slot_ok_def)
  then show ?case using Cons by (simp add: read_slot_def Let_def)
qed simp

section \<open>Property\<close>

text \<open>C32. A snapshot of the packet log is never torn.  While the forwarding goroutine keeps recording, \<^verbatim>\<open>last(limit)\<close> returns, in order, only
  entries that were recorded whole, all of them among the last \<open>limit\<close> (at most 1000) complete ones when it began; and when
  nothing is being recorded it returns exactly those.\<close>

theorem packet_log_snapshot:
  assumes "log_reachable (\<sigma> 0)" and "trace log_step \<sigma>" and "n = writeCount (ls_mem (\<sigma> 0))"
    and "l = read_limit (min n packetLogWindowSize) limit"
  shows "subseq (last_entries limit (\<lambda>k. ls_mem (\<sigma> k))) (drop (n - l) (take n (ls_history (\<sigma> 0)))) \<and>
    (ls_pending (\<sigma> 0) = [] \<longrightarrow> last_entries limit (\<lambda>_. ls_mem (\<sigma> 0)) = drop (n - l) (ls_history (\<sigma> 0)))"
proof -
  let ?h = "ls_history (\<sigma> 0)"
  have ok: "log_ok (\<sigma> 0)" using reachable_ok [OF assms(1)] .
  have n: "n \<le> length ?h" using log_ok_count [OF ok] assms(3) by simp
  have l: "l \<le> n" "l \<le> packetLogWindowSize" using assms(4) by (auto simp: read_limit_def split: if_splits)
  have "subseq (read_positions (\<lambda>k. ls_mem (\<sigma> k)) 1 [n - l..<n]) (drop (n - l) (take n ?h))"
    using read_positions_subseq [OF ok assms(2), of "[n - l..<n]" 1] n by (simp add: map_nth_window)
  then have "subseq (last_entries limit (\<lambda>k. ls_mem (\<sigma> k))) (drop (n - l) (take n ?h))"
    using assms(3,4) by (simp add: last_entries_def Let_def)
  moreover have "last_entries limit (\<lambda>_. ls_mem (\<sigma> 0)) = drop (n - l) ?h" if p: "ls_pending (\<sigma> 0) = []"
  proof -
    have idle: "idle (\<sigma> 0)" using ok_begin [OF ok p] ok p by (auto simp: log_ok_def writing_def dest: arg_cong [of _ _ length])
    then have len: "length ?h = n" using assms(3) by (simp add: idle_def)
    have "read_positions (\<lambda>_. ls_mem (\<sigma> 0)) 1 [n - l..<n] = drop (n - l) ?h"
    proof -
      have "\<forall>p \<in> set [n - l..<n]. p < length ?h \<and> length ?h \<le> p + packetLogWindowSize" using len l by auto
      from read_positions_quiet [OF idle this, of 1] show ?thesis using len by (simp add: map_nth_window)
    qed
    then show ?thesis using assms(3,4) len by (simp add: last_entries_def Let_def)
  qed
  ultimately show ?thesis by blast
qed

definition example_entry :: "u16 \<Rightarrow> PacketLogEntry" where
  "example_entry n = \<lparr>Seq = n, RtpTsSamples = 960, le_PayloadType = 111, Ssrc = 7, PayloadBytes = 80, le_Padding = False, PaddingBytes = 0,
     RxTsNs = 5, TxTsNs = 6\<rparr>"

definition recorded_log :: log_state where
  "recorded_log = \<lparr>ls_mem = record_entry (example_entry 1) newPacketLogStore, ls_pending = [], ls_history = [example_entry 1]\<rparr>"

lemma run_pending: "log_reachable s \<Longrightarrow> log_reachable (s\<lparr>ls_mem := fold apply_store (ls_pending s) (ls_mem s), ls_pending := []\<rparr>)"
proof (induction "ls_pending s" arbitrary: s)
  case Nil
  then show ?case by (metis fold_simps(1) log_state.surjective log_state.update_convs(1,2))
next
  case (Cons a rest)
  let ?s = "s\<lparr>ls_mem := apply_store a (ls_mem s), ls_pending := rest\<rparr>"
  have "log_reachable ?s" using Cons.prems log_step.store [OF Cons.hyps(2) [symmetric]] by (rule log_reachable.step)
  from Cons.hyps(1) [OF _ this] show ?case using Cons.hyps(2) [symmetric] by simp
qed

lemma recorded_log_reachable: "log_reachable recorded_log"
proof -
  have "log_reachable (new_log\<lparr>ls_pending := record_stores (writeCount (ls_mem new_log)) (example_entry 1), ls_history := ls_history new_log @ [example_entry 1]\<rparr>)"
    by (rule log_reachable.step [OF log_reachable.start log_step.begin_record]) (simp add: new_log_def)
  from run_pending [OF this] show ?thesis by (simp add: new_log_def recorded_log_def record_entry_def)
qed

theorem packet_log_snapshot_witness:
  "log_reachable recorded_log \<and> last_entries 5 (\<lambda>_. ls_mem recorded_log) = [example_entry 1]"
proof -
  have n: "1 = writeCount (ls_mem recorded_log)"
    by (simp add: recorded_log_def record_entry_def record_stores_def newPacketLogStore_def field_stores_def Let_def)
  have "trace log_step (\<lambda>_. recorded_log)" by (simp add: trace_def)
  from packet_log_snapshot [of "\<lambda>_. recorded_log", OF recorded_log_reachable this n refl, of 5]
  have "last_entries 5 (\<lambda>_. ls_mem recorded_log) = drop (1 - read_limit (min 1 packetLogWindowSize) 5) [example_entry 1]"
    by (simp add: recorded_log_def)
  then show ?thesis using recorded_log_reachable by (simp add: read_limit_def packetLogWindowSize_def)
qed

end
