(* ===== verification/Clock_Lineage.thy ===== *)
theory Clock_Lineage
  imports Seqlock
begin

text \<open>
  The publisher clock of \<^verbatim>\<open>internal/media/clocklineage\<close>: Sender Reports map RTP timestamps to the publisher's NTP clock; a
  seqlock publishes the capture mapping of the latest packet to the RTCP path; a registry bounds the timelines of one peer
  connection.
\<close>

section \<open>NTP time\<close>

definition ntpUnixEpochOffsetSeconds :: int where "ntpUnixEpochOffsetSeconds = 2208988800"
definition defaultMaxReportAge :: duration where "defaultMaxReportAge = 10 * second"
definition maxTimelinesPerDirection :: nat where "maxTimelinesPerDirection = 8"

text \<open>\<^verbatim>\<open>Unix()\<close> and \<^verbatim>\<open>Nanosecond()\<close> of a time.\<close>

definition time_Unix :: "time \<Rightarrow> int" where "time_Unix t = t div second"
definition time_Nanosecond :: "time \<Rightarrow> int" where "time_Nanosecond t = t mod second"

definition timeToNTP :: "time \<Rightarrow> u64" where
  "timeToNTP value =
     (let seconds = word_of_int (time_Unix value) + word_of_int ntpUnixEpochOffsetSeconds :: u64;
          fraction = word_of_int (time_Nanosecond value * 2 ^ 32 div second) :: u64
      in or (push_bit 32 seconds) fraction)"

definition ntpTime :: "u64 \<Rightarrow> time" where
  "ntpTime value =
     (let seconds = uint (drop_bit 32 value) - ntpUnixEpochOffsetSeconds;
          fraction = and value 0xFFFFFFFF;
          nanoseconds = uint (drop_bit 32 (fraction * word_of_int second) :: u64)
      in seconds * second + nanoseconds)"

section \<open>Timelines\<close>

text \<open>A \<^verbatim>\<open>rtcp.SenderReport\<close> and the snapshot kept of it.\<close>

record SenderReport =
  sp_SSRC :: u32
  sp_NTPTime :: u64
  sp_RTPTime :: u32
  sp_PacketCount :: u32
  sp_OctetCount :: u32

record SenderReportSnapshot =
  sn_SSRC :: u32
  sn_NTPTime :: u64
  sn_RTPTime :: u32
  sn_PacketCount :: u32
  sn_OctetCount :: u32
  sn_ObservedAtNs :: int
  sn_ReportCount :: u64
  sn_Normalized :: bool

type_synonym capture_mapping = "u32 \<times> u64 \<times> int"

record Timeline =
  tl_ssrc :: u32
  tl_latest :: "SenderReportSnapshot option"
  captureVersion :: nat
  captureRTPTime :: u32
  captureNTPTime :: u64
  captureObservedNs :: int

definition NewTimeline :: "u32 \<Rightarrow> Timeline" where
  "NewTimeline ssrc =
     \<lparr>tl_ssrc = ssrc, tl_latest = None, captureVersion = 0, captureRTPTime = 0, captureNTPTime = 0, captureObservedNs = 0\<rparr>"

definition observe :: "SenderReport option \<Rightarrow> time \<Rightarrow> bool \<Rightarrow> Timeline \<Rightarrow> Timeline" where
  "observe sr observedAt normalized t =
     (case sr of
        None \<Rightarrow> t
      | Some r \<Rightarrow>
          if sp_SSRC r \<noteq> tl_ssrc t then t
          else
            let n = (case tl_latest t of None \<Rightarrow> 1 | Some previous \<Rightarrow> sn_ReportCount previous + 1)
            in t\<lparr>tl_latest := Some
                 \<lparr>sn_SSRC = sp_SSRC r, sn_NTPTime = sp_NTPTime r, sn_RTPTime = sp_RTPTime r, sn_PacketCount = sp_PacketCount r,
                  sn_OctetCount = sp_OctetCount r, sn_ObservedAtNs = observedAt, sn_ReportCount = n, sn_Normalized = normalized\<rparr>\<rparr>)"

definition Observe :: "SenderReport option \<Rightarrow> time \<Rightarrow> Timeline \<Rightarrow> Timeline" where
  "Observe sr observedAt = observe sr observedAt False"

definition Snapshot :: "Timeline \<Rightarrow> SenderReportSnapshot \<times> bool" where
  "Snapshot t =
     (case tl_latest t of
        None \<Rightarrow> (\<lparr>sn_SSRC = tl_ssrc t, sn_NTPTime = 0, sn_RTPTime = 0, sn_PacketCount = 0, sn_OctetCount = 0, sn_ObservedAtNs = 0,
                  sn_ReportCount = 0, sn_Normalized = False\<rparr>, False)
      | Some snapshot \<Rightarrow> (snapshot, True))"

text \<open>Samples at a clock rate as a duration; integer division truncates towards zero.\<close>

definition sample_delta :: "u32 \<Rightarrow> u32 \<Rightarrow> u32 \<Rightarrow> duration" where
  "sample_delta rtpTimestamp reference clockRateHz =
     sint (rtpTimestamp - reference) * second sdiv uint clockRateHz"

definition CaptureTime :: "Timeline \<Rightarrow> u32 \<Rightarrow> time \<Rightarrow> u32 \<Rightarrow> duration \<Rightarrow> time option" where
  "CaptureTime t rtpTimestamp now clockRateHz maxAge =
     (case tl_latest t of
        None \<Rightarrow> None
      | Some snapshot \<Rightarrow>
          if clockRateHz = 0 then None
          else
            let maxAge = (if maxAge \<le> 0 then defaultMaxReportAge else maxAge);
                age = time_Sub now (sn_ObservedAtNs snapshot)
            in if age < 0 \<or> age > maxAge then None
               else Some (ntpTime (sn_NTPTime snapshot) + sample_delta rtpTimestamp (sn_RTPTime snapshot) clockRateHz))"

section \<open>The capture mapping\<close>

text \<open>\<^verbatim>\<open>captureMapping\<close>: at most four attempts of five loads, each from the timeline of its moment.\<close>

fun capture_attempts :: "nat \<Rightarrow> (nat \<Rightarrow> Timeline) \<Rightarrow> nat \<Rightarrow> capture_mapping option" where
  "capture_attempts 0 \<sigma> k = None"
| "capture_attempts (Suc n) \<sigma> k =
     (let before = captureVersion (\<sigma> k)
      in if before = 0 \<or> odd before then capture_attempts n \<sigma> (k + 1)
         else if captureVersion (\<sigma> (k + 4)) = before
         then Some (captureRTPTime (\<sigma> (k + 1)), captureNTPTime (\<sigma> (k + 2)), captureObservedNs (\<sigma> (k + 3)))
         else capture_attempts n \<sigma> (k + 5))"

definition captureMapping :: "(nat \<Rightarrow> Timeline) \<Rightarrow> capture_mapping option" where
  "captureMapping \<sigma> = capture_attempts 4 \<sigma> 0"

text \<open>\<^verbatim>\<open>NormalizeSenderReport\<close>, given the mapping read: the report with its NTP time rewritten, or none.\<close>

definition NormalizeSenderReport :: "u32 \<Rightarrow> capture_mapping option \<Rightarrow> SenderReport option \<Rightarrow> time \<Rightarrow> u32 \<Rightarrow> SenderReport option" where
  "NormalizeSenderReport ssrc mapping sr now clockRateHz =
     (case sr of
        None \<Rightarrow> None
      | Some r \<Rightarrow>
          if sp_SSRC r \<noteq> ssrc \<or> clockRateHz = 0 then None
          else
            case mapping of
              None \<Rightarrow> None
            | Some (rtpTime, captureNTP, observedAtNs) \<Rightarrow>
                let age = time_Sub now observedAtNs
                in if age < 0 \<or> age > defaultMaxReportAge then None
                   else Some (r\<lparr>sp_NTPTime := timeToNTP (ntpTime captureNTP + sample_delta (sp_RTPTime r) rtpTime clockRateHz)\<rparr>))"

text \<open>The goroutines in \<^verbatim>\<open>ObserveCapture\<close>: before the version load, before the swap, at one of the stores, or returned.\<close>

datatype capture_pc = CapLoad | CapSwap nat | CapRTP nat | CapNTP nat | CapObserved nat | CapPublish nat | CapReturned

record capture_state =
  cs_timeline :: Timeline
  cs_threads :: "(capture_mapping \<times> capture_pc) list"
  cs_published :: "capture_mapping list"

definition set_thread :: "nat \<Rightarrow> capture_pc \<Rightarrow> capture_state \<Rightarrow> capture_state" where
  "set_thread k pc s = s\<lparr>cs_threads := (cs_threads s)[k := (fst (cs_threads s ! k), pc)]\<rparr>"

definition store_mapping :: "nat \<Rightarrow> capture_pc \<Rightarrow> (Timeline \<Rightarrow> Timeline) \<Rightarrow> capture_state \<Rightarrow> capture_state" where
  "store_mapping k pc f s = set_thread k pc (s\<lparr>cs_timeline := f (cs_timeline s)\<rparr>)"

abbreviation at_capture :: "capture_state \<Rightarrow> nat \<Rightarrow> capture_mapping \<Rightarrow> capture_pc \<Rightarrow> bool" where
  "at_capture s k m pc \<equiv> k < length (cs_threads s) \<and> cs_threads s ! k = (m, pc)"

inductive capture_step :: "capture_state \<Rightarrow> capture_state \<Rightarrow> bool" where
  call: "capture_step s (s\<lparr>cs_threads := cs_threads s @ [((rtp, timeToNTP captureTime, observedAt), CapLoad)]\<rparr>)"
| load_odd: "\<lbrakk>at_capture s k m CapLoad; odd (captureVersion (cs_timeline s))\<rbrakk> \<Longrightarrow> capture_step s s"
| load_even: "\<lbrakk>at_capture s k m CapLoad; even (captureVersion (cs_timeline s))\<rbrakk> \<Longrightarrow>
    capture_step s (set_thread k (CapSwap (captureVersion (cs_timeline s))) s)"
| swap_lost: "\<lbrakk>at_capture s k m (CapSwap v); captureVersion (cs_timeline s) \<noteq> v\<rbrakk> \<Longrightarrow> capture_step s (set_thread k CapLoad s)"
| swap_won: "\<lbrakk>at_capture s k m (CapSwap v); captureVersion (cs_timeline s) = v\<rbrakk> \<Longrightarrow>
    capture_step s (store_mapping k (CapRTP v) (captureVersion_update (\<lambda>_. v + 1)) s)"
| store_rtp: "at_capture s k m (CapRTP v) \<Longrightarrow> capture_step s (store_mapping k (CapNTP v) (captureRTPTime_update (\<lambda>_. fst m)) s)"
| store_ntp: "at_capture s k m (CapNTP v) \<Longrightarrow> capture_step s (store_mapping k (CapObserved v) (captureNTPTime_update (\<lambda>_. fst (snd m))) s)"
| store_observed: "at_capture s k m (CapObserved v) \<Longrightarrow>
    capture_step s (store_mapping k (CapPublish v) (captureObservedNs_update (\<lambda>_. snd (snd m))) s)"
| publish: "at_capture s k m (CapPublish v) \<Longrightarrow>
    capture_step s (store_mapping k CapReturned (captureVersion_update (\<lambda>_. v + 2)) (s\<lparr>cs_published := cs_published s @ [m]\<rparr>))"
| report: "capture_step s (s\<lparr>cs_timeline := observe sr observedAt normalized (cs_timeline s)\<rparr>)"

section \<open>Registry and interceptor\<close>

record clock_registry =
  remote :: "(u32, Timeline) gomap"
  local_timelines :: "(u32, Timeline) gomap"

definition timeline_in :: "(u32, Timeline) gomap \<Rightarrow> u32 \<Rightarrow> Timeline option \<times> (u32, Timeline) gomap" where
  "timeline_in entries ssrc =
     (case map_of entries ssrc of
        Some t \<Rightarrow> (Some t, entries)
      | None \<Rightarrow>
          if length entries \<ge> maxTimelinesPerDirection then (None, entries)
          else (Some (NewTimeline ssrc), AList.update ssrc (NewTimeline ssrc) entries))"

text \<open>The observer of incoming reports and of the reports the relay sends; \<open>mapping\<close> is what \<^verbatim>\<open>captureMapping\<close> reads.\<close>

definition observe_remote :: "time \<Rightarrow> SenderReport \<Rightarrow> (u32, Timeline) gomap \<Rightarrow> (u32, Timeline) gomap" where
  "observe_remote now report entries =
     (case timeline_in entries (sp_SSRC report) of
        (None, entries') \<Rightarrow> entries'
      | (Some t, entries') \<Rightarrow> AList.update (sp_SSRC report) (Observe (Some report) now t) entries')"

definition observe_local ::
  "(Timeline \<Rightarrow> capture_mapping option) \<Rightarrow> time \<Rightarrow> SenderReport \<Rightarrow> (u32, Timeline) gomap \<Rightarrow> SenderReport \<times> (u32, Timeline) gomap" where
  "observe_local mapping now report entries =
     (case timeline_in entries (sp_SSRC report) of
        (None, entries') \<Rightarrow> (report, entries')
      | (Some t, entries') \<Rightarrow>
          let result = NormalizeSenderReport (tl_ssrc t) (mapping t) (Some report) now 48000;
              report' = (case result of Some r \<Rightarrow> r | None \<Rightarrow> report)
          in (report', AList.update (sp_SSRC report) (observe (Some report') now (result \<noteq> None) t) entries'))"

definition remove_stream :: "u32 \<Rightarrow> (u32, Timeline) gomap \<Rightarrow> (u32, Timeline) gomap" where
  "remove_stream ssrc entries = AList.delete ssrc entries"

text \<open>
  The observer of one peer connection.  Reading: \<open>read\<close> is what the next reader of the chain returned and \<open>parse\<close> the RTCP
  parser on its bytes.  Writing: the reports are rewritten in place before the next writer sees them.
\<close>

datatype rtcp_packet = SenderReportPacket SenderReport | OtherPacket

definition BindRTCPReader ::
  "nat \<times> 'e option \<Rightarrow> (nat \<Rightarrow> 'e + rtcp_packet list) \<Rightarrow> time \<Rightarrow> clock_registry \<Rightarrow> (nat \<times> 'e option) \<times> clock_registry" where
  "BindRTCPReader read parse now o_registry =
     (case read of
        (n, Some err) \<Rightarrow> ((n, Some err), o_registry)
      | (n, None) \<Rightarrow>
          (case parse n of
             Inl parseErr \<Rightarrow> ((n, Some parseErr), o_registry)
           | Inr packets \<Rightarrow>
               ((n, None), o_registry\<lparr>remote :=
                  fold (\<lambda>p entries. case p of SenderReportPacket report \<Rightarrow> observe_remote now report entries | OtherPacket \<Rightarrow> entries)
                    packets (remote o_registry)\<rparr>)))"

fun BindRTCPWriter ::
  "(Timeline \<Rightarrow> capture_mapping option) \<Rightarrow> time \<Rightarrow> rtcp_packet list \<Rightarrow> clock_registry \<Rightarrow> rtcp_packet list \<times> clock_registry" where
  "BindRTCPWriter mapping now [] o_registry = ([], o_registry)"
| "BindRTCPWriter mapping now (SenderReportPacket report # packets) o_registry =
     (let (report', entries) = observe_local mapping now report (local_timelines o_registry);
          (written, o_registry') = BindRTCPWriter mapping now packets (o_registry\<lparr>local_timelines := entries\<rparr>)
      in (SenderReportPacket report' # written, o_registry'))"
| "BindRTCPWriter mapping now (OtherPacket # packets) o_registry =
     (let (written, o_registry') = BindRTCPWriter mapping now packets o_registry in (OtherPacket # written, o_registry'))"

definition BindRemoteStream :: "u32 \<Rightarrow> clock_registry \<Rightarrow> clock_registry" where
  "BindRemoteStream ssrc r = r\<lparr>remote := snd (timeline_in (remote r) ssrc)\<rparr>"

definition UnbindRemoteStream :: "u32 \<Rightarrow> clock_registry \<Rightarrow> clock_registry" where
  "UnbindRemoteStream ssrc r = r\<lparr>remote := remove_stream ssrc (remote r)\<rparr>"

definition BindLocalStream :: "u32 \<Rightarrow> clock_registry \<Rightarrow> clock_registry" where
  "BindLocalStream ssrc r = r\<lparr>local_timelines := snd (timeline_in (local_timelines r) ssrc)\<rparr>"

definition UnbindLocalStream :: "u32 \<Rightarrow> clock_registry \<Rightarrow> clock_registry" where
  "UnbindLocalStream ssrc r = r\<lparr>local_timelines := remove_stream ssrc (local_timelines r)\<rparr>"

section \<open>Conversions\<close>

lemma split_word:
  fixes s f :: u64
  assumes "unat s < 2 ^ 32" and "unat f < 2 ^ 32"
  shows "drop_bit 32 (or (push_bit 32 s) f) = s" and "and (or (push_bit 32 s) f) 0xFFFFFFFF = f"
proof -
  have s: "bit s i \<Longrightarrow> i < 32" and f: "bit f i \<Longrightarrow> i < 32" for i
    using bit_index_bound [of s 32 i] bit_index_bound [of f 32 i] assms by simp_all
  show "drop_bit 32 (or (push_bit 32 s) f) = s"
    by (rule bit_word_eqI) (auto simp: bit_simps dest: s f)
  have "and (or (push_bit 32 s) f) (mask 32) = f"
    by (rule bit_word_eqI) (auto simp: bit_simps dest: s f)
  then show "and (or (push_bit 32 s) f) 0xFFFFFFFF = f" by (simp add: mask_eq_exp_minus_1)
qed

lemma uint_drop_bit: "uint (drop_bit n x :: u64) = uint x div 2 ^ n"
proof -
  have "uint (drop_bit n x :: u64) = drop_bit n (uint x)" 
    using uint_bounded [of x] by (simp add: unsigned_drop_bit_eq take_bit_int_eq_self)
  then show ?thesis by (simp only: drop_bit_eq_div)
qed

lemma div_bounds: "0 < (d :: int) \<Longrightarrow> n div d * d \<le> n \<and> n < n div d * d + d"
  using pos_mod_bound [of d n] pos_mod_sign [of d n] div_mult_mod_eq [of n d] by linarith

lemma fraction_loss:
  fixes ns f n :: int
  assumes "0 \<le> ns" and "ns < 1000000000" and "f = ns * 2 ^ 32 div 1000000000" and "n = f * 1000000000 div 2 ^ 32"
  shows "0 \<le> f" "f < 2 ^ 32" and "ns - 1 \<le> n" and "n \<le> ns"
proof -
  have f: "f * 1000000000 \<le> ns * 4294967296" "ns * 4294967296 < f * 1000000000 + 1000000000"
    using div_bounds [of 1000000000 "ns * 2 ^ 32"] unfolding assms(3) by simp_all
  have g: "n * 4294967296 \<le> f * 1000000000" "f * 1000000000 < n * 4294967296 + 4294967296"
    using div_bounds [of "2 ^ 32" "f * 1000000000"] unfolding assms(4) by simp_all
  have "f < 4294967296" "0 \<le> f" using f assms(1,2) by linarith+
  then show "0 \<le> f" "f < 2 ^ 32" by simp_all
  show "ns - 1 \<le> n" "n \<le> ns" using f g by linarith+
qed

text \<open>Between 1900 and 2036 the conversion to NTP time and back loses less than two nanoseconds.\<close>

lemma ntp_round_trip:
  assumes "0 \<le> time_Unix t + ntpUnixEpochOffsetSeconds" and "time_Unix t + ntpUnixEpochOffsetSeconds < 2 ^ 32"
  shows "t - 1 \<le> ntpTime (timeToNTP t) \<and> ntpTime (timeToNTP t) \<le> t"
proof -
  let ?S = "time_Unix t + ntpUnixEpochOffsetSeconds" and ?F = "time_Nanosecond t * 2 ^ 32 div second"
  define s :: u64 where "s = word_of_int ?S"
  define f :: u64 where "f = word_of_int ?F"
  have ns: "0 \<le> time_Nanosecond t" "time_Nanosecond t < second" by (simp_all add: time_Nanosecond_def)
  note F = fraction_loss [OF ns refl refl]
  have us: "uint s = ?S" "uint f = ?F"
    unfolding s_def f_def uint_word_of_int using assms F(1,2) by (simp_all add: mod_pos_pos_trivial del: div_mult_self1)
  then have small: "unat s < 2 ^ 32" "unat f < 2 ^ 32" using assms F(1,2) by (simp_all add: unat_eq_nat_uint nat_less_iff)
  have ntp: "timeToNTP t = or (push_bit 32 s) f" by (simp add: timeToNTP_def s_def f_def Let_def flip: of_int_add)
  have "uint (f * word_of_int second) = ?F * second"
    using F(1,2) us(2) by (simp add: uint_word_ariths uint_word_of_int mod_pos_pos_trivial)
  then have "uint (drop_bit 32 (f * word_of_int second) :: u64) = ?F * second div 2 ^ 32"
    by (simp only: uint_drop_bit)
  then have "ntpTime (timeToNTP t) = time_Unix t * second + ?F * second div 2 ^ 32"
    unfolding ntp ntpTime_def split_word [OF small] Let_def us by simp
  moreover have "t = time_Unix t * second + time_Nanosecond t" by (simp add: time_Unix_def time_Nanosecond_def)
  ultimately show ?thesis using F(3,4) by linarith
qed

text \<open>The distance of two RTP timestamps is measured across the wrap of the 32-bit clock.\<close>

lemma sample_delta_wrap:
  "\<lbrakk>- (2 ^ 31) \<le> d; d < 2 ^ 31\<rbrakk> \<Longrightarrow> sample_delta (reference + word_of_int d) reference rate = d * second sdiv uint rate"
  by (simp add: sample_delta_def sint_sbintrunc' signed_take_bit_int_eq_self)

section \<open>The capture seqlock\<close>

definition content :: "Timeline \<Rightarrow> capture_mapping" where
  "content t = (captureRTPTime t, captureNTPTime t, captureObservedNs t)"

definition holds :: "capture_pc \<Rightarrow> nat option" where
  "holds pc = (case pc of CapRTP v \<Rightarrow> Some v | CapNTP v \<Rightarrow> Some v | CapObserved v \<Rightarrow> Some v | CapPublish v \<Rightarrow> Some v | _ \<Rightarrow> None)"

text \<open>What a writer inside the critical section has stored so far.\<close>

definition stored :: "Timeline \<Rightarrow> capture_mapping \<Rightarrow> capture_pc \<Rightarrow> bool" where
  "stored t m pc \<longleftrightarrow>
     (case pc of
        CapNTP v \<Rightarrow> captureRTPTime t = fst m
      | CapObserved v \<Rightarrow> captureRTPTime t = fst m \<and> captureNTPTime t = fst (snd m)
      | CapPublish v \<Rightarrow> content t = m
      | _ \<Rightarrow> True)"

definition capture_inv :: "capture_state \<Rightarrow> bool" where
  "capture_inv s \<longleftrightarrow>
     (let version = captureVersion (cs_timeline s); n = length (cs_published s) in
      (\<forall>k m pc v. at_capture s k m pc \<longrightarrow> holds pc = Some v \<longrightarrow> v = 2 * n \<and> version = 2 * n + 1 \<and> stored (cs_timeline s) m pc) \<and>
      (\<forall>j k v w. j < length (cs_threads s) \<longrightarrow> k < length (cs_threads s) \<longrightarrow>
         holds (snd (cs_threads s ! j)) = Some v \<longrightarrow> holds (snd (cs_threads s ! k)) = Some w \<longrightarrow> j = k) \<and>
      (\<forall>k m v. at_capture s k m (CapSwap v) \<longrightarrow> even v) \<and>
      version \<in> {2 * n, 2 * n + 1} \<and> (version = 2 * n \<longrightarrow> n > 0 \<longrightarrow> content (cs_timeline s) = last (cs_published s)))"

lemma capture_invD:
  assumes "capture_inv s"
  shows "\<lbrakk>at_capture s k m pc; holds pc = Some v\<rbrakk> \<Longrightarrow> v = 2 * length (cs_published s)"
    "\<lbrakk>at_capture s k m pc; holds pc = Some v\<rbrakk> \<Longrightarrow> captureVersion (cs_timeline s) = 2 * length (cs_published s) + 1"
    "\<lbrakk>at_capture s k m pc; holds pc = Some v\<rbrakk> \<Longrightarrow> stored (cs_timeline s) m pc"
    "\<lbrakk>at_capture s j m pc; holds pc = Some v; at_capture s k m' pc'; holds pc' = Some w\<rbrakk> \<Longrightarrow> j = k"
    "at_capture s k m (CapSwap v) \<Longrightarrow> even v"
    "captureVersion (cs_timeline s) = 2 * length (cs_published s) \<or> captureVersion (cs_timeline s) = 2 * length (cs_published s) + 1"
    "\<lbrakk>captureVersion (cs_timeline s) = 2 * length (cs_published s); cs_published s \<noteq> []\<rbrakk> \<Longrightarrow> content (cs_timeline s) = last (cs_published s)"
proof -
  note inv = assms [unfolded capture_inv_def Let_def]
  show "\<lbrakk>at_capture s k m pc; holds pc = Some v\<rbrakk> \<Longrightarrow> v = 2 * length (cs_published s)"
    "\<lbrakk>at_capture s k m pc; holds pc = Some v\<rbrakk> \<Longrightarrow> captureVersion (cs_timeline s) = 2 * length (cs_published s) + 1"
    "\<lbrakk>at_capture s k m pc; holds pc = Some v\<rbrakk> \<Longrightarrow> stored (cs_timeline s) m pc"
    "at_capture s k m (CapSwap v) \<Longrightarrow> even v"
    "captureVersion (cs_timeline s) = 2 * length (cs_published s) \<or> captureVersion (cs_timeline s) = 2 * length (cs_published s) + 1"
    "\<lbrakk>captureVersion (cs_timeline s) = 2 * length (cs_published s); cs_published s \<noteq> []\<rbrakk> \<Longrightarrow> content (cs_timeline s) = last (cs_published s)"
    using inv by blast+
  show "\<lbrakk>at_capture s j m pc; holds pc = Some v; at_capture s k m' pc'; holds pc' = Some w\<rbrakk> \<Longrightarrow> j = k" using inv by (metis snd_conv)
qed

lemma holds_simps [simp]:
  "holds CapLoad = None" "holds (CapSwap v) = None" "holds CapReturned = None" "holds (CapRTP v) = Some v" "holds (CapNTP v) = Some v"
  "holds (CapObserved v) = Some v" "holds (CapPublish v) = Some v"
  by (simp_all add: holds_def)

lemma thread_after: "at_capture (set_thread k pc s) j m pc' \<longleftrightarrow> j < length (cs_threads s) \<and>
    (if j = k then m = fst (cs_threads s ! k) \<and> pc' = pc else cs_threads s ! j = (m, pc'))"
  by (auto simp: set_thread_def nth_list_update)

lemma set_thread_fields [simp]:
  "cs_timeline (set_thread k pc s) = cs_timeline s" "cs_published (set_thread k pc s) = cs_published s"
  "length (cs_threads (set_thread k pc s)) = length (cs_threads s)"
  by (simp_all add: set_thread_def)

text \<open>A thread outside the critical section moves within it outside.\<close>

lemma inv_outside:
  assumes inv: "capture_inv s" and k: "k < length (cs_threads s)" and out: "holds pc = None" "holds (snd (cs_threads s ! k)) = None" and swap: "\<And>v. pc = CapSwap v \<Longrightarrow> even v"
  shows "capture_inv (set_thread k pc s)"
proof -
  note D = capture_invD [OF inv]
  have "v = 2 * length (cs_published s) \<and> captureVersion (cs_timeline s) = 2 * length (cs_published s) + 1 \<and> stored (cs_timeline s) m pc'"
    if "at_capture (set_thread k pc s) j m pc'" "holds pc' = Some v" for j m pc' v
    using that out D(1-3) [of j m pc' v] unfolding thread_after by (auto split: if_splits)
  moreover have "i = j" if "i < length (cs_threads s)" "j < length (cs_threads s)"
      "holds (snd (cs_threads (set_thread k pc s) ! i)) = Some v" "holds (snd (cs_threads (set_thread k pc s) ! j)) = Some w" for i j v w
    using that out D(4) [of i "fst (cs_threads s ! i)" "snd (cs_threads s ! i)" v j "fst (cs_threads s ! j)" "snd (cs_threads s ! j)" w]
    by (auto simp: set_thread_def nth_list_update k split: if_splits)
  moreover have "even v" if "at_capture (set_thread k pc s) j m (CapSwap v)" for j m v
    using that swap D(5) [of j m v] unfolding thread_after by (auto split: if_splits)
  ultimately show ?thesis using D(6,7) unfolding capture_inv_def Let_def by auto
qed

text \<open>A single thread in the critical section, or none.\<close>

lemma inv_alone:
  assumes inv: "capture_inv s" and k: "k < length (cs_threads s)" "fst (cs_threads s ! k) = m"
    and others: "\<And>j. \<lbrakk>j < length (cs_threads s); j \<noteq> k\<rbrakk> \<Longrightarrow> holds (snd (cs_threads s ! j)) = None"
    and threads: "cs_threads s' = (cs_threads s)[k := (m, pc)]" and pc: "\<And>v. pc \<noteq> CapSwap v"
    and inside: "\<And>v. holds pc = Some v \<Longrightarrow> v = 2 * length (cs_published s') \<and>
      captureVersion (cs_timeline s') = 2 * length (cs_published s') + 1 \<and> stored (cs_timeline s') m pc"
    and outside: "holds pc = None \<Longrightarrow> captureVersion (cs_timeline s') = 2 * length (cs_published s') \<and>
      content (cs_timeline s') = last (cs_published s')"
  shows "capture_inv s'"
proof -
  have at: "at_capture s' j m' pc' \<longleftrightarrow> j < length (cs_threads s) \<and> (if j = k then m' = m \<and> pc' = pc else cs_threads s ! j = (m', pc'))" for j m' pc'
    using k by (auto simp: threads nth_list_update)
  have only: "j = k \<and> pc' = pc \<and> m' = m" if "at_capture s' j m' pc'" "holds pc' = Some v" for j m' pc' v
    using that others [of j] unfolding at by (auto split: if_splits)
  have "\<forall>j m' pc' v. at_capture s' j m' pc' \<longrightarrow> holds pc' = Some v \<longrightarrow> v = 2 * length (cs_published s') \<and>
      captureVersion (cs_timeline s') = 2 * length (cs_published s') + 1 \<and> stored (cs_timeline s') m' pc'"
    using only inside by blast
  moreover have "\<forall>i j v w. i < length (cs_threads s') \<longrightarrow> j < length (cs_threads s') \<longrightarrow> holds (snd (cs_threads s' ! i)) = Some v \<longrightarrow>
      holds (snd (cs_threads s' ! j)) = Some w \<longrightarrow> i = j"
    using only by (metis prod.collapse)
  moreover have "\<forall>j m' v. at_capture s' j m' (CapSwap v) \<longrightarrow> even v"
    using capture_invD(5) [OF inv] pc unfolding at by (metis (full_types))
  moreover have "captureVersion (cs_timeline s') \<in> {2 * length (cs_published s'), 2 * length (cs_published s') + 1}"
    using inside outside by (cases "holds pc") auto
  moreover have "captureVersion (cs_timeline s') = 2 * length (cs_published s') \<longrightarrow> content (cs_timeline s') = last (cs_published s')"
    using inside outside by (cases "holds pc") auto
  ultimately show ?thesis unfolding capture_inv_def Let_def by blast
qed

lemma holder_alone:
  assumes "capture_inv s" and "at_capture s k m pc" and "holds pc = Some v" and "j < length (cs_threads s)" and "j \<noteq> k"
  shows "holds (snd (cs_threads s ! j)) = None"
  using capture_invD(4) [OF assms(1,2,3), of j "fst (cs_threads s ! j)" "snd (cs_threads s ! j)"] assms(4,5) by (cases "holds (snd (cs_threads s ! j))") auto

lemma even_no_holder:
  assumes "capture_inv s" and "even (captureVersion (cs_timeline s))" and "j < length (cs_threads s)"
  shows "holds (snd (cs_threads s ! j)) = None"
  using capture_invD(2) [OF assms(1), of j "fst (cs_threads s ! j)" "snd (cs_threads s ! j)"] assms(2,3) by (cases "holds (snd (cs_threads s ! j))") auto

lemma observe_keeps [simp]:
  "captureObservedNs (observe sr at normalized t) = captureObservedNs t"
  "captureVersion (observe sr at normalized t) = captureVersion t" "content (observe sr at normalized t) = content t"
  "captureRTPTime (observe sr at normalized t) = captureRTPTime t" "captureNTPTime (observe sr at normalized t) = captureNTPTime t"
  by (simp_all add: observe_def content_def Let_def split: option.split)

lemma stored_observe [simp]: "stored (observe sr at normalized t) m pc = stored t m pc"
  by (simp add: stored_def split: capture_pc.split)

lemma store_mapping_fields [simp]:
  "cs_timeline (store_mapping k pc f s) = f (cs_timeline s)" "cs_published (store_mapping k pc f s) = cs_published s"
  "cs_threads (store_mapping k pc f s) = (cs_threads s)[k := (fst (cs_threads s ! k), pc)]"
  by (simp_all add: store_mapping_def set_thread_def)

lemma stored_simps [simp]:
  "stored t m (CapRTP v)" "stored t m (CapNTP v) \<longleftrightarrow> captureRTPTime t = fst m"
  "stored t m (CapObserved v) \<longleftrightarrow> captureRTPTime t = fst m \<and> captureNTPTime t = fst (snd m)" "stored t m (CapPublish v) \<longleftrightarrow> content t = m"
  by (simp_all add: stored_def)

lemma inv_inside:
  assumes inv: "capture_inv s" and at: "at_capture s k m pc" "holds pc = Some v" and pc': "holds pc' = Some v"
    and f: "captureVersion (f (cs_timeline s)) = captureVersion (cs_timeline s)" and st: "stored (f (cs_timeline s)) m pc'"
  shows "capture_inv (store_mapping k pc' f s)"
proof (rule inv_alone [OF inv, where k = k and m = m and pc = pc'])
  show "\<And>j. \<lbrakk>j < length (cs_threads s); j \<noteq> k\<rbrakk> \<Longrightarrow> holds (snd (cs_threads s ! j)) = None" by (rule holder_alone [OF inv at])
  show "\<And>w. pc' \<noteq> CapSwap w" using pc' by auto
qed (use at pc' st f capture_invD(1,2) [OF inv at] in auto)

lemma inv_call:
  assumes inv: "capture_inv s"
  shows "capture_inv (s\<lparr>cs_threads := cs_threads s @ [(m, CapLoad)]\<rparr>)"
proof -
  let ?s = "s\<lparr>cs_threads := cs_threads s @ [(m, CapLoad)]\<rparr>"
  have at: "at_capture ?s j m' pc' \<longleftrightarrow> at_capture s j m' pc' \<or> j = length (cs_threads s) \<and> m' = m \<and> pc' = CapLoad" for j m' pc'
    by (auto simp: nth_append less_Suc_eq)
  have "i < length (cs_threads s)" if "i < length (cs_threads ?s)" "holds (snd (cs_threads ?s ! i)) = Some v" for i v
    using that by (auto simp: nth_append less_Suc_eq)
  then have "\<forall>i j v w. i < length (cs_threads ?s) \<longrightarrow> j < length (cs_threads ?s) \<longrightarrow> holds (snd (cs_threads ?s ! i)) = Some v \<longrightarrow>
      holds (snd (cs_threads ?s ! j)) = Some w \<longrightarrow> i = j"
    using inv unfolding capture_inv_def Let_def by (simp add: nth_append)
  moreover have "\<forall>k m' pc' v. at_capture ?s k m' pc' \<longrightarrow> holds pc' = Some v \<longrightarrow> v = 2 * length (cs_published s) \<and>
      captureVersion (cs_timeline s) = 2 * length (cs_published s) + 1 \<and> stored (cs_timeline s) m' pc'"
    unfolding at using capture_invD(1-3) [OF inv] by auto
  moreover have "\<forall>k m' v. at_capture ?s k m' (CapSwap v) \<longrightarrow> even v" unfolding at using capture_invD(5) [OF inv] by auto
  ultimately show ?thesis using capture_invD(6,7) [OF inv] unfolding capture_inv_def Let_def by auto
qed

lemma capture_inv_step: "\<lbrakk>capture_step s s'; capture_inv s\<rbrakk> \<Longrightarrow> capture_inv s'"
proof (induction rule: capture_step.induct)
  case (load_even s k m)
  then show ?case by (intro inv_outside) auto
next
  case (swap_lost s k m v)
  then show ?case by (intro inv_outside) auto
next
  case (swap_won s k m v)
  note D = capture_invD [OF swap_won.prems]
  have ev: "even v" using D(5) swap_won.hyps(1) by blast
  then have v: "v = 2 * length (cs_published s)" using D(6) swap_won.hyps(2) by presburger
  have "holds (snd (cs_threads s ! j)) = None" if "j < length (cs_threads s)" for j
    using even_no_holder [OF swap_won.prems _ that] ev swap_won.hyps(2) by simp
  then show ?case using swap_won v by (intro inv_alone [OF swap_won.prems, where k = k and m = m and pc = "CapRTP v"]) auto
next
  case (publish s k m v)
  note at = publish.hyps
  let ?t = "s\<lparr>cs_published := cs_published s @ [m]\<rparr>"
  have "holds (snd (cs_threads s ! j)) = None" if "j < length (cs_threads s)" "j \<noteq> k" for j
    using holder_alone [OF publish.prems at _ that] by simp
  moreover have "content (cs_timeline s) = m" "v = 2 * length (cs_published s)" using capture_invD(1,3) [OF publish.prems at] by simp_all
  ultimately show ?case using publish
    by (intro inv_alone [OF publish.prems, where k = k and m = m and pc = CapReturned]) (auto simp: content_def)
next
  case (report s sr observedAt normalized)
  then show ?case by (simp add: capture_inv_def Let_def)
next
  case (store_ntp s k m v)
  then show ?case using capture_invD(3) [OF store_ntp.prems store_ntp.hyps] by (intro inv_inside) auto
next
  case (store_observed s k m v)
  then show ?case using capture_invD(3) [OF store_observed.prems store_observed.hyps] by (intro inv_inside) (auto simp: content_def)
qed (auto intro: inv_call inv_inside)

text \<open>The timeline of a peer connection from its creation, its packets and reports in any order.\<close>

inductive capture_reachable :: "capture_state \<Rightarrow> bool" where
  start: "capture_reachable \<lparr>cs_timeline = NewTimeline ssrc, cs_threads = [], cs_published = []\<rparr>"
| step: "\<lbrakk>capture_reachable s; capture_step s s'\<rbrakk> \<Longrightarrow> capture_reachable s'"

lemma capture_reachable_inv: "capture_reachable s \<Longrightarrow> capture_inv s"
  by (induction rule: capture_reachable.induct) (auto simp: capture_inv_def NewTimeline_def dest: capture_inv_step)

definition live_capture_step :: "capture_state \<Rightarrow> capture_state \<Rightarrow> bool" where
  "live_capture_step s s' \<longleftrightarrow> capture_inv s \<and> capture_step s s'"

lemma step_version:
  assumes "capture_step s s'" and "capture_inv s"
  shows "captureVersion (cs_timeline s) \<le> captureVersion (cs_timeline s')"
  using assms(1)
proof cases
  case (publish k m v)
  then show ?thesis using capture_invD(1,2) [OF assms(2), of k m "CapPublish v" v] by simp
qed auto

lemma step_quiet:
  assumes "capture_step s s'" and "capture_inv s" and "even (captureVersion (cs_timeline s))"
  shows "content (cs_timeline s') = content (cs_timeline s)"
  using assms(1)
proof cases
  case (store_rtp k m v)
  then show ?thesis using capture_invD(2) [OF assms(2), of k m "CapRTP v" v] assms(3) by simp
next
  case (store_ntp k m v)
  then show ?thesis using capture_invD(2) [OF assms(2), of k m "CapNTP v" v] assms(3) by simp
next
  case (store_observed k m v)
  then show ?thesis using capture_invD(2) [OF assms(2), of k m "CapObserved v" v] assms(3) by simp
qed (auto simp: content_def)

interpretation capture_lock: seqlock live_capture_step "\<lambda>s. captureVersion (cs_timeline s)" "\<lambda>s. content (cs_timeline s)"
  by unfold_locales (auto simp: live_capture_step_def step_version step_quiet)

lemma capture_steps:
  assumes "capture_step\<^sup>*\<^sup>* s s'" and "capture_inv s"
  shows "live_capture_step\<^sup>*\<^sup>* s s' \<and> capture_inv s'"
  using assms(1)
proof (induction rule: rtranclp_induct)
  case (step t u)
  then show ?case using capture_inv_step by (auto simp: live_capture_step_def intro: rtranclp.rtrancl_into_rtrancl)
qed (use assms(2) in simp)

lemma capture_attempts_published:
  assumes inv: "capture_inv (\<sigma> 0)" and tr: "trace capture_step \<sigma>" and r: "capture_attempts n (\<lambda>i. cs_timeline (\<sigma> i)) k = Some m"
  shows "\<exists>i \<ge> k. i \<le> k + 5 * n \<and> cs_published (\<sigma> i) \<noteq> [] \<and> m = last (cs_published (\<sigma> i))"
  using r
proof (induction n arbitrary: k)
  case (Suc n)
  let ?v = "\<lambda>i. captureVersion (cs_timeline (\<sigma> i))"
  have invs: "capture_inv (\<sigma> i)" for i using capture_steps [OF trace_le [OF tr, of 0 i] inv] by simp
  have steps: "live_capture_step\<^sup>*\<^sup>* (\<sigma> i) (\<sigma> j)" if "i \<le> j" for i j using capture_steps [OF trace_le [OF tr that] invs] by simp
  consider "?v k = 0 \<or> odd (?v k)" | "?v k \<noteq> 0" "even (?v k)" "?v (k + 4) \<noteq> ?v k" | "?v k \<noteq> 0" "even (?v k)" "?v (k + 4) = ?v k" by blast
  then show ?case
  proof cases
    case 1
    then obtain i where "i \<ge> k + 1" "i \<le> k + 1 + 5 * n" "cs_published (\<sigma> i) \<noteq> []" "m = last (cs_published (\<sigma> i))"
      using Suc.IH [of "k + 1"] Suc.prems by (auto simp: Let_def)
    then show ?thesis by (intro exI [of _ i]) auto
  next
    case 2
    then obtain i where "i \<ge> k + 5" "i \<le> k + 5 + 5 * n" "cs_published (\<sigma> i) \<noteq> []" "m = last (cs_published (\<sigma> i))"
      using Suc.IH [of "k + 5"] Suc.prems by (auto simp: Let_def)
    then show ?thesis by (intro exI [of _ i]) auto
  next
    case 3
    have c: "content (cs_timeline (\<sigma> (k + j))) = content (cs_timeline (\<sigma> k))" if "j \<le> 4" for j
      using capture_lock.read_consistent [OF steps [of k "k + j"] steps [of "k + j" "k + 4"]] 3 that by simp
    have "m = content (cs_timeline (\<sigma> k))"
      using Suc.prems 3 c [of 1] c [of 2] c [of 3] by (simp add: Let_def content_def)
    moreover have "?v k = 2 * length (cs_published (\<sigma> k))" using capture_invD(6) [OF invs [of k]] 3(2) by auto
    moreover from this have "cs_published (\<sigma> k) \<noteq> []" using 3(1) by auto
    ultimately show ?thesis using capture_invD(7) [OF invs [of k]] by (intro exI [of _ k]) auto
  qed
qed simp

text \<open>A reader that finds no writer succeeds at once, so an observed capture is available while the publisher is quiet.\<close>

lemma captureMapping_quiet:
  assumes "capture_inv s" and "even (captureVersion (cs_timeline s))" and "cs_published s \<noteq> []"
  shows "captureMapping (\<lambda>_. cs_timeline s) = Some (last (cs_published s))"
proof -
  have v: "captureVersion (cs_timeline s) = 2 * length (cs_published s)" using capture_invD(6) [OF assms(1)] assms(2) by auto
  then have "captureVersion (cs_timeline s) \<noteq> 0" using assms(3) by simp
  then have "captureMapping (\<lambda>_. cs_timeline s) = Some (content (cs_timeline s))"
    using assms(2) by (simp add: captureMapping_def numeral_eq_Suc Let_def content_def)
  then show ?thesis using capture_invD(7) [OF assms(1) v assms(3)] by simp
qed

section \<open>Timelines of one peer connection\<close>

definition registry_ok :: "(u32, Timeline) gomap \<Rightarrow> bool" where
  "registry_ok entries \<longleftrightarrow>
     distinct (map fst entries) \<and> length entries \<le> maxTimelinesPerDirection \<and> (\<forall>(k, t) \<in> set entries. tl_ssrc t = k)"

lemma observe_ssrc [simp]: "tl_ssrc (observe sr at normalized t) = tl_ssrc t"
  by (simp add: observe_def Let_def split: option.split)

lemma registry_update:
  assumes "registry_ok entries" and "k \<in> fst ` set entries \<or> length entries < maxTimelinesPerDirection" and "tl_ssrc t = k"
  shows "registry_ok (AList.update k t entries)"
proof -
  have "length (AList.update k t entries) = (if k \<in> fst ` set entries then length entries else Suc (length entries))"
    by (induction entries) auto
  then have "length (AList.update k t entries) \<le> maxTimelinesPerDirection" using assms(1,2) by (auto simp: registry_ok_def)
  moreover have "set (AList.update k t entries) \<subseteq> insert (k, t) (set entries)" by (induction entries) (auto split: if_splits)
  then have "\<forall>(k', t') \<in> set (AList.update k t entries). tl_ssrc t' = k'" using assms(1,3) unfolding registry_ok_def by blast
  moreover have "distinct (map fst (AList.update k t entries))" using assms(1) by (simp add: registry_ok_def distinct_update)
  ultimately show ?thesis by (simp add: registry_ok_def)
qed

lemma timeline_in_ok:
  assumes "registry_ok entries" and "timeline_in entries ssrc = (r, entries')"
  shows "registry_ok entries'" and "r = Some t \<Longrightarrow> tl_ssrc t = ssrc \<and> ssrc \<in> fst ` set entries'"
proof -
  show "registry_ok entries'"
    using assms by (auto simp: timeline_in_def NewTimeline_def intro!: registry_update split: option.splits if_splits)
  show "tl_ssrc t = ssrc \<and> ssrc \<in> fst ` set entries'" if "r = Some t"
    using assms that by (auto simp: timeline_in_def NewTimeline_def registry_ok_def dom_update split: option.splits if_splits dest!: map_of_SomeD intro: rev_image_eqI)
qed

lemma observe_remote_ok:
  assumes "registry_ok entries"
  shows "registry_ok (observe_remote now report entries)"
proof (cases "timeline_in entries (sp_SSRC report)")
  case (Pair r entries')
  then show ?thesis using timeline_in_ok [OF assms Pair]
    by (cases r) (auto simp: observe_remote_def Observe_def intro!: registry_update)
qed

lemma observe_local_ok:
  assumes "registry_ok entries"
  shows "registry_ok (snd (observe_local mapping now report entries))"
proof (cases "timeline_in entries (sp_SSRC report)")
  case (Pair r entries')
  then show ?thesis using timeline_in_ok [OF assms Pair]
    by (cases r) (auto simp: observe_local_def Let_def intro!: registry_update)
qed

lemma remove_stream_ok:
  assumes "registry_ok entries"
  shows "registry_ok (remove_stream ssrc entries)"
proof -
  have "set (AList.delete ssrc entries) \<subseteq> set entries" by (auto simp: AList.delete_eq)
  moreover have "length (AList.delete ssrc entries) \<le> length entries" by (simp add: AList.delete_eq)
  moreover have "distinct (map fst (AList.delete ssrc entries))" using assms by (simp add: registry_ok_def distinct_delete)
  ultimately show ?thesis using assms unfolding registry_ok_def remove_stream_def by (meson le_trans subsetD)
qed

text \<open>Every operation of the observer keeps both directions bounded.\<close>

definition both_ok :: "clock_registry \<Rightarrow> bool" where
  "both_ok r \<longleftrightarrow> registry_ok (remote r) \<and> registry_ok (local_timelines r)"

lemma fold_registry_ok:
  "\<lbrakk>\<And>x entries. registry_ok entries \<Longrightarrow> registry_ok (f x entries); registry_ok entries\<rbrakk> \<Longrightarrow> registry_ok (fold f xs entries)"
  by (induction xs arbitrary: entries) auto

lemma reader_ok: "both_ok r \<Longrightarrow> both_ok (snd (BindRTCPReader read parse now r))"
  by (auto simp: BindRTCPReader_def both_ok_def intro!: fold_registry_ok observe_remote_ok split: prod.split option.split sum.split rtcp_packet.split)

lemma writer_ok: "both_ok r \<Longrightarrow> both_ok (snd (BindRTCPWriter mapping now packets r))"
proof (induction packets arbitrary: r)
  case (Cons p packets)
  have "both_ok (r\<lparr>local_timelines := snd (observe_local mapping now report (local_timelines r))\<rparr>)"
    for report using Cons.prems by (simp add: both_ok_def observe_local_ok)
  then show ?case using Cons by (cases p) (simp_all add: Let_def case_prod_beta)
qed simp

lemma bind_ok:
  "both_ok r \<Longrightarrow> both_ok (BindRemoteStream ssrc r)" "both_ok r \<Longrightarrow> both_ok (UnbindRemoteStream ssrc r)"
  "both_ok r \<Longrightarrow> both_ok (BindLocalStream ssrc r)" "both_ok r \<Longrightarrow> both_ok (UnbindLocalStream ssrc r)"
  unfolding BindRemoteStream_def UnbindRemoteStream_def BindLocalStream_def UnbindLocalStream_def both_ok_def
  by (auto intro: remove_stream_ok timeline_in_ok(1) [OF _ surjective_pairing])

text \<open>Reports are observed, rewritten at most in their NTP time, and passed on in order.\<close>

lemma writer_keeps_packets:
  "map (\<lambda>p. case p of SenderReportPacket r \<Rightarrow> SenderReportPacket (r\<lparr>sp_NTPTime := 0\<rparr>) | OtherPacket \<Rightarrow> OtherPacket)
     (fst (BindRTCPWriter mapping now packets r)) =
   map (\<lambda>p. case p of SenderReportPacket r \<Rightarrow> SenderReportPacket (r\<lparr>sp_NTPTime := 0\<rparr>) | OtherPacket \<Rightarrow> OtherPacket) packets"
proof (induction packets arbitrary: r)
  case (Cons p packets)
  have "(fst (observe_local mapping now report entries))\<lparr>sp_NTPTime := 0\<rparr> = report\<lparr>sp_NTPTime := 0\<rparr>" for entries report
    by (simp add: observe_local_def NormalizeSenderReport_def Let_def split: prod.split option.split)
  then show ?case using Cons by (cases p) (simp_all add: Let_def case_prod_beta)
qed simp

section \<open>Property\<close>

text \<open>C33. The capture clock read by the RTCP path is never torn.  While any number of goroutines observe packets, a mapping that
  \<^verbatim>\<open>captureMapping\<close> returns is one that a single \<^verbatim>\<open>ObserveCapture\<close> published, and the latest published at some moment of the
  reading.\<close>

theorem capture_mapping_whole:
  assumes "capture_reachable (\<sigma> 0)" and "trace capture_step \<sigma>" and "captureMapping (\<lambda>k. cs_timeline (\<sigma> k)) = Some m"
  shows "\<exists>k \<le> 20. cs_published (\<sigma> k) \<noteq> [] \<and> m = last (cs_published (\<sigma> k))"
  using capture_attempts_published [OF capture_reachable_inv [OF assms(1)] assms(2), of 4 0 m] assms(3) by (auto simp: captureMapping_def)

text \<open>One packet observed on a new timeline.\<close>

definition captured :: "nat \<Rightarrow> u32 \<Rightarrow> time \<Rightarrow> capture_pc \<Rightarrow> capture_mapping \<Rightarrow> capture_mapping list \<Rightarrow> capture_state" where
  "captured v rtp at pc stored_mapping published =
     \<lparr>cs_timeline = \<lparr>tl_ssrc = 7, tl_latest = None, captureVersion = v, captureRTPTime = fst stored_mapping,
        captureNTPTime = fst (snd stored_mapping), captureObservedNs = snd (snd stored_mapping)\<rparr>,
      cs_threads = [((rtp, timeToNTP at, at), pc)], cs_published = published\<rparr>"

lemma captured_reachable: "capture_reachable (captured 2 rtp at CapReturned (rtp, timeToNTP at, at) [(rtp, timeToNTP at, at)])"
proof -
  have "capture_reachable (captured 0 rtp at CapLoad (0, 0, 0) [])"
    using capture_reachable.step [OF capture_reachable.start [of 7] capture_step.call [where rtp = rtp and captureTime = at and observedAt = at]]
    by (simp add: captured_def NewTimeline_def)
  then have "capture_reachable (captured 0 rtp at (CapSwap 0) (0, 0, 0) [])"
    using capture_reachable.step [OF _ capture_step.load_even [where k = 0 and m = "(rtp, timeToNTP at, at)"]] by (fastforce simp: captured_def set_thread_def)
  then have "capture_reachable (captured 1 rtp at (CapRTP 0) (0, 0, 0) [])"
    using capture_reachable.step [OF _ capture_step.swap_won [where k = 0 and m = "(rtp, timeToNTP at, at)" and v = 0]]
    by (fastforce simp: captured_def store_mapping_def set_thread_def)
  then have "capture_reachable (captured 1 rtp at (CapNTP 0) (rtp, 0, 0) [])"
    using capture_reachable.step [OF _ capture_step.store_rtp [where k = 0 and m = "(rtp, timeToNTP at, at)" and v = 0]]
    by (fastforce simp: captured_def store_mapping_def set_thread_def)
  then have "capture_reachable (captured 1 rtp at (CapObserved 0) (rtp, timeToNTP at, 0) [])"
    using capture_reachable.step [OF _ capture_step.store_ntp [where k = 0 and m = "(rtp, timeToNTP at, at)" and v = 0]]
    by (fastforce simp: captured_def store_mapping_def set_thread_def)
  then have stored: "capture_reachable (captured 1 rtp at (CapPublish 0) (rtp, timeToNTP at, at) [])"
    using capture_reachable.step [OF _ capture_step.store_observed [where k = 0 and m = "(rtp, timeToNTP at, at)" and v = 0]]
    by (fastforce simp: captured_def store_mapping_def set_thread_def)
  show ?thesis
    using capture_reachable.step [OF stored capture_step.publish [where k = 0 and m = "(rtp, timeToNTP at, at)" and v = 0]]
    by (simp add: captured_def store_mapping_def set_thread_def numeral_2_eq_2)
qed

theorem capture_mapping_whole_witness:
  "let m = (960, timeToNTP 5, 5); s = captured 2 960 5 CapReturned m [m]
   in capture_reachable s \<and> captureMapping (\<lambda>_. cs_timeline s) = Some m \<and> m = last (cs_published s)"
proof -
  let ?m = "(960 :: u32, timeToNTP 5, 5 :: int)"
  let ?s = "captured 2 960 5 CapReturned ?m [?m]"
  have r: "capture_reachable ?s" by (rule captured_reachable)
  have m: "captureMapping (\<lambda>_. cs_timeline ?s) = Some ?m"
    using captureMapping_quiet [OF capture_reachable_inv [OF r]] by (simp add: captured_def)
  have "trace capture_step (\<lambda>_. ?s)" by (simp add: trace_def)
  from capture_mapping_whole [of "\<lambda>_. ?s", OF r this m] have "?m = last (cs_published ?s)" by blast
  then show ?thesis using r m unfolding Let_def by blast
qed

end
