(* ===== verification/Audio_Bus.thy ===== *)
theory Audio_Bus
  imports Packet_Log Clock_Lineage Rtp
begin

text \<open>
  One forwarding lane of a relay session, \<^verbatim>\<open>internal/session/audio_bus.go\<close> and \<^verbatim>\<open>bus.go\<close>: the attached source, its forwarding
  goroutine, the inactivity and reconnect timers, and the media health of the lane.  A source, a closer and a clock timeline
  are references; the channel \<^verbatim>\<open>loopDone\<close> is the number of the attachment that closes it; an armed timer is its deadline.
\<close>

section \<open>Roles\<close>

datatype BusRole = BusRoleVoice | BusRoleMusic | BusRoleAgentOutput | BusRoleEvents | BusRoleMonitor

definition BusMix :: string where "BusMix = ''mix''"

fun LatencyRank :: "BusRole \<Rightarrow> nat" where
  "LatencyRank BusRoleVoice = 0"
| "LatencyRank BusRoleAgentOutput = 0"
| "LatencyRank BusRoleMusic = 1"
| "LatencyRank BusRoleEvents = 2"
| "LatencyRank BusRoleMonitor = 3"

fun ReliabilityRank :: "BusRole \<Rightarrow> nat" where
  "ReliabilityRank BusRoleVoice = 0"
| "ReliabilityRank BusRoleAgentOutput = 0"
| "ReliabilityRank BusRoleMusic = 1"
| "ReliabilityRank BusRoleEvents = 2"
| "ReliabilityRank BusRoleMonitor = 3"

fun BusRole_String :: "BusRole \<Rightarrow> string" where
  "BusRole_String BusRoleVoice = ''voice''"
| "BusRole_String BusRoleMusic = ''music''"
| "BusRole_String BusRoleAgentOutput = ''agent_output''"
| "BusRole_String BusRoleEvents = ''events''"
| "BusRole_String BusRoleMonitor = ''monitor''"

section \<open>State\<close>

record AudioBus =
  ab_ID :: string
  ab_Role :: BusRole
  graphID :: string
  ab_PacketCount :: u64
  ab_ByteCount :: u64
  ab_PacketDropCount :: u64
  lastRTPAtNanos :: int
  sourceTimeline :: "nat option"
  sourceGeneration :: u64
  packetLog :: packetLogStore
  bus_source :: "nat option"
  sourceCloser :: "nat option"
  loopDone :: "nat option"
  inactivityTimer :: "time option"
  bus_inactivityTimeout :: duration
  reconnectTimer :: "time option"
  bus_reconnectWindow :: duration
  sourceEverConnected :: bool
  bus_done :: bool

definition newAudioBus :: "string \<Rightarrow> BusRole \<Rightarrow> string \<Rightarrow> duration \<Rightarrow> duration \<Rightarrow> time \<Rightarrow> AudioBus" where
  "newAudioBus bid role graph inactivity reconnect now =
     \<lparr>ab_ID = bid, ab_Role = role, graphID = graph, ab_PacketCount = 0, ab_ByteCount = 0, ab_PacketDropCount = 0, lastRTPAtNanos = 0,
      sourceTimeline = None, sourceGeneration = 0, packetLog = newPacketLogStore, bus_source = None, sourceCloser = None,
      loopDone = None, inactivityTimer = Some (now + inactivity), bus_inactivityTimeout = inactivity, reconnectTimer = None,
      bus_reconnectWindow = reconnect, sourceEverConnected = False, bus_done = False\<rparr>"

section \<open>Operations\<close>

text \<open>\<^verbatim>\<open>SetSource\<close>: the exchange under the lock, and what follows once the previous loop has closed its channel.\<close>

definition exchange_source :: "nat \<Rightarrow> nat option \<Rightarrow> nat option \<Rightarrow> nat \<Rightarrow> AudioBus \<Rightarrow> AudioBus" where
  "exchange_source src closer timeline newLoopDone b =
     b\<lparr>sourceGeneration := sourceGeneration b + 1, bus_source := Some src, sourceCloser := closer, loopDone := Some newLoopDone,
       sourceTimeline := timeline\<rparr>"

definition start_source :: "time \<Rightarrow> AudioBus \<Rightarrow> AudioBus" where
  "start_source now b = b\<lparr>inactivityTimer := None, reconnectTimer := None, sourceEverConnected := True, lastRTPAtNanos := now\<rparr>"

text \<open>One turn of \<^verbatim>\<open>forwardLoop\<close> for a packet, and its deferred detachment.\<close>

definition log_entry :: "rtp_packet \<Rightarrow> time \<Rightarrow> time \<Rightarrow> PacketLogEntry" where
  "log_entry pkt rxTs txTs =
     \<lparr>Seq = SequenceNumber pkt, RtpTsSamples = Timestamp pkt, le_PayloadType = RtpPayloadType pkt, Ssrc = SSRC pkt,
      PayloadBytes = of_nat (length (RtpPayload pkt)), le_Padding = Padding pkt, PaddingBytes = PaddingSize pkt,
      RxTsNs = rxTs, TxTsNs = txTs\<rparr>"

definition count_packet :: "rtp_packet \<Rightarrow> time \<Rightarrow> AudioBus \<Rightarrow> AudioBus" where
  "count_packet pkt rxTs b =
     b\<lparr>ab_PacketCount := ab_PacketCount b + 1, ab_ByteCount := ab_ByteCount b + of_nat (length (RtpPayload pkt)), lastRTPAtNanos := rxTs\<rparr>"

definition log_packet :: "rtp_packet \<Rightarrow> time \<Rightarrow> time \<Rightarrow> AudioBus \<Rightarrow> AudioBus" where
  "log_packet pkt rxTs txTs b = b\<lparr>packetLog := record_entry (log_entry pkt rxTs txTs) (packetLog b)\<rparr>"

definition detach_source :: "nat \<Rightarrow> AudioBus \<Rightarrow> AudioBus" where
  "detach_source src b =
     (if bus_source b = Some src then b\<lparr>bus_source := None, sourceCloser := None, sourceTimeline := None\<rparr> else b)"

definition arm_reconnect :: "time \<Rightarrow> AudioBus \<Rightarrow> AudioBus" where
  "arm_reconnect now b = b\<lparr>reconnectTimer := Some (now + bus_reconnectWindow b)\<rparr>"

definition bus_close :: "AudioBus \<Rightarrow> AudioBus" where
  "bus_close b = (if bus_done b then b else b\<lparr>inactivityTimer := None, reconnectTimer := None, bus_done := True\<rparr>)"

definition bus_SourceActive :: "AudioBus \<Rightarrow> bool" where
  "bus_SourceActive b \<longleftrightarrow> bus_source b \<noteq> None"

definition bus_CaptureTime :: "(nat \<Rightarrow> Timeline) \<Rightarrow> AudioBus \<Rightarrow> u32 \<Rightarrow> time \<Rightarrow> time option" where
  "bus_CaptureTime timelines b rtpTimestamp now =
     (case sourceTimeline b of None \<Rightarrow> None | Some t \<Rightarrow> CaptureTime (timelines t) rtpTimestamp now 48000 (10 * second))"

record SourceClockSnapshot =
  sc_BusID :: string
  Known :: bool
  sc_SSRC :: u32
  sc_NTPTime :: u64
  sc_RTPTime :: u32
  sc_ObservedAtNs :: int
  sc_ReportCount :: u64

definition bus_SourceClockSnapshot :: "(nat \<Rightarrow> Timeline) \<Rightarrow> AudioBus \<Rightarrow> SourceClockSnapshot" where
  "bus_SourceClockSnapshot timelines b =
     (case sourceTimeline b of
        None \<Rightarrow> \<lparr>sc_BusID = ab_ID b, Known = False, sc_SSRC = 0, sc_NTPTime = 0, sc_RTPTime = 0, sc_ObservedAtNs = 0, sc_ReportCount = 0\<rparr>
      | Some t \<Rightarrow>
          let (snapshot, ok) = Snapshot (timelines t)
          in \<lparr>sc_BusID = ab_ID b, Known = ok, sc_SSRC = sn_SSRC snapshot, sc_NTPTime = sn_NTPTime snapshot, sc_RTPTime = sn_RTPTime snapshot,
              sc_ObservedAtNs = sn_ObservedAtNs snapshot, sc_ReportCount = sn_ReportCount snapshot\<rparr>)"

definition LastRTPAge :: "time \<Rightarrow> AudioBus \<Rightarrow> duration" where
  "LastRTPAge now b = (if lastRTPAtNanos b = 0 then max_int64 else time_Sub now (lastRTPAtNanos b))"

definition Stalled :: "duration \<Rightarrow> time \<Rightarrow> AudioBus \<Rightarrow> bool" where
  "Stalled threshold now b \<longleftrightarrow> bus_SourceActive b \<and> LastRTPAge now b > threshold"

record BusHealth =
  bh_BusID :: string
  bh_Role :: string
  bh_SourceActive :: bool
  bh_Stalled :: bool
  LastRTPAgeMs :: int
  bh_PacketCount :: u64
  bh_ByteCount :: u64
  bh_DropCount :: u64

definition bus_Health :: "duration \<Rightarrow> time \<Rightarrow> AudioBus \<Rightarrow> BusHealth" where
  "bus_Health threshold now b =
     (let age = LastRTPAge now b
      in \<lparr>bh_BusID = ab_ID b, bh_Role = BusRole_String (ab_Role b), bh_SourceActive = bus_SourceActive b, bh_Stalled = Stalled threshold now b,
          LastRTPAgeMs = (if age \<noteq> max_int64 then age sdiv millisecond else -1), bh_PacketCount = ab_PacketCount b,
          bh_ByteCount = ab_ByteCount b, bh_DropCount = ab_PacketDropCount b\<rparr>)"

section \<open>Attachments\<close>

text \<open>
  The goroutines of one bus.  An attachment is a call of \<^verbatim>\<open>SetSource\<close> and the forwarding loop it starts: waiting for the previous
  loop, reading, detaching, looking whether the bus is closed, arming the reconnect timer, returned with its channel closed.
  Every publisher brings a source object of its own.
\<close>

datatype attachment_pc = SetWait | LoopRead | LoopDetach | LoopCheck | LoopArm | LoopExited

record attachment =
  at_src :: nat
  at_generation :: u64
  at_prevDone :: "nat option"
  at_pc :: attachment_pc

record bus_system =
  bs_bus :: AudioBus
  bs_attachments :: "attachment list"
  bs_firing :: nat
  bs_forwarded :: "nat list"

definition set_attachment :: "nat \<Rightarrow> attachment_pc \<Rightarrow> (AudioBus \<Rightarrow> AudioBus) \<Rightarrow> bus_system \<Rightarrow> bus_system" where
  "set_attachment i pc f s =
     s\<lparr>bs_attachments := (bs_attachments s)[i := (bs_attachments s ! i)\<lparr>at_pc := pc\<rparr>], bs_bus := f (bs_bus s)\<rparr>"

definition at_loop :: "bus_system \<Rightarrow> nat \<Rightarrow> attachment_pc \<Rightarrow> bool" where
  "at_loop s i pc \<longleftrightarrow> i < length (bs_attachments s) \<and> at_pc (bs_attachments s ! i) = pc"

inductive bus_system_step :: "bus_system \<Rightarrow> bus_system \<Rightarrow> bool" where
  set_source: "src \<notin> at_src ` set (bs_attachments s) \<Longrightarrow>
    bus_system_step s
      (s\<lparr>bs_bus := exchange_source src closer timeline (length (bs_attachments s)) (bs_bus s),
         bs_attachments := bs_attachments s @
           [\<lparr>at_src = src, at_generation = sourceGeneration (bs_bus s) + 1, at_prevDone = loopDone (bs_bus s), at_pc = SetWait\<rparr>]\<rparr>)"
| started: "\<lbrakk>at_loop s i SetWait; \<forall>j. at_prevDone (bs_attachments s ! i) = Some j \<longrightarrow> at_loop s j LoopExited\<rbrakk> \<Longrightarrow>
    bus_system_step s (set_attachment i LoopRead (start_source now) s)"
| forwarded: "\<lbrakk>at_loop s i LoopRead; \<not> bus_done (bs_bus s)\<rbrakk> \<Longrightarrow>
    bus_system_step s (set_attachment i LoopRead (log_packet pkt rxTs txTs \<circ> count_packet pkt rxTs) (s\<lparr>bs_forwarded := bs_forwarded s @ [i]\<rparr>))"
| read_ended: "at_loop s i LoopRead \<Longrightarrow> bus_system_step s (set_attachment i LoopDetach (\<lambda>b. b) s)"
| detached: "at_loop s i LoopDetach \<Longrightarrow> bus_system_step s (set_attachment i LoopCheck (detach_source (at_src (bs_attachments s ! i))) s)"
| bus_open: "\<lbrakk>at_loop s i LoopCheck; \<not> bus_done (bs_bus s)\<rbrakk> \<Longrightarrow> bus_system_step s (set_attachment i LoopArm (\<lambda>b. b) s)"
| bus_shut: "\<lbrakk>at_loop s i LoopCheck; bus_done (bs_bus s)\<rbrakk> \<Longrightarrow> bus_system_step s (set_attachment i LoopExited (\<lambda>b. b) s)"
| armed: "at_loop s i LoopArm \<Longrightarrow> bus_system_step s (set_attachment i LoopExited (arm_reconnect now) s)"
| inactive: "inactivityTimer (bs_bus s) = Some t \<Longrightarrow>
    bus_system_step s (s\<lparr>bs_bus := (bs_bus s)\<lparr>inactivityTimer := None\<rparr>, bs_firing := bs_firing s + 1\<rparr>)"
| not_reconnected: "reconnectTimer (bs_bus s) = Some t \<Longrightarrow>
    bus_system_step s (s\<lparr>bs_bus := (bs_bus s)\<lparr>reconnectTimer := None\<rparr>, bs_firing := bs_firing s + 1\<rparr>)"
| timer_closes: "bs_firing s > 0 \<Longrightarrow> bus_system_step s (s\<lparr>bs_bus := bus_close (bs_bus s), bs_firing := bs_firing s - 1\<rparr>)"
| session_closes: "bus_system_step s (s\<lparr>bs_bus := bus_close (bs_bus s)\<rparr>)"

inductive bus_system_reachable :: "bus_system \<Rightarrow> bool" where
  start: "bus_system_reachable \<lparr>bs_bus = newAudioBus bid role graph inactivity reconnect now, bs_attachments = [], bs_firing = 0, bs_forwarded = []\<rparr>"
| step: "\<lbrakk>bus_system_reachable s; bus_system_step s s'\<rbrakk> \<Longrightarrow> bus_system_reachable s'"

section \<open>Invariant\<close>

definition running :: "attachment_pc \<Rightarrow> bool" where
  "running pc \<longleftrightarrow> pc \<noteq> SetWait \<and> pc \<noteq> LoopExited"

definition attached :: "attachment_pc \<Rightarrow> bool" where
  "attached pc \<longleftrightarrow> pc \<in> {SetWait, LoopRead, LoopDetach}"

text \<open>Attachments wait for one another in the order of their generations.\<close>

definition chained :: "bus_system \<Rightarrow> bool" where
  "chained s \<longleftrightarrow>
     loopDone (bs_bus s) = (if bs_attachments s = [] then None else Some (length (bs_attachments s) - 1)) \<and>
     sourceGeneration (bs_bus s) = of_nat (length (bs_attachments s)) \<and>
     (\<forall>i < length (bs_attachments s).
        at_prevDone (bs_attachments s ! i) = (if i = 0 then None else Some (i - 1)) \<and>
        at_generation (bs_attachments s ! i) = of_nat (Suc i) \<and>
        (at_pc (bs_attachments s ! i) \<noteq> SetWait \<longrightarrow> (\<forall>j < i. at_pc (bs_attachments s ! j) = LoopExited)))"

definition source_latest :: "bus_system \<Rightarrow> bool" where
  "source_latest s \<longleftrightarrow>
     distinct (map at_src (bs_attachments s)) \<and>
     bus_source (bs_bus s) =
       (if bs_attachments s \<noteq> [] \<and> attached (at_pc (last (bs_attachments s))) then Some (at_src (last (bs_attachments s))) else None)"

definition timers_quiet :: "bus_system \<Rightarrow> bool" where
  "timers_quiet s \<longleftrightarrow>
     (\<forall>i < length (bs_attachments s). running (at_pc (bs_attachments s ! i)) \<longrightarrow>
        inactivityTimer (bs_bus s) = None \<and> reconnectTimer (bs_bus s) = None)"

definition forwarded_in_order :: "bus_system \<Rightarrow> bool" where
  "forwarded_in_order s \<longleftrightarrow> sorted (bs_forwarded s) \<and>
     (\<forall>i \<in> set (bs_forwarded s). i < length (bs_attachments s) \<and> at_pc (bs_attachments s ! i) \<noteq> SetWait)"

definition bus_system_inv :: "bus_system \<Rightarrow> bool" where
  "bus_system_inv s \<longleftrightarrow> chained s \<and> source_latest s \<and> timers_quiet s \<and> forwarded_in_order s"

lemma chained_order:
  assumes "chained s" and "i < length (bs_attachments s)" and "at_pc (bs_attachments s ! i) \<noteq> SetWait" and "j < i"
  shows "at_pc (bs_attachments s ! j) = LoopExited"
  using assms unfolding chained_def by blast

lemma running_alone:
  assumes "chained s" and "i < length (bs_attachments s)" "j < length (bs_attachments s)"
    and "running (at_pc (bs_attachments s ! i))" and "running (at_pc (bs_attachments s ! j))"
  shows "i = j"
proof (rule ccontr)
  assume "i \<noteq> j"
  then consider "i < j" | "j < i" by linarith
  then show False using chained_order [OF assms(1)] assms unfolding running_def by cases blast+
qed

lemma set_attachment_fields [simp]:
  "bs_bus (set_attachment i pc f s) = f (bs_bus s)" "bs_forwarded (set_attachment i pc f s) = bs_forwarded s"
  "length (bs_attachments (set_attachment i pc f s)) = length (bs_attachments s)"
  "bs_attachments (set_attachment i pc f s) = [] \<longleftrightarrow> bs_attachments s = []"
  by (simp_all add: set_attachment_def)

lemma set_attachment_nth:
  "j < length (bs_attachments s) \<Longrightarrow> bs_attachments (set_attachment i pc f s) ! j =
     (if j = i then (bs_attachments s ! i)\<lparr>at_pc := pc\<rparr> else bs_attachments s ! j)"
  by (simp add: set_attachment_def nth_list_update)

lemma chained_set:
  assumes ch: "chained s" and i: "at_loop s i pc" and pc: "pc \<noteq> LoopExited" "pc' \<noteq> SetWait"
    and prev: "\<And>j. j < i \<Longrightarrow> at_pc (bs_attachments s ! j) = LoopExited"
    and f: "loopDone (f (bs_bus s)) = loopDone (bs_bus s)" "sourceGeneration (f (bs_bus s)) = sourceGeneration (bs_bus s)"
  shows "chained (set_attachment i pc' f s)"
proof -
  have later: "at_pc (bs_attachments s ! k) = SetWait" if "i < k" "k < length (bs_attachments s)" for k
    using chained_order [OF ch that(2) _ that(1)] i pc(1) by (auto simp: at_loop_def)
  have "at_prevDone (bs_attachments (set_attachment i pc' f s) ! k) = (if k = 0 then None else Some (k - 1)) \<and>
        at_generation (bs_attachments (set_attachment i pc' f s) ! k) = of_nat (Suc k) \<and>
        (at_pc (bs_attachments (set_attachment i pc' f s) ! k) \<noteq> SetWait \<longrightarrow>
          (\<forall>j < k. at_pc (bs_attachments (set_attachment i pc' f s) ! j) = LoopExited))"
    if k: "k < length (bs_attachments s)" for k
  proof (intro conjI impI allI)
    fix j assume "at_pc (bs_attachments (set_attachment i pc' f s) ! k) \<noteq> SetWait" and "j < k"
    then have "k = i \<or> k < i" using later k by (cases k i rule: linorder_cases) (auto simp: set_attachment_nth)
    then have "j < i" using \<open>j < k\<close> by auto
    then show "at_pc (bs_attachments (set_attachment i pc' f s) ! j) = LoopExited"
      using prev \<open>j < k\<close> k by (simp add: set_attachment_nth)
  qed (use ch k in \<open>auto simp: chained_def set_attachment_nth\<close>)
  then show ?thesis using ch f unfolding chained_def by simp
qed

lemma timers_set:
  assumes "timers_quiet s" and "at_loop s i pc" and "running pc"
    and "inactivityTimer (f (bs_bus s)) = inactivityTimer (bs_bus s)" and "reconnectTimer (f (bs_bus s)) = reconnectTimer (bs_bus s)"
  shows "timers_quiet (set_attachment i pc' f s)"
  using assms unfolding timers_quiet_def at_loop_def by (metis set_attachment_fields(1,3))

lemma last_set:
  assumes "bs_attachments s \<noteq> []"
  shows "last (bs_attachments (set_attachment i pc f s)) =
    (if i = length (bs_attachments s) - 1 then (last (bs_attachments s))\<lparr>at_pc := pc\<rparr> else last (bs_attachments s))"
proof -
  have "last (bs_attachments (set_attachment i pc f s)) = bs_attachments (set_attachment i pc f s) ! (length (bs_attachments s) - 1)"
    using assms by (simp add: last_conv_nth)
  then show ?thesis using assms by (simp add: set_attachment_nth last_conv_nth)
qed

lemma map_src_set [simp]: "map at_src (bs_attachments (set_attachment i pc f s)) = map at_src (bs_attachments s)"
  by (rule nth_equalityI) (auto simp: set_attachment_nth)

lemma source_set:
  assumes src: "source_latest s" and i: "at_loop s i pc" and "attached pc' = attached pc" and "bus_source (f (bs_bus s)) = bus_source (bs_bus s)"
  shows "source_latest (set_attachment i pc' f s)"
proof -
  have "bs_attachments s \<noteq> []" using i by (auto simp: at_loop_def)
  moreover have "at_pc (last (bs_attachments s)) = pc" if "i = length (bs_attachments s) - 1"
    using i that calculation by (simp add: at_loop_def last_conv_nth)
  ultimately show ?thesis using assms unfolding source_latest_def map_src_set by (auto simp: last_set)
qed

lemma source_detached:
  assumes src: "source_latest s" and i: "at_loop s i LoopDetach"
  shows "source_latest (set_attachment i LoopCheck (detach_source (at_src (bs_attachments s ! i))) s)"
proof -
  let ?n = "length (bs_attachments s) - 1"
  have ne: "bs_attachments s \<noteq> []" and il: "i < length (bs_attachments s)" using i by (auto simp: at_loop_def)
  show ?thesis
  proof (cases "i = ?n")
    case True
    then have "last (bs_attachments s) = bs_attachments s ! i" using ne by (simp add: last_conv_nth)
    then show ?thesis using src i ne True unfolding source_latest_def map_src_set
      by (auto simp: last_set detach_source_def attached_def at_loop_def)
  next
    case False
    have "at_src (bs_attachments s ! i) \<noteq> at_src (last (bs_attachments s))"
      using src il ne False nth_eq_iff_index_eq [of "map at_src (bs_attachments s)" i ?n]
      by (auto simp: source_latest_def last_conv_nth)
    then have "bus_source (bs_bus s) \<noteq> Some (at_src (bs_attachments s ! i))" using src by (auto simp: source_latest_def)
    then have "detach_source (at_src (bs_attachments s ! i)) (bs_bus s) = bs_bus s" by (simp add: detach_source_def)
    then show ?thesis using src ne False unfolding source_latest_def map_src_set by (auto simp: last_set)
  qed
qed

lemma forwarded_set:
  "\<lbrakk>forwarded_in_order s; pc' \<noteq> SetWait\<rbrakk> \<Longrightarrow> forwarded_in_order (set_attachment i pc' f s)"
  unfolding forwarded_in_order_def by (auto simp: set_attachment_nth)

lemma loop_step_inv:
  assumes inv: "bus_system_inv s" and i: "at_loop s i pc" and pc: "running pc" "pc' \<noteq> SetWait" "attached pc' = attached pc"
    and f: "loopDone (f (bs_bus s)) = loopDone (bs_bus s)" "sourceGeneration (f (bs_bus s)) = sourceGeneration (bs_bus s)"
      "bus_source (f (bs_bus s)) = bus_source (bs_bus s)" "inactivityTimer (f (bs_bus s)) = inactivityTimer (bs_bus s)"
      "reconnectTimer (f (bs_bus s)) = reconnectTimer (bs_bus s)"
  shows "bus_system_inv (set_attachment i pc' f s)"
proof -
  have "at_pc (bs_attachments s ! j) = LoopExited" if "j < i" for j
    using chained_order [of s i j] inv i pc(1) that by (auto simp: bus_system_inv_def at_loop_def running_def)
  moreover have "pc \<noteq> LoopExited" using pc(1) by (simp add: running_def)
  ultimately show ?thesis using inv i pc f unfolding bus_system_inv_def
    by (intro conjI chained_set [where pc = pc] source_set [where pc = pc] timers_set [where pc = pc] forwarded_set) auto
qed

lemma bus_change_inv:
  assumes "bus_system_inv s" and "bs_attachments s' = bs_attachments s" "bs_forwarded s' = bs_forwarded s"
    and "loopDone (bs_bus s') = loopDone (bs_bus s)" "sourceGeneration (bs_bus s') = sourceGeneration (bs_bus s)"
      "bus_source (bs_bus s') = bus_source (bs_bus s)"
    and "inactivityTimer (bs_bus s') \<in> {None, inactivityTimer (bs_bus s)}" "reconnectTimer (bs_bus s') \<in> {None, reconnectTimer (bs_bus s)}"
  shows "bus_system_inv s'"
proof -
  note inv = assms(1) [unfolded bus_system_inv_def]
  have "chained s' = chained s" unfolding chained_def assms(2,4,5) by (rule refl)
  moreover have "source_latest s' = source_latest s" unfolding source_latest_def assms(2,6) by (rule refl)
  moreover have "timers_quiet s'" using inv assms(7,8) unfolding timers_quiet_def assms(2) by force
  moreover have "forwarded_in_order s' = forwarded_in_order s" unfolding forwarded_in_order_def assms(2,3) by (rule refl)
  ultimately show ?thesis using inv by (simp only: bus_system_inv_def)
qed

lemma attach_inv:
  assumes inv: "bus_system_inv s" and new: "src \<notin> at_src ` set (bs_attachments s)"
  shows "bus_system_inv (s\<lparr>bs_bus := exchange_source src closer timeline (length (bs_attachments s)) (bs_bus s),
    bs_attachments := bs_attachments s @
      [\<lparr>at_src = src, at_generation = sourceGeneration (bs_bus s) + 1, at_prevDone = loopDone (bs_bus s), at_pc = SetWait\<rparr>]\<rparr>)"
    (is "bus_system_inv ?s")
proof -
  have ch: "chained s" and rest: "source_latest s" "timers_quiet s" "forwarded_in_order s" using inv by (auto simp: bus_system_inv_def)
  have "chained ?s" using ch unfolding chained_def exchange_source_def
    by (auto simp: nth_append less_Suc_eq)
  moreover have "source_latest ?s" using rest(1) new by (auto simp: source_latest_def exchange_source_def attached_def)
  moreover have "timers_quiet ?s" using rest(2) by (auto simp: timers_quiet_def exchange_source_def running_def nth_append less_Suc_eq)
  moreover have "forwarded_in_order ?s" using rest(3) by (auto simp: forwarded_in_order_def nth_append)
  ultimately show ?thesis by (simp add: bus_system_inv_def)
qed

lemma started_inv:
  assumes inv: "bus_system_inv s" and i: "at_loop s i SetWait"
    and prev: "\<forall>j. at_prevDone (bs_attachments s ! i) = Some j \<longrightarrow> at_loop s j LoopExited"
  shows "bus_system_inv (set_attachment i LoopRead (start_source now) s)"
proof -
  have ch: "chained s" and rest: "source_latest s" "timers_quiet s" "forwarded_in_order s" using inv by (auto simp: bus_system_inv_def)
  have "at_pc (bs_attachments s ! j) = LoopExited" if "j < i" for j
  proof -
    have "at_prevDone (bs_attachments s ! i) = Some (i - 1)" using ch i that by (auto simp: chained_def at_loop_def)
    then have last: "at_loop s (i - 1) LoopExited" using prev by blast
    then show ?thesis using chained_order [OF ch, of "i - 1" j] that by (cases "j = i - 1") (auto simp: at_loop_def)
  qed
  then show ?thesis using ch rest i unfolding bus_system_inv_def
    by (intro conjI chained_set [where pc = SetWait] source_set [where pc = SetWait] forwarded_set)
      (auto simp: start_source_def attached_def timers_quiet_def)
qed

lemma armed_inv:
  assumes inv: "bus_system_inv s" and i: "at_loop s i LoopArm"
  shows "bus_system_inv (set_attachment i LoopExited (arm_reconnect now) s)"
proof -
  have ch: "chained s" and rest: "source_latest s" "forwarded_in_order s" using inv by (auto simp: bus_system_inv_def)
  have "at_pc (bs_attachments s ! j) = LoopExited" if "j < i" for j
    using chained_order [OF ch, of i j] i that by (auto simp: at_loop_def)
  moreover have "\<not> running (at_pc (bs_attachments (set_attachment i LoopExited (arm_reconnect now) s) ! j))" if "j < length (bs_attachments s)" for j
  proof (cases "j = i")
    case False
    have "running (at_pc (bs_attachments s ! i))" "i < length (bs_attachments s)" using i by (simp_all add: at_loop_def running_def)
    then have "\<not> running (at_pc (bs_attachments s ! j))" using running_alone [OF ch _ that] False by blast
    then show ?thesis using that False by (simp add: set_attachment_nth)
  qed (use that in \<open>simp add: set_attachment_nth running_def\<close>)
  ultimately show ?thesis using ch rest i unfolding bus_system_inv_def
    by (intro conjI chained_set [where pc = LoopArm] source_set [where pc = LoopArm] forwarded_set)
      (auto simp: arm_reconnect_def attached_def timers_quiet_def)
qed

lemma forward_inv:
  assumes inv: "bus_system_inv s" and i: "at_loop s i LoopRead"
  shows "bus_system_inv (s\<lparr>bs_forwarded := bs_forwarded s @ [i]\<rparr>)"
proof -
  have ch: "chained s" and fwd: "forwarded_in_order s" using inv by (auto simp: bus_system_inv_def)
  have "j \<le> i" if "j \<in> set (bs_forwarded s)" for j
  proof (rule ccontr)
    assume "\<not> j \<le> i"
    then show False using chained_order [OF ch, of j i] fwd that i by (auto simp: forwarded_in_order_def at_loop_def)
  qed
  then have "forwarded_in_order (s\<lparr>bs_forwarded := bs_forwarded s @ [i]\<rparr>)"
    using fwd i by (auto simp: forwarded_in_order_def sorted_append at_loop_def)
  moreover have "chained (s\<lparr>bs_forwarded := bs_forwarded s @ [i]\<rparr>)" using ch by (simp add: chained_def)
  ultimately show ?thesis using inv by (simp add: bus_system_inv_def source_latest_def timers_quiet_def)
qed

lemma bus_system_step_inv: "\<lbrakk>bus_system_step s s'; bus_system_inv s\<rbrakk> \<Longrightarrow> bus_system_inv s'"
proof (induction rule: bus_system_step.induct)
  case (forwarded s i pkt rxTs txTs)
  have "at_loop (s\<lparr>bs_forwarded := bs_forwarded s @ [i]\<rparr>) i LoopRead" using forwarded.hyps(1) by (simp add: at_loop_def)
  with forward_inv [OF forwarded.prems forwarded.hyps(1)] show ?case
    by (rule loop_step_inv) (simp_all add: running_def log_packet_def count_packet_def)
next
  case (read_ended s i)
  from read_ended.prems read_ended.hyps show ?case by (rule loop_step_inv) (simp_all add: running_def attached_def)
next
  case (detached s i)
  have ch: "chained s" and rest: "source_latest s" "timers_quiet s" "forwarded_in_order s" using detached.prems by (auto simp: bus_system_inv_def)
  have "at_pc (bs_attachments s ! j) = LoopExited" if "j < i" for j
    using chained_order [OF ch, of i j] detached.hyps that by (auto simp: at_loop_def)
  then show ?case using ch rest detached.hyps source_detached [OF rest(1) detached.hyps] unfolding bus_system_inv_def
    by (intro conjI chained_set [where pc = LoopDetach] timers_set [where pc = LoopDetach] forwarded_set)
      (auto simp: detach_source_def running_def)
next
  case (bus_open s i)
  from bus_open.prems bus_open.hyps(1) show ?case by (rule loop_step_inv) (simp_all add: running_def attached_def)
next
  case (bus_shut s i)
  from bus_shut.prems bus_shut.hyps(1) show ?case by (rule loop_step_inv) (simp_all add: running_def attached_def)
next
  case (inactive s t)
  from inactive.prems show ?case by (rule bus_change_inv) simp_all
next
  case (not_reconnected s t)
  from not_reconnected.prems show ?case by (rule bus_change_inv) simp_all
next
  case (timer_closes s)
  from timer_closes.prems show ?case by (rule bus_change_inv) (simp_all add: bus_close_def)
next
  case (session_closes s)
  from session_closes.prems show ?case by (rule bus_change_inv) (simp_all add: bus_close_def)
qed (auto intro: attach_inv started_inv armed_inv)

lemma bus_system_reachable_inv: "bus_system_reachable s \<Longrightarrow> bus_system_inv s"
proof (induction rule: bus_system_reachable.induct)
  case start
  then show ?case
    by (simp add: bus_system_inv_def chained_def source_latest_def timers_quiet_def forwarded_in_order_def newAudioBus_def)
qed (rule bus_system_step_inv)

section \<open>Property\<close>

text \<open>C16. One goroutine forwards at a time.  However publishers attach, fail and replace each other while timers fire and the session
  closes, at most one forwarding loop of a bus is alive, so the packet log has the single writer it relies on; packets of a
  replaced source never follow packets of its successor; no timer is armed while a loop is alive; and the bus names as its source
  exactly the latest attachment that has not ended.\<close>

theorem one_forwarder_per_bus:
  assumes "bus_system_reachable s"
  shows "(\<forall>i j. i < length (bs_attachments s) \<and> j < length (bs_attachments s) \<and> running (at_pc (bs_attachments s ! i)) \<and>
      running (at_pc (bs_attachments s ! j)) \<longrightarrow> i = j) \<and>
    sorted (bs_forwarded s) \<and>
    (\<forall>a \<in> set (bs_attachments s). running (at_pc a) \<longrightarrow> inactivityTimer (bs_bus s) = None \<and> reconnectTimer (bs_bus s) = None) \<and>
    bus_source (bs_bus s) =
      (if bs_attachments s \<noteq> [] \<and> attached (at_pc (last (bs_attachments s))) then Some (at_src (last (bs_attachments s))) else None) \<and>
    map at_generation (bs_attachments s) = map (\<lambda>i. of_nat (Suc i)) [0..<length (bs_attachments s)]"
proof -
  note inv = bus_system_reachable_inv [OF assms, unfolded bus_system_inv_def]
  have "map at_generation (bs_attachments s) = map (\<lambda>i. of_nat (Suc i)) [0..<length (bs_attachments s)]"
    using inv by (intro nth_equalityI) (auto simp: chained_def)
  moreover have "\<forall>a \<in> set (bs_attachments s). running (at_pc a) \<longrightarrow> inactivityTimer (bs_bus s) = None \<and> reconnectTimer (bs_bus s) = None"
    using inv unfolding timers_quiet_def by (metis in_set_conv_nth)
  ultimately show ?thesis using inv running_alone [of s] unfolding forwarded_in_order_def source_latest_def by blast
qed

text \<open>Two publishers, the second waiting for the first to end.\<close>

definition handover :: bus_system where
  "handover =
     \<lparr>bs_bus = exchange_source 12 None None 1 (start_source 5 (exchange_source 11 None None 0 (newAudioBus ''mic'' BusRoleVoice ''g'' 30 60 0))),
      bs_attachments = [\<lparr>at_src = 11, at_generation = 1, at_prevDone = None, at_pc = LoopRead\<rparr>,
        \<lparr>at_src = 12, at_generation = 2, at_prevDone = Some 0, at_pc = SetWait\<rparr>],
      bs_firing = 0, bs_forwarded = []\<rparr>"

lemma handover_reachable: "bus_system_reachable handover"
proof -
  let ?b = "newAudioBus ''mic'' BusRoleVoice ''g'' 30 60 0"
  let ?s0 = "\<lparr>bs_bus = ?b, bs_attachments = [], bs_firing = 0, bs_forwarded = []\<rparr>"
  let ?s1 = "\<lparr>bs_bus = exchange_source 11 None None 0 ?b,
      bs_attachments = [\<lparr>at_src = 11, at_generation = 1, at_prevDone = None, at_pc = SetWait\<rparr>], bs_firing = 0, bs_forwarded = []\<rparr>"
  let ?s2 = "\<lparr>bs_bus = start_source 5 (exchange_source 11 None None 0 ?b),
      bs_attachments = [\<lparr>at_src = 11, at_generation = 1, at_prevDone = None, at_pc = LoopRead\<rparr>], bs_firing = 0, bs_forwarded = []\<rparr>"
  have "bus_system_step ?s0 ?s1"
    using bus_system_step.set_source [of 11 ?s0 None None] by (simp add: newAudioBus_def)
  then have "bus_system_reachable ?s1" by (rule bus_system_reachable.step [OF bus_system_reachable.start])
  moreover have "bus_system_step ?s1 ?s2"
    using bus_system_step.started [of ?s1 0 5] by (simp add: at_loop_def set_attachment_def)
  ultimately have "bus_system_reachable ?s2" by (rule bus_system_reachable.step)
  moreover have "bus_system_step ?s2 handover"
    using bus_system_step.set_source [of 12 ?s2 None None] by (simp add: handover_def exchange_source_def start_source_def newAudioBus_def)
  ultimately show ?thesis by (rule bus_system_reachable.step)
qed

theorem one_forwarder_per_bus_witness:
  "bus_system_reachable handover \<and> bus_source (bs_bus handover) = Some 12 \<and> sorted (bs_forwarded handover) \<and>
   reconnectTimer (bs_bus handover) = None"
  using handover_reachable one_forwarder_per_bus [OF handover_reachable] by (simp add: handover_def attached_def running_def)

end
