(* ===== verification/Downlink.thy ===== *)
theory Downlink
  imports Pacer_Invariant Clock_Lineage Decimal
begin

text \<open>
  One subscriber leg, \<^verbatim>\<open>internal/media/downlink\<close>: negotiated header extensions (\<^verbatim>\<open>extensions.go\<close>), RTCP feedback
  (\<^verbatim>\<open>feedback.go\<close>, \<^verbatim>\<open>sender_stats.go\<close>) and the downlink that joins them to its forwarding pacer (\<^verbatim>\<open>downlink.go\<close>).  Pion's
  \<^verbatim>\<open>SetExtension\<close> is a parameter: it returns the packet with the extension set, or none.
\<close>

section \<open>Header extensions\<close>

definition absSendTimeURI :: string where "absSendTimeURI = ''http://www.webrtc.org/experiments/rtp-hdrext/abs-send-time''"
definition absCaptureTimeURI :: string where "absCaptureTimeURI = ''http://www.webrtc.org/experiments/rtp-hdrext/abs-capture-time''"

record ExtensionMapper =
  absSendTimeID :: u8
  absCaptureTimeID :: u8

text \<open>
  The pattern \<^verbatim>\<open>a=extmap:(\d+)(?:/\w+)? <uri>\<close>: after the digits only a slash or the space can follow, and after the word only the
  space, so the longest runs are the only candidates.  The leftmost match wins.
\<close>

definition is_digit :: "char \<Rightarrow> bool" where "is_digit c \<longleftrightarrow> c \<in> set ''0123456789''"

definition is_word_char :: "char \<Rightarrow> bool" where
  "is_word_char c \<longleftrightarrow> is_digit c \<or> c \<in> set ''abcdefghijklmnopqrstuvwxyzABCDEFGHIJKLMNOPQRSTUVWXYZ_''"

definition extmap_at :: "string \<Rightarrow> string \<Rightarrow> string option" where
  "extmap_at uri s =
     (let head = ''a=extmap:''; rest = drop (length head) s;
          number = takeWhile is_digit rest; after = dropWhile is_digit rest;
          after' = (if after \<noteq> [] \<and> hd after = CHR ''/'' \<and> takeWhile is_word_char (tl after) \<noteq> []
                    then dropWhile is_word_char (tl after) else after);
          tail = CHR '' '' # uri
      in if take (length head) s = head \<and> number \<noteq> [] \<and> take (length tail) after' = tail then Some number else None)"

fun find_extmap :: "string \<Rightarrow> string \<Rightarrow> string option" where
  "find_extmap uri [] = None"
| "find_extmap uri (c # s) = (case extmap_at uri (c # s) of Some number \<Rightarrow> Some number | None \<Rightarrow> find_extmap uri s)"

definition discover_id :: "string \<Rightarrow> string \<Rightarrow> u8" where
  "discover_id uri sdp =
     (case find_extmap uri sdp of
        None \<Rightarrow> 0
      | Some number \<Rightarrow>
          (case ParseInt number of None \<Rightarrow> 0 | Some n \<Rightarrow> if n < 1 \<or> n > 14 then 0 else word_of_int n))"

definition DiscoverAbsSendTimeID :: "string \<Rightarrow> u8" where "DiscoverAbsSendTimeID = discover_id absSendTimeURI"
definition DiscoverAbsCaptureTimeID :: "string \<Rightarrow> u8" where "DiscoverAbsCaptureTimeID = discover_id absCaptureTimeURI"

definition MutatesPackets :: "ExtensionMapper \<Rightarrow> bool" where
  "MutatesPackets e \<longleftrightarrow> absSendTimeID e \<noteq> 0 \<or> absCaptureTimeID e \<noteq> 0"

type_synonym set_extension = "u8 \<Rightarrow> bytes \<Rightarrow> rtp_packet \<Rightarrow> rtp_packet option"

definition be_bytes :: "nat \<Rightarrow> 'a::len word \<Rightarrow> bytes" where
  "be_bytes n w = map (\<lambda>i. ucast (drop_bit (8 * (n - 1 - i)) w)) [0..<n]"

definition encodeAbsSendTime :: "time \<Rightarrow> bytes" where
  "encodeAbsSendTime now =
     (let secs = word_of_int (time_Unix now) + word_of_int ntpUnixEpochOffsetSeconds :: u64;
          fracBits = word_of_int (time_Nanosecond now * 2 ^ 18 div 1000000000) :: u64;
          v = ucast (or (push_bit 18 (and secs 0x3F)) (and fracBits 0x3FFFF)) :: u32
      in be_bytes 3 v)"

definition PatchAbsSendTime :: "set_extension \<Rightarrow> ExtensionMapper \<Rightarrow> time \<Rightarrow> rtp_packet \<Rightarrow> rtp_packet" where
  "PatchAbsSendTime setext e now pkt =
     (if absSendTimeID e = 0 then pkt
      else case setext (absSendTimeID e) (encodeAbsSendTime now) pkt of Some pkt' \<Rightarrow> pkt' | None \<Rightarrow> pkt)"

definition PatchAbsCaptureTime :: "set_extension \<Rightarrow> ExtensionMapper \<Rightarrow> rtp_packet \<Rightarrow> time \<Rightarrow> rtp_packet option" where
  "PatchAbsCaptureTime setext e pkt ct =
     (if absCaptureTimeID e = 0 \<or> ct = zero_time then None
      else setext (absCaptureTimeID e) (be_bytes 8 (timeToNTP ct)) pkt)"

section \<open>Feedback\<close>

record SenderStats =
  PacketsSent :: u64
  BytesSent :: u64
  WriteErrCount :: u64
  NackCount :: u64
  TwccFeedbackCount :: u64
  ReceiverReportCount :: u64
  RttLastUs :: int
  JitterLastUs :: int
  FractionLostLast :: u32
  AbsCapturePatched :: u64

record ReceptionReport =
  FractionLost :: u8
  Jitter :: u32
  LastSenderReport :: u32
  report_Delay :: u32

text \<open>The packets of one RTCP read: a NACK as the sequence numbers its pairs range over.\<close>

datatype feedback_packet = ReceiverReport "ReceptionReport list" | TransportLayerNack "u16 list" | TransportLayerCC | OtherFeedback

definition compactNTP :: "time \<Rightarrow> u32" where
  "compactNTP t = ucast (drop_bit 16 (timeToNTP t))"

definition receptionReportRTT :: "ReceptionReport \<Rightarrow> time \<Rightarrow> duration option" where
  "receptionReportRTT report now =
     (if LastSenderReport report = 0 then None
      else
        let rttCompact = compactNTP now - LastSenderReport report - report_Delay report;
            rtt = uint rttCompact * second div 2 ^ 16
        in if rtt < 0 \<or> rtt > minute then None else Some rtt)"

definition handleReport :: "time \<Rightarrow> ReceptionReport \<Rightarrow> SenderStats \<Rightarrow> SenderStats" where
  "handleReport now report st =
     (let st1 = st\<lparr>ReceiverReportCount := ReceiverReportCount st + 1, FractionLostLast := ucast (FractionLost report),
                   JitterLastUs := uint (Jitter report) * 1000000 div 48000\<rparr>
      in case receptionReportRTT report now of Some rtt \<Rightarrow> st1\<lparr>RttLastUs := rtt div microsecond\<rparr> | None \<Rightarrow> st1)"

section \<open>The downlink\<close>

record Downlink =
  dl_id :: string
  dl_stats :: SenderStats
  dl_Extensions :: ExtensionMapper
  dl_pacer :: pacer
  senderTimeline :: "nat option"

definition NewForwardingDownlink :: "string \<Rightarrow> Downlink" where
  "NewForwardingDownlink i =
     \<lparr>dl_id = i,
      dl_stats = \<lparr>PacketsSent = 0, BytesSent = 0, WriteErrCount = 0, NackCount = 0, TwccFeedbackCount = 0, ReceiverReportCount = 0,
        RttLastUs = -1, JitterLastUs = 0, FractionLostLast = 0, AbsCapturePatched = 0\<rparr>,
      dl_Extensions = \<lparr>absSendTimeID = 0, absCaptureTimeID = 0\<rparr>, dl_pacer = newAudioForwardPacer, senderTimeline = None\<rparr>"

definition ConfigureExtensions :: "string \<Rightarrow> Downlink \<Rightarrow> Downlink" where
  "ConfigureExtensions localSDP d =
     d\<lparr>dl_Extensions := \<lparr>absSendTimeID = DiscoverAbsSendTimeID localSDP, absCaptureTimeID = DiscoverAbsCaptureTimeID localSDP\<rparr>\<rparr>"

text \<open>\<^verbatim>\<open>WriteRTPWithSource\<close>: the error, the packet as the call leaves it, and the downlink.\<close>

definition Downlink_WriteRTPWithSource ::
  "set_extension \<Rightarrow> pion \<Rightarrow> time \<Rightarrow> rtp_packet \<Rightarrow> time \<Rightarrow> bool \<Rightarrow> SourceIdentity \<Rightarrow> Downlink \<Rightarrow> pacer_error option \<times> rtp_packet \<times> Downlink" where
  "Downlink_WriteRTPWithSource setext pn now pkt ct known source d =
     (let (pkt', d1) =
            (case if known then PatchAbsCaptureTime setext (dl_Extensions d) pkt ct else None of
               Some patched \<Rightarrow> (patched, d\<lparr>dl_stats := (dl_stats d)\<lparr>AbsCapturePatched := AbsCapturePatched (dl_stats d) + 1\<rparr>\<rparr>)
             | None \<Rightarrow> (pkt, d));
          (err, p) = EnqueueSource pn (dl_pacer d1) pkt' source ct known now
      in (err, pkt', d1\<lparr>dl_pacer := p\<rparr>))"

text \<open>\<^verbatim>\<open>writeRTP\<close>, the writer of the pacer: \<open>failed\<close> is whether the track refused the packet.\<close>

definition Downlink_writeRTP :: "set_extension \<Rightarrow> pion \<Rightarrow> time \<Rightarrow> bool \<Rightarrow> rtp_packet \<Rightarrow> Downlink \<Rightarrow> rtp_packet \<times> Downlink" where
  "Downlink_writeRTP setext pn now failed pkt d =
     (let pkt' = PatchAbsSendTime setext (dl_Extensions d) now pkt; st = dl_stats d
      in (pkt', d\<lparr>dl_stats :=
            (if failed then st\<lparr>WriteErrCount := WriteErrCount st + 1\<rparr>
             else st\<lparr>PacketsSent := PacketsSent st + 1, BytesSent := BytesSent st + of_nat (MarshalSize pn pkt')\<rparr>)\<rparr>))"

text \<open>The forwarding pacer always asks for a copy.\<close>

definition pacer_RequiresPacketCopy :: "pacer \<Rightarrow> bool" where "pacer_RequiresPacketCopy p = True"

definition Downlink_RequiresPacketCopy :: "Downlink \<Rightarrow> bool" where
  "Downlink_RequiresPacketCopy d \<longleftrightarrow> pacer_RequiresPacketCopy (dl_pacer d) \<or> MutatesPackets (dl_Extensions d)"

definition Downlink_HandleNACK :: "u16 \<Rightarrow> Downlink \<Rightarrow> Downlink" where
  "Downlink_HandleNACK sq d = d\<lparr>dl_pacer := HandleNACK (dl_pacer d) sq\<rparr>"

definition ObserveRTT :: "duration \<Rightarrow> Downlink \<Rightarrow> Downlink" where
  "ObserveRTT rtt d =
     (if rtt < 0 then d
      else d\<lparr>dl_stats := (dl_stats d)\<lparr>RttLastUs := rtt div microsecond\<rparr>, dl_pacer := SetRTT (dl_pacer d) rtt\<rparr>)"

text \<open>
  \<^verbatim>\<open>Stop\<close> of the pacer with no producer inside and the worker at a select: admission closes, the worker exits with its deferred
  cleanup, and the queue is drained.  Its interleaving with the worker is the step relation of the pacer.
\<close>

definition Downlink_StopForwarding :: "Downlink \<Rightarrow> Downlink" where
  "Downlink_StopForwarding d =
     (if stopped (dl_pacer d) then d
      else d\<lparr>dl_pacer := stop_drain (worker_exit
         ((dl_pacer d)\<lparr>stopped := True, enqueueState := or (enqueueState (dl_pacer d)) pacerAdmissionClosed\<rparr>))\<rparr>)"

text \<open>One turn of the feedback loop over the packets of a read; \<open>nack\<close> is whether the downlink takes NACKs (not with RED).\<close>

fun feedback_step :: "bool \<Rightarrow> time \<Rightarrow> feedback_packet list \<Rightarrow> Downlink \<Rightarrow> Downlink" where
  "feedback_step nack now [] d = d"
| "feedback_step nack now (ReceiverReport reports # pkts) d =
     feedback_step nack now pkts (d\<lparr>dl_stats := fold (handleReport now) reports (dl_stats d)\<rparr>)"
| "feedback_step nack now (TransportLayerNack seqs # pkts) d =
     feedback_step nack now pkts
       (fold (\<lambda>sq d. (if nack then Downlink_HandleNACK sq else id) (d\<lparr>dl_stats := (dl_stats d)\<lparr>NackCount := NackCount (dl_stats d) + 1\<rparr>\<rparr>)) seqs d)"
| "feedback_step nack now (TransportLayerCC # pkts) d =
     feedback_step nack now pkts (d\<lparr>dl_stats := (dl_stats d)\<lparr>TwccFeedbackCount := TwccFeedbackCount (dl_stats d) + 1\<rparr>\<rparr>)"
| "feedback_step nack now (OtherFeedback # pkts) d = feedback_step nack now pkts d"

section \<open>Facts\<close>

lemma ConfigureExtensions_range: "uint (discover_id uri sdp) \<le> 14"
proof -
  have "uint (word_of_int n :: u8) \<le> 14" if "1 \<le> n" "n \<le> 14" for n using that by (simp add: uint_word_of_int)
  then show ?thesis by (auto simp: discover_id_def split: option.split)
qed

text \<open>A downlink changes the packet it is given only when it asked for a copy.\<close>

lemma unpatched_packet:
  assumes "Downlink_WriteRTPWithSource setext pn now pkt ct known source d = (err, pkt', d')" and "\<not> MutatesPackets (dl_Extensions d)"
  shows "pkt' = pkt"
  using assms by (auto simp: Downlink_WriteRTPWithSource_def MutatesPackets_def PatchAbsCaptureTime_def split: prod.splits if_splits)

lemma downlink_borrows:
  assumes "Downlink_WriteRTPWithSource setext pn now pkt ct known source d = (err, pkt', d')" and "\<not> Downlink_RequiresPacketCopy d"
  shows "pkt' = pkt"
  using unpatched_packet [OF assms(1)] assms(2) by (simp add: Downlink_RequiresPacketCopy_def)

text \<open>A stopped downlink accepts packets silently and keeps nothing of them.\<close>

lemma stopped_downlink_ignores:
  assumes "enqueueState (dl_pacer d) AND pacerAdmissionClosed \<noteq> 0"
  shows "fst (Downlink_WriteRTPWithSource setext pn now pkt ct known source d) = None"
    and "dl_pacer (snd (snd (Downlink_WriteRTPWithSource setext pn now pkt ct known source d))) = dl_pacer d"
  using assms by (auto simp: Downlink_WriteRTPWithSource_def EnqueueSource_def split: option.split)

text \<open>The packets of a leg that are written, dropped or queued stay accounted for: every call of the downlink is a step of its pacer.\<close>

lemma downlink_pacer_step:
  "\<exists>known' ct' now'. dl_pacer (snd (snd (Downlink_WriteRTPWithSource setext pn now pkt ct known source d))) =
     snd (EnqueueSource pn (dl_pacer d) (fst (snd (Downlink_WriteRTPWithSource setext pn now pkt ct known source d))) source ct' known' now')"
  by (intro exI [of _ known] exI [of _ ct] exI [of _ now])
    (auto simp: Downlink_WriteRTPWithSource_def Let_def split: option.split prod.split)

lemma downlink_pacer_reachable:
  assumes "pacer_reachable pn (dl_pacer d)"
  shows "pacer_reachable pn (dl_pacer (snd (snd (Downlink_WriteRTPWithSource setext pn now pkt ct known source d))))"
    and "pacer_reachable pn (dl_pacer (Downlink_HandleNACK sq d))" and "pacer_reachable pn (dl_pacer (ObserveRTT rtt d))"
proof -
  show "pacer_reachable pn (dl_pacer (snd (snd (Downlink_WriteRTPWithSource setext pn now pkt ct known source d))))"
    using downlink_pacer_step [of setext pn now pkt ct known source d] pacer_reachable.step [OF assms pacer_step.enqueue] by metis
  show "pacer_reachable pn (dl_pacer (Downlink_HandleNACK sq d))"
    using pacer_reachable.step [OF assms pacer_step.nack] by (simp add: Downlink_HandleNACK_def)
  show "pacer_reachable pn (dl_pacer (ObserveRTT rtt d))"
    using assms pacer_reachable.step [OF assms pacer_step.rtt] by (simp add: ObserveRTT_def)
qed

end
