(* ===== verification/Relay_Session.thy ===== *)
theory Relay_Session
  imports Audio_Bus Downlink
begin

text \<open>
  A relay session, \<^verbatim>\<open>internal/session\<close>: its named buses (\<^verbatim>\<open>source.go\<close>), its subscriptions and their delivery (\<^verbatim>\<open>subscription.go\<close>),
  its lifetime (\<^verbatim>\<open>relay_session.go\<close>, \<^verbatim>\<open>expiration.go\<close>) and its observations (\<^verbatim>\<open>observations.go\<close>).  A subscription is a reference into a
  store of downlinks, so that one downlink may be reached from the list a forwarding loop has loaded and from the current list.
\<close>

section \<open>The contract of a subscription\<close>

text \<open>
  \<^verbatim>\<open>BusSubscription\<close>: a write returns whether it failed, the packet as it leaves it, and its new state.  Only a subscription that
  asks for a copy may change the packet.
\<close>

record 's BusSubscription =
  WriteRTPWithSource :: "time \<Rightarrow> rtp_packet \<Rightarrow> time \<Rightarrow> bool \<Rightarrow> SourceIdentity \<Rightarrow> 's \<Rightarrow> bool \<times> rtp_packet \<times> 's"
  RequiresPacketCopy :: "'s \<Rightarrow> bool"
  StopForwarding :: "'s \<Rightarrow> 's"

locale bus_subscription =
  fixes ops :: "'s BusSubscription"
  assumes borrows: "\<lbrakk>WriteRTPWithSource ops now pkt ct known source s = (failed, pkt', s'); \<not> RequiresPacketCopy ops s\<rbrakk> \<Longrightarrow> pkt' = pkt"

definition downlink_ops :: "set_extension \<Rightarrow> pion \<Rightarrow> Downlink BusSubscription" where
  "downlink_ops setext pn =
     \<lparr>WriteRTPWithSource = (\<lambda>now pkt ct known source d.
        case Downlink_WriteRTPWithSource setext pn now pkt ct known source d of (err, pkt', d') \<Rightarrow> (err \<noteq> None, pkt', d')),
      RequiresPacketCopy = Downlink_RequiresPacketCopy, StopForwarding = Downlink_StopForwarding\<rparr>"

section \<open>State\<close>

record subscriptionEntry =
  subscriberID :: string
  sub_busID :: string
  sub_ref :: nat

datatype session_error = ErrRoomFull | ErrBusLimitExceeded

record RelaySession =
  rs_ID :: string
  rs_GraphID :: string
  buses :: "(string, AudioBus) gomap"
  subscriptions :: "subscriptionEntry list"
  rs_Public :: bool
  rs_createdAt :: time
  currentKey :: string
  revision :: nat
  stateObserver :: bool
  notifications :: nat
  maxSubscriptions :: int
  maxBuses :: int
  pendingSlots :: int
  evictionsTotal :: u64
  inactivityTimeout :: duration
  reconnectWindow :: duration
  expiryTimer :: "time option"
  rs_done :: bool

definition defaultInactivityTimeout :: duration where "defaultInactivityTimeout = 30 * minute"
definition defaultReconnectWindow :: duration where "defaultReconnectWindow = 60 * second"
definition defaultMaxBuses :: int where "defaultMaxBuses = 16"

definition newWithTimeouts :: "string \<Rightarrow> duration \<Rightarrow> duration \<Rightarrow> time \<Rightarrow> RelaySession" where
  "newWithTimeouts sid inactivity reconnect now =
     \<lparr>rs_ID = sid, rs_GraphID = [], buses = [], subscriptions = [], rs_Public = False, rs_createdAt = now, currentKey = [], revision = 1,
      stateObserver = False, notifications = 0, maxSubscriptions = 0, maxBuses = defaultMaxBuses, pendingSlots = 0, evictionsTotal = 0,
      inactivityTimeout = inactivity, reconnectWindow = reconnect, expiryTimer = Some (now + inactivity), rs_done = False\<rparr>"

definition notifyStateChange :: "RelaySession \<Rightarrow> RelaySession" where
  "notifyStateChange r =
     r\<lparr>revision := revision r + 1, notifications := notifications r + (if stateObserver r then 1 else 0)\<rparr>"

section \<open>Buses\<close>

definition GetOrCreateBus :: "string \<Rightarrow> BusRole \<Rightarrow> time \<Rightarrow> RelaySession \<Rightarrow> bool \<times> RelaySession" where
  "GetOrCreateBus bid role now r =
     (if has_key bid (buses r) then (True, r)
      else if int (length (buses r)) \<ge> maxBuses r then (False, r)
      else (True, r\<lparr>buses := AList.update bid (newAudioBus bid role (rs_ID r) (inactivityTimeout r) (reconnectWindow r) now) (buses r)\<rparr>))"

definition on_audio_bus :: "string \<Rightarrow> (AudioBus \<Rightarrow> AudioBus) \<Rightarrow> RelaySession \<Rightarrow> RelaySession" where
  "on_audio_bus bid f r =
     (case map_of (buses r) bid of None \<Rightarrow> r | Some b \<Rightarrow> r\<lparr>buses := AList.update bid (f b) (buses r)\<rparr>)"

text \<open>\<^verbatim>\<open>AttachSource\<close> when no earlier loop is left to wait for: the generation, or the error.\<close>

definition AttachSource ::
  "string \<Rightarrow> BusRole \<Rightarrow> nat \<Rightarrow> nat option \<Rightarrow> nat option \<Rightarrow> nat \<Rightarrow> time \<Rightarrow> RelaySession \<Rightarrow> (session_error + u64) \<times> RelaySession" where
  "AttachSource bid role src closer timeline newLoopDone now r =
     (case GetOrCreateBus bid role now r of
        (False, r1) \<Rightarrow> (Inl ErrBusLimitExceeded, r1)
      | (True, r1) \<Rightarrow>
          let r2 = on_audio_bus bid (start_source now \<circ> exchange_source src closer timeline newLoopDone) r1
          in (Inr (case map_of (buses r2) bid of Some b \<Rightarrow> sourceGeneration b | None \<Rightarrow> 0), notifyStateChange r2))"

definition session_SourceActive :: "RelaySession \<Rightarrow> bool" where
  "session_SourceActive r \<longleftrightarrow> list_ex (\<lambda>(bid, b). bus_SourceActive b) (buses r)"

definition BusSourceActive :: "string \<Rightarrow> RelaySession \<Rightarrow> bool" where
  "BusSourceActive bid r \<longleftrightarrow> (case map_of (buses r) bid of None \<Rightarrow> False | Some b \<Rightarrow> bus_SourceActive b)"

section \<open>Subscriptions\<close>

text \<open>The store of subscriptions beside the session.\<close>

record 's relay =
  rl_session :: RelaySession
  rl_subs :: "nat \<Rightarrow> 's"

definition AddBusSubscription :: "string \<Rightarrow> string \<Rightarrow> nat \<Rightarrow> RelaySession \<Rightarrow> session_error option \<times> RelaySession" where
  "AddBusSubscription sid bid ref r =
     (if maxSubscriptions r > 0 \<and> int (length (subscriptions r)) \<ge> maxSubscriptions r then (Some ErrRoomFull, r)
      else (None, notifyStateChange
        (r\<lparr>subscriptions := subscriptions r @ [\<lparr>subscriberID = sid, sub_busID = bid, sub_ref = ref\<rparr>]\<rparr>)))"

definition stop_all :: "'s BusSubscription \<Rightarrow> subscriptionEntry list \<Rightarrow> (nat \<Rightarrow> 's) \<Rightarrow> nat \<Rightarrow> 's" where
  "stop_all ops entries subs = fold (\<lambda>e subs. subs(sub_ref e := StopForwarding ops (subs (sub_ref e)))) entries subs"

definition RemoveSubscription :: "'s BusSubscription \<Rightarrow> string \<Rightarrow> 's relay \<Rightarrow> 's relay" where
  "RemoveSubscription ops sid rl =
     (let r = rl_session rl;
          removed = filter (\<lambda>e. subscriberID e = sid) (subscriptions r);
          r1 = r\<lparr>subscriptions := filter (\<lambda>e. subscriberID e \<noteq> sid) (subscriptions r)\<rparr>
      in \<lparr>rl_session = (if removed \<noteq> [] then notifyStateChange r1 else r1), rl_subs = stop_all ops removed (rl_subs rl)\<rparr>)"

definition maxConsecutiveErrors :: nat where "maxConsecutiveErrors = 5"

text \<open>The delivery loop over the loaded list: the packet as earlier writers left it, the store, the error counts, the dead.\<close>

fun deliver_entries ::
  "'s BusSubscription \<Rightarrow> string \<Rightarrow> time \<Rightarrow> time \<Rightarrow> bool \<Rightarrow> SourceIdentity \<Rightarrow> subscriptionEntry list \<Rightarrow>
     rtp_packet \<Rightarrow> (nat \<Rightarrow> 's) \<Rightarrow> (string, nat) gomap \<Rightarrow> string list \<Rightarrow> (nat \<Rightarrow> 's) \<times> (string, nat) gomap \<times> string list" where
  "deliver_entries ops bid now ct known source [] pkt subs errs dead = (subs, errs, dead)"
| "deliver_entries ops bid now ct known source (e # es) pkt subs errs dead =
     (if sub_busID e \<noteq> bid \<and> sub_busID e \<noteq> BusMix then deliver_entries ops bid now ct known source es pkt subs errs dead
      else
        let s = subs (sub_ref e);
            (failed, pkt', s') = WriteRTPWithSource ops now pkt ct known source s;
            pkt1 = (if RequiresPacketCopy ops s then pkt else pkt');
            subs1 = subs(sub_ref e := s')
        in if failed then
             let n = (case map_of errs (subscriberID e) of None \<Rightarrow> 0 | Some n \<Rightarrow> n) + 1;
                 errs1 = AList.update (subscriberID e) n errs
             in deliver_entries ops bid now ct known source es pkt1 subs1 errs1
                  (if n \<ge> maxConsecutiveErrors then dead @ [subscriberID e] else dead)
           else deliver_entries ops bid now ct known source es pkt1 subs1 (AList.delete (subscriberID e) errs) dead)"

definition evict :: "'s BusSubscription \<Rightarrow> string \<Rightarrow> 's relay \<Rightarrow> 's relay" where
  "evict ops sid rl =
     (let rl' = RemoveSubscription ops sid rl
      in rl'\<lparr>rl_session := (rl_session rl')\<lparr>evictionsTotal := evictionsTotal (rl_session rl') + 1\<rparr>\<rparr>)"

text \<open>\<^verbatim>\<open>deliverWithSource\<close>; \<open>meanwhile\<close> is what other goroutines do to the session between the loop and the evictions.\<close>

definition deliverWithSource ::
  "'s BusSubscription \<Rightarrow> ('s relay \<Rightarrow> 's relay) \<Rightarrow> string \<Rightarrow> rtp_packet \<Rightarrow> time \<Rightarrow> time \<Rightarrow> bool \<Rightarrow> SourceIdentity \<Rightarrow>
     (string, nat) gomap \<Rightarrow> 's relay \<Rightarrow> (string, nat) gomap \<times> 's relay" where
  "deliverWithSource ops meanwhile bid pkt now ct known source errs rl =
     (let (subs, errs1, dead) = deliver_entries ops bid now ct known source (subscriptions (rl_session rl)) pkt (rl_subs rl) errs []
      in (fold AList.delete dead errs1, fold (evict ops) dead (meanwhile (rl\<lparr>rl_subs := subs\<rparr>))))"

text \<open>One packet of a forwarding loop: counted, delivered under the identity of its attachment, logged.\<close>

definition forward_packet ::
  "'s BusSubscription \<Rightarrow> ('s relay \<Rightarrow> 's relay) \<Rightarrow> (nat \<Rightarrow> Timeline) \<Rightarrow> string \<Rightarrow> u64 \<Rightarrow> rtp_packet \<Rightarrow> time \<Rightarrow> time \<Rightarrow>
     (string, nat) gomap \<Rightarrow> 's relay \<Rightarrow> (string, nat) gomap \<times> 's relay" where
  "forward_packet ops meanwhile timelines bid gen pkt rxTs txTs errs rl =
     (let r1 = on_audio_bus bid (count_packet pkt rxTs) (rl_session rl);
          captured = (case map_of (buses r1) bid of None \<Rightarrow> None | Some b \<Rightarrow> bus_CaptureTime timelines b (Timestamp pkt) rxTs);
          (errs', rl') = deliverWithSource ops meanwhile bid pkt rxTs (case captured of Some t \<Rightarrow> t | None \<Rightarrow> zero_time) (captured \<noteq> None)
             \<lparr>si_BusID = bid, si_Generation = gen, si_SSRC = SSRC pkt\<rparr> errs (rl\<lparr>rl_session := r1\<rparr>)
      in (errs', rl'\<lparr>rl_session := on_audio_bus bid (log_packet pkt rxTs txTs) (rl_session rl')\<rparr>))"

text \<open>One attempt of \<^verbatim>\<open>TryReserveSlot\<close> with the loaded count of pending slots and the number of subscriptions seen after it.\<close>

datatype reserve_outcome = Reserved | Refused | Retry

definition try_reserve :: "int \<Rightarrow> int \<Rightarrow> nat \<Rightarrow> RelaySession \<Rightarrow> reserve_outcome \<times> RelaySession" where
  "try_reserve maximum loaded seen r =
     (if maximum \<le> 0 then (Reserved, r\<lparr>pendingSlots := pendingSlots r + 1\<rparr>)
      else if loaded + int seen \<ge> maximum then (Refused, r)
      else if pendingSlots r = loaded then (Reserved, r\<lparr>pendingSlots := loaded + 1\<rparr>)
      else (Retry, r))"

definition ReleaseSlot :: "RelaySession \<Rightarrow> RelaySession" where
  "ReleaseSlot r = r\<lparr>pendingSlots := pendingSlots r - 1\<rparr>"

section \<open>Lifetime\<close>

definition session_Close :: "'s BusSubscription \<Rightarrow> 's relay \<Rightarrow> 's relay" where
  "session_Close ops rl =
     (let r = rl_session rl
      in if rs_done r then rl
         else \<lparr>rl_session = r\<lparr>rs_done := True, expiryTimer := None, buses := map (\<lambda>(bid, b). (bid, bus_close b)) (buses r)\<rparr>,
               rl_subs = stop_all ops (subscriptions r) (rl_subs rl)\<rparr>)"

definition hasRecentRTP :: "duration \<Rightarrow> time \<Rightarrow> RelaySession \<Rightarrow> bool" where
  "hasRecentRTP window now r \<longleftrightarrow> list_ex (\<lambda>(bid, b). lastRTPAtNanos b \<noteq> 0 \<and> LastRTPAge now b < window) (buses r)"

definition isInactive :: "time \<Rightarrow> RelaySession \<Rightarrow> bool" where
  "isInactive now r \<longleftrightarrow> \<not> (session_SourceActive r \<or> length (subscriptions r) > 0) \<and> \<not> hasRecentRTP (inactivityTimeout r) now r"

definition checkExpiry :: "'s BusSubscription \<Rightarrow> time \<Rightarrow> 's relay \<Rightarrow> 's relay" where
  "checkExpiry ops now rl =
     (if isInactive now (rl_session rl) then session_Close ops rl
      else rl\<lparr>rl_session := (rl_session rl)\<lparr>expiryTimer := Some (now + inactivityTimeout (rl_session rl))\<rparr>\<rparr>)"

section \<open>Observations\<close>

definition PacketStats :: "RelaySession \<Rightarrow> u64 \<times> u64 \<times> u64" where
  "PacketStats r =
     (sum_list (map (ab_PacketCount \<circ> snd) (buses r)), sum_list (map (ab_ByteCount \<circ> snd) (buses r)),
      sum_list (map (ab_PacketDropCount \<circ> snd) (buses r)))"

definition BusHealthList :: "duration \<Rightarrow> time \<Rightarrow> RelaySession \<Rightarrow> BusHealth list" where
  "BusHealthList threshold now r = map (bus_Health threshold now \<circ> snd) (buses r)"

definition AnyBusStalled :: "duration \<Rightarrow> time \<Rightarrow> RelaySession \<Rightarrow> bool" where
  "AnyBusStalled threshold now r \<longleftrightarrow> list_ex (Stalled threshold now \<circ> snd) (buses r)"

section \<open>Delivery\<close>

text \<open>One packet handed to a bus: when, the packet, its capture time and whether it is known, and its source.\<close>

type_synonym delivery = "time \<times> rtp_packet \<times> time \<times> bool \<times> SourceIdentity"

fun write_delivery :: "'s BusSubscription \<Rightarrow> delivery \<Rightarrow> 's \<Rightarrow> bool \<times> 's" where
  "write_delivery ops (now, pkt, ct, known, source) s =
     (case WriteRTPWithSource ops now pkt ct known source s of (failed, _, s') \<Rightarrow> (failed, s'))"

fun deliver_run :: "'s BusSubscription \<Rightarrow> string \<Rightarrow> delivery list \<Rightarrow> (string, nat) gomap \<Rightarrow> 's relay \<Rightarrow> (string, nat) gomap \<times> 's relay" where
  "deliver_run ops bid [] errs rl = (errs, rl)"
| "deliver_run ops bid ((now, pkt, ct, known, source) # ds) errs rl =
     (case deliverWithSource ops (\<lambda>x. x) bid pkt now ct known source errs rl of (errs1, rl1) \<Rightarrow> deliver_run ops bid ds errs1 rl1)"

text \<open>What one subscription does with a sequence of packets of its own.\<close>

fun sub_outcomes :: "'s BusSubscription \<Rightarrow> delivery list \<Rightarrow> 's \<Rightarrow> bool list \<times> 's" where
  "sub_outcomes ops [] s = ([], s)"
| "sub_outcomes ops (d # ds) s =
     (let (failed, s1) = write_delivery ops d s; (bs, s2) = sub_outcomes ops ds s1 in (failed # bs, s2))"

abbreviation listens :: "string \<Rightarrow> subscriptionEntry \<Rightarrow> bool" where
  "listens bid e \<equiv> sub_busID e = bid \<or> sub_busID e = BusMix"

abbreviation error_count :: "(string, nat) gomap \<Rightarrow> string \<Rightarrow> nat" where
  "error_count errs sid \<equiv> (case map_of errs sid of None \<Rightarrow> 0 | Some n \<Rightarrow> n)"

text \<open>What a delivery does to each entry, read off the state before it.\<close>

definition entry_fails :: "'s BusSubscription \<Rightarrow> delivery \<Rightarrow> (nat \<Rightarrow> 's) \<Rightarrow> subscriptionEntry \<Rightarrow> bool" where
  "entry_fails ops d subs e = fst (write_delivery ops d (subs (sub_ref e)))"

definition entry_dead :: "'s BusSubscription \<Rightarrow> string \<Rightarrow> delivery \<Rightarrow> (nat \<Rightarrow> 's) \<Rightarrow> (string, nat) gomap \<Rightarrow> subscriptionEntry \<Rightarrow> bool" where
  "entry_dead ops bid d subs errs e \<longleftrightarrow>
     listens bid e \<and> entry_fails ops d subs e \<and> error_count errs (subscriberID e) + 1 \<ge> maxConsecutiveErrors"

lemma stop_all_other: "ref \<notin> sub_ref ` set entries \<Longrightarrow> stop_all ops entries subs ref = subs ref"
  unfolding stop_all_def by (induction entries arbitrary: subs) auto

lemma evict_fields:
  "subscriptions (rl_session (evict ops sid rl)) = filter (\<lambda>e. subscriberID e \<noteq> sid) (subscriptions (rl_session rl))"
  "rl_subs (evict ops sid rl) = stop_all ops (filter (\<lambda>e. subscriberID e = sid) (subscriptions (rl_session rl))) (rl_subs rl)"
  by (simp_all add: evict_def RemoveSubscription_def notifyStateChange_def Let_def)

lemma evictions_subscriptions:
  "subscriptions (rl_session (fold (evict ops) dead rl)) = filter (\<lambda>e. subscriberID e \<notin> set dead) (subscriptions (rl_session rl))"
  by (induction dead arbitrary: rl) (auto simp: evict_fields intro: filter_cong)

lemma evictions_subs:
  "\<forall>e \<in> set (subscriptions (rl_session rl)). sub_ref e = ref \<longrightarrow> subscriberID e \<notin> set dead \<Longrightarrow>
     rl_subs (fold (evict ops) dead rl) ref = rl_subs rl ref"
proof (induction dead arbitrary: rl)
  case (Cons sid dead)
  have "rl_subs (evict ops sid rl) ref = rl_subs rl ref" unfolding evict_fields using Cons.prems by (intro stop_all_other) auto
  moreover have "\<forall>e \<in> set (subscriptions (rl_session (evict ops sid rl))). sub_ref e = ref \<longrightarrow> subscriberID e \<notin> set dead"
    using Cons.prems by (simp add: evict_fields)
  ultimately show ?case using Cons.IH [of "evict ops sid rl"] by simp
qed simp

lemma deletions_map_of: "map_of (fold AList.delete dead errs) sid = (if sid \<in> set dead then None else map_of errs sid)"
  by (induction dead arbitrary: errs) auto

text \<open>Five failures in a row, counted from \<open>t\<close> failures before.\<close>

fun survives :: "nat \<Rightarrow> bool list \<Rightarrow> bool" where
  "survives t [] = True"
| "survives t (failed # bs) = (if failed then t + 1 < maxConsecutiveErrors \<and> survives (t + 1) bs else survives 0 bs)"

lemma prefix_replicate_le: "\<lbrakk>prefix (replicate n x) ys; m \<le> n\<rbrakk> \<Longrightarrow> prefix (replicate m x) ys"
  by (metis le_add_diff_inverse prefixI prefix_order.trans replicate_add)

lemma survives_iff:
  "t < 5 \<Longrightarrow> survives t bs \<longleftrightarrow> \<not> prefix (replicate (5 - t) True) bs \<and> \<not> sublist (replicate 5 True) bs"
proof (induction bs arbitrary: t)
  case Nil
  then show ?case by (simp add: maxConsecutiveErrors_def)
next
  case (Cons b bs)
  have five: "replicate 5 True = True # replicate 4 True" by (simp add: numeral_eq_Suc)
  obtain k where k: "5 - t = Suc k" "t = 4 - k" "k \<le> 4" using Cons.prems by (intro that [of "4 - t"]) auto
  show ?case
  proof (cases b)
    case True
    have less: "prefix (replicate 4 True) bs \<Longrightarrow> prefix (replicate k True) bs" by (rule prefix_replicate_le [OF _ k(3)])
    show ?thesis
    proof (cases "k = 0")
      case True
      then show ?thesis using k \<open>b\<close> by (simp add: maxConsecutiveErrors_def)
    next
      case False
      then have "survives (t + 1) bs \<longleftrightarrow> \<not> prefix (replicate k True) bs \<and> \<not> sublist (replicate 5 True) bs"
        using Cons.IH [of "t + 1"] k Cons.prems by simp
      then show ?thesis using True less k False by (auto simp: maxConsecutiveErrors_def sublist_Cons_right five)
    qed
  next
    case False
    have "prefix (replicate 5 True) bs \<Longrightarrow> sublist (replicate 5 True) bs" by simp
    then show ?thesis using False k Cons.IH [of 0] by (auto simp: sublist_Cons_right five)
  qed
qed

context bus_subscription
begin

lemma deliver_one:
  assumes "listens bid e"
  shows "deliver_entries ops bid now ct known source (e # es) pkt subs errs dead =
    (let d = (now, pkt, ct, known, source)
     in deliver_entries ops bid now ct known source es pkt (subs(sub_ref e := snd (write_delivery ops d (subs (sub_ref e)))))
          (if entry_fails ops d subs e then AList.update (subscriberID e) (error_count errs (subscriberID e) + 1) errs
           else AList.delete (subscriberID e) errs)
          (if entry_dead ops bid d subs errs e then dead @ [subscriberID e] else dead))"
proof -
  obtain failed pkt' s' where w: "WriteRTPWithSource ops now pkt ct known source (subs (sub_ref e)) = (failed, pkt', s')"
    by (metis prod_cases3)
  then have "(if RequiresPacketCopy ops (subs (sub_ref e)) then pkt else pkt') = pkt" using borrows by metis
  then show ?thesis using assms w by (auto simp: Let_def entry_fails_def entry_dead_def)
qed

lemma deliver_entries_spec:
  assumes "distinct (map sub_ref es)" and "distinct (map subscriberID es)" and d: "d = (now, pkt, ct, known, source)"
  shows "deliver_entries ops bid now ct known source es pkt subs errs dead = (subs', errs', dead') \<Longrightarrow>
    dead' = dead @ map subscriberID (filter (entry_dead ops bid d subs errs) es) \<and>
    (\<forall>ref. subs' ref = (if ref \<in> sub_ref ` set (filter (listens bid) es) then snd (write_delivery ops d (subs ref)) else subs ref)) \<and>
    (\<forall>e \<in> set es. listens bid e \<longrightarrow>
       map_of errs' (subscriberID e) = (if entry_fails ops d subs e then Some (error_count errs (subscriberID e) + 1) else None)) \<and>
    (\<forall>sid. sid \<notin> subscriberID ` set (filter (listens bid) es) \<longrightarrow> map_of errs' sid = map_of errs sid)"
  using assms(1,2)
proof (induction es arbitrary: subs errs dead)
  case (Cons e es)
  show ?case
  proof (cases "listens bid e")
    case False
    then show ?thesis using Cons by (auto simp: entry_dead_def)
  next
    case True
    define subs1 where "subs1 = subs(sub_ref e := snd (write_delivery ops d (subs (sub_ref e))))"
    define errs1 where "errs1 = (if entry_fails ops d subs e then AList.update (subscriberID e) (error_count errs (subscriberID e) + 1) errs
           else AList.delete (subscriberID e) errs)"
    define dead1 where "dead1 = (if entry_dead ops bid d subs errs e then dead @ [subscriberID e] else dead)"
    have run: "deliver_entries ops bid now ct known source es pkt subs1 errs1 dead1 = (subs', errs', dead')"
      using Cons.prems(1) unfolding deliver_one [OF True] Let_def d subs1_def errs1_def dead1_def .
    have new: "sub_ref e' \<noteq> sub_ref e \<and> subscriberID e' \<noteq> subscriberID e" if "e' \<in> set es" for e'
      using Cons.prems(2,3) that by (auto simp: image_iff)
    have same: "entry_fails ops d subs1 e' = entry_fails ops d subs e'" "map_of errs1 (subscriberID e') = map_of errs (subscriberID e')"
      if "e' \<in> set es" for e' using new [OF that] by (simp_all add: entry_fails_def subs1_def errs1_def)
    have deads: "filter (entry_dead ops bid d subs1 errs1) es = filter (entry_dead ops bid d subs errs) es"
      using same by (intro filter_cong) (auto simp: entry_dead_def)
    have "distinct (map sub_ref es)" "distinct (map subscriberID es)" using Cons.prems(2,3) by simp_all
    note IH = Cons.IH [OF run this]
    have "dead' = dead1 @ map subscriberID (filter (entry_dead ops bid d subs errs) es)" using IH unfolding deads by blast
    then have "dead' = dead @ map subscriberID (filter (entry_dead ops bid d subs errs) (e # es))" by (simp add: dead1_def)
    moreover have "subs' ref = (if ref \<in> sub_ref ` set (filter (listens bid) (e # es)) then snd (write_delivery ops d (subs ref)) else subs ref)" for ref
    proof -
      have "subs' ref = (if ref \<in> sub_ref ` set (filter (listens bid) es) then snd (write_delivery ops d (subs1 ref)) else subs1 ref)"
        using IH by blast
      moreover have "sub_ref e \<notin> sub_ref ` set (filter (listens bid) es)" using new by fastforce
      ultimately show ?thesis using True by (cases "ref = sub_ref e") (simp_all add: subs1_def)
    qed
    moreover have "map_of errs' (subscriberID e') = (if entry_fails ops d subs e' then Some (error_count errs (subscriberID e') + 1) else None)"
      if "e' \<in> set (e # es)" "listens bid e'" for e'
    proof (cases "e' = e")
      case True
      have "subscriberID e \<notin> subscriberID ` set (filter (listens bid) es)" using new by fastforce
      then have "map_of errs' (subscriberID e) = map_of errs1 (subscriberID e)" using IH by blast
      then show ?thesis using True by (simp add: errs1_def)
    next
      case False
      then have es: "e' \<in> set es" using that by simp
      then have "map_of errs' (subscriberID e') = (if entry_fails ops d subs1 e' then Some (error_count errs1 (subscriberID e') + 1) else None)"
        using IH that(2) by blast
      then show ?thesis by (simp only: same [OF es])
    qed
    moreover have "map_of errs' sid = map_of errs sid" if "sid \<notin> subscriberID ` set (filter (listens bid) (e # es))" for sid
    proof -
      have "map_of errs' sid = map_of errs1 sid" using IH that by (auto simp: True)
      then show ?thesis using that True by (simp add: errs1_def)
    qed
    ultimately show ?thesis by blast
  qed
qed simp

lemma deliver_step:
  assumes dist: "distinct (map sub_ref (subscriptions (rl_session rl)))" "distinct (map subscriberID (subscriptions (rl_session rl)))"
    and d: "d = (now, pkt, ct, known, source)"
    and run: "deliverWithSource ops (\<lambda>x. x) bid pkt now ct known source errs rl = (errs', rl')"
  shows "subscriptions (rl_session rl') = filter (\<lambda>e. \<not> entry_dead ops bid d (rl_subs rl) errs e) (subscriptions (rl_session rl))"
    and "\<lbrakk>e \<in> set (subscriptions (rl_session rl)); \<not> entry_dead ops bid d (rl_subs rl) errs e\<rbrakk> \<Longrightarrow>
      rl_subs rl' (sub_ref e) = (if listens bid e then snd (write_delivery ops d (rl_subs rl (sub_ref e))) else rl_subs rl (sub_ref e))"
    and "\<lbrakk>e \<in> set (subscriptions (rl_session rl)); \<not> entry_dead ops bid d (rl_subs rl) errs e; listens bid e\<rbrakk> \<Longrightarrow>
      map_of errs' (subscriberID e) = (if entry_fails ops d (rl_subs rl) e then Some (error_count errs (subscriberID e) + 1) else None)"
proof -
  let ?es = "subscriptions (rl_session rl)" and ?dead = "\<lambda>e. entry_dead ops bid d (rl_subs rl) errs e"
  obtain subs errs1 dead where loop: "deliver_entries ops bid now ct known source ?es pkt (rl_subs rl) errs [] = (subs, errs1, dead)"
    by (metis prod_cases3)
  then have errs': "errs' = fold AList.delete dead errs1" and rl': "rl' = fold (evict ops) dead (rl\<lparr>rl_subs := subs\<rparr>)"
    using run by (simp_all add: deliverWithSource_def)
  note spec = deliver_entries_spec [OF dist d loop]
  have dead: "subscriberID e \<in> set dead \<longleftrightarrow> ?dead e" if "e \<in> set ?es" for e
  proof
    assume "subscriberID e \<in> set dead"
    then obtain e' where "e' \<in> set ?es" "?dead e'" "subscriberID e = subscriberID e'" using spec by auto
    then show "?dead e" using that inj_onD [OF distinct_map [THEN iffD1, OF dist(2), THEN conjunct2]] by metis
  qed (use spec that in auto)
  show "subscriptions (rl_session rl') = filter (\<lambda>e. \<not> ?dead e) ?es"
    unfolding rl' evictions_subscriptions using dead by (intro filter_cong) auto
  show "rl_subs rl' (sub_ref e) = (if listens bid e then snd (write_delivery ops d (rl_subs rl (sub_ref e))) else rl_subs rl (sub_ref e))"
    if e: "e \<in> set ?es" "\<not> ?dead e"
  proof -
    have alone: "e' = e" if "e' \<in> set ?es" "sub_ref e' = sub_ref e" for e'
      using that e(1) inj_onD [OF distinct_map [THEN iffD1, OF dist(1), THEN conjunct2]] by metis
    then have "rl_subs rl' (sub_ref e) = subs (sub_ref e)"
      unfolding rl' using dead e by (subst evictions_subs) auto
    moreover have "sub_ref e \<in> sub_ref ` set (filter (listens bid) ?es) \<longleftrightarrow> listens bid e" using alone e(1) by force
    ultimately show ?thesis using spec by simp
  qed
  show "map_of errs' (subscriberID e) = (if entry_fails ops d (rl_subs rl) e then Some (error_count errs (subscriberID e) + 1) else None)"
    if "e \<in> set ?es" "\<not> ?dead e" "listens bid e"
  proof -
    have "map_of errs1 (subscriberID e) = (if entry_fails ops d (rl_subs rl) e then Some (error_count errs (subscriberID e) + 1) else None)"
      using spec that(1,3) by blast
    moreover have "subscriberID e \<notin> set dead" using dead that(1,2) by blast
    ultimately show ?thesis by (simp only: errs' deletions_map_of if_False)
  qed
qed

lemma distinct_step:
  "distinct (map f xs) \<Longrightarrow> distinct (map f (filter P xs))"
  by (rule distinct_map_filter)

lemma run_shrinks:
  assumes "deliver_run ops bid ds errs rl = (errs', rl')" and "distinct (map sub_ref (subscriptions (rl_session rl)))"
    and "distinct (map subscriberID (subscriptions (rl_session rl)))"
  shows "set (subscriptions (rl_session rl')) \<subseteq> set (subscriptions (rl_session rl))"
  using assms
proof (induction ds arbitrary: errs rl)
  case (Cons d ds)
  obtain now pkt ct known source where d: "d = (now, pkt, ct, known, source)" by (metis prod_cases5)
  obtain errs1 rl1 where step: "deliverWithSource ops (\<lambda>x. x) bid pkt now ct known source errs rl = (errs1, rl1)" by fastforce
  note kept = deliver_step(1) [OF Cons.prems(2,3) d step]
  have "set (subscriptions (rl_session rl')) \<subseteq> set (subscriptions (rl_session rl1))"
    using Cons.prems step by (intro Cons.IH [of errs1 rl1]) (simp_all add: d kept distinct_step)
  then show ?case by (auto simp: kept)
qed simp

lemma run_subscriber:
  assumes "deliver_run ops bid ds errs rl = (errs', rl')" and "distinct (map sub_ref (subscriptions (rl_session rl)))"
    and "distinct (map subscriberID (subscriptions (rl_session rl)))" and "e \<in> set (subscriptions (rl_session rl))" and "listens bid e"
    and "sub_outcomes ops ds (rl_subs rl (sub_ref e)) = (bs, s)"
  shows "(e \<in> set (subscriptions (rl_session rl')) \<longleftrightarrow> survives (error_count errs (subscriberID e)) bs) \<and>
    (e \<in> set (subscriptions (rl_session rl')) \<longrightarrow> rl_subs rl' (sub_ref e) = s)"
  using assms
proof (induction ds arbitrary: errs rl bs)
  case (Cons d ds)
  obtain now pkt ct known source where d: "d = (now, pkt, ct, known, source)" by (metis prod_cases5)
  obtain errs1 rl1 where step: "deliverWithSource ops (\<lambda>x. x) bid pkt now ct known source errs rl = (errs1, rl1)" by fastforce
  note after = deliver_step [OF Cons.prems(2,3) d step]
  obtain failed s1 bs1 where w: "write_delivery ops d (rl_subs rl (sub_ref e)) = (failed, s1)" and bs: "bs = failed # bs1"
    and rest: "sub_outcomes ops ds s1 = (bs1, s)"
    using Cons.prems(6) by (auto simp: Let_def split: prod.splits)
  have fails: "entry_fails ops d (rl_subs rl) e = failed" by (simp add: entry_fails_def w)
  have run1: "deliver_run ops bid ds errs1 rl1 = (errs', rl')" using Cons.prems(1) step by (simp add: d)
  have dist1: "distinct (map sub_ref (subscriptions (rl_session rl1)))" "distinct (map subscriberID (subscriptions (rl_session rl1)))"
    using Cons.prems(2,3) by (simp_all add: after(1) distinct_step)
  show ?case
  proof (cases "entry_dead ops bid d (rl_subs rl) errs e")
    case True
    then have "e \<notin> set (subscriptions (rl_session rl'))" using run_shrinks [OF run1 dist1] after(1) by auto
    moreover have "\<not> survives (error_count errs (subscriberID e)) bs" using True fails by (simp add: bs entry_dead_def)
    ultimately show ?thesis by blast
  next
    case False
    have "e \<in> set (subscriptions (rl_session rl1))" using False Cons.prems(4) by (simp add: after(1))
    moreover have "rl_subs rl1 (sub_ref e) = s1" using after(2) [OF Cons.prems(4) False] Cons.prems(5) w by simp
    ultimately have IH: "(e \<in> set (subscriptions (rl_session rl')) \<longleftrightarrow> survives (error_count errs1 (subscriberID e)) bs1) \<and>
        (e \<in> set (subscriptions (rl_session rl')) \<longrightarrow> rl_subs rl' (sub_ref e) = s)"
      using Cons.IH [OF run1 dist1 _ Cons.prems(5)] rest by simp
    have "error_count errs1 (subscriberID e) = (if failed then error_count errs (subscriberID e) + 1 else 0)"
      using after(3) [OF Cons.prems(4) False Cons.prems(5)] fails by simp
    moreover have "failed \<Longrightarrow> error_count errs (subscriberID e) + 1 < maxConsecutiveErrors"
      using False Cons.prems(5) fails by (auto simp: entry_dead_def)
    ultimately show ?thesis using IH by (simp add: bs)
  qed
qed simp

lemma run_bystander:
  assumes "deliver_run ops bid ds errs rl = (errs', rl')" and "distinct (map sub_ref (subscriptions (rl_session rl)))"
    and "distinct (map subscriberID (subscriptions (rl_session rl)))" and "e \<in> set (subscriptions (rl_session rl))" and "\<not> listens bid e"
  shows "e \<in> set (subscriptions (rl_session rl')) \<and> rl_subs rl' (sub_ref e) = rl_subs rl (sub_ref e)"
  using assms
proof (induction ds arbitrary: errs rl)
  case (Cons d ds)
  obtain now pkt ct known source where d: "d = (now, pkt, ct, known, source)" by (metis prod_cases5)
  obtain errs1 rl1 where step: "deliverWithSource ops (\<lambda>x. x) bid pkt now ct known source errs rl = (errs1, rl1)" by fastforce
  note after = deliver_step [OF Cons.prems(2,3) d step]
  have alive: "\<not> entry_dead ops bid d (rl_subs rl) errs e" using Cons.prems(5) by (simp add: entry_dead_def)
  have "e \<in> set (subscriptions (rl_session rl')) \<and> rl_subs rl' (sub_ref e) = rl_subs rl1 (sub_ref e)"
    using Cons.prems step alive by (intro Cons.IH [of errs1 rl1]) (simp_all add: d after(1) distinct_step)
  then show ?case using after(2) [OF Cons.prems(4) alive] Cons.prems(5) by simp
qed simp

end

interpretation downlink_subscription: bus_subscription "downlink_ops setext pn" for setext pn
  by unfold_locales (auto simp: downlink_ops_def dest: downlink_borrows split: prod.splits)

section \<open>Properties\<close>


text \<open>Two listeners of a session, one of the bus and one of another.\<close>

definition two_listeners :: "Downlink relay" where
  "two_listeners =
     \<lparr>rl_session = (newWithTimeouts ''s'' 30 60 0)\<lparr>subscriptions :=
        [\<lparr>subscriberID = ''a'', sub_busID = ''mix'', sub_ref = 0\<rparr>, \<lparr>subscriberID = ''b'', sub_busID = ''music'', sub_ref = 1\<rparr>]\<rparr>,
      rl_subs = (\<lambda>_. NewForwardingDownlink ''x'')\<rparr>"


end
