(* ===== verification/Control_State.thy ===== *)
theory Control_State
  imports Relay_Session Access_State
begin

text \<open>
  The control-plane view of a relay session: \<^verbatim>\<open>internal/session/control_state.go\<close>, which reads a session without stopping it, and the
  snapshot that \<^verbatim>\<open>internal/server/control_state_sync.go\<close> sends to the access service.  A reader sees the session at each of its loads.
  The revision counter is unbounded here; the code's would wrap after 2^64 changes.
\<close>

section \<open>Reading\<close>

record ControlBusState =
  cb_BusID :: string
  cb_Role :: string
  cb_SourceActive :: bool
  cb_SourceGeneration :: u64

record ControlSubscriptionState =
  cu_SubscriberID :: string
  cu_BusID :: string

record ControlState =
  cst_ContractVersion :: int
  cst_SessionID :: string
  cst_RelayEpoch :: string
  cst_Revision :: nat
  cst_ObservedAt :: time
  cst_Buses :: "ControlBusState list"
  cst_Subscriptions :: "ControlSubscriptionState list"

text \<open>The loop over the buses: whether a source is attached and its generation are two loads of each bus.\<close>

fun read_buses :: "(nat \<Rightarrow> RelaySession) \<Rightarrow> nat \<Rightarrow> string list \<Rightarrow> ControlBusState list \<times> nat" where
  "read_buses \<sigma> k [] = ([], k)"
| "read_buses \<sigma> k (bid # bids) =
     (case (map_of (buses (\<sigma> k)) bid, map_of (buses (\<sigma> (k + 1))) bid) of
        (Some b, Some b') \<Rightarrow>
          let (rest, k') = read_buses \<sigma> (k + 2) bids
          in (\<lparr>cb_BusID = ab_ID b, cb_Role = BusRole_String (ab_Role b), cb_SourceActive = bus_SourceActive b,
               cb_SourceGeneration = sourceGeneration b'\<rparr> # rest, k')
      | _ \<Rightarrow> read_buses \<sigma> (k + 2) bids)"

definition controlStatePayload ::
  "(nat \<Rightarrow> RelaySession) \<Rightarrow> nat \<Rightarrow> (ControlBusState list \<times> ControlSubscriptionState list) \<times> nat" where
  "controlStatePayload \<sigma> k =
     (let (bs, k1) = read_buses \<sigma> (k + 1) (map fst (buses (\<sigma> k)));
          subs = map (\<lambda>e. \<lparr>cu_SubscriberID = subscriberID e, cu_BusID = sub_busID e\<rparr>) (subscriptions (\<sigma> k1))
      in ((sort_key cb_BusID bs, sort_key cu_SubscriberID subs), k1 + 1))"

text \<open>\<^verbatim>\<open>ControlState\<close> with a number of attempts: the state and the moment it returns, none when the attempts are used up.\<close>

fun ControlState_attempts :: "nat \<Rightarrow> string \<Rightarrow> time \<Rightarrow> (nat \<Rightarrow> RelaySession) \<Rightarrow> nat \<Rightarrow> (ControlState \<times> nat) option" where
  "ControlState_attempts 0 epoch now \<sigma> k = None"
| "ControlState_attempts (Suc n) epoch now \<sigma> k =
     (let rev = revision (\<sigma> k);
          ((bs, subs), k1) = controlStatePayload \<sigma> (k + 1)
      in if rev = revision (\<sigma> k1) then
           Some (\<lparr>cst_ContractVersion = 1, cst_SessionID = rs_ID (\<sigma> k1), cst_RelayEpoch = epoch, cst_Revision = rev, cst_ObservedAt = now,
                  cst_Buses = bs, cst_Subscriptions = subs\<rparr>, k1)
         else ControlState_attempts n epoch now \<sigma> (k1 + 1))"

text \<open>The snapshot of \<^verbatim>\<open>pushControlState\<close>.\<close>

definition control_snapshot :: "u64 \<Rightarrow> ControlState \<Rightarrow> RelayState" where
  "control_snapshot term st =
     \<lparr>ContractVersion = cst_ContractVersion st, rs_SessionID = cst_SessionID st, RelayEpoch = cst_RelayEpoch st,
      Revision = of_nat (cst_Revision st), rs_WriterTerm = term, ObservedAt = cst_ObservedAt st,
      Buses = map (\<lambda>b. \<lparr>bs_BusID = cb_BusID b, bs_Role = cb_Role b, SourceActive = cb_SourceActive b, SourceGeneration = cb_SourceGeneration b\<rparr>)
        (cst_Buses st),
      Subscriptions = map (\<lambda>u. \<lparr>SubscriberID = cu_SubscriberID u, ss_BusID = cu_BusID u\<rparr>) (cst_Subscriptions st)\<rparr>"

section \<open>Changes\<close>

text \<open>
  The session while its operations run.  Each of them stores its change first and raises the revision afterwards;
  \<open>lv_unnotified\<close> counts the changes whose revision is still to come.  A bus is created before its source is attached, without
  a revision of its own.  Whatever else happens leaves buses, sources and subscriptions as they are.
\<close>

record live_session =
  lv_session :: RelaySession
  lv_unnotified :: nat

definition bus_view :: "RelaySession \<Rightarrow> (string \<times> string \<times> BusRole \<times> bool \<times> u64) list" where
  "bus_view r = map (\<lambda>(bid, b). (bid, ab_ID b, ab_Role b, bus_SourceActive b, sourceGeneration b)) (buses r)"

definition changed :: "RelaySession \<Rightarrow> live_session \<Rightarrow> live_session" where
  "changed r s = \<lparr>lv_session = r, lv_unnotified = lv_unnotified s + 1\<rparr>"

inductive control_step :: "live_session \<Rightarrow> live_session \<Rightarrow> bool" where
  add: "control_step s (changed ((lv_session s)\<lparr>subscriptions := subscriptions (lv_session s) @ [e]\<rparr>) s)"
| remove: "control_step s (changed ((lv_session s)\<lparr>subscriptions := filter (\<lambda>e. subscriberID e \<noteq> sid) (subscriptions (lv_session s))\<rparr>) s)"
| remove_none: "filter (\<lambda>e. subscriberID e = sid) (subscriptions (lv_session s)) = [] \<Longrightarrow> control_step s s"
| create_bus: "GetOrCreateBus bid role now (lv_session s) = (True, r) \<Longrightarrow> control_step s (s\<lparr>lv_session := r\<rparr>)"
| set_source: "control_step s (changed (on_audio_bus bid (exchange_source src closer timeline loop) (lv_session s)) s)"
| source_ended: "control_step s (changed (on_audio_bus bid (detach_source src) (lv_session s)) s)"
| notify: "lv_unnotified s = Suc n \<Longrightarrow> control_step s \<lparr>lv_session = notifyStateChange (lv_session s), lv_unnotified = n\<rparr>"
| other: "\<lbrakk>bus_view r = bus_view (lv_session s); subscriptions r = subscriptions (lv_session s); revision r = revision (lv_session s);
    rs_ID r = rs_ID (lv_session s)\<rbrakk> \<Longrightarrow> control_step s (s\<lparr>lv_session := r\<rparr>)"

section \<open>Progress\<close>

lemma on_audio_bus_fields [simp]:
  "revision (on_audio_bus bid f r) = revision r" "subscriptions (on_audio_bus bid f r) = subscriptions r" "rs_ID (on_audio_bus bid f r) = rs_ID r"
  by (simp_all add: on_audio_bus_def split: option.split)

lemma GetOrCreateBus_fields:
  assumes "GetOrCreateBus bid role now r = (ok, r')"
  shows "revision r' = revision r" "subscriptions r' = subscriptions r" "rs_ID r' = rs_ID r"
  using assms by (auto simp: GetOrCreateBus_def split: if_splits)

lemma revision_step: "control_step s s' \<Longrightarrow> revision (lv_session s) \<le> revision (lv_session s')"
  by (induction rule: control_step.induct) (auto simp: changed_def notifyStateChange_def GetOrCreateBus_fields)

lemma revision_steps: "control_step\<^sup>*\<^sup>* s s' \<Longrightarrow> revision (lv_session s) \<le> revision (lv_session s')"
  by (induction rule: rtranclp_induct) (auto dest: revision_step)

lemma read_buses_later: "read_buses \<sigma> k bids = (bs, k') \<Longrightarrow> k \<le> k'"
  by (induction bids arbitrary: k bs) (fastforce simp: Let_def split: option.splits prod.splits)+

lemma payload_later: "controlStatePayload \<sigma> k = (p, k') \<Longrightarrow> k < k'"
  by (auto simp: controlStatePayload_def Let_def dest!: read_buses_later split: prod.splits)

lemma attempts_end:
  assumes tr: "trace control_step \<sigma>" and bound: "\<And>j. revision (lv_session (\<sigma> j)) \<le> revision (lv_session (\<sigma> k)) + n"
  shows "\<exists>st. ControlState_attempts (Suc n) epoch now (\<lambda>j. lv_session (\<sigma> j)) k = Some st"
  using bound
proof (induction n arbitrary: k)
  case 0
  obtain bs subs k1 where p: "controlStatePayload (\<lambda>j. lv_session (\<sigma> j)) (k + 1) = ((bs, subs), k1)" by (metis surj_pair)
  have "revision (lv_session (\<sigma> k)) \<le> revision (lv_session (\<sigma> k1))"
    using revision_steps [OF trace_le [OF tr, of k k1]] payload_later [OF p] by simp
  then show ?case using 0 [of k1] p by simp
next
  case (Suc n)
  obtain bs subs k1 where p: "controlStatePayload (\<lambda>j. lv_session (\<sigma> j)) (k + 1) = ((bs, subs), k1)" by (metis surj_pair)
  show ?case
  proof (cases "revision (lv_session (\<sigma> k)) = revision (lv_session (\<sigma> k1))")
    case True
    then show ?thesis using p by simp
  next
    case False
    have "revision (lv_session (\<sigma> k)) \<le> revision (lv_session (\<sigma> k1))" "revision (lv_session (\<sigma> k1)) \<le> revision (lv_session (\<sigma> (k1 + 1)))"
      using revision_steps [OF trace_le [OF tr, of k k1]] revision_steps [OF trace_le [OF tr, of k1 "k1 + 1"]] payload_later [OF p] by simp_all
    then have "revision (lv_session (\<sigma> k)) + 1 \<le> revision (lv_session (\<sigma> (k1 + 1)))" using False by linarith
    then have "revision (lv_session (\<sigma> j)) \<le> revision (lv_session (\<sigma> (k1 + 1))) + n" for j using Suc.prems [of j] by linarith
    from Suc.IH [OF this] show ?thesis using p False by simp
  qed
qed

section \<open>Agreement\<close>

definition bus_at :: "RelaySession \<Rightarrow> string \<Rightarrow> (string \<times> BusRole \<times> bool \<times> u64) option" where
  "bus_at r bid = map_option (\<lambda>b. (ab_ID b, ab_Role b, bus_SourceActive b, sourceGeneration b)) (map_of (buses r) bid)"

lemma bus_at_view: "bus_at r bid = map_of (bus_view r) bid"
  unfolding bus_at_def bus_view_def map_of_map comp_def by (rule refl)

definition bus_state :: "string \<times> BusRole \<times> bool \<times> u64 \<Rightarrow> ControlBusState" where
  "bus_state v = (case v of (bid, role, active_source, gen) \<Rightarrow>
     \<lparr>cb_BusID = bid, cb_Role = BusRole_String role, cb_SourceActive = active_source, cb_SourceGeneration = gen\<rparr>)"

text \<open>Nothing has changed but that idle buses, never attached, may have appeared.\<close>

definition still :: "RelaySession \<Rightarrow> RelaySession \<Rightarrow> bool" where
  "still r r' \<longleftrightarrow> subscriptions r' = subscriptions r \<and>
     (\<forall>bid. bus_at r' bid = bus_at r bid \<or> bus_at r bid = None \<and> (\<exists>role. bus_at r' bid = Some (bid, role, False, 0)))"

lemma still_refl [simp]: "still r r" by (simp add: still_def)

lemma still_trans: "\<lbrakk>still r r'; still r' r''\<rbrakk> \<Longrightarrow> still r r''"
  unfolding still_def by (metis option.distinct(1))

definition potential :: "live_session \<Rightarrow> nat" where
  "potential s = revision (lv_session s) + lv_unnotified s"

lemma create_still:
  assumes "GetOrCreateBus bid role now r = (True, r')"
  shows "still r r'"
  using assms by (auto simp: GetOrCreateBus_def still_def bus_at_def newAudioBus_def bus_SourceActive_def has_key_def split: if_splits)

lemma potential_step:
  assumes "control_step s s'"
  shows "potential s \<le> potential s'" and "potential s' = potential s \<Longrightarrow> still (lv_session s) (lv_session s')"
proof -
  have "potential s < potential s' \<or> potential s = potential s' \<and> still (lv_session s) (lv_session s')"
    using assms
  proof cases
    case (create_bus bid role now r)
    then show ?thesis using create_still [OF create_bus(2)] GetOrCreateBus_fields(1) [OF create_bus(2)] by (simp add: potential_def)
  next
    case (notify n)
    have "bus_at (notifyStateChange (lv_session s)) = bus_at (lv_session s)" by (rule ext) (simp add: bus_at_def notifyStateChange_def)
    then show ?thesis using notify by (simp add: potential_def still_def) (simp add: notifyStateChange_def)
  next
    case (other r)
    then show ?thesis by (simp add: potential_def still_def bus_at_view)
  qed (auto simp: potential_def changed_def)
  then show "potential s \<le> potential s'" "potential s' = potential s \<Longrightarrow> still (lv_session s) (lv_session s')" by auto
qed

lemma potential_steps:
  assumes "control_step\<^sup>*\<^sup>* s s'"
  shows "potential s \<le> potential s' \<and> (potential s' = potential s \<longrightarrow> still (lv_session s) (lv_session s'))"
  using assms
proof (induction rule: rtranclp_induct)
  case (step t u)
  note step.IH potential_step [OF step.hyps(2)]
  then show ?case using still_trans [of "lv_session s" "lv_session t" "lv_session u"] by fastforce
qed simp

text \<open>Between a load of a revision and a later moment with that revision and nothing outstanding, nothing has changed.\<close>

lemma settled_still:
  assumes tr: "trace control_step \<sigma>" and "k \<le> j" "j \<le> m" and "revision (lv_session (\<sigma> m)) = revision (lv_session (\<sigma> k))" and "lv_unnotified (\<sigma> m) = 0"
  shows "still (lv_session (\<sigma> j)) (lv_session (\<sigma> m))"
proof -
  have "potential (\<sigma> k) \<le> potential (\<sigma> j)" "potential (\<sigma> j) \<le> potential (\<sigma> m)"
    using potential_steps [OF trace_le [OF tr assms(2)]] potential_steps [OF trace_le [OF tr assms(3)]] by auto
  then have "potential (\<sigma> m) = potential (\<sigma> j)" using assms(4,5) by (simp add: potential_def)
  then show ?thesis using potential_steps [OF trace_le [OF tr assms(3)]] by simp
qed

lemma still_known: "\<lbrakk>still r r'; bus_at r bid = Some v\<rbrakk> \<Longrightarrow> bus_at r' bid = Some v"
  unfolding still_def by (metis option.distinct(1))

lemma read_buses_settled:
  assumes "read_buses \<sigma> k bids = (bs, k')" and "\<And>j. \<lbrakk>k \<le> j; j < k'\<rbrakk> \<Longrightarrow> still (\<sigma> j) r"
    and "\<And>bid j. \<lbrakk>bid \<in> set bids; k \<le> j; j < k'\<rbrakk> \<Longrightarrow> bus_at (\<sigma> j) bid \<noteq> None"
  shows "bs = map (\<lambda>bid. bus_state (the (bus_at r bid))) bids"
  using assms
proof (induction bids arbitrary: k bs)
  case (Cons bid bids)
  obtain rest where rest: "read_buses \<sigma> (k + 2) bids = (rest, k')"
    using Cons.prems(1) by (auto simp: Let_def split: option.splits prod.splits)
  have later: "k + 2 \<le> k'" using read_buses_later [OF rest] .
  obtain b b' where b: "map_of (buses (\<sigma> k)) bid = Some b" "map_of (buses (\<sigma> (k + 1))) bid = Some b'"
    using Cons.prems(3) [of bid k] Cons.prems(3) [of bid "k + 1"] later by (auto simp: bus_at_def)
  have at: "bus_at r bid = bus_at (\<sigma> k) bid" "bus_at r bid = bus_at (\<sigma> (k + 1)) bid"
    using still_known [OF Cons.prems(2) [of k]] still_known [OF Cons.prems(2) [of "k + 1"]] b later by (auto simp: bus_at_def)
  have "rest = map (\<lambda>bid. bus_state (the (bus_at r bid))) bids"
    using Cons.prems(2,3) by (intro Cons.IH [OF rest]) auto
  moreover have "bs = \<lparr>cb_BusID = ab_ID b, cb_Role = BusRole_String (ab_Role b), cb_SourceActive = bus_SourceActive b,
      cb_SourceGeneration = sourceGeneration b'\<rparr> # rest"
    using Cons.prems(1) rest b by simp
  moreover have "the (bus_at r bid) = (ab_ID b, ab_Role b, bus_SourceActive b, sourceGeneration b')"
    using at b by (auto simp: bus_at_def)
  ultimately show ?case by (simp add: bus_state_def)
qed simp

definition control_payload :: "RelaySession \<Rightarrow> ControlBusState list \<times> ControlSubscriptionState list" where
  "control_payload r =
     (sort_key cb_BusID (map (\<lambda>bid. bus_state (the (bus_at r bid))) (map fst (buses r))),
      sort_key cu_SubscriberID (map (\<lambda>e. \<lparr>cu_SubscriberID = subscriberID e, cu_BusID = sub_busID e\<rparr>) (subscriptions r)))"

lemma bus_at_key: "bus_at r bid \<noteq> None \<longleftrightarrow> bid \<in> fst ` set (buses r)"
  by (simp add: bus_at_def map_of_eq_None_iff)

lemma payload_settled:
  assumes p: "controlStatePayload \<sigma> k = ((bs, subs), k')" and st: "\<And>j. \<lbrakk>k \<le> j; j < k'\<rbrakk> \<Longrightarrow> still (\<sigma> j) r"
    and mono: "\<And>i j. \<lbrakk>k \<le> i; i \<le> j; j < k'\<rbrakk> \<Longrightarrow> still (\<sigma> i) (\<sigma> j)"
  shows "set bs = (\<lambda>bid. bus_state (the (bus_at r bid))) ` fst ` set (buses (\<sigma> k))" and "subs = snd (control_payload r)"
proof -
  obtain bs1 k1 where run: "read_buses \<sigma> (k + 1) (map fst (buses (\<sigma> k))) = (bs1, k1)" by fastforce
  then have k': "k' = k1 + 1" and bs: "bs = sort_key cb_BusID bs1"
    and subs: "subs = sort_key cu_SubscriberID (map (\<lambda>e. \<lparr>cu_SubscriberID = subscriberID e, cu_BusID = sub_busID e\<rparr>) (subscriptions (\<sigma> k1)))"
    using p by (simp_all add: controlStatePayload_def)
  have "k + 1 \<le> k1" using read_buses_later [OF run] .
  have "bus_at (\<sigma> j) bid \<noteq> None" if "bid \<in> set (map fst (buses (\<sigma> k)))" "k + 1 \<le> j" "j < k1" for bid j
  proof -
    have "bus_at (\<sigma> k) bid \<noteq> None" unfolding bus_at_key using that(1) by simp
    then show ?thesis using still_known [OF mono [of k j]] that k' by auto
  qed
  then have "bs1 = map (\<lambda>bid. bus_state (the (bus_at r bid))) (map fst (buses (\<sigma> k)))"
    using st k' by (intro read_buses_settled [OF run]) auto
  then show "set bs = (\<lambda>bid. bus_state (the (bus_at r bid))) ` fst ` set (buses (\<sigma> k))" by (simp add: bs image_image)
  show "subs = snd (control_payload r)" using st [of k1] \<open>k + 1 \<le> k1\<close> k' by (simp add: subs control_payload_def still_def)
qed

lemma attempts_result:
  assumes "ControlState_attempts n epoch now \<sigma> k = Some (st, k')"
  shows "\<exists>i bs subs. k \<le> i \<and> controlStatePayload \<sigma> (i + 1) = ((bs, subs), k') \<and> revision (\<sigma> i) = cst_Revision st \<and>
    cst_Buses st = bs \<and> cst_Subscriptions st = subs"
  using assms
proof (induction n arbitrary: k)
  case (Suc n)
  obtain bs subs k1 where p: "controlStatePayload \<sigma> (k + 1) = ((bs, subs), k1)" by (metis surj_pair)
  show ?case
  proof (cases "revision (\<sigma> k) = revision (\<sigma> k1)")
    case True
    then show ?thesis using Suc.prems p by (intro exI [of _ k]) auto
  next
    case False
    then obtain i bs' subs' where "k1 + 1 \<le> i" "controlStatePayload \<sigma> (i + 1) = ((bs', subs'), k')" "revision (\<sigma> i) = cst_Revision st"
        "cst_Buses st = bs'" "cst_Subscriptions st = subs'"
      using Suc.IH [of "k1 + 1"] Suc.prems p by auto
    moreover have "k \<le> k1" using payload_later [OF p] by simp
    ultimately show ?thesis by (intro exI [of _ i]) auto
  qed
qed simp

section \<open>Properties\<close>

text \<open>C19. Reading the control state ends.  \<^verbatim>\<open>ControlState\<close> tries again only when a notification came between its two looks at the revision:
  if at most \<open>n\<close> notifications come while it runs, it returns within \<open>n + 1\<close> attempts.\<close>

theorem control_state_terminates:
  assumes "trace control_step \<sigma>" and "\<And>j. revision (lv_session (\<sigma> j)) \<le> revision (lv_session (\<sigma> 0)) + n"
  shows "\<exists>st k. ControlState_attempts (Suc n) epoch now (\<lambda>j. lv_session (\<sigma> j)) 0 = Some (st, k)"
  using attempts_end [OF assms] by auto


text \<open>A session that nobody changes, with one listener of the mix and one attached bus.\<close>

definition steady :: live_session where
  "steady = \<lparr>lv_session = (newWithTimeouts ''s'' 30 60 0)
     \<lparr>subscriptions := [\<lparr>subscriberID = ''a'', sub_busID = ''mix'', sub_ref = 0\<rparr>],
      buses := [(''mic'', exchange_source 3 None None 0 (newAudioBus ''mic'' BusRoleVoice ''s'' 30 60 0))]\<rparr>, lv_unnotified = 0\<rparr>"

lemma steady_attempt:
  "ControlState_attempts (Suc n) epoch now (\<lambda>_. lv_session steady) 0 =
     Some (\<lparr>cst_ContractVersion = 1, cst_SessionID = ''s'', cst_RelayEpoch = epoch, cst_Revision = 1, cst_ObservedAt = now,
       cst_Buses = [\<lparr>cb_BusID = ''mic'', cb_Role = ''voice'', cb_SourceActive = True, cb_SourceGeneration = 1\<rparr>],
       cst_Subscriptions = [\<lparr>cu_SubscriberID = ''a'', cu_BusID = ''mix''\<rparr>]\<rparr>, 5)"
  by (simp add: controlStatePayload_def steady_def newWithTimeouts_def newAudioBus_def exchange_source_def bus_SourceActive_def Let_def)

theorem control_state_terminates_witness:
  "trace control_step (\<lambda>_. steady) \<and> (\<exists>st k. ControlState_attempts (Suc 0) ''e'' 9 (\<lambda>_. lv_session steady) 0 = Some (st, k))"
proof -
  have "trace control_step (\<lambda>_. steady)" by (simp add: trace_def)
  then show ?thesis using control_state_terminates [of "\<lambda>_. steady" 0 "''e''" 9] by simp
qed


section \<open>What the access service accepts\<close>

definition session_wf :: "RelaySession \<Rightarrow> bool" where
  "session_wf r \<longleftrightarrow> rs_ID r \<noteq> [] \<and> 0 < revision r \<and>
     map_wf (buses r) \<and> length (buses r) \<le> 16 \<and> (\<forall>(bid, b) \<in> set (buses r). ab_ID b = bid \<and> validIdentifier bid 64) \<and>
     distinct (map subscriberID (subscriptions r)) \<and>
     (\<forall>e \<in> set (subscriptions r). validIdentifier (subscriberID e) 128 \<and> validIdentifier (sub_busID e) 64)"

lemma wf_notify: "session_wf r \<Longrightarrow> session_wf (notifyStateChange r)"
  by (simp add: session_wf_def notifyStateChange_def)

lemma wf_GetOrCreateBus:
  assumes "session_wf r" and "GetOrCreateBus bid role now r = (ok, r')" and "validIdentifier bid 64" and "maxBuses r \<le> 16"
  shows "session_wf r'"
proof (cases "has_key bid (buses r) \<or> int (length (buses r)) \<ge> maxBuses r")
  case True
  then show ?thesis using assms by (auto simp: GetOrCreateBus_def split: if_splits)
next
  case False
  let ?b = "newAudioBus bid role (rs_ID r) (inactivityTimeout r) (reconnectWindow r) now"
  have r': "r' = r\<lparr>buses := AList.update bid ?b (buses r)\<rparr>" using False assms(2) by (auto simp: GetOrCreateBus_def)
  have "length (AList.update bid ?b (buses r)) \<le> 16" using False assms(4) by (simp add: length_update has_key_def)
  moreover have "\<forall>(k, b) \<in> set (AList.update bid ?b (buses r)). ab_ID b = k \<and> validIdentifier k 64"
    using assms(1,3) by (intro ball_update [where P = "\<lambda>k b. ab_ID b = k \<and> validIdentifier k 64"]) (simp_all add: session_wf_def newAudioBus_def)
  ultimately show ?thesis using assms(1) by (simp add: r' session_wf_def)
qed

lemma wf_on_audio_bus:
  assumes "session_wf r" and "\<And>b. ab_ID (f b) = ab_ID b"
  shows "session_wf (on_audio_bus bid f r)"
proof (cases "map_of (buses r) bid")
  case (Some b)
  have "ab_ID b = bid \<and> validIdentifier bid 64" using assms(1) map_of_SomeD [OF Some] by (auto simp: session_wf_def)
  then have "\<forall>(k, b) \<in> set (AList.update bid (f b) (buses r)). ab_ID b = k \<and> validIdentifier k 64"
    using assms by (intro ball_update [where P = "\<lambda>k b. ab_ID b = k \<and> validIdentifier k 64"]) (simp_all add: session_wf_def)
  moreover have "length (AList.update bid (f b) (buses r)) = length (buses r)" by (simp add: length_update Some)
  ultimately show ?thesis using assms(1) Some by (simp add: on_audio_bus_def session_wf_def)
qed (use assms(1) in \<open>simp add: on_audio_bus_def\<close>)

lemma wf_AttachSource:
  assumes "session_wf r" and "validIdentifier bid 64" and "maxBuses r \<le> 16"
  shows "session_wf (snd (AttachSource bid role src closer timeline loop now r))"
proof (cases "GetOrCreateBus bid role now r")
  case (Pair ok r1)
  have "session_wf r1" using wf_GetOrCreateBus [OF assms(1) Pair assms(2,3)] .
  then have "session_wf (on_audio_bus bid (start_source now \<circ> exchange_source src closer timeline loop) r1)"
    by (rule wf_on_audio_bus) (simp add: start_source_def exchange_source_def)
  then show ?thesis using \<open>session_wf r1\<close> Pair by (simp add: AttachSource_def Let_def wf_notify split: bool.split)
qed

lemma wf_AddBusSubscription:
  assumes "session_wf r" and "validIdentifier sid 128" and "validIdentifier bid 64" and "sid \<notin> subscriberID ` set (subscriptions r)"
  shows "session_wf (snd (AddBusSubscription sid bid ref r))"
proof -
  have "session_wf (r\<lparr>subscriptions := subscriptions r @ [\<lparr>subscriberID = sid, sub_busID = bid, sub_ref = ref\<rparr>]\<rparr>)"
    using assms by (auto simp: session_wf_def)
  then show ?thesis using assms(1) by (simp add: AddBusSubscription_def wf_notify)
qed

lemma wf_RemoveSubscription: "session_wf (rl_session rl) \<Longrightarrow> session_wf (rl_session (RemoveSubscription ops sid rl))"
proof -
  assume "session_wf (rl_session rl)"
  then have "session_wf ((rl_session rl)\<lparr>subscriptions := filter (\<lambda>e. subscriberID e \<noteq> sid) (subscriptions (rl_session rl))\<rparr>)"
    by (auto simp: session_wf_def distinct_map_filter)
  then show ?thesis by (simp add: RemoveSubscription_def Let_def wf_notify)
qed

lemma wf_session_Close: "session_wf (rl_session rl) \<Longrightarrow> session_wf (rl_session (session_Close ops rl))"
  by (auto simp: session_Close_def Let_def session_wf_def bus_close_def case_prod_beta comp_def)

lemma distinct_map_sort_key: "distinct (map f (sort_key g xs)) \<longleftrightarrow> distinct (map f xs)"
  by (rule mset_eq_imp_distinct_iff) simp

lemma quiet_payload: "fst (controlStatePayload (\<lambda>_. r) k) = control_payload r"
proof -
  obtain bs k1 where run: "read_buses (\<lambda>_. r) (k + 1) (map fst (buses r)) = (bs, k1)" by fastforce
  have "bus_at r bid \<noteq> None" if "bid \<in> set (map fst (buses r))" for bid unfolding bus_at_key using that by simp
  then have "bs = map (\<lambda>bid. bus_state (the (bus_at r bid))) (map fst (buses r))"
    by (intro read_buses_settled [OF run]) auto
  then show ?thesis using run by (simp add: controlStatePayload_def control_payload_def)
qed

lemma quiet_state:
  assumes "ControlState_attempts 1 epoch now (\<lambda>_. r) 0 = Some (st, k)"
  shows "st = \<lparr>cst_ContractVersion = 1, cst_SessionID = rs_ID r, cst_RelayEpoch = epoch, cst_Revision = revision r, cst_ObservedAt = now,
    cst_Buses = fst (control_payload r), cst_Subscriptions = snd (control_payload r)\<rparr>"
  using assms quiet_payload [of r 1] by (auto simp: Let_def split: prod.splits)

lemma wf_bus_state:
  assumes "session_wf r" and "bid \<in> fst ` set (buses r)"
  shows "cb_BusID (bus_state (the (bus_at r bid))) = bid \<and> validIdentifier bid 64 \<and> validIdentifier (cb_Role (bus_state (the (bus_at r bid)))) 64"
proof -
  obtain b where b: "map_of (buses r) bid = Some b" using assms(2) by (metis map_of_eq_None_iff option.exhaust)
  have "ab_ID b = bid \<and> validIdentifier bid 64" using assms(1) map_of_SomeD [OF b] by (auto simp: session_wf_def)
  moreover have "validIdentifier (BusRole_String role) 64" for role by (cases role; hypsubst; code_simp)
  ultimately show ?thesis by (simp add: bus_at_def b bus_state_def)
qed


text \<open>A listener of a bus that has no publisher yet.\<close>

definition early_listener :: RelaySession where
  "early_listener = (newWithTimeouts ''s'' 30 60 0)\<lparr>subscriptions := [\<lparr>subscriberID = ''a'', sub_busID = ''music'', sub_ref = 0\<rparr>]\<rparr>"


end
