(* ===== verification/Session_Registry.thy ===== *)
theory Session_Registry
  imports Relay_Session
begin

text \<open>
  The registry of the active relay sessions, \<^verbatim>\<open>internal/session/registry.go\<close>.  A session is a reference into a store, since peers keep
  sessions they have joined after the registry has dropped them; closed sessions leave the registry when it is next used.
\<close>

record 's SessionRegistry =
  rooms :: "(string, nat) gomap"
  reg_sessions :: "RelaySession list"
  reg_subs :: "nat \<Rightarrow> 's"
  reg_inactivityTimeout :: duration
  reg_reconnectWindow :: duration
  reg_maxSubscriptions :: int
  reg_maxBuses :: int

definition NewRegistryWithConfig :: "duration \<Rightarrow> duration \<Rightarrow> int \<Rightarrow> int \<Rightarrow> (nat \<Rightarrow> 's) \<Rightarrow> 's SessionRegistry" where
  "NewRegistryWithConfig inactivity reconnect maxSubs maxBs subs =
     \<lparr>rooms = [], reg_sessions = [], reg_subs = subs,
      reg_inactivityTimeout = (if inactivity \<le> 0 then defaultInactivityTimeout else inactivity),
      reg_reconnectWindow = (if reconnect \<le> 0 then defaultReconnectWindow else reconnect),
      reg_maxSubscriptions = maxSubs, reg_maxBuses = (if maxBs \<le> 0 then defaultMaxBuses else maxBs)\<rparr>"

definition removeClosedLocked :: "'s SessionRegistry \<Rightarrow> 's SessionRegistry" where
  "removeClosedLocked reg = reg\<lparr>rooms := filter (\<lambda>(sid, p). \<not> rs_done (reg_sessions reg ! p)) (rooms reg)\<rparr>"

definition getOrCreateLocked :: "string \<Rightarrow> time \<Rightarrow> 's SessionRegistry \<Rightarrow> nat \<times> 's SessionRegistry" where
  "getOrCreateLocked sid now reg =
     (case map_of (rooms reg) sid of
        Some p \<Rightarrow> (p, reg)
      | None \<Rightarrow>
          let r = (newWithTimeouts sid (reg_inactivityTimeout reg) (reg_reconnectWindow reg) now)
                \<lparr>maxSubscriptions := reg_maxSubscriptions reg, maxBuses := reg_maxBuses reg\<rparr>;
              p = length (reg_sessions reg)
          in (p, reg\<lparr>rooms := AList.update sid p (rooms reg), reg_sessions := reg_sessions reg @ [r]\<rparr>))"

definition GetOrCreateWithinLimit ::
  "string \<Rightarrow> int \<Rightarrow> time \<Rightarrow> 's SessionRegistry \<Rightarrow> (nat \<times> bool) option \<times> 's SessionRegistry" where
  "GetOrCreateWithinLimit sid maxSessions now reg =
     (let reg1 = removeClosedLocked reg
      in case map_of (rooms reg1) sid of
           Some p \<Rightarrow> (Some (p, False), reg1)
         | None \<Rightarrow>
             if maxSessions > 0 \<and> int (length (rooms reg1)) \<ge> maxSessions then (None, reg1)
             else let (p, reg2) = getOrCreateLocked sid now reg1 in (Some (p, True), reg2))"

definition registry_Get :: "string \<Rightarrow> 's SessionRegistry \<Rightarrow> nat option \<times> 's SessionRegistry" where
  "registry_Get sid reg = (let reg1 = removeClosedLocked reg in (map_of (rooms reg1) sid, reg1))"

definition registry_All :: "'s SessionRegistry \<Rightarrow> nat list \<times> 's SessionRegistry" where
  "registry_All reg = (let reg1 = removeClosedLocked reg in (map snd (rooms reg1), reg1))"

definition close_session :: "'s BusSubscription \<Rightarrow> nat \<Rightarrow> 's SessionRegistry \<Rightarrow> 's SessionRegistry" where
  "close_session ops p reg =
     (let rl = session_Close ops \<lparr>rl_session = reg_sessions reg ! p, rl_subs = reg_subs reg\<rparr>
      in reg\<lparr>reg_sessions := (reg_sessions reg)[p := rl_session rl], reg_subs := rl_subs rl\<rparr>)"

definition registry_Delete :: "'s BusSubscription \<Rightarrow> string \<Rightarrow> 's SessionRegistry \<Rightarrow> 's SessionRegistry" where
  "registry_Delete ops sid reg =
     (case map_of (rooms reg) sid of
        None \<Rightarrow> reg
      | Some p \<Rightarrow> (close_session ops p reg)\<lparr>rooms := AList.delete sid (rooms reg)\<rparr>)"

definition CloseAll :: "'s BusSubscription \<Rightarrow> 's SessionRegistry \<Rightarrow> 's SessionRegistry" where
  "CloseAll ops reg = (fold (close_session ops \<circ> snd) (rooms reg) reg)\<lparr>rooms := []\<rparr>"

record SessionSummary =
  sum_SessionID :: string
  SubscriptionCount :: nat
  sum_SourceActive :: bool
  sum_CreatedAt :: time
  sum_Public :: bool

definition ListPublic :: "'s SessionRegistry \<Rightarrow> SessionSummary list" where
  "ListPublic reg =
     map (\<lambda>r. \<lparr>sum_SessionID = rs_ID r, SubscriptionCount = length (subscriptions r), sum_SourceActive = session_SourceActive r,
             sum_CreatedAt = rs_createdAt r, sum_Public = True\<rparr>)
       (filter rs_Public (map (\<lambda>(sid, p). reg_sessions reg ! p) (rooms (removeClosedLocked reg))))"

section \<open>Invariant\<close>

definition rooms_ok :: "'s SessionRegistry \<Rightarrow> bool" where
  "rooms_ok reg \<longleftrightarrow> map_wf (rooms reg) \<and> (\<forall>(sid, p) \<in> set (rooms reg). p < length (reg_sessions reg) \<and> rs_ID (reg_sessions reg ! p) = sid)"

lemma rooms_ok_new: "rooms_ok (NewRegistryWithConfig inactivity reconnect maxSubs maxBs subs)"
  by (simp add: rooms_ok_def NewRegistryWithConfig_def)

lemma rooms_ok_removeClosed: "rooms_ok reg \<Longrightarrow> rooms_ok (removeClosedLocked reg)"
  by (auto simp: rooms_ok_def removeClosedLocked_def)

lemma removeClosed_live:
  assumes "rooms_ok reg" and "map_of (rooms (removeClosedLocked reg)) sid = Some p"
  shows "p < length (reg_sessions reg) \<and> rs_ID (reg_sessions reg ! p) = sid \<and> \<not> rs_done (reg_sessions reg ! p)"
  using assms(1) map_of_SomeD [OF assms(2)] by (auto simp: rooms_ok_def removeClosedLocked_def)

lemma rooms_ok_getOrCreate:
  assumes ok: "rooms_ok reg" and run: "getOrCreateLocked sid now reg = (p, reg')"
  shows "rooms_ok reg' \<and> p < length (reg_sessions reg') \<and> rs_ID (reg_sessions reg' ! p) = sid"
proof (cases "map_of (rooms reg) sid")
  case None
  let ?r = "(newWithTimeouts sid (reg_inactivityTimeout reg) (reg_reconnectWindow reg) now)
      \<lparr>maxSubscriptions := reg_maxSubscriptions reg, maxBuses := reg_maxBuses reg\<rparr>"
  have p: "p = length (reg_sessions reg)"
    and reg': "reg' = reg\<lparr>rooms := AList.update sid (length (reg_sessions reg)) (rooms reg), reg_sessions := reg_sessions reg @ [?r]\<rparr>"
    using run None by (auto simp: getOrCreateLocked_def Let_def)
  have "rs_ID ?r = sid" by (simp add: newWithTimeouts_def)
  moreover have "\<forall>(k, q) \<in> set (AList.update sid (length (reg_sessions reg)) (rooms reg)).
      q < length (reg_sessions reg @ [?r]) \<and> rs_ID ((reg_sessions reg @ [?r]) ! q) = k"
    using ok calculation by (intro ball_update [where P = "\<lambda>k q. q < length (reg_sessions reg @ [?r]) \<and> rs_ID ((reg_sessions reg @ [?r]) ! q) = k"])
      (auto simp: rooms_ok_def nth_append)
  ultimately show ?thesis using ok by (simp add: reg' p rooms_ok_def)
next
  case (Some q)
  then show ?thesis using run ok map_of_SomeD [OF Some] by (auto simp: getOrCreateLocked_def rooms_ok_def)
qed

lemma within_limit:
  assumes ok: "rooms_ok reg" and run: "GetOrCreateWithinLimit sid maxSessions now reg = (r, reg')"
  shows "rooms_ok reg'" and "0 < maxSessions \<Longrightarrow> int (length (rooms reg)) \<le> maxSessions \<Longrightarrow> int (length (rooms reg')) \<le> maxSessions"
    and "r = Some (p, created) \<Longrightarrow> p < length (reg_sessions reg') \<and> rs_ID (reg_sessions reg' ! p) = sid \<and> \<not> rs_done (reg_sessions reg' ! p) \<and>
      map_of (rooms reg') sid = Some p"
proof -
  let ?reg = "removeClosedLocked reg"
  have ok1: "rooms_ok ?reg" and fewer: "length (rooms ?reg) \<le> length (rooms reg)"
    using rooms_ok_removeClosed [OF ok] by (simp_all add: removeClosedLocked_def)
  have same: "reg_sessions ?reg = reg_sessions reg" by (simp add: removeClosedLocked_def)
  show "rooms_ok reg'"
    using run ok1 rooms_ok_getOrCreate [OF ok1]
    by (auto simp: GetOrCreateWithinLimit_def Let_def split: option.splits if_splits prod.splits)
  show "int (length (rooms reg')) \<le> maxSessions" if "0 < maxSessions" "int (length (rooms reg)) \<le> maxSessions"
    using run that fewer
    by (auto simp: GetOrCreateWithinLimit_def getOrCreateLocked_def Let_def length_update split: option.splits if_splits)
  show "p < length (reg_sessions reg') \<and> rs_ID (reg_sessions reg' ! p) = sid \<and> \<not> rs_done (reg_sessions reg' ! p) \<and> map_of (rooms reg') sid = Some p"
    if "r = Some (p, created)"
  proof (cases "map_of (rooms ?reg) sid")
    case None
    then show ?thesis using run that
      by (auto simp: GetOrCreateWithinLimit_def getOrCreateLocked_def Let_def newWithTimeouts_def nth_append split: if_splits)
  next
    case (Some q)
    then show ?thesis using run that removeClosed_live [OF ok Some] by (auto simp: GetOrCreateWithinLimit_def Let_def same)
  qed
qed

end
