(* ===== verification/Subscriber_Lifecycle.thy ===== *)
theory Subscriber_Lifecycle
  imports Session_Registry
begin

text \<open>
  The subscribers of one session, from the slot a join reserves to the cleanup of the peer: \<^verbatim>\<open>TryReserveSlot\<close> and the connection callback of
  \<^verbatim>\<open>handleJoin\<close> (\<^verbatim>\<open>internal/server/peer_join.go\<close>), and \<^verbatim>\<open>cleanup\<close> (\<^verbatim>\<open>internal/server/signal_peer.go\<close>).  The signaling goroutine of a peer reserves
  and cleans up; the WebRTC library calls the callback on a goroutine of its own.  Each step is one atomic operation of one of them, so
  that they interleave as they do in the relay.  A second callback of a peer finds the slot taken and does nothing: one program
  counter stands for all of them.
\<close>

section \<open>Peers\<close>

datatype handler_pc =
    H_new | H_loaded int | H_counted int nat | H_got | H_joined | H_refused
  | C_release | C_load | C_remove bool | C_count bool | C_done

datatype callback_pc = K_idle | K_release | K_register | K_add | K_undo | K_count | K_done

record subscriber_peer =
  handler :: handler_pc
  callback :: callback_pc
  slotReserved :: bool
  subscriptionRegistered :: bool

record 's subscribers =
  sl_relay :: "'s relay"
  peers :: "string \<Rightarrow> subscriber_peer"
  ListenerCount :: int

datatype subscriber_action = Reserve string | Connected string string nat | Leave string | Evict string

definition new_peer :: subscriber_peer where
  "new_peer = \<lparr>handler = H_new, callback = K_idle, slotReserved = False, subscriptionRegistered = False\<rparr>"

definition set_peer :: "string \<Rightarrow> subscriber_peer \<Rightarrow> 's subscribers \<Rightarrow> 's subscribers" where
  "set_peer i q s = s\<lparr>peers := (peers s)(i := q)\<rparr>"

definition on_session :: "(RelaySession \<Rightarrow> RelaySession) \<Rightarrow> 's subscribers \<Rightarrow> 's subscribers" where
  "on_session f s = s\<lparr>sl_relay := (sl_relay s)\<lparr>rl_session := f (rl_session (sl_relay s))\<rparr>\<rparr>"

abbreviation session_of :: "'s subscribers \<Rightarrow> RelaySession" where
  "session_of s \<equiv> rl_session (sl_relay s)"

text \<open>The reservation: the loads of \<^verbatim>\<open>TryReserveSlot\<close>, its exchange, and the flag of the peer.\<close>

definition reserve_step :: "int \<Rightarrow> string \<Rightarrow> 's subscribers \<Rightarrow> 's subscribers option" where
  "reserve_step maximum i s =
     (let q = peers s i
      in case handler q of
           H_new \<Rightarrow> Some (set_peer i (q\<lparr>handler := H_loaded (pendingSlots (session_of s))\<rparr>) s)
         | H_loaded loaded \<Rightarrow> Some (set_peer i (q\<lparr>handler := H_counted loaded (length (subscriptions (session_of s)))\<rparr>) s)
         | H_counted loaded seen \<Rightarrow>
             (case try_reserve maximum loaded seen (session_of s) of
                (Reserved, r) \<Rightarrow> Some (set_peer i (q\<lparr>handler := H_got\<rparr>) (on_session (\<lambda>_. r) s))
              | (Refused, r) \<Rightarrow> Some (set_peer i (q\<lparr>handler := H_refused\<rparr>) s)
              | (Retry, r) \<Rightarrow> Some (set_peer i (q\<lparr>handler := H_new\<rparr>) s))
         | H_got \<Rightarrow> Some (set_peer i (q\<lparr>handler := H_joined, slotReserved := True\<rparr>) s)
         | _ \<Rightarrow> None)"

text \<open>The callback when the connection is up: it turns the slot into a subscription, first by the flags, then in the session.\<close>

definition register_step :: "'s BusSubscription \<Rightarrow> string \<Rightarrow> string \<Rightarrow> nat \<Rightarrow> 's subscribers \<Rightarrow> 's subscribers option" where
  "register_step ops i bid ref s =
     (let q = peers s i
      in case callback q of
           K_add \<Rightarrow>
             (case AddBusSubscription i bid ref (session_of s) of
                (None, r) \<Rightarrow> Some (set_peer i (q\<lparr>callback := K_count\<rparr>) (on_session (\<lambda>_. r) s))
              | (Some _, _) \<Rightarrow> Some (set_peer i (q\<lparr>callback := K_undo\<rparr>) s))
         | K_undo \<Rightarrow>
             Some (set_peer i (q\<lparr>subscriptionRegistered := False, callback := K_done\<rparr>)
               (s\<lparr>sl_relay := (sl_relay s)\<lparr>rl_subs := (rl_subs (sl_relay s))(ref := StopForwarding ops (rl_subs (sl_relay s) ref))\<rparr>\<rparr>))
         | K_count \<Rightarrow> Some (set_peer i (q\<lparr>callback := K_done\<rparr>) (s\<lparr>ListenerCount := ListenerCount s + 1\<rparr>))
         | _ \<Rightarrow> None)"

definition connected_step :: "'s BusSubscription \<Rightarrow> string \<Rightarrow> string \<Rightarrow> nat \<Rightarrow> 's subscribers \<Rightarrow> 's subscribers option" where
  "connected_step ops i bid ref s =
     (let q = peers s i
      in case callback q of
           K_idle \<Rightarrow>
             if \<not> slotReserved q then None
             else Some (set_peer i (q\<lparr>slotReserved := False, callback := K_release\<rparr>) s)
         | K_release \<Rightarrow> Some (set_peer i (q\<lparr>callback := K_register\<rparr>) (on_session ReleaseSlot s))
         | K_register \<Rightarrow>
             Some (set_peer i (q\<lparr>subscriptionRegistered := True, callback := (if subscriptionRegistered q then K_done else K_add)\<rparr>) s)
         | _ \<Rightarrow> register_step ops i bid ref s)"

text \<open>The cleanup of a subscriber, on the goroutine that read its messages.\<close>

definition cleanup_step :: "'s BusSubscription \<Rightarrow> string \<Rightarrow> 's subscribers \<Rightarrow> 's subscribers option" where
  "cleanup_step ops i s =
     (let q = peers s i;
          start = Some (set_peer i (q\<lparr>slotReserved := False, handler := (if slotReserved q then C_release else C_load)\<rparr>) s)
      in case handler q of
           H_new \<Rightarrow> start
         | H_joined \<Rightarrow> start
         | H_refused \<Rightarrow> start
         | C_release \<Rightarrow> Some (set_peer i (q\<lparr>handler := C_load\<rparr>) (on_session ReleaseSlot s))
         | C_load \<Rightarrow> Some (set_peer i (q\<lparr>handler := C_remove (subscriptionRegistered q)\<rparr>) s)
         | C_remove registered \<Rightarrow>
             Some (set_peer i (q\<lparr>handler := C_count registered\<rparr>) (s\<lparr>sl_relay := RemoveSubscription ops i (sl_relay s)\<rparr>))
         | C_count registered \<Rightarrow>
             Some (set_peer i (q\<lparr>handler := C_done\<rparr>) (s\<lparr>ListenerCount := ListenerCount s - (if registered then 1 else 0)\<rparr>))
         | _ \<Rightarrow> None)"

fun subscriber_step :: "'s BusSubscription \<Rightarrow> int \<Rightarrow> subscriber_action \<Rightarrow> 's subscribers \<Rightarrow> 's subscribers option" where
  "subscriber_step ops maximum (Reserve i) s = reserve_step maximum i s"
| "subscriber_step ops maximum (Connected i bid ref) s = connected_step ops i bid ref s"
| "subscriber_step ops maximum (Leave i) s = cleanup_step ops i s"
| "subscriber_step ops maximum (Evict i) s = Some (s\<lparr>sl_relay := RemoveSubscription ops i (sl_relay s)\<rparr>)"

fun subscriber_run :: "'s BusSubscription \<Rightarrow> int \<Rightarrow> subscriber_action list \<Rightarrow> 's subscribers \<Rightarrow> 's subscribers option" where
  "subscriber_run ops maximum [] s = Some s"
| "subscriber_run ops maximum (a # as) s =
     (case subscriber_step ops maximum a s of None \<Rightarrow> None | Some s1 \<Rightarrow> subscriber_run ops maximum as s1)"

definition no_subscribers :: "RelaySession \<Rightarrow> (nat \<Rightarrow> 's) \<Rightarrow> 's subscribers" where
  "no_subscribers r subs = \<lparr>sl_relay = \<lparr>rl_session = r, rl_subs = subs\<rparr>, peers = (\<lambda>_. new_peer), ListenerCount = 0\<rparr>"

section \<open>Invariant\<close>

text \<open>Who answers for a slot: the goroutine that has it and not yet flagged it, the flag, or the goroutine that took the flag and not yet
  released the slot.\<close>

definition holds_slot :: "subscriber_peer \<Rightarrow> bool" where
  "holds_slot q \<longleftrightarrow> handler q = H_got \<or> slotReserved q \<or> callback q = K_release \<or> handler q = C_release"

definition before_join :: "subscriber_peer \<Rightarrow> bool" where
  "before_join q = (case handler q of H_new \<Rightarrow> True | H_loaded _ \<Rightarrow> True | H_counted _ _ \<Rightarrow> True | H_got \<Rightarrow> True | H_refused \<Rightarrow> True | _ \<Rightarrow> False)"

definition peer_ok :: "subscriber_peer \<Rightarrow> bool" where
  "peer_ok q \<longleftrightarrow> (before_join q \<longrightarrow> \<not> slotReserved q \<and> callback q = K_idle) \<and>
     (slotReserved q \<longrightarrow> handler q = H_joined \<and> callback q = K_idle) \<and>
     (handler q = C_release \<longrightarrow> callback q = K_idle) \<and>
     (callback q \<in> {K_idle, K_release, K_register} \<longrightarrow> \<not> subscriptionRegistered q)"

definition subscribed :: "string \<Rightarrow> RelaySession \<Rightarrow> bool" where
  "subscribed i r \<longleftrightarrow> i \<in> subscriberID ` set (subscriptions r)"

definition slots_inv :: "'s subscribers \<Rightarrow> bool" where
  "slots_inv s \<longleftrightarrow> (\<forall>i. peer_ok (peers s i)) \<and> finite {i. holds_slot (peers s i)} \<and>
     pendingSlots (session_of s) = int (card {i. holds_slot (peers s i)}) \<and>
     distinct (map subscriberID (subscriptions (session_of s))) \<and>
     (\<forall>i. subscribed i (session_of s) \<longrightarrow> callback (peers s i) = K_count \<or> callback (peers s i) = K_done) \<and>
     (maxSubscriptions (session_of s) > 0 \<longrightarrow> int (length (subscriptions (session_of s))) \<le> maxSubscriptions (session_of s))"

lemma set_peer_simps [simp]:
  "sl_relay (set_peer i q s) = sl_relay s" "peers (set_peer i q s) = (peers s)(i := q)" "ListenerCount (set_peer i q s) = ListenerCount s"
  by (simp_all add: set_peer_def)

lemma on_session_simps [simp]:
  "session_of (on_session f s) = f (session_of s)" "peers (on_session f s) = peers s" "ListenerCount (on_session f s) = ListenerCount s"
  by (simp_all add: on_session_def)

lemma removed_session:
  "subscriptions (rl_session (RemoveSubscription ops i rl)) = filter (\<lambda>e. subscriberID e \<noteq> i) (subscriptions (rl_session rl))"
  "pendingSlots (rl_session (RemoveSubscription ops i rl)) = pendingSlots (rl_session rl)"
  "maxSubscriptions (rl_session (RemoveSubscription ops i rl)) = maxSubscriptions (rl_session rl)"
  by (simp_all add: RemoveSubscription_def Let_def notifyStateChange_def)

text \<open>A step changes one peer and, with it, the slots: taken, released, or as they were.\<close>

lemma card_holders:
  assumes "finite {j. holds_slot (ps j)}"
  shows "finite {j. holds_slot ((ps(i := q)) j)} \<and>
    int (card {j. holds_slot ((ps(i := q)) j)}) =
      int (card {j. holds_slot (ps j)}) + (if holds_slot q then 1 else 0) - (if holds_slot (ps i) then 1 else 0)"
proof -
  let ?H = "{j. holds_slot (ps j)}"
  have eq: "{j. holds_slot ((ps(i := q)) j)} = (if holds_slot q then insert i (?H - {i}) else ?H - {i})" by auto
  have "card (insert i (?H - {i})) = Suc (card (?H - {i}))" by (rule card_insert_disjoint) (use assms in auto)
  moreover have "int (card (?H - {i})) = int (card ?H) - (if holds_slot (ps i) then 1 else 0)"
    using assms card_Suc_Diff1 [of ?H i] by auto
  ultimately show ?thesis unfolding eq using assms by auto
qed

lemma slots_step:
  assumes inv: "slots_inv s" and peer: "peer_ok q"
    and relay: "pendingSlots r = pendingSlots (session_of s) + (if holds_slot q then 1 else 0) - (if holds_slot (peers s i) then 1 else 0)"
    and entries: "distinct (map subscriberID (subscriptions r))"
      "\<And>j. subscribed j r \<Longrightarrow> if j = i then callback q = K_count \<or> callback q = K_done else subscribed j (session_of s)"
      "maxSubscriptions r > 0 \<Longrightarrow> int (length (subscriptions r)) \<le> maxSubscriptions r"
    and s': "session_of s' = r" "peers s' = (peers s)(i := q)"
  shows "slots_inv s'"
proof -
  have fin: "finite {j. holds_slot (peers s j)}" using inv by (simp add: slots_inv_def)
  note card = card_holders [OF fin, of i q]
  have "\<forall>j. peer_ok (peers s' j)" using inv peer by (simp add: slots_inv_def s')
  moreover have "finite {j. holds_slot (peers s' j)}" using card by (simp add: s')
  moreover have "pendingSlots (session_of s') = int (card {j. holds_slot (peers s' j)})"
    using card relay inv unfolding slots_inv_def s' by linarith
  moreover have "callback (peers s' j) = K_count \<or> callback (peers s' j) = K_done" if "subscribed j (session_of s')" for j
    using entries(2) [of j] that inv by (cases "j = i") (simp_all add: s' slots_inv_def)
  ultimately show ?thesis using entries(1,3) unfolding slots_inv_def s' by blast
qed

lemma slots_local:
  assumes inv: "slots_inv s" and peer: "peer_ok q" and same: "holds_slot q = holds_slot (peers s i)"
    and "callback q = callback (peers s i) \<or> callback (peers s i) \<noteq> K_count \<and> callback (peers s i) \<noteq> K_done \<or> callback q = K_done"
    and s': "session_of s' = session_of s" "peers s' = (peers s)(i := q)"
  shows "slots_inv s'"
  by (rule slots_step [OF inv peer _ _ _ _ s']) (use assms in \<open>auto simp: slots_inv_def\<close>)

lemma slots_count:
  assumes inv: "slots_inv s" and "peer_ok q"
    and "n = pendingSlots (session_of s) + (if holds_slot q then 1 else 0) - (if holds_slot (peers s i) then 1 else 0)"
    and "callback q = callback (peers s i) \<or> callback (peers s i) \<noteq> K_count \<and> callback (peers s i) \<noteq> K_done"
  shows "slots_inv (set_peer i q (on_session (\<lambda>_. (session_of s)\<lparr>pendingSlots := n\<rparr>) s))"
proof (rule slots_step [OF inv assms(2), where r = "(session_of s)\<lparr>pendingSlots := n\<rparr>" and i = i])
  show "if k = i then callback q = K_count \<or> callback q = K_done else subscribed k (session_of s)"
    if "subscribed k ((session_of s)\<lparr>pendingSlots := n\<rparr>)" for k
    using that inv assms(4) by (auto simp: subscribed_def slots_inv_def)
qed (use inv assms(3) in \<open>simp_all add: slots_inv_def\<close>)

lemma slots_take:
  assumes "slots_inv s" and "peer_ok q" and "\<not> holds_slot (peers s i)" and "holds_slot q" and "callback q = callback (peers s i)"
  shows "slots_inv (set_peer i q (on_session (\<lambda>_. (session_of s)\<lparr>pendingSlots := pendingSlots (session_of s) + 1\<rparr>) s))"
  by (rule slots_count) (use assms in simp_all)

lemma slots_release:
  assumes "slots_inv s" and "peer_ok q" and "holds_slot (peers s i)" and "\<not> holds_slot q"
    and "callback q = callback (peers s i) \<or> callback (peers s i) \<noteq> K_count \<and> callback (peers s i) \<noteq> K_done"
  shows "slots_inv (set_peer i q (on_session ReleaseSlot s))"
proof -
  have "on_session ReleaseSlot s = on_session (\<lambda>_. (session_of s)\<lparr>pendingSlots := pendingSlots (session_of s) - 1\<rparr>) s"
    by (simp add: on_session_def ReleaseSlot_def)
  then show ?thesis using slots_count [OF assms(1,2) _ assms(5)] assms(3,4) by simp
qed

lemma slots_reserve:
  assumes inv: "slots_inv s" and run: "reserve_step maximum i s = Some s'"
  shows "slots_inv s'"
proof -
  let ?q = "peers s i"
  have ok: "peer_ok ?q" using inv by (simp add: slots_inv_def)
  note moved = slots_local [OF inv, where i = i]
  show ?thesis
  proof (cases "handler ?q")
    case H_new
    show ?thesis by (rule moved [where q = "?q\<lparr>handler := H_loaded (pendingSlots (session_of s))\<rparr>"])
      (use ok run H_new in \<open>auto simp: reserve_step_def peer_ok_def before_join_def holds_slot_def\<close>)
  next
    case (H_loaded n)
    show ?thesis by (rule moved [where q = "?q\<lparr>handler := H_counted n (length (subscriptions (session_of s)))\<rparr>"])
      (use ok run H_loaded in \<open>auto simp: reserve_step_def peer_ok_def before_join_def holds_slot_def\<close>)
  next
    case (H_counted n m)
    obtain out r where t: "try_reserve maximum n m (session_of s) = (out, r)" by fastforce
    have q: "\<not> slotReserved ?q" "callback ?q = K_idle" "\<not> subscriptionRegistered ?q" "\<not> holds_slot ?q"
      using ok H_counted by (auto simp: peer_ok_def before_join_def holds_slot_def)
    show ?thesis
    proof (cases out)
      case Reserved
      then have s': "s' = set_peer i (?q\<lparr>handler := H_got\<rparr>) (on_session (\<lambda>_. r) s)" using run H_counted t by (simp add: reserve_step_def)
      have r: "r = (session_of s)\<lparr>pendingSlots := pendingSlots (session_of s) + 1\<rparr>"
        using t Reserved by (auto simp: try_reserve_def split: if_splits)
      show ?thesis unfolding s' r by (rule slots_take [OF inv])
        (use q H_counted in \<open>simp_all add: peer_ok_def before_join_def holds_slot_def\<close>)
    next
      case Refused
      then have s': "s' = set_peer i (?q\<lparr>handler := H_refused\<rparr>) s" using run H_counted t by (simp add: reserve_step_def)
      show ?thesis unfolding s' by (rule moved [where q = "?q\<lparr>handler := H_refused\<rparr>"])
        (use q H_counted in \<open>auto simp: peer_ok_def before_join_def holds_slot_def\<close>)
    next
      case Retry
      then have s': "s' = set_peer i (?q\<lparr>handler := H_new\<rparr>) s" using run H_counted t by (simp add: reserve_step_def)
      show ?thesis unfolding s' by (rule moved [where q = "?q\<lparr>handler := H_new\<rparr>"])
        (use q H_counted in \<open>auto simp: peer_ok_def before_join_def holds_slot_def\<close>)
    qed
  next
    case H_got
    show ?thesis by (rule moved [where q = "?q\<lparr>handler := H_joined, slotReserved := True\<rparr>"])
      (use ok run H_got in \<open>auto simp: reserve_step_def peer_ok_def before_join_def holds_slot_def\<close>)
  qed (use run in \<open>simp_all add: reserve_step_def\<close>)
qed

lemma slots_connected:
  assumes inv: "slots_inv s" and run: "connected_step ops i bid ref s = Some s'"
  shows "slots_inv s'"
proof -
  let ?q = "peers s i"
  have ok: "peer_ok ?q" using inv by (simp add: slots_inv_def)
  note moved = slots_local [OF inv, where i = i]
  show ?thesis
  proof (cases "callback ?q")
    case K_idle
    show ?thesis by (rule moved [where q = "?q\<lparr>slotReserved := False, callback := K_release\<rparr>"])
      (use ok run K_idle in \<open>auto simp: connected_step_def register_step_def Let_def peer_ok_def before_join_def holds_slot_def split: if_splits\<close>)
  next
    case K_release
    then have s': "s' = set_peer i (?q\<lparr>callback := K_register\<rparr>) (on_session ReleaseSlot s)" using run by (simp add: connected_step_def register_step_def)
    show ?thesis unfolding s' by (rule slots_release [OF inv])
      (use ok K_release in \<open>auto simp: peer_ok_def before_join_def holds_slot_def split: handler_pc.splits\<close>)
  next
    case K_register
    show ?thesis by (rule moved [where q = "?q\<lparr>subscriptionRegistered := True, callback := K_add\<rparr>"])
      (use ok run K_register in \<open>auto simp: connected_step_def register_step_def peer_ok_def before_join_def holds_slot_def\<close>)
  next
    case K_add
    obtain e r where a: "AddBusSubscription i bid ref (session_of s) = (e, r)" by fastforce
    have fresh: "\<not> subscribed i (session_of s)" using inv K_add unfolding slots_inv_def by force
    show ?thesis
    proof (cases e)
      case None
      then have s': "s' = set_peer i (?q\<lparr>callback := K_count\<rparr>) (on_session (\<lambda>_. r) s)" using run K_add a by (simp add: connected_step_def register_step_def)
      have r: "subscriptions r = subscriptions (session_of s) @ [\<lparr>subscriberID = i, sub_busID = bid, sub_ref = ref\<rparr>]"
        "pendingSlots r = pendingSlots (session_of s)" "maxSubscriptions r = maxSubscriptions (session_of s)"
        "maxSubscriptions r > 0 \<Longrightarrow> int (length (subscriptions (session_of s))) < maxSubscriptions r"
        using a None by (auto simp: AddBusSubscription_def notifyStateChange_def split: if_splits)
      show ?thesis unfolding s'
        by (rule slots_step [OF inv, where r = r and i = i and q = "?q\<lparr>callback := K_count\<rparr>"])
          (use inv ok fresh K_add r(4) in \<open>auto simp: r(1-3) peer_ok_def before_join_def holds_slot_def slots_inv_def subscribed_def\<close>)
    next
      case (Some x)
      then have s': "s' = set_peer i (?q\<lparr>callback := K_undo\<rparr>) s" using run K_add a by (simp add: connected_step_def register_step_def)
      show ?thesis unfolding s' by (rule moved [where q = "?q\<lparr>callback := K_undo\<rparr>"])
        (use ok K_add in \<open>auto simp: peer_ok_def before_join_def holds_slot_def\<close>)
    qed
  next
    case K_undo
    show ?thesis by (rule moved [where q = "?q\<lparr>subscriptionRegistered := False, callback := K_done\<rparr>"])
      (use ok run K_undo in \<open>auto simp: connected_step_def register_step_def peer_ok_def before_join_def holds_slot_def\<close>)
  next
    case K_count
    show ?thesis by (rule moved [where q = "?q\<lparr>callback := K_done\<rparr>"])
      (use ok run K_count in \<open>auto simp: connected_step_def register_step_def peer_ok_def before_join_def holds_slot_def\<close>)
  next
    case K_done
    then show ?thesis using run by (simp add: connected_step_def register_step_def)
  qed
qed

lemma slots_remove:
  assumes inv: "slots_inv s" and q: "peer_ok q" "holds_slot q = holds_slot (peers s i)" "callback q = callback (peers s i)"
    and s': "sl_relay s' = RemoveSubscription ops j (sl_relay s)" "peers s' = (peers s)(i := q)"
  shows "slots_inv s'"
proof (rule slots_step [OF inv q(1), where r = "session_of s'"])
  let ?old = "session_of s"
  show "distinct (map subscriberID (subscriptions (session_of s')))"
    using inv by (simp add: s' removed_session slots_inv_def distinct_map_filter)
  show "if k = i then callback q = K_count \<or> callback q = K_done else subscribed k ?old" if "subscribed k (session_of s')" for k
    using that inv q(3) by (auto simp: s' removed_session subscribed_def slots_inv_def)
  show "int (length (subscriptions (session_of s'))) \<le> maxSubscriptions (session_of s')" if "maxSubscriptions (session_of s') > 0"
    using that inv unfolding s' removed_session slots_inv_def by (meson length_filter_le of_nat_le_iff order_trans)
qed (simp_all add: s' removed_session q(2))

lemma slots_cleanup:
  assumes inv: "slots_inv s" and run: "cleanup_step ops i s = Some s'"
  shows "slots_inv s'"
proof -
  let ?q = "peers s i"
  have ok: "peer_ok ?q" using inv by (simp add: slots_inv_def)
  note moved = slots_local [OF inv, where i = i]
  have start: "slots_inv s'"
    if "handler ?q = H_new \<or> handler ?q = H_joined \<or> handler ?q = H_refused"
  proof -
    have s': "s' = set_peer i (?q\<lparr>slotReserved := False, handler := (if slotReserved ?q then C_release else C_load)\<rparr>) s"
      using run that by (auto simp: cleanup_step_def Let_def)
    show ?thesis unfolding s' by (rule moved [where q = "?q\<lparr>slotReserved := False, handler := (if slotReserved ?q then C_release else C_load)\<rparr>"])
      (use ok that in \<open>auto simp: peer_ok_def before_join_def holds_slot_def\<close>)
  qed
  show ?thesis
  proof (cases "handler ?q")
    case C_release
    then have s': "s' = set_peer i (?q\<lparr>handler := C_load\<rparr>) (on_session ReleaseSlot s)" using run by (simp add: cleanup_step_def Let_def)
    show ?thesis unfolding s' by (rule slots_release [OF inv])
      (use ok C_release in \<open>auto simp: peer_ok_def before_join_def holds_slot_def\<close>)
  next
    case C_load
    show ?thesis by (rule moved [where q = "?q\<lparr>handler := C_remove (subscriptionRegistered ?q)\<rparr>"])
      (use ok run C_load in \<open>auto simp: cleanup_step_def Let_def peer_ok_def before_join_def holds_slot_def\<close>)
  next
    case (C_remove registered)
    show ?thesis by (rule slots_remove [OF inv, where i = i and q = "?q\<lparr>handler := C_count registered\<rparr>" and ops = ops and j = i])
      (use ok run C_remove in \<open>auto simp: cleanup_step_def Let_def peer_ok_def before_join_def holds_slot_def\<close>)
  next
    case (C_count registered)
    show ?thesis by (rule moved [where q = "?q\<lparr>handler := C_done\<rparr>"])
      (use ok run C_count in \<open>auto simp: cleanup_step_def Let_def peer_ok_def before_join_def holds_slot_def\<close>)
  qed (use run start in \<open>simp_all add: cleanup_step_def Let_def\<close>)
qed

lemma slots_subscriber_step:
  assumes "slots_inv s" and "subscriber_step ops maximum a s = Some s'"
  shows "slots_inv s'"
proof (cases a)
  case (Evict j)
  then have s': "s' = s\<lparr>sl_relay := RemoveSubscription ops j (sl_relay s)\<rparr>" using assms(2) by simp
  show ?thesis by (rule slots_remove [OF assms(1), where i = j and q = "peers s j" and ops = ops and j = j])
    (use assms(1) in \<open>simp_all add: s' slots_inv_def\<close>)
qed (use assms slots_reserve slots_connected slots_cleanup in auto)

lemma slots_run: "\<lbrakk>slots_inv s; subscriber_run ops maximum as s = Some s'\<rbrakk> \<Longrightarrow> slots_inv s'"
  by (induction as arbitrary: s) (auto split: option.splits dest: slots_subscriber_step)

lemma slots_start: "\<lbrakk>subscriptions r = []; pendingSlots r = 0\<rbrakk> \<Longrightarrow> slots_inv (no_subscribers r subs)"
  by (simp add: slots_inv_def no_subscribers_def new_peer_def peer_ok_def holds_slot_def subscribed_def)

section \<open>Cleanup after the callback\<close>

definition removed :: "subscriber_peer \<Rightarrow> bool" where
  "removed q = (case handler q of C_count _ \<Rightarrow> True | C_done \<Rightarrow> True | _ \<Rightarrow> False)"

text \<open>No callback of the peer will do anything any more.\<close>

definition settled :: "subscriber_peer \<Rightarrow> bool" where
  "settled q \<longleftrightarrow> callback q = K_done \<or> callback q = K_idle \<and> \<not> slotReserved q \<and> \<not> before_join q"

lemma reserve_fields:
  assumes "reserve_step maximum j s = Some s'"
  shows "subscriptions (session_of s') = subscriptions (session_of s) \<and> maxSubscriptions (session_of s') = maxSubscriptions (session_of s) \<and>
    before_join (peers s j) \<and> (\<forall>i. i \<noteq> j \<longrightarrow> peers s' i = peers s i)"
  using assms
  by (cases "handler (peers s j)")
    (auto simp: reserve_step_def Let_def try_reserve_def before_join_def split: if_splits)

lemma connected_fields:
  assumes "connected_step ops j bid ref s = Some s'"
  shows "maxSubscriptions (session_of s') = maxSubscriptions (session_of s) \<and> \<not> settled (peers s j) \<and>
    (\<forall>i. i \<noteq> j \<longrightarrow> peers s' i = peers s i \<and> subscribed i (session_of s') = subscribed i (session_of s))"
  using assms
  by (cases "callback (peers s j)")
    (auto simp: connected_step_def register_step_def Let_def ReleaseSlot_def AddBusSubscription_def notifyStateChange_def subscribed_def settled_def split: if_splits)

lemma cleanup_fields:
  assumes "cleanup_step ops j s = Some s'"
  shows "maxSubscriptions (session_of s') = maxSubscriptions (session_of s) \<and>
    (\<forall>i. subscribed i (session_of s') \<longrightarrow> subscribed i (session_of s)) \<and> (\<forall>i. i \<noteq> j \<longrightarrow> peers s' i = peers s i) \<and>
    callback (peers s' j) = callback (peers s j) \<and> (slotReserved (peers s' j) \<longrightarrow> slotReserved (peers s j)) \<and> \<not> before_join (peers s' j) \<and>
    (removed (peers s' j) \<longrightarrow> removed (peers s j) \<or> \<not> subscribed j (session_of s'))"
  using assms
  by (cases "handler (peers s j)")
    (auto simp: cleanup_step_def Let_def ReleaseSlot_def removed_session removed_def before_join_def subscribed_def split: if_splits)

lemma settled_step:
  assumes q: "settled (peers s i)" "peer_ok (peers s i)" and run: "subscriber_step ops maximum a s = Some s'"
    and gone: "removed (peers s i) \<Longrightarrow> \<not> subscribed i (session_of s)"
  shows "settled (peers s' i) \<and> (removed (peers s' i) \<longrightarrow> \<not> subscribed i (session_of s'))"
proof (cases a)
  case (Reserve j)
  have "\<not> before_join (peers s i)" using q by (auto simp: settled_def peer_ok_def)
  then show ?thesis using q gone run reserve_fields [of maximum j s s'] Reserve by (cases "i = j") (auto simp: subscribed_def)
next
  case (Connected j bid ref)
  then show ?thesis using q gone run connected_fields [of ops j bid ref s s'] by (cases "i = j") auto
next
  case (Leave j)
  then show ?thesis using q gone run cleanup_fields [of ops j s s'] by (cases "i = j") (auto simp: settled_def)
next
  case (Evict j)
  then show ?thesis using q gone run by (auto simp: removed_session subscribed_def)
qed

lemma settled_run:
  assumes "slots_inv s" and "settled (peers s i)" and "removed (peers s i) \<Longrightarrow> \<not> subscribed i (session_of s)"
    and "subscriber_run ops maximum as s = Some s'"
  shows "removed (peers s' i) \<longrightarrow> \<not> subscribed i (session_of s')"
  using assms
proof (induction as arbitrary: s)
  case (Cons a as)
  obtain s1 where s1: "subscriber_step ops maximum a s = Some s1" "subscriber_run ops maximum as s1 = Some s'"
    using Cons.prems(4) by (auto split: option.splits)
  have "peer_ok (peers s i)" using Cons.prems(1) by (simp add: slots_inv_def)
  note step = settled_step [OF Cons.prems(2) this s1(1) Cons.prems(3)]
  then show ?case using Cons.IH [OF slots_subscriber_step [OF Cons.prems(1) s1(1)] _ _ s1(2)] by blast
qed simp

lemma run_maxSubscriptions:
  "subscriber_run ops maximum as s = Some s' \<Longrightarrow> maxSubscriptions (session_of s') = maxSubscriptions (session_of s)"
proof (induction as arbitrary: s)
  case (Cons a as)
  then obtain s1 where s1: "subscriber_step ops maximum a s = Some s1" "subscriber_run ops maximum as s1 = Some s'"
    by (auto split: option.splits)
  have "maxSubscriptions (session_of s1) = maxSubscriptions (session_of s)"
    using s1(1) by (cases a) (auto simp: removed_session dest: reserve_fields connected_fields cleanup_fields)
  then show ?case using Cons.IH [OF s1(2)] by simp
qed simp

section \<open>Properties\<close>

text \<open>C14. Subscriber slots are accounted for under every interleaving of joins, connection callbacks, cleanups and evictions: the pending
  slots of a session are exactly those some peer still answers for (so none is lost or released twice), no subscriber is
  registered twice, registrations stay within the limit of the session, and a peer whose callback is over when its cleanup removes
  it is never subscribed again.\<close>

theorem subscriber_slots_accounted:
  assumes "subscriptions r = []" and "pendingSlots r = 0" and "subscriber_run ops maximum as (no_subscribers r subs) = Some s"
  shows "pendingSlots (session_of s) = int (card {i. holds_slot (peers s i)}) \<and> finite {i. holds_slot (peers s i)} \<and>
    distinct (map subscriberID (subscriptions (session_of s))) \<and>
    (maxSubscriptions r > 0 \<longrightarrow> int (length (subscriptions (session_of s))) \<le> maxSubscriptions r) \<and>
    (settled (peers s i) \<and> \<not> removed (peers s i) \<and> subscriber_run ops maximum bs s = Some s' \<and> removed (peers s' i) \<longrightarrow>
       \<not> subscribed i (session_of s'))"
proof -
  have inv: "slots_inv s" using slots_run [OF slots_start [OF assms(1,2)] assms(3)] .
  have "maxSubscriptions (session_of s) = maxSubscriptions r" using run_maxSubscriptions [OF assms(3)] by (simp add: no_subscribers_def)
  then show ?thesis using inv settled_run [OF inv] unfolding slots_inv_def by metis
qed

definition small_session :: RelaySession where
  "small_session = (newWithTimeouts ''s'' minute second 0)\<lparr>maxSubscriptions := 1\<rparr>"

definition joined_actions :: "string \<Rightarrow> subscriber_action list" where
  "joined_actions i = replicate 4 (Reserve i)"

definition calls :: "nat \<Rightarrow> string \<Rightarrow> subscriber_action list" where
  "calls n i = replicate n (Connected i ''mix'' 0)"

lemmas lifecycle_simps = no_subscribers_def new_peer_def small_session_def newWithTimeouts_def joined_actions_def calls_def reserve_step_def
  connected_step_def register_step_def cleanup_step_def try_reserve_def ReleaseSlot_def AddBusSubscription_def RemoveSubscription_def notifyStateChange_def
  set_peer_def on_session_def Let_def stop_all_def eval_nat_numeral

definition silent_ops :: "unit BusSubscription" where
  "silent_ops = \<lparr>WriteRTPWithSource = (\<lambda>_ pkt _ _ _ s. (False, pkt, s)), RequiresPacketCopy = (\<lambda>_. False), StopForwarding = (\<lambda>s. s)\<rparr>"

theorem subscriber_slots_accounted_witness:
  "\<exists>s s'. subscriber_run silent_ops 1 (joined_actions ''a'' @ calls 5 ''a'') (no_subscribers small_session (\<lambda>_. ())) = Some s \<and>
     subscribed ''a'' (session_of s) \<and> subscriber_run silent_ops 1 (replicate 3 (Leave ''a'')) s = Some s' \<and> \<not> subscribed ''a'' (session_of s')"
proof -
  obtain s where s: "subscriber_run silent_ops 1 (joined_actions ''a'' @ calls 5 ''a'') (no_subscribers small_session (\<lambda>_. ())) = Some s"
    "subscribed ''a'' (session_of s)" "settled (peers s ''a'')" "\<not> removed (peers s ''a'')"
    "\<exists>s'. subscriber_run silent_ops 1 (replicate 3 (Leave ''a'')) s = Some s' \<and> removed (peers s' ''a'')"
    by (simp add: lifecycle_simps subscribed_def settled_def removed_def)
  have "subscriptions small_session = []" "pendingSlots small_session = 0" by (simp_all add: lifecycle_simps)
  from subscriber_slots_accounted [OF this s(1)] show ?thesis using s by blast
qed

text \<open>The race left open: a cleanup between the callback's flag and its registration.  The peer is gone and its subscription stays.\<close>


text \<open>Two joins may hold the last place between them: the second exchange succeeds once the first slot has become a subscription.\<close>

lemma reservation_overrun:
  "\<exists>as s. subscriber_run ops 1 as (no_subscribers small_session subs) = Some s \<and>
     pendingSlots (session_of s) + int (length (subscriptions (session_of s))) = 2"
  by (rule exI [of _ "[Reserve ''b'', Reserve ''b''] @ joined_actions ''a'' @ calls 4 ''a'' @ [Reserve ''b'']"]) (simp add: lifecycle_simps)

end
