(* ===== verification/Peer_Join.thy ===== *)
theory Peer_Join
  imports Session_Registry Access_Service
begin

text \<open>
  Joining a session over the signaling socket: the capability check (\<^verbatim>\<open>internal/server/capabilities.go\<close>), the buses a publisher may
  feed (\<^verbatim>\<open>internal/server/publish_buses.go\<close>), the admission part of \<^verbatim>\<open>handleJoin\<close> (\<^verbatim>\<open>internal/server/peer_join.go\<close>) and the ICE candidates a
  peer queues (\<^verbatim>\<open>internal/server/signal_peer.go\<close>).  The JWT library, the Session service's metadata and the media placement are
  parameters; the WebRTC negotiation that follows admission is a library's.
\<close>

section \<open>Messages\<close>

datatype MessageType =
    TypePublish | TypeSubscribe | TypeIce | TypeLeave | TypeSDPOffer | TypeSDPAnswer | TypeSessionState | TypeRoomState | TypeError
  | TypeKeyExchange | TypeCodecHint | TypeLatencyReport | TypeICERestart

record PublishBusBinding =
  StreamID :: string
  pb_BusID :: string

record ClientMessage =
  cm_Type :: MessageType
  cm_SessionID :: string
  cm_RoomID :: string
  cm_GraphID :: string
  cm_BusID :: string
  PublishBuses :: "PublishBusBinding list option"
  cm_Token :: string
  cm_SDPOffer :: string
  cm_Public :: bool

definition message_EffectiveSessionID :: "ClientMessage \<Rightarrow> string" where
  "message_EffectiveSessionID m = (if cm_SessionID m \<noteq> [] then cm_SessionID m else cm_RoomID m)"

section \<open>Capabilities\<close>

text \<open>What the Session service answers: its metadata, the absence of the session, or another failure.\<close>

datatype authority_error = SessionNotFound | WriterFenced | AuthorityFailed

datatype capability_error = CapInvalid | CapSessionNotFound | CapAuthorityUnavailable

record authority =
  ParseUnverified :: "string \<Rightarrow> Claims option"
  metadata_of :: "string \<Rightarrow> authority_error + AuthorityMetadata"
  require_active :: "string \<Rightarrow> authority_error option"
  jwt_lib :: jwt_library
  jwtSecret :: bytes
  auth_now :: time

definition VerifyCapability :: "authority \<Rightarrow> string \<Rightarrow> string \<Rightarrow> string \<Rightarrow> Claims option" where
  "VerifyCapability au encoded issuer role =
     (case VerifyProfile (jwt_lib au) (jwtSecret au) encoded issuer (auth_now au) of
        Inl _ \<Rightarrow> None
      | Inr claims \<Rightarrow> if role \<noteq> [] \<and> c_Role claims \<noteq> role then None else Some claims)"

definition verifyCapability :: "authority \<Rightarrow> string \<Rightarrow> string \<Rightarrow> capability_error + Claims" where
  "verifyCapability au encoded role =
     (if length encoded = 0 \<or> length encoded > 8192 then Inl CapInvalid
      else
        case ParseUnverified au encoded of
          None \<Rightarrow> Inl CapInvalid
        | Some untrusted \<Rightarrow>
            let sid = c_SessionID untrusted
            in if \<not> validIdentifier sid 128 then Inl CapInvalid
               else
                 case metadata_of au sid of
                   Inl SessionNotFound \<Rightarrow> Inl CapSessionNotFound
                 | Inl _ \<Rightarrow> Inl CapAuthorityUnavailable
                 | Inr metadata \<Rightarrow>
                     (case VerifyCapability au encoded (am_Issuer metadata) role of
                        None \<Rightarrow> Inl CapInvalid
                      | Some claims \<Rightarrow>
                          if c_SessionID claims \<noteq> am_SessionID metadata then Inl CapInvalid
                          else if c_Incarnation claims \<noteq> am_Incarnation metadata \<and>
                              (c_Incarnation claims \<noteq> [] \<or> am_Issuer metadata \<noteq> LegacyIssuer \<or> am_LegacyTokensBefore metadata = zero_time \<or>
                               (case c_IssuedAt claims of None \<Rightarrow> True | Some t \<Rightarrow> t > am_LegacyTokensBefore metadata))
                          then Inl CapInvalid
                          else Inr claims))"

section \<open>Buses of a publisher\<close>

datatype plan_error =
    errAmbiguousPublishBus | errPublishBusCount | errPublishBusIdentity | errPublishBusDuplicate | errPublishBusScope
  | errPublishTrackUnknown | errPublishTrackClaimed

record publishBusPlan =
  legacyBusID :: string
  byStreamID :: "(string, string) gomap"
  claimed_streams :: "string list"

fun plan_bindings ::
  "Claims \<Rightarrow> PublishBusBinding list \<Rightarrow> (string, string) gomap \<Rightarrow> string list \<Rightarrow> plan_error + (string, string) gomap" where
  "plan_bindings claims [] streams busIDs = Inr streams"
| "plan_bindings claims (binding # bindings) streams busIDs =
     (if \<not> validPublishIdentifier (StreamID binding) \<or> \<not> validPublishIdentifier (pb_BusID binding) then Inl errPublishBusIdentity
      else if \<not> AllowsBus claims (pb_BusID binding) then Inl errPublishBusScope
      else if has_key (StreamID binding) streams then Inl errPublishBusDuplicate
      else if pb_BusID binding \<in> set busIDs then Inl errPublishBusDuplicate
      else plan_bindings claims bindings (AList.update (StreamID binding) (pb_BusID binding) streams) (pb_BusID binding # busIDs))"

definition newPublishBusPlan :: "ClientMessage \<Rightarrow> Claims \<Rightarrow> plan_error + publishBusPlan" where
  "newPublishBusPlan message claims =
     (case PublishBuses message of
        None \<Rightarrow>
          let busID = (if cm_BusID message = [] \<and> length (c_BusIDs claims) = 1 then hd (c_BusIDs claims) else cm_BusID message)
          in if busID = [] \<or> \<not> AllowsBus claims busID then Inl errPublishBusScope
             else Inr \<lparr>legacyBusID = busID, byStreamID = [], claimed_streams = []\<rparr>
      | Some bindings \<Rightarrow>
          if cm_BusID message \<noteq> [] then Inl errAmbiguousPublishBus
          else if length bindings = 0 \<or> length bindings > 16 then Inl errPublishBusCount
          else
            case plan_bindings claims bindings [] [] of
              Inl e \<Rightarrow> Inl e
            | Inr streams \<Rightarrow> Inr \<lparr>legacyBusID = [], byStreamID = streams, claimed_streams = []\<rparr>)"

definition primaryBusID :: "publishBusPlan \<Rightarrow> string" where
  "primaryBusID plan = (if legacyBusID plan \<noteq> [] then legacyBusID plan else [])"

definition claim_track :: "string \<Rightarrow> publishBusPlan \<Rightarrow> (plan_error + string) \<times> publishBusPlan" where
  "claim_track streamID plan =
     (if legacyBusID plan \<noteq> [] then
        if length (claimed_streams plan) \<noteq> 0 then (Inl errPublishTrackClaimed, plan)
        else (Inr (legacyBusID plan), plan\<lparr>claimed_streams := [streamID]\<rparr>)
      else
        case map_of (byStreamID plan) streamID of
          None \<Rightarrow> (Inl errPublishTrackUnknown, plan)
        | Some busID \<Rightarrow>
            if streamID \<in> set (claimed_streams plan) then (Inl errPublishTrackClaimed, plan)
            else (Inr busID, plan\<lparr>claimed_streams := streamID # claimed_streams plan\<rparr>))"

fun busRoleFor :: "string \<Rightarrow> BusRole" where
  "busRoleFor bid =
     (if bid = ''music'' then BusRoleMusic
      else if bid = ''agent_voice'' \<or> bid = ''agent_output'' then BusRoleAgentOutput
      else if bid = ''events'' then BusRoleEvents
      else if bid = ''monitor'' then BusRoleMonitor
      else BusRoleVoice)"

section \<open>Admission\<close>

datatype ErrorCode =
    ErrCodeBadToken | ErrCodeAlreadyJoined | ErrCodeRoleMismatch | ErrCodePCError | ErrCodeSDPError | ErrCodeICEError | ErrCodeTrackError
  | ErrCodeListenerLimitExceeded | ErrCodeRoomLimitExceeded | ErrCodeNotJoined | ErrCodeBadRequest | ErrCodeUnknownType
  | ErrCodeSessionNotActive | ErrCodeAuthorityUnavailable

record join_result =
  jr_session :: nat
  jr_role :: string
  jr_busID :: string
  jr_plan :: "publishBusPlan option"
  jr_claims :: Claims

text \<open>The buses a join asks for: a publisher's plan, a subscriber's bus.\<close>

definition join_buses :: "ClientMessage \<Rightarrow> Claims \<Rightarrow> ErrorCode + string \<times> publishBusPlan option" where
  "join_buses message claims =
     (if cm_Type message = TypePublish then
        case newPublishBusPlan message claims of
          Inl _ \<Rightarrow> Inl ErrCodeBadRequest
        | Inr plan \<Rightarrow> Inr (primaryBusID plan, Some plan)
      else if (case PublishBuses message of None \<Rightarrow> False | Some bindings \<Rightarrow> length bindings \<noteq> 0) then Inl ErrCodeBadRequest
      else
        let busID = (if cm_BusID message = [] then c_BusID claims else cm_BusID message);
            busID = (if busID = [] then BusMix else busID)
        in if \<not> AllowsBus claims busID then Inl ErrCodeBadRequest else Inr (busID, None))"

text \<open>\<^verbatim>\<open>handleJoin\<close> up to the session it joins: what it leaves in the registry, and the error sent or the join.\<close>

definition handleJoin_admit ::
  "authority \<Rightarrow> bool \<Rightarrow> int \<Rightarrow> ClientMessage \<Rightarrow> 's SessionRegistry \<Rightarrow> (ErrorCode + join_result) \<times> 's SessionRegistry" where
  "handleJoin_admit au joined maxRooms message reg =
     (if joined then (Inl ErrCodeAlreadyJoined, reg)
      else
        case verifyCapability au (cm_Token message) (if cm_Type message = TypePublish then RoleSource else RoleSubscriber) of
          Inl CapSessionNotFound \<Rightarrow> (Inl ErrCodeSessionNotActive, reg)
        | Inl CapAuthorityUnavailable \<Rightarrow> (Inl ErrCodeAuthorityUnavailable, reg)
        | Inl CapInvalid \<Rightarrow> (Inl ErrCodeBadToken, reg)
        | Inr claims \<Rightarrow>
            if cm_Type message = TypePublish \<and> c_Role claims \<noteq> RoleSource \<or> cm_Type message = TypeSubscribe \<and> c_Role claims \<noteq> RoleSubscriber
            then (Inl ErrCodeRoleMismatch, reg)
            else
              let sessionID = (if EffectiveSessionID claims = [] then message_EffectiveSessionID message else EffectiveSessionID claims)
              in case join_buses message claims of
                   Inl e \<Rightarrow> (Inl e, reg)
                 | Inr (busID, plan) \<Rightarrow>
                     (case require_active au sessionID of
                        Some SessionNotFound \<Rightarrow> (Inl ErrCodeSessionNotActive, reg)
                      | Some _ \<Rightarrow> (Inl ErrCodeAuthorityUnavailable, reg)
                      | None \<Rightarrow>
                          (case GetOrCreateWithinLimit sessionID maxRooms (auth_now au) reg of
                             (None, reg1) \<Rightarrow> (Inl ErrCodeRoomLimitExceeded, reg1)
                           | (Some (p, _), reg1) \<Rightarrow>
                               let r = (reg_sessions reg1 ! p)\<lparr>stateObserver := True\<rparr>;
                                   r = (if cm_Type message = TypePublish \<and> cm_Public message then r\<lparr>rs_Public := True\<rparr> else r);
                                   r = (if cm_GraphID message \<noteq> [] then r\<lparr>rs_GraphID := cm_GraphID message\<rparr> else r)
                               in (Inr \<lparr>jr_session = p, jr_role = c_Role claims, jr_busID = busID, jr_plan = plan, jr_claims = claims\<rparr>,
                                   reg1\<lparr>reg_sessions := (reg_sessions reg1)[p := r]\<rparr>))))"

text \<open>The tracks of a publisher, each claiming its bus as it arrives.\<close>

fun claim_run :: "string list \<Rightarrow> publishBusPlan \<Rightarrow> (plan_error + string) list \<times> publishBusPlan" where
  "claim_run [] plan = ([], plan)"
| "claim_run (s # ss) plan = (let (r, plan1) = claim_track s plan; (rs, plan2) = claim_run ss plan1 in (r # rs, plan2))"

section \<open>Candidates\<close>

record peer_ice =
  pendingICE :: "string list"
  addedICE :: "string list"
  remoteDescription :: bool
  localDescription :: bool

text \<open>The library's \<^verbatim>\<open>AddICECandidate\<close> is a parameter: whether it takes a candidate, given whether the remote description is set.\<close>

type_synonym add_candidate = "bool \<Rightarrow> string \<Rightarrow> bool"

definition queuePendingICE :: "string \<Rightarrow> peer_ice \<Rightarrow> bool \<times> peer_ice" where
  "queuePendingICE candidate p = (if length (pendingICE p) \<ge> 64 then (False, p) else (True, p\<lparr>pendingICE := pendingICE p @ [candidate]\<rparr>))"

definition handleICE :: "add_candidate \<Rightarrow> string \<Rightarrow> bool \<Rightarrow> peer_ice \<Rightarrow> bool \<times> peer_ice" where
  "handleICE lib candidate joined p =
     (if \<not> joined \<or> \<not> remoteDescription p then queuePendingICE candidate p
      else if \<not> lib True candidate then (False, p)
      else (True, p\<lparr>addedICE := addedICE p @ [candidate]\<rparr>))"

definition add_pending :: "add_candidate \<Rightarrow> peer_ice \<Rightarrow> peer_ice" where
  "add_pending lib p = p\<lparr>addedICE := addedICE p @ filter (lib (remoteDescription p)) (pendingICE p), pendingICE := []\<rparr>"

definition handleSDPAnswer :: "add_candidate \<Rightarrow> bool \<Rightarrow> bool \<Rightarrow> peer_ice \<Rightarrow> bool \<times> peer_ice" where
  "handleSDPAnswer lib joined accepted p =
     (if \<not> joined \<or> \<not> localDescription p \<or> remoteDescription p then (False, p)
      else if \<not> accepted then (False, p)
      else (True, add_pending lib (p\<lparr>remoteDescription := True\<rparr>)))"

text \<open>The negotiation at the end of \<^verbatim>\<open>handleJoin\<close>: the client's offer sets the remote description and the relay answers; without one the
  relay offers, and only the answer will set the remote description.  Which step of the library fails, if any, is an input.\<close>

datatype negotiation = Negotiated | SetRemoteFailed | CreateFailed | SetLocalFailed

definition finish_join :: "add_candidate \<Rightarrow> bool \<Rightarrow> negotiation \<Rightarrow> peer_ice \<Rightarrow> ErrorCode option \<times> peer_ice" where
  "finish_join lib offered n p =
     (if offered \<and> n = SetRemoteFailed then (Some ErrCodeSDPError, p)
      else
        let p1 = p\<lparr>remoteDescription := offered \<or> remoteDescription p\<rparr>
        in if n = CreateFailed \<or> n = SetLocalFailed then (Some ErrCodeSDPError, p1)
           else (None, add_pending lib (p1\<lparr>localDescription := True\<rparr>)))"

lemma handleICE_bounded: "length (pendingICE p) \<le> 64 \<Longrightarrow> length (pendingICE (snd (handleICE lib c joined p))) \<le> 64"
  by (simp add: handleICE_def queuePendingICE_def)

lemma early_candidates_added: "addedICE (snd (finish_join lib True Negotiated p)) = addedICE p @ filter (lib True) (pendingICE p)"
  by (simp add: finish_join_def add_pending_def)

text \<open>A library that takes no candidate before the remote description loses the candidates queued before a join without an offer: the answer
  finds the queue empty.\<close>

lemma early_candidates_lost:
  assumes "\<And>c. \<not> lib False c" and "\<not> remoteDescription p"
  shows "addedICE (snd (handleSDPAnswer lib True True (snd (finish_join lib False Negotiated p)))) = addedICE p"
  using assms by (simp add: finish_join_def handleSDPAnswer_def add_pending_def)

section \<open>Plans\<close>

definition plan_ok :: "publishBusPlan \<Rightarrow> bool" where
  "plan_ok plan \<longleftrightarrow> map_wf (byStreamID plan) \<and> distinct (map snd (byStreamID plan))"

definition plan_buses :: "publishBusPlan \<Rightarrow> string set" where
  "plan_buses plan = (if legacyBusID plan \<noteq> [] then {legacyBusID plan} else snd ` set (byStreamID plan))"

definition taken_buses :: "publishBusPlan \<Rightarrow> string set" where
  "taken_buses plan =
     (if legacyBusID plan \<noteq> [] then if claimed_streams plan \<noteq> [] then {legacyBusID plan} else {}
      else {b. \<exists>s \<in> set (claimed_streams plan). map_of (byStreamID plan) s = Some b})"

definition successes :: "(plan_error + string) list \<Rightarrow> string list" where
  "successes rs = concat (map (\<lambda>r. case r of Inl _ \<Rightarrow> [] | Inr b \<Rightarrow> [b]) rs)"

lemma update_new_key: "map_of m k = None \<Longrightarrow> AList.update k v m = m @ [(k, v)]"
  by (induction m) (auto split: if_splits)

lemma plan_bindings_spec:
  assumes "plan_bindings claims bindings streams busIDs = Inr streams'"
    and "map_wf streams" and "distinct (map snd streams)" and "snd ` set streams \<subseteq> set busIDs" and "\<forall>b \<in> snd ` set streams. AllowsBus claims b"
  shows "map_wf streams' \<and> distinct (map snd streams') \<and> (\<forall>b \<in> snd ` set streams'. AllowsBus claims b)"
  using assms
proof (induction bindings arbitrary: streams busIDs)
  case (Cons binding bindings)
  have new: "map_of streams (StreamID binding) = None" "pb_BusID binding \<notin> set busIDs" "AllowsBus claims (pb_BusID binding)"
    and rest: "plan_bindings claims bindings (AList.update (StreamID binding) (pb_BusID binding) streams) (pb_BusID binding # busIDs) = Inr streams'"
    using Cons.prems(1) by (auto simp: has_key_def split: if_splits)
  show ?case using Cons.prems(2-5) new
    by (intro Cons.IH [OF rest]) (auto simp: update_new_key map_of_eq_None_iff)
qed simp

lemma newPublishBusPlan_scope:
  assumes "newPublishBusPlan message claims = Inr plan"
  shows "plan_ok plan \<and> (\<forall>b \<in> plan_buses plan. AllowsBus claims b) \<and> taken_buses plan = {}"
proof (cases "PublishBuses message")
  case None
  then show ?thesis using assms by (auto simp: newPublishBusPlan_def Let_def plan_ok_def plan_buses_def taken_buses_def split: if_splits)
next
  case (Some bindings)
  then obtain streams where "plan_bindings claims bindings [] [] = Inr streams" "plan = \<lparr>legacyBusID = [], byStreamID = streams, claimed_streams = []\<rparr>"
    using assms by (auto simp: newPublishBusPlan_def split: if_splits sum.splits)
  then show ?thesis using plan_bindings_spec [of claims bindings "[]" "[]" streams]
    by (auto simp: plan_ok_def plan_buses_def taken_buses_def)
qed

lemma claim_track_spec:
  assumes ok: "plan_ok plan" and run: "claim_track s plan = (r, plan')"
  shows "plan_ok plan' \<and> plan_buses plan' = plan_buses plan \<and>
    (case r of Inl _ \<Rightarrow> plan' = plan
     | Inr b \<Rightarrow> b \<in> plan_buses plan \<and> b \<notin> taken_buses plan \<and> taken_buses plan' = insert b (taken_buses plan))"
proof (cases "legacyBusID plan \<noteq> []")
  case True
  then show ?thesis using run ok by (auto simp: claim_track_def plan_ok_def plan_buses_def taken_buses_def split: if_splits)
next
  case False
  show ?thesis
  proof (cases "map_of (byStreamID plan) s")
    case None
    then show ?thesis using run ok False by (auto simp: claim_track_def)
  next
    case (Some b)
    have alone: "t = s" if "map_of (byStreamID plan) t = Some b" for t
    proof -
      have "(t, b) \<in> set (byStreamID plan)" "(s, b) \<in> set (byStreamID plan)" using that Some by (auto dest: map_of_SomeD)
      moreover have "inj_on snd (set (byStreamID plan))" using ok by (simp add: plan_ok_def distinct_map)
      ultimately show ?thesis by (force dest: inj_onD [where x = "(t, b)" and y = "(s, b)"])
    qed
    have b: "b \<in> snd ` set (byStreamID plan)" using map_of_SomeD [OF Some] by force
    show ?thesis
    proof (cases "s \<in> set (claimed_streams plan)")
      case True
      then show ?thesis using run ok False Some by (auto simp: claim_track_def)
    next
      case fresh: False
      have r: "r = Inr b" "plan' = plan\<lparr>claimed_streams := s # claimed_streams plan\<rparr>" using run False Some fresh by (simp_all add: claim_track_def)
      have "b \<notin> taken_buses plan" using False fresh alone by (auto simp: taken_buses_def)
      moreover have "taken_buses plan' = insert b (taken_buses plan)" using False Some by (auto simp: r taken_buses_def)
      ultimately show ?thesis using ok False b by (simp add: r plan_ok_def plan_buses_def)
    qed
  qed
qed

lemma claim_run_spec:
  assumes "plan_ok plan" and "claim_run ss plan = (rs, plan')"
  shows "distinct (successes rs) \<and> (\<forall>b \<in> set (successes rs). b \<in> plan_buses plan \<and> b \<notin> taken_buses plan)"
  using assms
proof (induction ss arbitrary: plan rs)
  case Nil
  then show ?case by (auto simp: successes_def)
next
  case (Cons s ss)
  obtain r plan1 rs1 where r: "claim_track s plan = (r, plan1)" "claim_run ss plan1 = (rs1, plan')" "rs = r # rs1"
    using Cons.prems(2) by (auto simp: Let_def split: prod.splits)
  note step = claim_track_spec [OF Cons.prems(1) r(1)]
  note IH = Cons.IH [OF _ r(2)]
  show ?case using step IH by (cases r) (auto simp: r(3) successes_def)
qed

section \<open>Property\<close>

lemma verifyCapability_sound:
  assumes "verifyCapability au encoded role = Inr claims"
  obtains sid metadata where "metadata_of au sid = Inr metadata" and "am_SessionID metadata = c_SessionID claims"
    and "VerifyProfile (jwt_lib au) (jwtSecret au) encoded (am_Issuer metadata) (auth_now au) = Inr claims"
    and "c_Incarnation claims = am_Incarnation metadata \<or> c_Incarnation claims = [] \<and> am_Issuer metadata = LegacyIssuer \<and>
      (\<exists>t. c_IssuedAt claims = Some t \<and> t \<le> am_LegacyTokensBefore metadata)"
    and "role \<noteq> [] \<longrightarrow> c_Role claims = role"
proof -
  obtain sid metadata where md: "metadata_of au sid = Inr metadata" and cap: "VerifyCapability au encoded (am_Issuer metadata) role = Some claims"
    and rest: "am_SessionID metadata = c_SessionID claims"
      "\<not> (c_Incarnation claims \<noteq> am_Incarnation metadata \<and>
         (c_Incarnation claims \<noteq> [] \<or> am_Issuer metadata \<noteq> LegacyIssuer \<or> am_LegacyTokensBefore metadata = zero_time \<or>
          (case c_IssuedAt claims of None \<Rightarrow> True | Some t \<Rightarrow> t > am_LegacyTokensBefore metadata)))"
    using assms unfolding verifyCapability_def Let_def
    by (simp split: if_splits option.splits sum.splits authority_error.splits)
  have "VerifyProfile (jwt_lib au) (jwtSecret au) encoded (am_Issuer metadata) (auth_now au) = Inr claims" "role \<noteq> [] \<longrightarrow> c_Role claims = role"
    using cap by (auto simp: VerifyCapability_def split: sum.splits if_splits)
  then show ?thesis using that md rest by (force split: option.splits)
qed


definition example_authority :: authority where
  "example_authority =
     \<lparr>ParseUnverified = (\<lambda>_. Some example_claims),
      metadata_of = (\<lambda>sid. Inr \<lparr>am_SessionID = sid, am_Issuer = Issuer, am_Incarnation = [], am_LegacyTokensBefore = zero_time, am_MediaTerm = 0,
        am_RelayEpoch = [], am_RequiredBuses = []\<rparr>),
      require_active = (\<lambda>_. None), jwt_lib = example_library, jwtSecret = example_secret, auth_now = 0\<rparr>"

definition example_join :: ClientMessage where
  "example_join = \<lparr>cm_Type = TypePublish, cm_SessionID = [], cm_RoomID = [], cm_GraphID = [], cm_BusID = [], PublishBuses = None,
     cm_Token = ''t'', cm_SDPOffer = [], cm_Public = True\<rparr>"

definition example_registry :: "unit SessionRegistry" where
  "example_registry = NewRegistryWithConfig 0 0 8 0 (\<lambda>_. ())"

lemma example_claims_fields:
  "c_SessionID example_claims = ''s''" "c_Role example_claims = RoleSource" "c_BusIDs example_claims = [''mic'']" "c_Incarnation example_claims = []"
  by (simp_all add: example_claims_def registered_def new_claims_def)

lemma example_capability: "verifyCapability example_authority ''t'' RoleSource = Inr example_claims"
proof -
  have "validIdentifier ''s'' 128" by code_simp
  then show ?thesis using example_verified
    by (simp add: verifyCapability_def VerifyCapability_def example_authority_def example_claims_fields)
qed

lemma example_buses:
  "join_buses example_join example_claims = Inr (''mic'', Some \<lparr>legacyBusID = ''mic'', byStreamID = [], claimed_streams = []\<rparr>)"
  by (simp add: join_buses_def example_join_def newPublishBusPlan_def example_claims_fields AllowsBus_def primaryBusID_def)

definition example_joined :: join_result where
  "example_joined = \<lparr>jr_session = 0, jr_role = RoleSource, jr_busID = ''mic'',
     jr_plan = Some \<lparr>legacyBusID = ''mic'', byStreamID = [], claimed_streams = []\<rparr>, jr_claims = example_claims\<rparr>"

lemma example_admitted: "\<exists>reg'. handleJoin_admit example_authority False 4 example_join example_registry = (Inr example_joined, reg')"
proof -
  have "cm_Token example_join = ''t''" "cm_Type example_join = TypePublish" by (simp_all add: example_join_def)
  moreover have "require_active example_authority sid = None" for sid by (simp add: example_authority_def)
  moreover have "GetOrCreateWithinLimit ''s'' 4 now example_registry = (Some (0, True), snd (getOrCreateLocked ''s'' now example_registry))" for now
    by (simp add: GetOrCreateWithinLimit_def getOrCreateLocked_def example_registry_def NewRegistryWithConfig_def removeClosedLocked_def)
  ultimately show ?thesis
    by (simp add: handleJoin_admit_def example_capability example_buses example_claims_fields EffectiveSessionID_def example_joined_def Let_def)
qed


end
