(* ===== verification/Media_Placement.thy ===== *)
theory Media_Placement
  imports Peer_Join
begin

text \<open>
  The placement of a session's media on this relay, \<^verbatim>\<open>internal/server/access_authority.go\<close>.  The first join of a session asks the Session
  service for its media term; concurrent joins wait for that answer, and the entry stays as a tombstone until the service says that the
  session does not exist.  Every goroutine that calls \<^verbatim>\<open>ensureMediaWriter\<close> is a thread; a step is its work under the lock, one wait, or one
  answer of the service, which may be anything.
\<close>

section \<open>State\<close>

text \<open>A \<^verbatim>\<open>mediaWriter\<close> is one attempt to acquire the placement; \<^verbatim>\<open>mw_session\<close> records the session it was made for.\<close>

record mediaWriter =
  mw_session :: string
  mw_done :: bool
  mw_term :: u64
  mw_expected :: u64
  mw_err :: "authority_error option"

record placements =
  mediaWriters :: "(string, nat) gomap"
  writers :: "mediaWriter list"

datatype placement_result = Placed | CapacityReached | Cancelled | PlacementFailed authority_error

datatype placement_pc =
    T_idle | T_wait nat AuthorityMetadata | T_recheck nat AuthorityMetadata | T_acquire nat | T_returned placement_result

record placement_state =
  ps_places :: placements
  ps_threads :: "nat \<Rightarrow> placement_pc"

section \<open>Operations\<close>

text \<open>\<^verbatim>\<open>authorityMetadata\<close>, for the answer of the service: only the absence of the session drops its entry.\<close>

definition authorityMetadata :: "string \<Rightarrow> authority_error + AuthorityMetadata \<Rightarrow> placements \<Rightarrow> placements" where
  "authorityMetadata sid answer p = (if answer = Inl SessionNotFound then p\<lparr>mediaWriters := AList.delete sid (mediaWriters p)\<rparr> else p)"

definition retryable :: "mediaWriter \<Rightarrow> bool" where
  "retryable w \<longleftrightarrow> mw_done w \<and> mw_err w \<noteq> None \<and> mw_err w \<noteq> Some WriterFenced"

definition add_writer :: "string \<Rightarrow> u64 \<Rightarrow> placements \<Rightarrow> placements" where
  "add_writer sid expected p =
     p\<lparr>mediaWriters := AList.update sid (length (writers p)) (mediaWriters p),
       writers := writers p @ [\<lparr>mw_session = sid, mw_done = False, mw_term = 0, mw_expected = expected, mw_err = None\<rparr>]\<rparr>"

text \<open>\<^verbatim>\<open>ensureMediaWriter\<close> under the lock.\<close>

definition ensure_enter :: "int \<Rightarrow> AuthorityMetadata \<Rightarrow> placements \<Rightarrow> placement_pc \<times> placements" where
  "ensure_enter maxRooms metadata p =
     (let sid = am_SessionID metadata
      in case map_of (mediaWriters p) sid of
           Some ref \<Rightarrow>
             if retryable (writers p ! ref) then (T_acquire (length (writers p)), add_writer sid (mw_expected (writers p ! ref)) p)
             else (T_wait ref metadata, p)
         | None \<Rightarrow>
             if int (length (mediaWriters p)) \<ge> maxRooms then (T_returned CapacityReached, p)
             else (T_acquire (length (writers p)), add_writer sid (am_MediaTerm metadata) p))"

definition outdated :: "string \<Rightarrow> AuthorityMetadata \<Rightarrow> mediaWriter \<Rightarrow> bool" where
  "outdated epoch metadata w \<longleftrightarrow> am_MediaTerm metadata \<noteq> mw_term w \<or> am_RelayEpoch metadata \<noteq> epoch"

text \<open>A thread that found an entry, once it is done; and its second look at the metadata.\<close>

definition ensure_found :: "string \<Rightarrow> nat \<Rightarrow> AuthorityMetadata \<Rightarrow> placements \<Rightarrow> placement_pc" where
  "ensure_found epoch ref metadata p =
     (let w = writers p ! ref
      in case mw_err w of
           Some e \<Rightarrow> T_returned (PlacementFailed e)
         | None \<Rightarrow> if outdated epoch metadata w then T_recheck ref metadata else T_returned Placed)"

definition ensure_recheck :: "string \<Rightarrow> nat \<Rightarrow> authority_error + AuthorityMetadata \<Rightarrow> placements \<Rightarrow> placement_pc" where
  "ensure_recheck epoch ref answer p =
     (case answer of
        Inl e \<Rightarrow> T_returned (PlacementFailed e)
      | Inr current \<Rightarrow> T_returned (if outdated epoch current (writers p ! ref) then PlacementFailed WriterFenced else Placed))"

text \<open>The answer to \<^verbatim>\<open>AcquireRelayWriter\<close>.\<close>

definition acquired :: "nat \<Rightarrow> authority_error + u64 \<Rightarrow> placements \<Rightarrow> placements" where
  "acquired ref answer p =
     p\<lparr>writers := (writers p)[ref := (writers p ! ref)
         \<lparr>mw_done := True, mw_term := (case answer of Inl _ \<Rightarrow> 0 | Inr term \<Rightarrow> term), mw_err := (case answer of Inl e \<Rightarrow> Some e | Inr _ \<Rightarrow> None)\<rparr>]\<rparr>"

definition acquire_result :: "authority_error + u64 \<Rightarrow> placement_result" where
  "acquire_result answer = (case answer of Inl e \<Rightarrow> PlacementFailed e | Inr _ \<Rightarrow> Placed)"

datatype term_error = NotAcquired | AcquirePending | AcquireFailed authority_error

definition mediaWriterTerm :: "string \<Rightarrow> placements \<Rightarrow> term_error + u64" where
  "mediaWriterTerm sid p =
     (case map_of (mediaWriters p) sid of
        None \<Rightarrow> Inl NotAcquired
      | Some ref \<Rightarrow>
          let w = writers p ! ref
          in if \<not> mw_done w then Inl AcquirePending
             else case mw_err w of Some e \<Rightarrow> Inl (AcquireFailed e) | None \<Rightarrow> Inr (mw_term w))"

text \<open>\<^verbatim>\<open>pruneMediaWriters\<close>: the service is asked again about every entry without a live session; the answers up to the deadline.\<close>

definition pruneMediaWriters :: "(string \<Rightarrow> bool) \<Rightarrow> (string \<Rightarrow> (authority_error + AuthorityMetadata) option) \<Rightarrow> placements \<Rightarrow> placements" where
  "pruneMediaWriters live answers p =
     fold (\<lambda>sid p. if live sid then p else case answers sid of None \<Rightarrow> p | Some answer \<Rightarrow> authorityMetadata sid answer p)
       (map fst (mediaWriters p)) p"

section \<open>Threads\<close>

datatype placement_action =
    Enter nat AuthorityMetadata
  | Proceed nat
  | Cancel nat
  | Recheck nat string "authority_error + AuthorityMetadata"
  | Acquired nat "authority_error + u64"
  | Metadata_answer string "authority_error + AuthorityMetadata"

definition set_thread :: "nat \<Rightarrow> placement_pc \<Rightarrow> placements \<Rightarrow> placement_state \<Rightarrow> placement_state" where
  "set_thread t pc p s = s\<lparr>ps_places := p, ps_threads := (ps_threads s)(t := pc)\<rparr>"

fun placement_step :: "int \<Rightarrow> string \<Rightarrow> placement_action \<Rightarrow> placement_state \<Rightarrow> placement_state option" where
  "placement_step maxRooms epoch (Enter t metadata) s =
     (case ps_threads s t of
        T_idle \<Rightarrow> (let (pc, p) = ensure_enter maxRooms metadata (ps_places s) in Some (set_thread t pc p s))
      | _ \<Rightarrow> None)"
| "placement_step maxRooms epoch (Proceed t) s =
     (case ps_threads s t of
        T_wait ref metadata \<Rightarrow>
          if \<not> mw_done (writers (ps_places s) ! ref) then None
          else Some (set_thread t (ensure_found epoch ref metadata (ps_places s)) (ps_places s) s)
      | T_returned _ \<Rightarrow> Some (set_thread t T_idle (ps_places s) s)
      | _ \<Rightarrow> None)"
| "placement_step maxRooms epoch (Cancel t) s =
     (case ps_threads s t of
        T_wait ref metadata \<Rightarrow> Some (set_thread t (T_returned Cancelled) (ps_places s) s)
      | _ \<Rightarrow> None)"
| "placement_step maxRooms epoch (Recheck t sid answer) s =
     (case ps_threads s t of
        T_recheck ref metadata \<Rightarrow>
          if am_SessionID metadata \<noteq> sid then None
          else Some (set_thread t (ensure_recheck epoch ref answer (ps_places s)) (authorityMetadata sid answer (ps_places s)) s)
      | _ \<Rightarrow> None)"
| "placement_step maxRooms epoch (Acquired t answer) s =
     (case ps_threads s t of
        T_acquire ref \<Rightarrow> Some (set_thread t (T_returned (acquire_result answer)) (acquired ref answer (ps_places s)) s)
      | _ \<Rightarrow> None)"
| "placement_step maxRooms epoch (Metadata_answer sid answer) s = Some (s\<lparr>ps_places := authorityMetadata sid answer (ps_places s)\<rparr>)"

fun placement_run :: "int \<Rightarrow> string \<Rightarrow> placement_action list \<Rightarrow> placement_state \<Rightarrow> placement_state option" where
  "placement_run maxRooms epoch [] s = Some s"
| "placement_run maxRooms epoch (a # as) s =
     (case placement_step maxRooms epoch a s of None \<Rightarrow> None | Some s1 \<Rightarrow> placement_run maxRooms epoch as s1)"

definition no_placements :: placement_state where
  "no_placements = \<lparr>ps_places = \<lparr>mediaWriters = [], writers = []\<rparr>, ps_threads = (\<lambda>_. T_idle)\<rparr>"

text \<open>The service has not said that the session does not exist.\<close>

fun absence :: "string \<Rightarrow> placement_action \<Rightarrow> bool" where
  "absence sid (Recheck t sid' answer) = (sid' = sid \<and> answer = Inl SessionNotFound)"
| "absence sid (Metadata_answer sid' answer) = (sid' = sid \<and> answer = Inl SessionNotFound)"
| "absence sid a = False"

section \<open>Attempts\<close>

definition attempts :: "string \<Rightarrow> placements \<Rightarrow> nat list" where
  "attempts sid p = filter (\<lambda>ref. mw_session (writers p ! ref) = sid) [0..<length (writers p)]"

definition chain :: "string \<Rightarrow> placements \<Rightarrow> bool" where
  "chain sid p \<longleftrightarrow> map_of (mediaWriters p) sid = (if attempts sid p = [] then None else Some (last (attempts sid p))) \<and>
     list_all (\<lambda>ref. retryable (writers p ! ref)) (butlast (attempts sid p)) \<and>
     (\<exists>e. list_all (\<lambda>ref. mw_expected (writers p ! ref) = e) (attempts sid p))"

definition threads_ok :: "placement_state \<Rightarrow> bool" where
  "threads_ok s \<longleftrightarrow> (\<forall>t ref. ps_threads s t = T_acquire ref \<longrightarrow> ref < length (writers (ps_places s)) \<and> \<not> mw_done (writers (ps_places s) ! ref)) \<and>
     (\<forall>t u ref. ps_threads s t = T_acquire ref \<and> ps_threads s u = T_acquire ref \<longrightarrow> t = u)"

definition bounded :: "int \<Rightarrow> placement_state \<Rightarrow> bool" where
  "bounded maxRooms s \<longleftrightarrow> int (length (mediaWriters (ps_places s))) \<le> maxRooms"

lemma attempts_below: "ref \<in> set (attempts sid p) \<Longrightarrow> ref < length (writers p)"
  by (simp add: attempts_def)

lemma add_writer_fields [simp]:
  "length (writers (add_writer sid e p)) = Suc (length (writers p))"
  "ref < length (writers p) \<Longrightarrow> writers (add_writer sid e p) ! ref = writers p ! ref"
  "mw_expected (writers (add_writer sid e p) ! length (writers p)) = e"
  "\<not> mw_done (writers (add_writer sid e p) ! length (writers p))"
  "map_of (mediaWriters (add_writer sid e p)) = (map_of (mediaWriters p))(sid \<mapsto> length (writers p))"
  by (simp_all add: add_writer_def nth_append update_conv')

lemma attempts_add: "attempts sid (add_writer sid' e p) = attempts sid p @ (if sid' = sid then [length (writers p)] else [])"
proof -
  have "filter (\<lambda>ref. mw_session (writers (add_writer sid' e p) ! ref) = sid) [0..<length (writers p)] = attempts sid p"
    unfolding attempts_def by (rule filter_cong) simp_all
  moreover have "mw_session (writers (add_writer sid' e p) ! length (writers p)) = sid'" by (simp add: add_writer_def)
  ultimately show ?thesis by (simp add: attempts_def)
qed

lemma acquired_fields [simp]:
  "length (writers (acquired ref answer p)) = length (writers p)"
  "mediaWriters (acquired ref answer p) = mediaWriters p"
  "r \<noteq> ref \<Longrightarrow> writers (acquired ref answer p) ! r = writers p ! r"
  "r < length (writers p) \<Longrightarrow> mw_session (writers (acquired ref answer p) ! r) = mw_session (writers p ! r)"
  "r < length (writers p) \<Longrightarrow> mw_expected (writers (acquired ref answer p) ! r) = mw_expected (writers p ! r)"
  by (cases "r = ref"; simp add: acquired_def)+

lemma attempts_acquired [simp]: "attempts sid (acquired ref answer p) = attempts sid p"
  unfolding attempts_def by (rule filter_cong) simp_all

lemma metadata_fields [simp]: "writers (authorityMetadata sid answer p) = writers p" "attempts sid' (authorityMetadata sid answer p) = attempts sid' p"
  by (simp_all add: authorityMetadata_def attempts_def)

lemma chain_add:
  assumes ch: "chain sid p" and e: "attempts sid p \<noteq> [] \<Longrightarrow> retryable (writers p ! last (attempts sid p)) \<and> e = mw_expected (writers p ! last (attempts sid p))"
  shows "chain sid (add_writer sid e p)"
proof (cases "attempts sid p = []")
  case True
  then show ?thesis by (simp add: chain_def attempts_add)
next
  case False
  have old: "writers (add_writer sid e p) ! ref = writers p ! ref" if "ref \<in> set (attempts sid p)" for ref
    using attempts_below [OF that] by simp
  obtain e' where e': "\<forall>ref \<in> set (attempts sid p). mw_expected (writers p ! ref) = e'" using ch by (auto simp: chain_def list_all_iff)
  moreover have "last (attempts sid p) \<in> set (attempts sid p)" using False by simp
  ultimately have "e = e'" using e [OF False] by auto
  then have "list_all (\<lambda>ref. mw_expected (writers (add_writer sid e p) ! ref) = e') (attempts sid (add_writer sid e p))"
    using e' old by (simp add: attempts_add list_all_iff)
  moreover have "retryable (writers (add_writer sid e p) ! ref)" if "ref \<in> set (attempts sid p)" for ref
  proof -
    have "ref \<in> set (butlast (attempts sid p) @ [last (attempts sid p)])" using that False by simp
    then have "retryable (writers p ! ref)" using ch e [OF False] by (auto simp: chain_def list_all_iff)
    then show ?thesis using old [OF that] by simp
  qed
  ultimately show ?thesis unfolding chain_def by (auto simp: attempts_add list_all_iff)
qed

lemma chain_same:
  assumes ch: "chain sid p" and "attempts sid p' = attempts sid p" and "map_of (mediaWriters p') sid = map_of (mediaWriters p) sid"
    and "\<And>ref. ref \<in> set (attempts sid p) \<Longrightarrow>
      mw_expected (writers p' ! ref) = mw_expected (writers p ! ref) \<and> (retryable (writers p ! ref) \<longrightarrow> retryable (writers p' ! ref))"
  shows "chain sid p'"
proof -
  have "list_all (\<lambda>ref. retryable (writers p' ! ref)) (butlast (attempts sid p))"
    using ch assms(4) by (auto simp: chain_def list_all_iff dest: in_set_butlastD)
  moreover obtain e where "\<forall>ref \<in> set (attempts sid p). mw_expected (writers p ! ref) = e" using ch by (auto simp: chain_def list_all_iff)
  then have "list_all (\<lambda>ref. mw_expected (writers p' ! ref) = e) (attempts sid p)" using assms(4) by (simp add: list_all_iff)
  ultimately show ?thesis using ch assms(2,3) unfolding chain_def by auto
qed

lemma chain_other: "\<lbrakk>chain sid p; sid' \<noteq> sid\<rbrakk> \<Longrightarrow> chain sid (add_writer sid' e p)"
  by (rule chain_same [where p = p]) (simp_all add: attempts_add attempts_below)

lemma chain_acquired:
  assumes "chain sid p" and ref: "\<not> mw_done (writers p ! ref)"
  shows "chain sid (acquired ref answer p)"
proof (rule chain_same [OF assms(1)])
  fix r assume r: "r \<in> set (attempts sid p)"
  show "mw_expected (writers (acquired ref answer p) ! r) = mw_expected (writers p ! r) \<and>
      (retryable (writers p ! r) \<longrightarrow> retryable (writers (acquired ref answer p) ! r))"
    using attempts_below [OF r] ref by (cases "r = ref") (simp_all add: retryable_def)
qed simp_all

lemma chain_metadata: "\<lbrakk>chain sid p; \<not> (sid' = sid \<and> answer = Inl SessionNotFound)\<rbrakk> \<Longrightarrow> chain sid (authorityMetadata sid' answer p)"
  by (auto simp: chain_def authorityMetadata_def attempts_def delete_conv)

lemma chain_enter:
  assumes "chain sid p" and "ensure_enter maxRooms metadata p = (pc, p')"
  shows "chain sid p'"
proof (cases "p' = p")
  case False
  then obtain e where p': "p' = add_writer (am_SessionID metadata) e p"
    and e: "case map_of (mediaWriters p) (am_SessionID metadata) of None \<Rightarrow> True | Some ref \<Rightarrow> retryable (writers p ! ref) \<and> e = mw_expected (writers p ! ref)"
    using assms(2) by (auto simp: ensure_enter_def Let_def split: option.splits if_splits)
  show ?thesis
  proof (cases "am_SessionID metadata = sid")
    case True
    then show ?thesis using assms(1) e unfolding p' True by (intro chain_add) (auto simp: chain_def)
  qed (use assms(1) p' chain_other in auto)
qed (use assms in simp)

section \<open>Steps\<close>

text \<open>What a step does to the attempts: it may add one, made by the stepping thread; it may finish one of the stepping thread.\<close>

lemma placement_step_cases:
  assumes "placement_step maxRooms epoch a s = Some s'"
  obtains
    (same) "writers (ps_places s') = writers (ps_places s)" "\<And>t ref. ps_threads s' t = T_acquire ref \<Longrightarrow> ps_threads s t = T_acquire ref"
  | (add) t metadata e where "a = Enter t metadata" "ps_places s' = add_writer (am_SessionID metadata) e (ps_places s)"
      "ps_threads s' = (ps_threads s)(t := T_acquire (length (writers (ps_places s))))"
  | (finish) t ref answer pc where "a = Acquired t answer" "ps_threads s t = T_acquire ref"
      "ps_places s' = acquired ref answer (ps_places s)" "ps_threads s' = (ps_threads s)(t := T_returned pc)"
proof (cases a)
  case (Enter t metadata)
  then have idle: "ps_threads s t = T_idle" and s': "s' = set_thread t (fst (ensure_enter maxRooms metadata (ps_places s))) (snd (ensure_enter maxRooms metadata (ps_places s))) s"
    using assms by (auto split: placement_pc.splits prod.splits)
  show ?thesis
  proof (cases "snd (ensure_enter maxRooms metadata (ps_places s)) = ps_places s")
    case True
    moreover have "fst (ensure_enter maxRooms metadata (ps_places s)) \<noteq> T_acquire ref" for ref
      using True by (auto simp: ensure_enter_def Let_def add_writer_def split: option.splits if_splits dest: arg_cong [where f = "length \<circ> writers"])
    ultimately show ?thesis by (intro same) (auto simp: s' set_thread_def split: if_splits)
  next
    case False
    then show ?thesis
      by (auto intro: add [OF Enter] simp: s' set_thread_def ensure_enter_def Let_def split: option.splits if_splits)
  qed
next
  case (Acquired t answer)
  then show ?thesis using assms by (auto intro: finish simp: set_thread_def split: placement_pc.splits)
qed (use assms in \<open>auto intro!: same simp: set_thread_def ensure_found_def ensure_recheck_def Let_def split: placement_pc.splits if_splits option.splits sum.splits\<close>)

lemma threads_step:
  assumes ok: "threads_ok s" and step: "placement_step maxRooms epoch a s = Some s'"
  shows "threads_ok s'"
  using step
proof (cases rule: placement_step_cases)
  case same
  then show ?thesis using ok unfolding threads_ok_def by metis
next
  case (add t metadata e)
  have below: "ref < length (writers (ps_places s))" if "ps_threads s u = T_acquire ref" for u ref using ok that by (auto simp: threads_ok_def)
  then have "ps_threads s u \<noteq> T_acquire (length (writers (ps_places s)))" for u by fastforce
  then show ?thesis using ok below by (auto simp: threads_ok_def add less_Suc_eq)
next
  case (finish t ref answer pc)
  have "r \<noteq> ref" if "ps_threads s u = T_acquire r" "u \<noteq> t" for u r using ok that finish(2) by (auto simp: threads_ok_def)
  then show ?thesis using ok by (auto simp: threads_ok_def finish)
qed

lemma chain_step:
  assumes "chain sid (ps_places s)" and "threads_ok s" and step: "placement_step maxRooms epoch a s = Some s'" and "\<not> absence sid a"
  shows "chain sid (ps_places s')"
proof (cases a)
  case (Enter t metadata)
  then show ?thesis using assms(1) step chain_enter by (auto simp: set_thread_def split: placement_pc.splits prod.splits)
next
  case (Acquired t answer)
  then obtain ref where "ps_threads s t = T_acquire ref" "ps_places s' = acquired ref answer (ps_places s)"
    using step by (auto simp: set_thread_def split: placement_pc.splits)
  then show ?thesis using assms(1,2) chain_acquired by (auto simp: threads_ok_def)
next
  case (Recheck t sid' answer)
  then have "ps_places s' = authorityMetadata sid' answer (ps_places s)" using step by (auto simp: set_thread_def split: placement_pc.splits if_splits)
  then show ?thesis using assms(1,4) Recheck chain_metadata by auto
next
  case (Metadata_answer sid' answer)
  then show ?thesis using assms(1,4) step chain_metadata by auto
qed (use assms(1) step in \<open>auto simp: set_thread_def split: placement_pc.splits if_splits\<close>)

lemma bounded_step:
  assumes "bounded maxRooms s" and step: "placement_step maxRooms epoch a s = Some s'"
  shows "bounded maxRooms s'"
proof (cases a)
  case (Enter t metadata)
  let ?sid = "am_SessionID metadata" and ?p = "ps_places s"
  have "int (length (mediaWriters (snd (ensure_enter maxRooms metadata ?p)))) \<le> maxRooms"
    using assms(1) by (auto simp: bounded_def ensure_enter_def Let_def add_writer_def length_update has_key_def split: option.splits)
  then show ?thesis using step Enter by (auto simp: bounded_def set_thread_def split: placement_pc.splits prod.splits)
qed (use assms in \<open>auto simp: bounded_def set_thread_def authorityMetadata_def split: placement_pc.splits if_splits
    intro: order_trans [OF _ assms(1) [unfolded bounded_def]] length_delete_le [THEN of_nat_mono]\<close>)

text \<open>Attempts are only added, and a finished one does not change.\<close>

definition extends :: "string \<Rightarrow> placements \<Rightarrow> placements \<Rightarrow> bool" where
  "extends sid p p' \<longleftrightarrow> prefix (attempts sid p) (attempts sid p') \<and> length (writers p) \<le> length (writers p') \<and>
     (\<forall>ref < length (writers p). mw_done (writers p ! ref) \<longrightarrow> writers p' ! ref = writers p ! ref)"

lemma extends_trans: "\<lbrakk>extends sid p p1; extends sid p1 p2\<rbrakk> \<Longrightarrow> extends sid p p2"
  by (auto simp: extends_def intro: prefix_order.trans)

lemma extends_step:
  assumes "threads_ok s" and step: "placement_step maxRooms epoch a s = Some s'"
  shows "extends sid (ps_places s) (ps_places s')"
  using step
proof (cases rule: placement_step_cases)
  case same
  then show ?thesis by (simp add: extends_def attempts_def)
next
  case (add t metadata e)
  then show ?thesis by (simp add: extends_def attempts_add)
next
  case (finish t ref answer pc)
  have "\<not> mw_done (writers (ps_places s) ! ref)" using assms(1) finish(2) by (auto simp: threads_ok_def)
  then have "writers (ps_places s') ! r = writers (ps_places s) ! r" if "mw_done (writers (ps_places s) ! r)" for r
    using that by (cases "r = ref") (simp_all add: finish)
  then show ?thesis by (simp add: extends_def finish)
qed

lemma placement_run_inv:
  assumes "placement_run maxRooms epoch as s = Some s'" and "threads_ok s"
  shows "threads_ok s'" and "bounded maxRooms s \<Longrightarrow> bounded maxRooms s'" and "extends sid (ps_places s) (ps_places s')"
    and "\<lbrakk>chain sid (ps_places s); \<not> list_ex (absence sid) as\<rbrakk> \<Longrightarrow> chain sid (ps_places s')"
  using assms
proof (induction as arbitrary: s)
  case Nil
  { case 1 then show ?case by simp }
  { case 2 then show ?case by simp }
  { case 3 then show ?case by (simp add: extends_def) }
  { case 4 then show ?case by simp }
next
  case (Cons a as)
  { case 1
    then obtain s1 where "placement_step maxRooms epoch a s = Some s1" "placement_run maxRooms epoch as s1 = Some s'" by (auto split: option.splits)
    then show ?case using Cons.IH(1) threads_step [OF 1(2)] by blast }
  { case 2
    then obtain s1 where "placement_step maxRooms epoch a s = Some s1" "placement_run maxRooms epoch as s1 = Some s'" by (auto split: option.splits)
    then show ?case using Cons.IH(2) threads_step [OF 2(3)] bounded_step [OF 2(1)] by blast }
  { case 3
    then obtain s1 where "placement_step maxRooms epoch a s = Some s1" "placement_run maxRooms epoch as s1 = Some s'" by (auto split: option.splits)
    then show ?case using Cons.IH(3) threads_step [OF 3(2)] extends_step [OF 3(2)] extends_trans by blast }
  { case 4
    then obtain s1 where s1: "placement_step maxRooms epoch a s = Some s1" "placement_run maxRooms epoch as s1 = Some s'" by (auto split: option.splits)
    have "\<not> absence sid a" "\<not> list_ex (absence sid) as" using 4(2) by auto
    then show ?case using Cons.IH(4) [OF chain_step [OF 4(1) 4(4) s1(1)] _ s1(2) threads_step [OF 4(4) s1(1)]] by blast }
qed

lemma prefix_last_butlast:
  assumes "prefix xs ys" and "xs \<noteq> []" and "ys \<noteq> xs"
  shows "last xs \<in> set (butlast ys)"
proof -
  obtain zs where "ys = xs @ zs" "zs \<noteq> []" using assms by (auto elim: prefixE)
  then show ?thesis using assms(2) by (simp add: butlast_append)
qed

lemma chain_settled:
  assumes ext: "extends sid p p'" and ch: "chain sid p'" and last: "attempts sid p \<noteq> []" "mw_done (writers p ! last (attempts sid p))"
    "\<not> retryable (writers p ! last (attempts sid p))"
  shows "attempts sid p' = attempts sid p"
proof (rule ccontr)
  assume "attempts sid p' \<noteq> attempts sid p"
  then have "last (attempts sid p) \<in> set (butlast (attempts sid p'))" using ext last(1) by (intro prefix_last_butlast) (auto simp: extends_def)
  then have "retryable (writers p' ! last (attempts sid p))" using ch by (simp add: chain_def list_all_iff)
  moreover have "last (attempts sid p) < length (writers p)" using last(1) by (intro attempts_below [of _ sid]) simp
  ultimately show False using ext last(2,3) by (simp add: extends_def)
qed

lemma chain_one_acquirer:
  assumes ch: "chain sid (ps_places s)" and ok: "threads_ok s" and t: "ps_threads s t = T_acquire ref" "mw_session (writers (ps_places s) ! ref) = sid"
  shows "ref = last (attempts sid (ps_places s))"
proof -
  have ref: "ref < length (writers (ps_places s))" "\<not> mw_done (writers (ps_places s) ! ref)" using ok t(1) by (auto simp: threads_ok_def)
  then have mem: "ref \<in> set (attempts sid (ps_places s))" using t(2) by (simp add: attempts_def)
  have "ref \<notin> set (butlast (attempts sid (ps_places s)))" using ch ref(2) by (auto simp: chain_def list_all_iff retryable_def)
  moreover have "attempts sid (ps_places s) = butlast (attempts sid (ps_places s)) @ [last (attempts sid (ps_places s))]" using mem by (cases "attempts sid (ps_places s)" rule: rev_cases) simp_all
  ultimately show ?thesis using mem by (metis Un_iff empty_iff empty_set insertE list.set(2) set_append)
qed

section \<open>Property\<close>

text \<open>C13. Media placement is acquired once.  As long as the Session service has not said that a session does not exist, and however joins, waits,
  cancellations and answers interleave: all attempts of this relay to acquire the session's media ask from one and the same term, one
  at a time, each but the last having failed other than by fencing; so once placed or fenced the relay never asks again, and a
  displaced relay cannot take the session back.  The entries stay within the limit of rooms.\<close>

theorem placement_acquired_once:
  assumes "0 \<le> maxRooms" and run: "placement_run maxRooms epoch as no_placements = Some s" and here: "\<not> list_ex (absence sid) as"
  shows "(\<exists>e. \<forall>ref \<in> set (attempts sid (ps_places s)). mw_expected (writers (ps_places s) ! ref) = e) \<and>
    (\<forall>ref \<in> set (butlast (attempts sid (ps_places s))). retryable (writers (ps_places s) ! ref)) \<and>
    (ps_threads s t = T_acquire ref \<and> ps_threads s u = T_acquire ref' \<and> mw_session (writers (ps_places s) ! ref) = sid \<and>
       mw_session (writers (ps_places s) ! ref') = sid \<longrightarrow> t = u) \<and>
    (attempts sid (ps_places s) \<noteq> [] \<and> mw_done (writers (ps_places s) ! last (attempts sid (ps_places s))) \<and>
       \<not> retryable (writers (ps_places s) ! last (attempts sid (ps_places s))) \<and>
       placement_run maxRooms epoch bs s = Some s' \<and> \<not> list_ex (absence sid) bs \<longrightarrow> attempts sid (ps_places s') = attempts sid (ps_places s)) \<and>
    int (length (mediaWriters (ps_places s))) \<le> maxRooms"
proof -
  have start: "threads_ok no_placements" "bounded maxRooms no_placements" "chain sid (ps_places no_placements)"
    using assms(1) by (simp_all add: no_placements_def threads_ok_def bounded_def chain_def attempts_def)
  note inv = placement_run_inv [OF run start(1)]
  have ch: "chain sid (ps_places s)" by (rule inv(4) [OF start(3) here])
  have one: "t = u" if "ps_threads s t = T_acquire ref" "ps_threads s u = T_acquire ref'" "mw_session (writers (ps_places s) ! ref) = sid"
    "mw_session (writers (ps_places s) ! ref') = sid"
    using chain_one_acquirer [OF ch inv(1) that(1,3)] chain_one_acquirer [OF ch inv(1) that(2,4)] inv(1) that(1,2)
    unfolding threads_ok_def by blast
  have later: "attempts sid (ps_places s') = attempts sid (ps_places s)"
    if "attempts sid (ps_places s) \<noteq> []" "mw_done (writers (ps_places s) ! last (attempts sid (ps_places s)))"
      "\<not> retryable (writers (ps_places s) ! last (attempts sid (ps_places s)))" "placement_run maxRooms epoch bs s = Some s'" "\<not> list_ex (absence sid) bs"
    using chain_settled [OF _ _ that(1-3)] placement_run_inv(3,4) [OF that(4) inv(1)] ch that(5) by blast
  show ?thesis using ch one later inv(2) [OF start(2)] unfolding chain_def list_all_iff bounded_def by blast
qed

definition example_metadata :: AuthorityMetadata where
  "example_metadata = \<lparr>am_SessionID = ''s'', am_Issuer = Issuer, am_Incarnation = [], am_LegacyTokensBefore = zero_time, am_MediaTerm = 4,
     am_RelayEpoch = ''old'', am_RequiredBuses = []\<rparr>"

definition fenced_actions :: "placement_action list" where
  "fenced_actions = [Enter 0 example_metadata, Enter 1 example_metadata, Acquired 0 (Inl AuthorityFailed), Proceed 1, Proceed 1,
     Enter 1 example_metadata, Acquired 1 (Inl WriterFenced)]"

definition fenced_state :: placement_state where
  "fenced_state =
     \<lparr>ps_places = \<lparr>mediaWriters = [(''s'', 1)],
        writers = [\<lparr>mw_session = ''s'', mw_done = True, mw_term = 0, mw_expected = 4, mw_err = Some AuthorityFailed\<rparr>,
          \<lparr>mw_session = ''s'', mw_done = True, mw_term = 0, mw_expected = 4, mw_err = Some WriterFenced\<rparr>]\<rparr>,
      ps_threads = (\<lambda>_. T_idle)(0 := T_returned (PlacementFailed AuthorityFailed), 1 := T_returned (PlacementFailed WriterFenced))\<rparr>"

lemma fenced_run: "placement_run 8 ''new'' fenced_actions no_placements = Some fenced_state"
  by (simp add: fenced_actions_def fenced_state_def no_placements_def ensure_enter_def example_metadata_def add_writer_def set_thread_def acquired_def
      acquire_result_def ensure_found_def retryable_def Let_def fun_upd_twist)

theorem placement_acquired_once_witness:
  "attempts ''s'' (ps_places fenced_state) = [0, 1] \<and>
   (\<exists>s'. placement_run 8 ''new'' [Enter 2 example_metadata, Proceed 2] fenced_state = Some s' \<and> attempts ''s'' (ps_places s') = [0, 1])"
proof -
  have at: "attempts ''s'' (ps_places fenced_state) = [0, 1]" by (simp add: attempts_def fenced_state_def)
  have last: "mw_done (writers (ps_places fenced_state) ! 1)" "\<not> retryable (writers (ps_places fenced_state) ! 1)"
    by (simp_all add: fenced_state_def retryable_def)
  have "\<exists>s'. placement_run 8 ''new'' [Enter 2 example_metadata, Proceed 2] fenced_state = Some s'"
    by (simp add: fenced_state_def ensure_enter_def example_metadata_def retryable_def set_thread_def Let_def)
  moreover have "(0::int) \<le> 8" "\<not> list_ex (absence ''s'') fenced_actions" "\<not> list_ex (absence ''s'') [Enter 2 example_metadata, Proceed 2]"
    by (simp_all add: fenced_actions_def)
  ultimately show ?thesis using placement_acquired_once [OF _ fenced_run, of "''s''" 0 0 0 0 "[Enter 2 example_metadata, Proceed 2]"] at last by fastforce
qed

end
