(* ===== verification/Session_Feedback.thy ===== *)
theory Session_Feedback
  imports Relay_Prelude Complex_Main
begin

text \<open>
  Loss feedback of the subscribers to the source of a session: bitrate hints (\<^verbatim>\<open>internal/server/codec_hint.go\<close>), ICE restarts
  (\<^verbatim>\<open>internal/server/ice_restart.go\<close>) and the life of their states (\<^verbatim>\<open>internal/server/feedback_lifecycle.go\<close>).  A loss is the fraction \<^verbatim>\<open>n / 256\<close>
  of a receiver report.  Its floating-point value is exact and none is a threshold, so rational comparisons decide as the code does.
  Each state has a mutex: the reports of all subscribers of a session reach it one after the other.
\<close>

section \<open>Hints\<close>

record CodecHintPayload =
  BitRateKbps :: int
  Complexity :: int
  Fec :: bool
  Dtx :: bool
  FrameMs :: int

definition lossLowLatencyThreshold :: rat where "lossLowLatencyThreshold = 1 / 100"
definition lossMediumThreshold :: rat where "lossMediumThreshold = 2 / 100"
definition lossHighThreshold :: rat where "lossHighThreshold = 5 / 100"
definition codecHintDebounce :: duration where "codecHintDebounce = 2 * second"

definition bitrateForLoss :: "rat \<Rightarrow> CodecHintPayload" where
  "bitrateForLoss fractionLost =
     (if fractionLost > lossHighThreshold then \<lparr>BitRateKbps = 16, Complexity = 3, Fec = True, Dtx = True, FrameMs = 20\<rparr>
      else if fractionLost > lossMediumThreshold then \<lparr>BitRateKbps = 32, Complexity = 5, Fec = True, Dtx = False, FrameMs = 20\<rparr>
      else if fractionLost > lossLowLatencyThreshold then \<lparr>BitRateKbps = 64, Complexity = 5, Fec = False, Dtx = False, FrameMs = 20\<rparr>
      else \<lparr>BitRateKbps = 64, Complexity = 5, Fec = False, Dtx = False, FrameMs = 10\<rparr>)"

text \<open>A report: the loss, the time when its debounce is checked, and the time stored when it passes.\<close>

record loss_report =
  lr_loss :: rat
  lr_now :: time
  lr_stored :: time

text \<open>Whether the interval since the last message has passed; none has been sent at the zero time.\<close>

definition debounced :: "duration \<Rightarrow> time \<Rightarrow> time option \<Rightarrow> bool" where
  "debounced interval now lastSent = (case lastSent of None \<Rightarrow> True | Some t \<Rightarrow> \<not> now - t < interval)"

record codecHintState =
  hint_lastSent :: "time option"

text \<open>The part of \<^verbatim>\<open>maybeEmitCodecHint\<close> under the mutex.\<close>

definition hint_due :: "loss_report \<Rightarrow> codecHintState \<Rightarrow> bool \<times> codecHintState" where
  "hint_due r state =
     (if \<not> debounced codecHintDebounce (lr_now r) (hint_lastSent state) then (False, state)
      else (True, state\<lparr>hint_lastSent := Some (lr_stored r)\<rparr>))"

section \<open>Restarts\<close>

definition iceRestartDebounce :: duration where "iceRestartDebounce = 30 * second"
definition lossICEThreshold :: rat where "lossICEThreshold = 15 / 100"
definition iceRestartConsecutiveRequired :: nat where "iceRestartConsecutiveRequired = 3"

record lossTracker =
  consecutiveHighLoss :: nat
  loss_threshold :: rat

definition newLossTracker :: lossTracker where
  "newLossTracker = \<lparr>consecutiveHighLoss = 0, loss_threshold = lossICEThreshold\<rparr>"

definition tracker_record :: "rat \<Rightarrow> lossTracker \<Rightarrow> bool \<times> lossTracker" where
  "tracker_record lossRate t =
     (let t1 = t\<lparr>consecutiveHighLoss := (if lossRate > loss_threshold t then consecutiveHighLoss t + 1 else 0)\<rparr>
      in (consecutiveHighLoss t1 \<ge> iceRestartConsecutiveRequired, t1))"

record iceRestartState =
  loss_tracker :: lossTracker
  ice_lastSent :: "time option"

definition newICERestartState :: iceRestartState where
  "newICERestartState = \<lparr>loss_tracker = newLossTracker, ice_lastSent = None\<rparr>"

text \<open>The part of \<^verbatim>\<open>maybeEmitICERestart\<close> under the mutex.\<close>

definition restart_due :: "loss_report \<Rightarrow> iceRestartState \<Rightarrow> bool \<times> iceRestartState" where
  "restart_due r state =
     (let (triggered, t) = tracker_record (lr_loss r) (loss_tracker state)
      in if \<not> triggered \<or> \<not> debounced iceRestartDebounce (lr_now r) (ice_lastSent state) then (False, state\<lparr>loss_tracker := t\<rparr>)
         else (True, state\<lparr>loss_tracker := t\<lparr>consecutiveHighLoss := 0\<rparr>, ice_lastSent := Some (lr_stored r)\<rparr>))"

section \<open>Delivery\<close>

text \<open>The message goes to a source peer of the session, the first the iteration over the peers meets.\<close>

record feedback_peer =
  fp_id :: string
  fp_room :: "string option"
  fp_source :: bool

definition source_peer :: "string \<Rightarrow> feedback_peer list \<Rightarrow> feedback_peer option" where
  "source_peer roomID peers = List.find (\<lambda>p. fp_room p = Some roomID \<and> fp_source p) peers"

definition maybeEmitCodecHint ::
  "string \<Rightarrow> feedback_peer list \<Rightarrow> loss_report \<Rightarrow> codecHintState \<Rightarrow> (string \<times> CodecHintPayload) option \<times> codecHintState" where
  "maybeEmitCodecHint roomID peers r state =
     (let (due, state') = hint_due r state
      in (if due then map_option (\<lambda>p. (fp_id p, bitrateForLoss (lr_loss r))) (source_peer roomID peers) else None, state'))"

text \<open>A restart names the peer and whether to prefer TURN; each one sent counts in the metrics.\<close>

definition maybeEmitICERestart ::
  "string \<Rightarrow> feedback_peer list \<Rightarrow> bool \<Rightarrow> loss_report \<Rightarrow> iceRestartState \<times> nat \<Rightarrow> (string \<times> bool) option \<times> iceRestartState \<times> nat" where
  "maybeEmitICERestart roomID peers useTURN r = (\<lambda>(state, ICERestartTotal).
     let (due, state') = restart_due r state
     in case source_peer roomID peers of
          None \<Rightarrow> (None, state', ICERestartTotal)
        | Some p \<Rightarrow> if due then (Some (fp_id p, useTURN), state', ICERestartTotal + 1) else (None, state', ICERestartTotal))"

section \<open>States of the sessions\<close>

record session_feedback =
  codecHintStates :: "(string, codecHintState) gomap"
  iceRestartStates :: "(string, iceRestartState) gomap"

definition roomCodecHintState :: "string \<Rightarrow> session_feedback \<Rightarrow> session_feedback" where
  "roomCodecHintState roomID f =
     (if has_key roomID (codecHintStates f) then f else f\<lparr>codecHintStates := AList.update roomID \<lparr>hint_lastSent = None\<rparr> (codecHintStates f)\<rparr>)"

definition roomICERestartState :: "string \<Rightarrow> session_feedback \<Rightarrow> session_feedback" where
  "roomICERestartState roomID f =
     (if has_key roomID (iceRestartStates f) then f else f\<lparr>iceRestartStates := AList.update roomID newICERestartState (iceRestartStates f)\<rparr>)"

definition forgetSessionFeedback :: "string \<Rightarrow> session_feedback \<Rightarrow> session_feedback" where
  "forgetSessionFeedback sid f =
     f\<lparr>codecHintStates := AList.delete sid (codecHintStates f), iceRestartStates := AList.delete sid (iceRestartStates f)\<rparr>"

definition pruneSessionFeedback :: "(string \<Rightarrow> bool) \<Rightarrow> session_feedback \<Rightarrow> session_feedback" where
  "pruneSessionFeedback live f =
     f\<lparr>codecHintStates := filter (\<lambda>(sid, _). live sid) (codecHintStates f), iceRestartStates := filter (\<lambda>(sid, _). live sid) (iceRestartStates f)\<rparr>"

lemma prune_live: "fst ` set (codecHintStates (pruneSessionFeedback live f)) \<subseteq> Collect live" "fst ` set (iceRestartStates (pruneSessionFeedback live f)) \<subseteq> Collect live"
  by (auto simp: pruneSessionFeedback_def)

section \<open>Runs of reports\<close>

text \<open>The states after a sequence of reports, and for each report whether a message was due.\<close>

definition hint_run :: "loss_report list \<Rightarrow> codecHintState \<times> bool list" where
  "hint_run rs = fold (\<lambda>r (s, fs). let (due, s') = hint_due r s in (s', fs @ [due])) rs (\<lparr>hint_lastSent = None\<rparr>, [])"

definition ice_run :: "loss_report list \<Rightarrow> iceRestartState \<times> bool list" where
  "ice_run rs = fold (\<lambda>r (s, fs). let (due, s') = restart_due r s in (s', fs @ [due])) rs (newICERestartState, [])"

definition chronological :: "loss_report list \<Rightarrow> bool" where
  "chronological rs \<longleftrightarrow> list_all (\<lambda>r. lr_now r \<le> lr_stored r) rs \<and> sorted_wrt (\<lambda>r r'. lr_stored r \<le> lr_now r') rs"

definition high_loss :: "loss_report \<Rightarrow> bool" where
  "high_loss r \<longleftrightarrow> lr_loss r > lossICEThreshold"

definition emitted :: "loss_report list \<Rightarrow> bool list \<Rightarrow> loss_report list" where
  "emitted rs fs = map fst (filter snd (zip rs fs))"

definition apart :: "duration \<Rightarrow> loss_report \<Rightarrow> loss_report \<Rightarrow> bool" where
  "apart d r r' \<longleftrightarrow> lr_stored r + d \<le> lr_stored r'"

lemma emitted_snoc: "length fs = length rs \<Longrightarrow> emitted (rs @ [r]) (fs @ [f]) = emitted rs fs @ (if f then [r] else [])"
  by (simp add: emitted_def)

lemma emitted_subset: "set (emitted rs fs) \<subseteq> set rs"
  by (auto simp: emitted_def dest: set_zip_leftD)

lemma chronological_snoc:
  "chronological (rs @ [r]) \<longleftrightarrow> chronological rs \<and> (\<forall>x \<in> set rs. lr_stored x \<le> lr_now r) \<and> lr_now r \<le> lr_stored r"
  by (auto simp: chronological_def sorted_wrt_append)

text \<open>The last stored time debounces every earlier message.\<close>

definition last_of :: "loss_report list \<Rightarrow> time option" where
  "last_of sent = (if sent = [] then None else Some (lr_stored (last sent)))"

lemma debounced_last:
  assumes "sorted_wrt (apart d) sent" and "0 \<le> d"
  shows "debounced d now (last_of sent) \<longleftrightarrow> (\<forall>x \<in> set sent. lr_stored x + d \<le> now)"
proof (cases sent rule: rev_cases)
  case (snoc sent' x)
  then have "\<forall>y \<in> set sent'. lr_stored y \<le> lr_stored x" using assms by (auto simp: sorted_wrt_append apart_def)
  then show ?thesis using snoc by (auto simp: debounced_def last_of_def)
qed (simp add: debounced_def last_of_def)

lemma apart_snoc:
  assumes "sorted_wrt (apart d) sent" and "\<forall>x \<in> set sent. lr_stored x + d \<le> now" and "now \<le> lr_stored r"
  shows "sorted_wrt (apart d) (sent @ [r])"
  using assms by (auto simp: sorted_wrt_append apart_def)

lemma hint_run_snoc:
  assumes "hint_run rs = (s0, fs0)"
  shows "hint_run (rs @ [r]) = (snd (hint_due r s0), fs0 @ [fst (hint_due r s0)])"
  using assms by (simp add: hint_run_def Let_def split_beta)

lemma hint_run_inv:
  assumes "chronological rs" and "hint_run rs = (s, fs)"
  shows "length fs = length rs \<and> hint_lastSent s = last_of (emitted rs fs) \<and> sorted_wrt (apart codecHintDebounce) (emitted rs fs)"
  using assms
proof (induction rs arbitrary: s fs rule: rev_induct)
  case Nil
  then show ?case by (auto simp: hint_run_def emitted_def last_of_def)
next
  case (snoc r rs)
  obtain s0 fs0 where 0: "hint_run rs = (s0, fs0)" by fastforce
  have c: "chronological rs" "lr_now r \<le> lr_stored r" using snoc.prems(1) by (auto simp: chronological_snoc)
  note IH = snoc.IH [OF c(1) 0]
  let ?sent = "debounced codecHintDebounce (lr_now r) (hint_lastSent s0)"
  have run: "fs = fs0 @ [?sent]" "s = (if ?sent then s0\<lparr>hint_lastSent := Some (lr_stored r)\<rparr> else s0)"
    using snoc.prems(2) unfolding hint_run_snoc [OF 0] by (auto simp: hint_due_def split: if_splits)
  have "sorted_wrt (apart codecHintDebounce) (emitted rs fs0 @ [r])" if ?sent
    using that IH debounced_last [of codecHintDebounce "emitted rs fs0" "lr_now r"] c(2) by (intro apart_snoc) (auto simp: codecHintDebounce_def)
  then show ?case using IH by (simp add: run emitted_snoc last_of_def)
qed

definition steady :: "loss_report \<times> bool \<Rightarrow> bool" where
  "steady = (\<lambda>(r, f). high_loss r \<and> \<not> f)"

lemma takeWhile_two: "2 \<le> length (takeWhile P (rev xs)) \<longleftrightarrow> 2 \<le> length xs \<and> P (xs ! (length xs - 2)) \<and> P (xs ! (length xs - 1))"
proof (cases xs rule: rev_cases)
  case (snoc ys y)
  then show ?thesis by (cases ys rule: rev_cases) (auto simp: nth_append)
qed simp

lemma ice_step:
  assumes "loss_threshold (loss_tracker s) = lossICEThreshold"
  shows "restart_due r s =
    (let n = (if high_loss r then consecutiveHighLoss (loss_tracker s) + 1 else 0);
         sent = (3 \<le> n \<and> debounced iceRestartDebounce (lr_now r) (ice_lastSent s))
     in (sent, \<lparr>loss_tracker = \<lparr>consecutiveHighLoss = (if sent then 0 else n), loss_threshold = lossICEThreshold\<rparr>,
           ice_lastSent = (if sent then Some (lr_stored r) else ice_lastSent s)\<rparr>))"
  using assms by (simp add: restart_due_def tracker_record_def Let_def high_loss_def iceRestartConsecutiveRequired_def)

lemma ice_run_snoc:
  assumes "ice_run rs = (s0, fs0)"
  shows "ice_run (rs @ [r]) = (snd (restart_due r s0), fs0 @ [fst (restart_due r s0)])"
  using assms by (simp add: ice_run_def Let_def split_beta)

lemma ice_run_Nil: "ice_run [] = (newICERestartState, [])"
  by (simp add: ice_run_def)

lemma ice_run_inv:
  assumes "chronological rs" and "ice_run rs = (s, fs)"
  shows "length fs = length rs \<and> loss_threshold (loss_tracker s) = lossICEThreshold \<and>
    consecutiveHighLoss (loss_tracker s) = length (takeWhile steady (rev (zip rs fs))) \<and>
    ice_lastSent s = last_of (emitted rs fs) \<and> sorted_wrt (apart iceRestartDebounce) (emitted rs fs)"
  using assms
proof (induction rs arbitrary: s fs rule: rev_induct)
  case Nil
  then show ?case by (auto simp: ice_run_def newICERestartState_def newLossTracker_def emitted_def last_of_def)
next
  case (snoc r rs)
  obtain s0 fs0 where 0: "ice_run rs = (s0, fs0)" by fastforce
  have c: "chronological rs" "lr_now r \<le> lr_stored r" using snoc.prems(1) by (auto simp: chronological_snoc)
  note IH = snoc.IH [OF c(1) 0]
  define n where "n = (if high_loss r then consecutiveHighLoss (loss_tracker s0) + 1 else 0)"
  define sent where "sent \<longleftrightarrow> 3 \<le> n \<and> debounced iceRestartDebounce (lr_now r) (ice_lastSent s0)"
  have run: "fs = fs0 @ [sent]" "s = \<lparr>loss_tracker = \<lparr>consecutiveHighLoss = (if sent then 0 else n), loss_threshold = lossICEThreshold\<rparr>,
      ice_lastSent = (if sent then Some (lr_stored r) else ice_lastSent s0)\<rparr>"
    using snoc.prems(2) IH unfolding ice_run_snoc [OF 0] n_def sent_def by (simp_all add: ice_step Let_def)
  have "sorted_wrt (apart iceRestartDebounce) (emitted rs fs0 @ [r])" if sent
    using that IH debounced_last [of iceRestartDebounce "emitted rs fs0" "lr_now r"] c(2)
    by (intro apart_snoc) (auto simp: iceRestartDebounce_def sent_def)
  moreover have "(if sent then 0 else n) = length (takeWhile steady (rev (zip (rs @ [r]) (fs0 @ [sent]))))"
    using IH by (simp add: steady_def n_def)
  ultimately show ?case using IH by (simp add: run emitted_snoc last_of_def)
qed

section \<open>Property\<close>


definition lossy_report :: "time \<Rightarrow> loss_report" where
  "lossy_report t = \<lparr>lr_loss = 64 / 256, lr_now = t, lr_stored = t\<rparr>"


end
