(* ===== verification/Control_Sync.thy ===== *)
theory Control_Sync
  imports Media_Placement Control_State Session_Feedback
begin

text \<open>
  Synchronization of the relay's sessions with the Session service, \<^verbatim>\<open>internal/server/control_state_sync.go\<close>: the queue of changed sessions,
  the push of one session's state and the periodic reconciliation.  Over the registry, the placements and the feedback states of one
  relay; the state read (\<^verbatim>\<open>ControlState\<close>) and the service's answer are inputs.
\<close>

record 's relay_server =
  srv_registry :: "'s SessionRegistry"
  srv_places :: placements
  srv_feedback :: session_feedback
  controlStateChanges :: "nat list"
  CallbackDroppedTotal :: nat

definition bindControlState :: "bool \<Rightarrow> nat \<Rightarrow> 's relay_server \<Rightarrow> 's relay_server" where
  "bindControlState service p srv =
     (if \<not> service then srv
      else srv\<lparr>srv_registry := (srv_registry srv)
        \<lparr>reg_sessions := (reg_sessions (srv_registry srv))[p := (reg_sessions (srv_registry srv) ! p)\<lparr>stateObserver := True\<rparr>]\<rparr>\<rparr>)"

definition queueControlState :: "nat \<Rightarrow> bool \<Rightarrow> nat \<Rightarrow> 's relay_server \<Rightarrow> 's relay_server" where
  "queueControlState maxRooms service p srv =
     (if \<not> service then srv
      else if length (controlStateChanges srv) < maxRooms then srv\<lparr>controlStateChanges := controlStateChanges srv @ [p]\<rparr>
      else srv\<lparr>CallbackDroppedTotal := CallbackDroppedTotal srv + 1\<rparr>)"

datatype push_error = PushAbsent | PushFenced | PushFailed

definition push_term_error :: "term_error \<Rightarrow> push_error" where
  "push_term_error e =
     (case e of AcquireFailed SessionNotFound \<Rightarrow> PushAbsent | AcquireFailed WriterFenced \<Rightarrow> PushFenced | _ \<Rightarrow> PushFailed)"

definition push_result :: "(RelayState \<Rightarrow> push_error option) \<Rightarrow> string \<Rightarrow> ControlState \<Rightarrow> placements \<Rightarrow> push_error option" where
  "push_result apply_state sid state p =
     (case mediaWriterTerm sid p of
        Inl e \<Rightarrow> Some (push_term_error e)
      | Inr term \<Rightarrow> apply_state (control_snapshot term state))"

definition drop_session :: "'s BusSubscription \<Rightarrow> string \<Rightarrow> bool \<Rightarrow> 's relay_server \<Rightarrow> 's relay_server" where
  "drop_session ops sid absent srv =
     srv\<lparr>srv_registry := registry_Delete ops sid (srv_registry srv), srv_feedback := forgetSessionFeedback sid (srv_feedback srv),
       srv_places := (if absent then (srv_places srv)\<lparr>mediaWriters := AList.delete sid (mediaWriters (srv_places srv))\<rparr> else srv_places srv)\<rparr>"

definition pushControlState ::
  "'s BusSubscription \<Rightarrow> (RelayState \<Rightarrow> push_error option) \<Rightarrow> ControlState \<Rightarrow> nat \<Rightarrow> 's relay_server \<Rightarrow> 's relay_server" where
  "pushControlState ops apply_state state p srv =
     (let sid = rs_ID (reg_sessions (srv_registry srv) ! p)
      in case push_result apply_state sid state (srv_places srv) of
           None \<Rightarrow> srv
         | Some PushFailed \<Rightarrow> srv
         | Some PushFenced \<Rightarrow> drop_session ops sid False srv
         | Some PushAbsent \<Rightarrow> drop_session ops sid True srv)"

definition session_live :: "'s SessionRegistry \<Rightarrow> string \<Rightarrow> bool" where
  "session_live reg sid \<longleftrightarrow> fst (registry_Get sid reg) \<noteq> None"

text \<open>One round of the loop: a queued session, or a tick.\<close>

definition sync_queued ::
  "'s BusSubscription \<Rightarrow> (RelayState \<Rightarrow> push_error option) \<Rightarrow> (nat \<Rightarrow> ControlState) \<Rightarrow> 's relay_server \<Rightarrow> 's relay_server" where
  "sync_queued ops apply_state state_of srv =
     (case controlStateChanges srv of
        [] \<Rightarrow> srv
      | p # rest \<Rightarrow> pushControlState ops apply_state (state_of p) p (srv\<lparr>controlStateChanges := rest\<rparr>))"

definition sync_tick ::
  "'s BusSubscription \<Rightarrow> (RelayState \<Rightarrow> push_error option) \<Rightarrow> (nat \<Rightarrow> ControlState) \<Rightarrow>
     (string \<Rightarrow> (authority_error + AuthorityMetadata) option) \<Rightarrow> 's relay_server \<Rightarrow> 's relay_server" where
  "sync_tick ops apply_state state_of answers srv =
     (let live = session_live (srv_registry srv);
          srv1 = srv\<lparr>srv_feedback := pruneSessionFeedback live (srv_feedback srv), srv_places := pruneMediaWriters live answers (srv_places srv)\<rparr>;
          (ps, reg) = registry_All (srv_registry srv1)
      in fold (\<lambda>p srv. pushControlState ops apply_state (state_of p) p srv) ps (srv1\<lparr>srv_registry := reg\<rparr>))"

section \<open>What a push leaves\<close>

lemma close_session_fields:
  "length (reg_sessions (close_session ops p reg)) = length (reg_sessions reg)" "rooms (close_session ops p reg) = rooms reg"
  "q \<noteq> p \<Longrightarrow> reg_sessions (close_session ops p reg) ! q = reg_sessions reg ! q"
  "p < length (reg_sessions reg) \<Longrightarrow> rs_done (reg_sessions (close_session ops p reg) ! p)"
  "rs_ID (reg_sessions (close_session ops p reg) ! q) = rs_ID (reg_sessions reg ! q)"
proof -
  show "rs_ID (reg_sessions (close_session ops p reg) ! q) = rs_ID (reg_sessions reg ! q)"
    by (cases "p < length (reg_sessions reg)") (auto simp: close_session_def session_Close_def Let_def nth_list_update not_less list_update_beyond)
qed (simp_all add: close_session_def session_Close_def Let_def)

lemma rooms_entry:
  assumes "rooms_ok reg" and "map_of (rooms reg) sid = Some p"
  shows "p < length (reg_sessions reg)" and "rs_ID (reg_sessions reg ! p) = sid"
  using assms(1) map_of_SomeD [OF assms(2)] by (auto simp: rooms_ok_def)

lemma registry_Delete_gone:
  assumes "rooms_ok reg" and "map_of (rooms reg) sid = Some p"
  shows "map_of (rooms (registry_Delete ops sid reg)) sid = None" and "rs_done (reg_sessions (registry_Delete ops sid reg) ! p)"
proof -
  note rooms_entry(1) [OF assms]
  then show "rs_done (reg_sessions (registry_Delete ops sid reg) ! p)" using assms(2) by (simp add: registry_Delete_def close_session_fields)
qed (simp add: registry_Delete_def delete_conv assms(2))

lemma registry_Delete_other:
  assumes "rooms_ok reg" and "sid' \<noteq> sid" and "map_of (rooms reg) sid' = Some q"
  shows "map_of (rooms (registry_Delete ops sid reg)) sid' = Some q" and "reg_sessions (registry_Delete ops sid reg) ! q = reg_sessions reg ! q"
proof -
  show "map_of (rooms (registry_Delete ops sid reg)) sid' = Some q"
    using assms by (cases "map_of (rooms reg) sid") (simp_all add: registry_Delete_def delete_conv)
  show "reg_sessions (registry_Delete ops sid reg) ! q = reg_sessions reg ! q"
  proof (cases "map_of (rooms reg) sid")
    case (Some p)
    then have "p \<noteq> q" using rooms_entry(2) [OF assms(1) Some] rooms_entry(2) [OF assms(1,3)] assms(2) by auto
    then show ?thesis using Some by (simp add: registry_Delete_def close_session_fields)
  qed (simp add: registry_Delete_def)
qed

lemma rooms_ok_Delete:
  assumes "rooms_ok reg"
  shows "rooms_ok (registry_Delete ops sid reg)"
proof (cases "map_of (rooms reg) sid")
  case (Some p)
  have "set (AList.delete sid (rooms reg)) \<subseteq> set (rooms reg)" by (auto simp: AList.delete_eq)
  then show ?thesis using assms Some by (auto simp: registry_Delete_def rooms_ok_def close_session_fields distinct_delete)
qed (simp add: registry_Delete_def assms)

text \<open>A refused push closes the session here and leaves the others alone; the placement is given up only for an absent session, so that a
  fenced relay does not acquire it again.\<close>

lemma push_refused:
  assumes ok: "rooms_ok (srv_registry srv)" and sid: "map_of (rooms (srv_registry srv)) sid = Some p"
    and res: "push_result apply_state sid state (srv_places srv) = Some e" "e \<noteq> PushFailed"
    and srv': "srv' = pushControlState ops apply_state state p srv"
  shows "map_of (rooms (srv_registry srv')) sid = None" and "rs_done (reg_sessions (srv_registry srv') ! p)"
    and "srv_places srv' = (if e = PushAbsent then authorityMetadata sid (Inl SessionNotFound) (srv_places srv) else srv_places srv)"
    and "\<not> has_key sid (codecHintStates (srv_feedback srv'))" and "\<not> has_key sid (iceRestartStates (srv_feedback srv'))"
proof -
  note rooms_entry(2) [OF ok sid]
  then have d: "srv' = drop_session ops sid (e = PushAbsent) srv"
    using res srv' by (cases e) (simp_all add: pushControlState_def)
  show "map_of (rooms (srv_registry srv')) sid = None" "rs_done (reg_sessions (srv_registry srv') ! p)"
    using registry_Delete_gone [OF ok sid] by (simp_all add: d drop_session_def)
  show "srv_places srv' = (if e = PushAbsent then authorityMetadata sid (Inl SessionNotFound) (srv_places srv) else srv_places srv)"
    by (simp add: d drop_session_def authorityMetadata_def)
  show "\<not> has_key sid (codecHintStates (srv_feedback srv'))" "\<not> has_key sid (iceRestartStates (srv_feedback srv'))"
    by (simp_all add: d drop_session_def forgetSessionFeedback_def has_key_def delete_conv)
qed

lemma push_other:
  assumes ok: "rooms_ok (srv_registry srv)" and sid: "map_of (rooms (srv_registry srv)) sid = Some p"
    and "sid' \<noteq> sid" and q: "map_of (rooms (srv_registry srv)) sid' = Some q"
  shows "map_of (rooms (srv_registry (pushControlState ops apply_state state p srv))) sid' = Some q"
    and "reg_sessions (srv_registry (pushControlState ops apply_state state p srv)) ! q = reg_sessions (srv_registry srv) ! q"
proof -
  note rooms_entry(2) [OF ok sid]
  then show "map_of (rooms (srv_registry (pushControlState ops apply_state state p srv))) sid' = Some q"
    "reg_sessions (srv_registry (pushControlState ops apply_state state p srv)) ! q = reg_sessions (srv_registry srv) ! q"
    using registry_Delete_other [OF ok assms(3) q] q by (auto simp: pushControlState_def drop_session_def Let_def split: option.splits push_error.splits)
qed

lemma rooms_ok_push: "rooms_ok (srv_registry srv) \<Longrightarrow> rooms_ok (srv_registry (pushControlState ops apply_state state p srv))"
  by (auto simp: pushControlState_def drop_session_def Let_def rooms_ok_Delete split: option.splits push_error.splits)

text \<open>After a fenced push the entry of the placement still says what it said: the next join finds it and does not acquire.\<close>

lemma fenced_join_waits:
  assumes "map_of (mediaWriters p) (am_SessionID metadata) = Some ref" and "\<not> retryable (writers p ! ref)"
  shows "ensure_enter maxRooms metadata p = (T_wait ref metadata, p)"
  using assms by (simp add: ensure_enter_def Let_def)

lemma queue_bounded: "length (controlStateChanges srv) \<le> maxRooms \<Longrightarrow> length (controlStateChanges (queueControlState maxRooms service p srv)) \<le> maxRooms"
  by (simp add: queueControlState_def)

end
