(* ===== verification/Spec2Isabelle.thy ===== *)
theory Spec2Isabelle
  imports Identifiers Red_Listener Opus_Ingress Rtp_Forwarder Retransmission Cadence Pacer_Invariant Gate Rate_Limit
    Access_Lifecycle Session_Events Lexicon Turn_Credentials Access_Isolation Access_Metrics Packet_Log Clock_Lineage Control_State Subscriber_Lifecycle Control_Sync
begin

text \<open>Relay.\<close>

end
